(* ===== verification/Prelude.thy ===== *)
theory Prelude
  imports Main "HOL-Library.Word" "HOL-Library.Monad_Syntax"
begin

text \<open>
  Shared vocabulary of the development: the C integer types as words, the little-endian
  view of a 32-bit word as bytes, page arithmetic on addresses, and the generic lemmas on
  bounded searches and option-valued steps that the component theories use.

  Every operation of the kernel that can fault (a page fault in ring 0, an access outside a
  C array) returns an \<open>option\<close>: \<open>None\<close> is the fault, \<open>Some\<close> the value with the new state.
  Error codes of the C functions are ordinary return values.
\<close>

unbundle bit_operations_syntax

named_theorems page_arith \<open>facts that move page arithmetic on addresses to natural numbers\<close>
named_theorems kstep \<open>unfolding equations for straight-line kernel code\<close>

type_synonym u8 = "8 word"
type_synonym u16 = "16 word"
type_synonym u32 = "32 word"
type_synonym u64 = "64 word"

section \<open>Reading words as natural numbers\<close>

lemma unat_drop_bit [page_arith]: "unat (drop_bit n (x :: 'a::len word)) = unat x div 2 ^ n"
  unfolding unat_drop_bit_eq by (simp add: drop_bit_eq_div)

lemma unat_lt_2p32: "unat (x :: u32) < 4294967296"
  using unsigned_less [of x] by simp

lemma unat_add_no_wrap: "unat (a :: u32) + unat b < 4294967296 \<Longrightarrow> unat (a + b) = unat a + unat b"
  by (subst unat_plus_if') simp

lemma unat_mult_no_wrap: "unat (a :: u32) * unat b < 4294967296 \<Longrightarrow> unat (a * b) = unat a * unat b"
  by (subst unat_mult_lem [THEN iffD1]) auto

lemma unat_of_nat_u32: "n < 4294967296 \<Longrightarrow> unat (of_nat n :: u32) = n"
  by (simp add: unat_of_nat take_bit_nat_eq_self)

lemma of_nat_u32_eq_0: "n < 4294967296 \<Longrightarrow> (of_nat n :: u32) = 0 \<longleftrightarrow> n = 0"
  using unat_of_nat_u32 [of n] unat_eq_0 [of "of_nat n :: u32"] by simp

text \<open>Natural-number arithmetic of pages and of aligned words.\<close>

lemma nat_in_page:
  "(f :: nat) mod 4096 = 0 \<Longrightarrow> d < 4096 \<Longrightarrow> (f + d) mod 4096 = d \<and> (f + d) div 4096 * 4096 = f"
  by (auto elim!: mod_0_imp_dvd [THEN dvdE] simp: mult.commute elim: dvdE)

lemma nat_in_word:
  assumes "(v :: nat) mod 4 = 0" and "k < 4"
  shows nat_in_word_div: "(v + k) div (4 * n) = v div (4 * n)"
    and nat_in_word_mod: "(v + k) mod (4 * n) = v mod (4 * n) + k"
    and nat_in_word_less: "v < 4 * n \<Longrightarrow> v + k < 4 * n"
proof -
  obtain q where q: "v = 4 * q" using assms(1) by (auto elim: mod_0_imp_dvd [THEN dvdE])
  have k: "(4 * q + k) div 4 = q" using assms(2) by simp
  show d: "(v + k) div (4 * n) = v div (4 * n)"
    by (simp add: div_mult2_eq q k)
  have "v div (4 * n) * (4 * n) \<le> v" by (rule div_times_less_eq_dividend)
  then show "(v + k) mod (4 * n) = v mod (4 * n) + k"
    by (simp add: minus_div_mult_eq_mod [symmetric] d)
  show "v < 4 * n \<Longrightarrow> v + k < 4 * n" using assms(2) by (simp add: q)
qed

section \<open>Pages\<close>

text \<open>
  \<open>PAGE_SIZE\<close> of pmm.h, vmm.h and paging.h. The two masks are the ones the C code writes:
  \<open>0xFFFFF000\<close> keeps the frame of an address or entry, \<open>0xFFF\<close> the offset in its page.
\<close>

definition PAGE_SIZE :: u32 where
  "PAGE_SIZE = 4096"

lemma mask_page: "(0xFFF :: u32) = mask 12"
  by (simp add: mask_eq_exp_minus_1)

lemma nmask_page: "(0xFFFFF000 :: u32) = NOT (mask 12)"
  by (simp add: mask_eq_exp_minus_1)

lemma unat_and_FFF [page_arith]: "unat (x AND 0xFFF :: u32) = unat x mod 4096"
  unfolding mask_page take_bit_eq_mask [symmetric] unsigned_take_bit_eq
  by (simp add: take_bit_eq_mod)

lemma unat_and_3FF [page_arith]: "unat (x AND 0x3FF :: u32) = unat x mod 1024"
proof -
  have m: "(0x3FF :: u32) = mask 10" by (simp add: mask_eq_exp_minus_1)
  show ?thesis
    unfolding m take_bit_eq_mask [symmetric] unsigned_take_bit_eq
    by (simp add: take_bit_eq_mod)
qed

lemma page_split: "(x AND 0xFFFFF000) + (x AND 0xFFF) = (x :: u32)"
  unfolding mask_page nmask_page
  by (subst disjunctive_add) (auto simp: bit_simps simp flip: bit.conj_disj_distrib)

lemma unat_and_page [page_arith]: "unat (x AND 0xFFFFF000 :: u32) = unat x div 4096 * 4096"
proof -
  have "x AND 0xFFFFF000 = x - (x AND 0xFFF)"
    using page_split [of x] by (metis add_diff_cancel_right')
  moreover have "x AND 0xFFF \<le> x" by (rule word_and_le2)
  ultimately have "unat (x AND 0xFFFFF000) = unat x - unat (x AND 0xFFF)"
    by (simp add: unat_sub)
  then show ?thesis
    unfolding unat_and_FFF by (simp add: minus_mod_eq_div_mult)
qed

text \<open>A page-aligned address.\<close>

definition page_aligned :: "u32 \<Rightarrow> bool" where
  "page_aligned a \<longleftrightarrow> a AND 0xFFF = 0"

lemma page_aligned_mod: "page_aligned a \<longleftrightarrow> unat a mod 4096 = 0"
  unfolding page_aligned_def unat_and_FFF [symmetric] by (simp add: unat_eq_0)

lemma page_aligned_0 [simp]: "page_aligned 0"
  by (simp add: page_aligned_def)

lemma page_aligned_and [simp]: "page_aligned (a AND 0xFFFFF000)"
  unfolding page_aligned_def by (simp add: and.assoc)

lemma page_aligned_and_id: "page_aligned a \<Longrightarrow> a AND 0xFFFFF000 = a"
  using page_split [of a] by (simp add: page_aligned_def)

lemma page_aligned_bound: "page_aligned a \<Longrightarrow> unat a \<le> 4294963200"
proof -
  assume "page_aligned a"
  then obtain q where q: "unat a = 4096 * q"
    unfolding page_aligned_mod by (auto elim: mod_0_imp_dvd [THEN dvdE])
  then have "4096 * q < 4096 * 1048576" using unat_lt_2p32 [of a] by simp
  then show ?thesis using q by simp
qed

text \<open>Flag bits below the frame bits leave the frame of an entry alone.\<close>

lemma frame_of_entry:
  assumes "page_aligned p" and "f AND 0xFFFFF000 = 0"
  shows "(p OR f) AND 0xFFFFF000 = p"
  by (simp add: bit.conj_disj_distrib2 page_aligned_and_id assms)

lemma and_or_absorb: "(x AND a) OR (x AND b) = x AND (a OR (b :: 'a::len word))"
  by (simp add: bit.conj_disj_distrib)

section \<open>Little-endian bytes of a word\<close>

definition bytes_to_u32 :: "u8 \<Rightarrow> u8 \<Rightarrow> u8 \<Rightarrow> u8 \<Rightarrow> u32" where
  "bytes_to_u32 b0 b1 b2 b3 =
     ucast b0 OR push_bit 8 (ucast b1) OR push_bit 16 (ucast b2) OR push_bit 24 (ucast b3)"

definition u32_byte :: "nat \<Rightarrow> u32 \<Rightarrow> u8" where
  "u32_byte k v = ucast (drop_bit (8 * k) v)"

lemma bytes_to_u32_of_bytes [simp]:
  "bytes_to_u32 (u32_byte 0 v) (u32_byte 1 v) (u32_byte 2 v) (u32_byte 3 v) = v"
proof (rule bit_word_eqI)
  fix n
  assume "n < LENGTH(32)"
  then consider "n < 8" | "8 \<le> n" "n < 16" | "16 \<le> n" "n < 24" | "24 \<le> n" "n < 32"
    by fastforce
  then show "bit (bytes_to_u32 (u32_byte 0 v) (u32_byte 1 v) (u32_byte 2 v) (u32_byte 3 v)) n =
      bit v n"
    by cases (auto simp: bytes_to_u32_def u32_byte_def bit_simps)
qed

lemma bytes_to_u32_Suc0 [simp]:
  "bytes_to_u32 (u32_byte 0 v) (u32_byte (Suc 0) v) (u32_byte 2 v) (u32_byte 3 v) = v"
  using bytes_to_u32_of_bytes [of v] by simp

lemma u32_byte_of_bytes [simp]:
  "u32_byte 0 (bytes_to_u32 a b c d) = a"
  "u32_byte 1 (bytes_to_u32 a b c d) = b"
  "u32_byte 2 (bytes_to_u32 a b c d) = c"
  "u32_byte 3 (bytes_to_u32 a b c d) = d"
  by (rule bit_word_eqI;
      auto simp: bytes_to_u32_def u32_byte_def bit_simps dest: bit_imp_le_length)+

lemma bytes_to_u32_0 [simp]: "bytes_to_u32 0 0 0 0 = 0"
  by (simp add: bytes_to_u32_def)

section \<open>Searching a counted loop\<close>

text \<open>
  \<open>find_index P i n\<close> is the C loop that tests \<open>i, i + 1, \<dots>\<close> below \<open>i + n\<close> and stops at the
  first index with \<open>P\<close>.
\<close>

primrec find_index :: "(nat \<Rightarrow> bool) \<Rightarrow> nat \<Rightarrow> nat \<Rightarrow> nat option" where
  "find_index P i 0 = None"
| "find_index P i (Suc n) = (if P i then Some i else find_index P (Suc i) n)"

lemma find_index_None_iff: "find_index P i n = None \<longleftrightarrow> (\<forall>k. i \<le> k \<and> k < i + n \<longrightarrow> \<not> P k)"
proof (induction n arbitrary: i)
  case 0
  then show ?case by auto
next
  case (Suc n)
  have split: "(\<forall>k. i \<le> k \<and> k < i + Suc n \<longrightarrow> \<not> P k) \<longleftrightarrow>
      \<not> P i \<and> (\<forall>k. Suc i \<le> k \<and> k < Suc i + n \<longrightarrow> \<not> P k)"
    by (auto simp: Suc_le_eq) (metis le_neq_implies_less)
  show ?case unfolding split using Suc.IH [of "Suc i"] by simp
qed

lemma find_index_Some_iff:
  "find_index P i n = Some k \<longleftrightarrow>
     i \<le> k \<and> k < i + n \<and> P k \<and> (\<forall>j. i \<le> j \<and> j < k \<longrightarrow> \<not> P j)"
proof (induction n arbitrary: i)
  case 0
  then show ?case by simp
next
  case (Suc n)
  show ?case
  proof (cases "P i")
    case True
    then show ?thesis by (auto dest: le_neq_implies_less)
  next
    case False
    then have "i \<le> k \<and> P k \<longleftrightarrow> Suc i \<le> k \<and> P k"
      and "(\<forall>j. i \<le> j \<and> j < k \<longrightarrow> \<not> P j) \<longleftrightarrow> (\<forall>j. Suc i \<le> j \<and> j < k \<longrightarrow> \<not> P j)"
      by (metis Suc_leD not_less_eq_eq le_antisym)+
    then show ?thesis using False Suc.IH [of "Suc i"] by auto
  qed
qed

lemma find_index_add:
  "find_index P i (m + n) =
     (case find_index P i m of None \<Rightarrow> find_index P (i + m) n | Some k \<Rightarrow> Some k)"
  by (induction m arbitrary: i) (auto split: option.split)

lemma find_index_shift:
  "find_index P (a + i) n = map_option ((+) a) (find_index (\<lambda>i. P (a + i)) i n)"
proof (induction n arbitrary: i)
  case (Suc n)
  from Suc.IH [of "Suc i"] show ?case by simp
qed simp

lemma find_index_cong:
  "(\<And>k. i \<le> k \<Longrightarrow> k < i + n \<Longrightarrow> P k = Q k) \<Longrightarrow> find_index P i n = find_index Q i n"
  by (induction n arbitrary: i) auto

section \<open>Overwriting a stretch of a list\<close>

definition overwrite :: "'a list \<Rightarrow> nat \<Rightarrow> 'a list \<Rightarrow> 'a list" where
  "overwrite b p xs = take p b @ xs @ drop (p + length xs) b"

lemma overwrite_Nil [simp]: "p \<le> length b \<Longrightarrow> overwrite b p [] = b"
  by (simp add: overwrite_def)

lemma length_overwrite [simp]: "p + length xs \<le> length b \<Longrightarrow> length (overwrite b p xs) = length b"
  by (simp add: overwrite_def)

lemma overwrite_Cons: "p < length b \<Longrightarrow> overwrite (b[p := c]) (Suc p) xs = overwrite b p (c # xs)"
  by (simp add: overwrite_def take_Suc_conv_app_nth)

lemma overwrite_overwrite:
  "p + length xs + length ys \<le> length b \<Longrightarrow>
     overwrite (overwrite b p xs) (p + length xs) ys = overwrite b p (xs @ ys)"
  by (simp add: overwrite_def ac_simps)

lemma nth_overwrite:
  "p + length xs \<le> length b \<Longrightarrow> i < length b \<Longrightarrow>
     overwrite b p xs ! i = (if p \<le> i \<and> i < p + length xs then xs ! (i - p) else b ! i)"
  by (auto simp: overwrite_def nth_append)

section \<open>Option steps\<close>

lemma bind_SomeE:
  assumes "Option.bind m f = Some r"
  obtains x where "m = Some x" and "f x = Some r"
  using assms by (cases m) auto

lemma bind_Some_iff: "Option.bind m f = Some r \<longleftrightarrow> (\<exists>x. m = Some x \<and> f x = Some r)"
  by (cases m) auto

section \<open>Partial correctness of kernel code\<close>

text \<open>
  \<open>post P m\<close>: when the step \<open>m\<close> does not fault, its result satisfies \<open>P\<close>. The rules in \<open>wp\<close> take
  a do-block apart, one command at a time.
\<close>

named_theorems wp \<open>weakest-precondition rules of kernel steps\<close>

definition post :: "('a \<Rightarrow> bool) \<Rightarrow> 'a option \<Rightarrow> bool" where
  "post P m \<longleftrightarrow> (\<forall>x. m = Some x \<longrightarrow> P x)"

lemma postD: "post P m \<Longrightarrow> m = Some x \<Longrightarrow> P x"
  by (simp add: post_def)

lemma post_mono: "post Q m \<Longrightarrow> (\<And>x. Q x \<Longrightarrow> P x) \<Longrightarrow> post P m"
  by (simp add: post_def)

lemma post_bind [wp]: "post (\<lambda>x. post P (f x)) m \<Longrightarrow> post P (Option.bind m f)"
  by (cases m) (simp_all add: post_def)

lemma post_ret [wp]: "P x \<Longrightarrow> post P (Some x)" "post P None"
  by (simp_all add: post_def)

lemma post_if [wp]: "(b \<Longrightarrow> post P m) \<Longrightarrow> (\<not> b \<Longrightarrow> post P n) \<Longrightarrow> post P (if b then m else n)"
  by simp

lemma post_option [wp]:
  "(x = None \<Longrightarrow> post P m) \<Longrightarrow> (\<And>y. x = Some y \<Longrightarrow> post P (f y)) \<Longrightarrow>
   post P (case x of None \<Rightarrow> m | Some y \<Rightarrow> f y)"
  by (cases x) simp_all

lemma post_prod [wp]: "(\<And>a b. x = (a, b) \<Longrightarrow> post P (f a b)) \<Longrightarrow> post P (case x of (a, b) \<Rightarrow> f a b)"
  by (cases x) simp

lemma post_Let [wp]: "post P (f x) \<Longrightarrow> post P (let y = x in f y)"
  by simp

end
