(* ===== verification/Machine.thy ===== *)
theory Machine
  imports Prelude
begin

text \<open>
  The i386 that the kernel runs on, as far as vmm.c and paging.c rely on it: byte-addressed
  physical memory, the CR3 register, the paging bit of CR0, and the two-level page walk that
  every access of kernel code goes through. A kernel-mode access to a page that is not
  present is a page fault, which \<open>interrupt_handler\<close> turns into a halt: the access returns
  \<open>None\<close>. Supervisor writes ignore the write bit, as CR0.WP is never set. The TLB is not part
  of the state: every change of an entry in vmm.c is followed by \<open>invalidate_tlb_entry\<close> or by
  a load of CR3, so the walk always reads the entries in memory.
\<close>

record machine =
  phys :: "u32 \<Rightarrow> u8"
  cr3 :: u32
  cr0_pg :: bool

section \<open>Words in physical memory\<close>

definition load32 :: "(u32 \<Rightarrow> u8) \<Rightarrow> u32 \<Rightarrow> u32" where
  "load32 m a = bytes_to_u32 (m a) (m (a + 1)) (m (a + 2)) (m (a + 3))"

definition store32 :: "(u32 \<Rightarrow> u8) \<Rightarrow> u32 \<Rightarrow> u32 \<Rightarrow> (u32 \<Rightarrow> u8)" where
  "store32 m a v =
     m(a := u32_byte 0 v, a + 1 := u32_byte 1 v, a + 2 := u32_byte 2 v, a + 3 := u32_byte 3 v)"

lemma load32_store32_same [simp]: "load32 (store32 m a v) a = v"
  by (simp add: load32_def store32_def)

text \<open>An address inside the frame \<open>f\<close>, at offset \<open>d\<close>.\<close>

lemma in_frame:
  assumes "page_aligned f" and "unat d < 4096"
  shows unat_in_frame: "unat (f + d) = unat f + unat d"
    and frame_in_frame: "(f + d) AND 0xFFFFF000 = f"
    and offset_in_frame: "(f + d) AND 0xFFF = d"
proof -
  show u: "unat (f + d) = unat f + unat d"
    using page_aligned_bound [OF assms(1)] assms(2) by (intro unat_add_no_wrap) simp
  have m: "unat f mod 4096 = 0" using assms(1) by (simp add: page_aligned_mod)
  from nat_in_page [OF this assms(2)] show "(f + d) AND 0xFFFFF000 = f" and "(f + d) AND 0xFFF = d"
    by (simp_all add: word_unat_eq_iff page_arith u)
qed

lemma unat_4_times: "unat i < 1024 \<Longrightarrow> unat (4 * i :: u32) = 4 * unat i"
  using unat_mult_no_wrap [of 4 i] by simp

lemma unat_entry_offset: "unat i < 1024 \<Longrightarrow> unat k < 4 \<Longrightarrow> unat (4 * i + k :: u32) = 4 * unat i + unat k"
  using unat_add_no_wrap [of "4 * i" k] by (simp add: unat_4_times)

text \<open>Byte \<open>k\<close> of entry \<open>i\<close> of the table in frame \<open>f\<close>.\<close>

lemma entry_byte:
  assumes "page_aligned f" and "unat i < 1024" and "unat k < 4"
  shows "unat (f + 4 * i + k) = unat f + 4 * unat i + unat k"
    and "(f + 4 * i + k) AND 0xFFFFF000 = f"
proof -
  have b: "unat (4 * i + k) < 4096"
    using assms(2,3) by (simp add: unat_entry_offset)
  show "unat (f + 4 * i + k) = unat f + 4 * unat i + unat k"
    using unat_in_frame [OF assms(1) b] assms(2,3) by (simp add: unat_entry_offset add.assoc)
  show "(f + 4 * i + k) AND 0xFFFFF000 = f"
    using frame_in_frame [OF assms(1) b] by (simp add: add.assoc)
qed

lemma entry_byte_eq:
  assumes "page_aligned f" "unat i < 1024" "unat k < 4"
    and "page_aligned g" "unat j < 1024" "unat l < 4"
    and "f + 4 * i + k = g + 4 * j + l"
  shows "f = g \<and> i = j \<and> k = l"
proof -
  have "f = g" using entry_byte(2) [OF assms(1-3)] entry_byte(2) [OF assms(4-6)] assms(7) by simp
  then have "4 * unat i + unat k = 4 * unat j + unat l"
    using entry_byte(1) [OF assms(1-3), unfolded assms(7)] entry_byte(1) [OF assms(4-6)] by simp
  then have "unat i = unat j" and "unat k = unat l" using assms(3,6) by presburger+
  then show ?thesis using \<open>f = g\<close> by (simp add: word_unat_eq_iff)
qed

lemma load32_cong:
  assumes "page_aligned f" "unat i < 1024" and "\<And>a. a AND 0xFFFFF000 = f \<Longrightarrow> m a = m' a"
  shows "load32 m (f + 4 * i) = load32 m' (f + 4 * i)"
  using assms(3) entry_byte(2) [OF assms(1,2), of 0] entry_byte(2) [OF assms(1,2), of 1]
    entry_byte(2) [OF assms(1,2), of 2] entry_byte(2) [OF assms(1,2), of 3]
  by (simp add: load32_def)

lemma load32_store32_entry:
  assumes "page_aligned f" "unat i < 1024" "page_aligned g" "unat j < 1024"
  shows "load32 (store32 m (f + 4 * i) v) (g + 4 * j) =
    (if f = g \<and> i = j then v else load32 m (g + 4 * j))"
proof (cases "f = g \<and> i = j")
  case False
  have ne: "g + 4 * j + l \<noteq> f + 4 * i + k" if "unat k < 4" "unat l < 4" for k l
    using entry_byte_eq [OF assms(3,4) that(2) assms(1,2) that(1)] False by metis
  have "store32 m (f + 4 * i) v (g + 4 * j + l) = m (g + 4 * j + l)" if "unat l < 4" for l
    using ne [of 0 l] ne [of 1 l] ne [of 2 l] ne [of 3 l] that by (simp add: store32_def)
  from this [of 0] this [of 1] this [of 2] this [of 3] show ?thesis
    using False by (auto simp: load32_def)
qed auto

lemma store32_other_frame:
  assumes "page_aligned f" "unat i < 1024" "a AND 0xFFFFF000 \<noteq> f"
  shows "store32 m (f + 4 * i) v a = m a"
  using assms(3) entry_byte(2) [OF assms(1,2), of 0] entry_byte(2) [OF assms(1,2), of 1]
    entry_byte(2) [OF assms(1,2), of 2] entry_byte(2) [OF assms(1,2), of 3]
  by (auto simp: store32_def)

section \<open>The page walk\<close>

text \<open>The 10-10-12 split of a virtual address.\<close>

definition pd_index :: "u32 \<Rightarrow> u32" where
  "pd_index v = drop_bit 22 v"

definition pt_index :: "u32 \<Rightarrow> u32" where
  "pt_index v = drop_bit 12 v AND 0x3FF"

lemma unat_pd_index [page_arith]: "unat (pd_index v) = unat v div 4194304"
  by (simp add: pd_index_def unat_drop_bit)

lemma unat_pt_index [page_arith]: "unat (pt_index v) = unat v div 4096 mod 1024"
  by (simp add: pt_index_def unat_drop_bit unat_and_3FF)

lemma pd_index_bound [simp]: "unat (pd_index v) < 1024"
  using unat_lt_2p32 [of v] by (simp add: unat_pd_index less_mult_imp_div_less)

lemma pt_index_bound [simp]: "unat (pt_index v) < 1024"
  by (simp add: unat_pt_index)

text \<open>The frame of the page directory in use, and the entries of a directory or table.\<close>

definition pdir :: "'a machine_scheme \<Rightarrow> u32" where
  "pdir s = cr3 s AND 0xFFFFF000"

definition entry :: "'a machine_scheme \<Rightarrow> u32 \<Rightarrow> u32 \<Rightarrow> u32" where
  "entry s f i = load32 (phys s) (f + 4 * i)"

abbreviation present :: "u32 \<Rightarrow> bool" where
  "present e \<equiv> e AND 1 \<noteq> 0"

abbreviation frame_of :: "u32 \<Rightarrow> u32" where
  "frame_of e \<equiv> e AND 0xFFFFF000"

lemma page_aligned_pdir [simp]: "page_aligned (pdir s)"
  by (simp add: pdir_def)

text \<open>The walk of one directory, given by its frame.\<close>

definition walk :: "'a machine_scheme \<Rightarrow> u32 \<Rightarrow> u32 \<Rightarrow> u32 option" where
  "walk s dir v =
     (let pde = entry s dir (pd_index v) in
      if \<not> present pde then None
      else
        let pte = entry s (frame_of pde) (pt_index v) in
        if \<not> present pte then None
        else Some (frame_of pte + (v AND 0xFFF)))"

definition translate :: "'a machine_scheme \<Rightarrow> u32 \<Rightarrow> u32 option" where
  "translate s v = (if cr0_pg s then walk s (pdir s) v else Some v)"

section \<open>Virtual accesses of kernel code\<close>

definition vload8 :: "u32 \<Rightarrow> 'a machine_scheme \<Rightarrow> u8 option" where
  "vload8 v s = map_option (phys s) (translate s v)"

definition vstore8 :: "u32 \<Rightarrow> u8 \<Rightarrow> 'a machine_scheme \<Rightarrow> 'a machine_scheme option" where
  "vstore8 v b s = map_option (\<lambda>a. s\<lparr>phys := (phys s)(a := b)\<rparr>) (translate s v)"

text \<open>
  A 32-bit access reads or writes four bytes; all four are translated before any is written.
\<close>

definition vload32 :: "u32 \<Rightarrow> 'a machine_scheme \<Rightarrow> u32 option" where
  "vload32 v s = do {
     a0 \<leftarrow> translate s v;
     a1 \<leftarrow> translate s (v + 1);
     a2 \<leftarrow> translate s (v + 2);
     a3 \<leftarrow> translate s (v + 3);
     Some (bytes_to_u32 (phys s a0) (phys s a1) (phys s a2) (phys s a3))
   }"

definition vstore32 :: "u32 \<Rightarrow> u32 \<Rightarrow> 'a machine_scheme \<Rightarrow> 'a machine_scheme option" where
  "vstore32 v x s = do {
     a0 \<leftarrow> translate s v;
     a1 \<leftarrow> translate s (v + 1);
     a2 \<leftarrow> translate s (v + 2);
     a3 \<leftarrow> translate s (v + 3);
     Some (s\<lparr>phys := (phys s)(a0 := u32_byte 0 x, a1 := u32_byte 1 x,
                               a2 := u32_byte 2 x, a3 := u32_byte 3 x)\<rparr>)
   }"

text \<open>The accesses of an aligned word stay in one page.\<close>

lemma aligned_word_split:
  assumes "unat v mod 4 = 0" and "unat k < 4"
  shows "pd_index (v + k) = pd_index v" and "pt_index (v + k) = pt_index v"
    and "(v + k) AND 0xFFF = (v AND 0xFFF) + k"
proof -
  have u: "unat (v + k) = unat v + unat k"
    using nat_in_word_less [OF assms, of 1073741824] unat_lt_2p32 [of v]
    by (intro unat_add_no_wrap) simp
  have m: "(unat v + unat k) mod 4096 = unat v mod 4096 + unat k"
    using nat_in_word_mod [OF assms, of 1024] by simp
  show "pt_index (v + k) = pt_index v"
    using nat_in_word_div [OF assms, of 1024] by (simp add: word_unat_eq_iff page_arith u)
  show "pd_index (v + k) = pd_index v"
    using nat_in_word_div [OF assms, of 1048576] by (simp add: word_unat_eq_iff page_arith u)
  have "unat ((v AND 0xFFF) + k) = unat v mod 4096 + unat k"
    using assms(2) unat_add_no_wrap [of "v AND 0xFFF" k] mod_less_divisor [of 4096 "unat v"]
    by (simp add: unat_and_FFF)
  then show "(v + k) AND 0xFFF = (v AND 0xFFF) + k"
    by (simp add: word_unat_eq_iff page_arith u m)
qed

lemma translate_aligned:
  assumes "unat v mod 4 = 0" and "unat k < 4" and "translate s v = Some a"
  shows "translate s (v + k) = Some (a + k)"
  using assms(3) aligned_word_split [OF assms(1,2)]
  by (auto simp: translate_def walk_def Let_def split: if_splits)

lemma vload32_aligned:
  assumes "unat v mod 4 = 0" and "translate s v = Some a"
  shows "vload32 v s = Some (load32 (phys s) a)"
  using translate_aligned [OF assms(1) _ assms(2), of 1] translate_aligned [OF assms(1) _ assms(2), of 2]
    translate_aligned [OF assms(1) _ assms(2), of 3] assms(2)
  by (simp add: vload32_def load32_def)

lemma vstore32_aligned:
  assumes "unat v mod 4 = 0" and "translate s v = Some a"
  shows "vstore32 v x s = Some (s\<lparr>phys := store32 (phys s) a x\<rparr>)"
  using translate_aligned [OF assms(1) _ assms(2), of 1] translate_aligned [OF assms(1) _ assms(2), of 2]
    translate_aligned [OF assms(1) _ assms(2), of 3] assms(2)
  by (simp add: vstore32_def store32_def)

section \<open>Congruence of the walk\<close>

text \<open>The walk of \<open>v\<close> depends on two entries only.\<close>

lemma walk_cong:
  assumes "entry s' dir (pd_index v) = entry s dir (pd_index v)"
    and "present (entry s dir (pd_index v)) \<Longrightarrow>
      entry s' (frame_of (entry s dir (pd_index v))) (pt_index v) =
      entry s (frame_of (entry s dir (pd_index v))) (pt_index v)"
  shows "walk s' dir v = walk s dir v"
  using assms by (auto simp: walk_def Let_def)

lemma entry_store32:
  assumes "page_aligned f" "unat i < 1024" "page_aligned g" "unat j < 1024"
  shows "entry (s\<lparr>phys := store32 m (f + 4 * i) v\<rparr>) g j =
    (if f = g \<and> i = j then v else load32 m (g + 4 * j))"
  using load32_store32_entry [OF assms] by (simp add: entry_def)

lemma entry_phys_cong:
  assumes "page_aligned f" "unat i < 1024"
    and "\<And>a. a AND 0xFFFFF000 = f \<Longrightarrow> phys s' a = phys s a"
  shows "entry s' f i = entry s f i"
  unfolding entry_def using assms by (rule load32_cong)

text \<open>Accesses depend on the machine part of the state only.\<close>

definition same_machine :: "'a machine_scheme \<Rightarrow> 'b machine_scheme \<Rightarrow> bool" where
  "same_machine s t \<longleftrightarrow> phys t = phys s \<and> cr3 t = cr3 s \<and> cr0_pg t = cr0_pg s"

lemma same_machine_accesses:
  assumes "same_machine s t"
  shows "entry t f i = entry s f i" "walk t f v = walk s f v" "translate t v = translate s v"
    "vload32 v t = vload32 v s" "vload8 v t = vload8 v s" "pdir t = pdir s"
proof -
  show e: "entry t f i = entry s f i" for f i
    using assms by (simp add: entry_def same_machine_def)
  show d: "pdir t = pdir s" using assms by (simp add: pdir_def same_machine_def)
  show w: "walk t f v = walk s f v" for f v by (simp add: walk_def Let_def e)
  show tr: "translate t v = translate s v" for v
    using assms by (simp add: translate_def same_machine_def w d)
  show "vload32 v t = vload32 v s" "vload8 v t = vload8 v s"
    using assms by (simp_all add: vload32_def vload8_def tr same_machine_def)
qed

end
