(* ===== verification/Layout.thy ===== *)
theory Layout
  imports Machine
begin

text \<open>
  The constants of kernel/include/kernel/memory_map.h and paging.h, and the memory routines of
  libc/src/string as they act on virtual memory.
\<close>

named_theorems layout \<open>the constants of the memory layout\<close>

definition KERNEL_VIRT_BASE :: u32 where [layout]:
  "KERNEL_VIRT_BASE = 0xC0000000"

definition KERNEL_HEAP_START :: u32 where [layout]:
  "KERNEL_HEAP_START = 0xC0400000"

definition KERNEL_HEAP_END :: u32 where [layout]:
  "KERNEL_HEAP_END = 0xC07FFFFF"

definition KERNEL_STACK_REGION_START :: u32 where [layout]:
  "KERNEL_STACK_REGION_START = 0xC0200000"

definition KERNEL_STACK_REGION_END :: u32 where [layout]:
  "KERNEL_STACK_REGION_END = 0xC03FEFFF"

definition KERNEL_STACK_SIZE :: u32 where [layout]:
  "KERNEL_STACK_SIZE = 0x00004000"

definition VMM_PDT_VIRTUAL_ADDR :: u32 where [layout]:
  "VMM_PDT_VIRTUAL_ADDR = 0xFFFFF000"

definition VMM_TEMP_PAGE :: u32 where [layout]:
  "VMM_TEMP_PAGE = 0xC03FF000"

definition IDENTITY_MAP_START :: u32 where [layout]:
  "IDENTITY_MAP_START = 0"

definition IDENTITY_MAP_END :: u32 where [layout]:
  "IDENTITY_MAP_END = 0x003FFFFF"

definition USER_HEAP_START :: u32 where [layout]:
  "USER_HEAP_START = 0x00800000"

definition PAGE_PRESENT :: u32 where [layout]:
  "PAGE_PRESENT = 1"

definition PAGE_WRITE :: u32 where [layout]:
  "PAGE_WRITE = 2"

definition PAGE_USER :: u32 where [layout]:
  "PAGE_USER = 4"

section \<open>memset and memcpy on virtual memory\<close>

primrec memset :: "u32 \<Rightarrow> u8 \<Rightarrow> nat \<Rightarrow> 'a machine_scheme \<Rightarrow> 'a machine_scheme option" where
  "memset p c 0 s = Some s"
| "memset p c (Suc n) s = do { s1 \<leftarrow> vstore8 p c s; memset (p + 1) c n s1 }"

text \<open>The byte-copy loop of memcpy, also written out in task.c and syscall.c.\<close>

primrec memcpy :: "u32 \<Rightarrow> u32 \<Rightarrow> nat \<Rightarrow> 'a machine_scheme \<Rightarrow> 'a machine_scheme option" where
  "memcpy d src 0 s = Some s"
| "memcpy d src (Suc n) s = do {
     b \<leftarrow> vload8 src s;
     s1 \<leftarrow> vstore8 d b s;
     memcpy (d + 1) (src + 1) n s1
   }"

section \<open>Setting entries of tables\<close>

definition set_entry :: "u32 \<Rightarrow> u32 \<Rightarrow> u32 \<Rightarrow> 'a machine_scheme \<Rightarrow> 'a machine_scheme" where
  "set_entry f i x s = s\<lparr>phys := store32 (phys s) (f + 4 * i) x\<rparr>"

lemma set_entry_simps [simp]:
  "cr3 (set_entry f i x s) = cr3 s" "cr0_pg (set_entry f i x s) = cr0_pg s"
  "pdir (set_entry f i x s) = pdir s"
  by (simp_all add: set_entry_def pdir_def)

lemma entry_set_entry:
  assumes "page_aligned f" "unat i < 1024" "page_aligned g" "unat j < 1024"
  shows "entry (set_entry f i x s) g j = (if f = g \<and> i = j then x else entry s g j)"
  using load32_store32_entry [OF assms, of "phys s" x] by (simp add: set_entry_def entry_def)

lemma phys_set_entry:
  assumes "page_aligned f" "unat i < 1024" "a AND 0xFFFFF000 \<noteq> f"
  shows "phys (set_entry f i x s) a = phys s a"
  using store32_other_frame [OF assms] by (simp add: set_entry_def)

section \<open>Filling a frame through a mapped page\<close>

text \<open>Memory \<open>m\<close> with the first \<open>k\<close> bytes of frame \<open>f\<close> set to \<open>c\<close>.\<close>

definition fill :: "u32 \<Rightarrow> u8 \<Rightarrow> nat \<Rightarrow> (u32 \<Rightarrow> u8) \<Rightarrow> (u32 \<Rightarrow> u8)" where
  "fill f c k m = (\<lambda>a. if a AND 0xFFFFF000 = f \<and> unat (a AND 0xFFF) < k then c else m a)"

text \<open>
  The page at \<open>p\<close> maps to frame \<open>f\<close> and keeps doing so whatever is written to that frame: no
  entry of its walk lies in \<open>f\<close>.
\<close>

definition stable_map :: "'a machine_scheme \<Rightarrow> u32 \<Rightarrow> u32 \<Rightarrow> bool" where
  "stable_map s p f \<longleftrightarrow> page_aligned f \<and>
     (\<forall>m. (\<forall>a. a AND 0xFFFFF000 \<noteq> f \<longrightarrow> m a = phys s a) \<longrightarrow>
       (\<forall>d. unat d < 4096 \<longrightarrow> translate (s\<lparr>phys := m\<rparr>) (p + d) = Some (f + d)))"

lemma fill_other: "a AND 0xFFFFF000 \<noteq> f \<Longrightarrow> fill f c k m a = m a"
  by (simp add: fill_def)

lemma fill_Suc:
  assumes "page_aligned f" "k < 4096"
  shows "(fill f c k m)(f + of_nat k := c) = fill f c (Suc k) m"
proof -
  have k: "unat (of_nat k :: u32) = k" using assms(2) by (simp add: unat_of_nat_u32)
  have "a = f + of_nat k \<longleftrightarrow> a AND 0xFFFFF000 = f \<and> unat (a AND 0xFFF) = k" for a
    using page_split [of a] frame_in_frame [OF assms(1), of "of_nat k"]
      offset_in_frame [OF assms(1), of "of_nat k"] assms(2) k
    by (metis word_unat_eq_iff)
  then show ?thesis by (auto simp: fill_def fun_eq_iff less_Suc_eq)
qed

lemma memset_fill:
  assumes "stable_map s p f" "k + n \<le> 4096"
  shows "memset (p + of_nat k) c n (s\<lparr>phys := fill f c k (phys s)\<rparr>) =
    Some (s\<lparr>phys := fill f c (k + n) (phys s)\<rparr>)"
  using assms(2)
proof (induction n arbitrary: k)
  case 0
  then show ?case by simp
next
  case (Suc n)
  have "translate (s\<lparr>phys := fill f c k (phys s)\<rparr>) (p + of_nat k) = Some (f + of_nat k)"
    using assms(1) Suc.prems fill_other [of _ f c k "phys s"]
    by (simp add: stable_map_def unat_of_nat_u32)
  then have "vstore8 (p + of_nat k) c (s\<lparr>phys := fill f c k (phys s)\<rparr>) =
      Some (s\<lparr>phys := fill f c (Suc k) (phys s)\<rparr>)"
    using fill_Suc [of f k c "phys s"] assms(1) Suc.prems by (simp add: vstore8_def stable_map_def)
  moreover have "p + of_nat k + 1 = p + of_nat (Suc k)" by (simp add: add.assoc add.commute)
  ultimately have "memset (p + of_nat k) c (Suc n) (s\<lparr>phys := fill f c k (phys s)\<rparr>) =
      memset (p + of_nat (Suc k)) c n (s\<lparr>phys := fill f c (Suc k) (phys s)\<rparr>)"
    by (simp only: memset.simps Option.bind.simps)
  then show ?case
    using Suc.IH [of "Suc k"] Suc.prems by simp
qed

definition zero_frame :: "u32 \<Rightarrow> 'a machine_scheme \<Rightarrow> 'a machine_scheme" where
  "zero_frame f s = s\<lparr>phys := fill f 0 4096 (phys s)\<rparr>"

lemma zero_frame_simps [simp]:
  "cr3 (zero_frame f s) = cr3 s" "cr0_pg (zero_frame f s) = cr0_pg s"
  "pdir (zero_frame f s) = pdir s"
  by (simp_all add: zero_frame_def pdir_def)

lemma phys_zero_frame: "phys (zero_frame f s) a = (if a AND 0xFFFFF000 = f then 0 else phys s a)"
  using unat_and_FFF [of a] by (auto simp: zero_frame_def fill_def)

lemma memset_page:
  assumes "stable_map s p f"
  shows "memset p 0 4096 s = Some (zero_frame f s)"
proof -
  have "fill f 0 0 (phys s) = phys s" by (simp add: fill_def)
  with memset_fill [OF assms, of 0 4096 0] show ?thesis by (simp add: zero_frame_def)
qed

lemma entry_zero_frame:
  assumes "page_aligned f" "page_aligned g" "unat j < 1024"
  shows "entry (zero_frame f s) g j = (if f = g then 0 else entry s g j)"
proof (cases "f = g")
  case True
  have "load32 (phys (zero_frame f s)) (g + 4 * j) = load32 (\<lambda>_. 0) (g + 4 * j)"
    using True by (intro load32_cong assms) (simp add: phys_zero_frame)
  then show ?thesis using True by (simp add: entry_def) (simp add: load32_def)
next
  case False
  then show ?thesis
    using assms by (auto intro!: entry_phys_cong simp: phys_zero_frame)
qed

section \<open>The recursive mapping\<close>

text \<open>
  Entry 1023 of the directory points to the directory itself. Through it the directory is
  visible at 0xFFFFF000 and table \<open>i\<close> at 0xFFC00000 + i * 4096.
\<close>

definition recursive_map :: "'a machine_scheme \<Rightarrow> bool" where
  "recursive_map s \<longleftrightarrow> cr0_pg s \<and> present (entry s (pdir s) 1023) \<and>
     frame_of (entry s (pdir s) 1023) = pdir s"

lemma table_window:
  assumes "unat i < 1024" "unat j < 1024"
  shows "unat (0xFFC00000 + i * 4096 + 4 * j :: u32) = 4290772992 + 4096 * unat i + 4 * unat j"
    and "pd_index (0xFFC00000 + i * 4096 + 4 * j) = 1023"
    and "pt_index (0xFFC00000 + i * 4096 + 4 * j) = i"
    and "(0xFFC00000 + i * 4096 + 4 * j) AND 0xFFF = 4 * j"
proof -
  have i: "unat (i * 4096 :: u32) = unat i * 4096" and j: "unat (4 * j :: u32) = 4 * unat j"
    using assms by (simp_all add: unat_mult_no_wrap unat_4_times)
  have "unat (0xFFC00000 + i * 4096 :: u32) = 4290772992 + unat i * 4096"
    using assms(1) unat_add_no_wrap [of "0xFFC00000" "i * 4096"] by (simp add: i)
  then show u: "unat (0xFFC00000 + i * 4096 + 4 * j :: u32) = 4290772992 + 4096 * unat i + 4 * unat j"
    using assms unat_add_no_wrap [of "0xFFC00000 + i * 4096" "4 * j"] by (simp add: j)
  have page: "(4290772992 + 4096 * unat i + 4 * unat j) div 4096 = 1047552 + unat i"
    and off: "(4290772992 + 4096 * unat i + 4 * unat j) mod 4096 = 4 * unat j"
    using assms(2) div_mult_self4 [of 4096 "1047552 + unat i" "4 * unat j"]
      mod_mult_self4 [of 4096 "1047552 + unat i" "4 * unat j"]
    by (simp_all add: algebra_simps)
  have "(1047552 + unat i) div 1024 = 1023" "(1047552 + unat i) mod 1024 = unat i"
    using assms(1) div_mult_self4 [of 1024 1023 "unat i"] mod_mult_self4 [of 1024 1023 "unat i"]
    by simp_all
  moreover have "x div 4194304 = x div 4096 div 1024" for x :: nat
    by (simp flip: div_mult2_eq)
  ultimately show "pd_index (0xFFC00000 + i * 4096 + 4 * j) = 1023"
    "pt_index (0xFFC00000 + i * 4096 + 4 * j) = i"
    "(0xFFC00000 + i * 4096 + 4 * j) AND 0xFFF = 4 * j"
    using page off by (simp_all add: word_unat_eq_iff page_arith u j)
qed

lemma translate_table:
  assumes "recursive_map s" "unat i < 1024" "unat j < 1024" "present (entry s (pdir s) i)"
  shows "translate s (0xFFC00000 + i * 4096 + 4 * j) = Some (frame_of (entry s (pdir s) i) + 4 * j)"
  using assms table_window [OF assms(2,3)]
  by (simp add: translate_def walk_def recursive_map_def Let_def)

lemma table_window_aligned:
  assumes "unat i < 1024" "unat j < 1024"
  shows "unat (0xFFC00000 + i * 4096 + 4 * j :: u32) mod 4 = 0"
proof -
  have "4290772992 + 4096 * unat i + 4 * unat j = 4 * (1072693248 + 1024 * unat i + unat j)" by simp
  then show ?thesis unfolding table_window(1) [OF assms] by (metis mod_mult_self1_is_0)
qed

lemma table_access:
  assumes "recursive_map s" "unat i < 1024" "unat j < 1024" "present (entry s (pdir s) i)"
  shows "vload32 (0xFFC00000 + i * 4096 + 4 * j) s = Some (entry s (frame_of (entry s (pdir s) i)) j)"
    and "vstore32 (0xFFC00000 + i * 4096 + 4 * j) x s =
      Some (set_entry (frame_of (entry s (pdir s) i)) j x s)"
  using vload32_aligned [OF table_window_aligned [OF assms(2,3)] translate_table [OF assms]]
    vstore32_aligned [OF table_window_aligned [OF assms(2,3)] translate_table [OF assms]]
  by (simp_all add: entry_def set_entry_def)

lemma directory_access:
  assumes "recursive_map s" "unat i < 1024"
  shows "vload32 (VMM_PDT_VIRTUAL_ADDR + 4 * i) s = Some (entry s (pdir s) i)"
    and "vstore32 (VMM_PDT_VIRTUAL_ADDR + 4 * i) x s = Some (set_entry (pdir s) i x s)"
  using table_access [OF assms(1) _ assms(2), of 1023] assms(1)
  by (simp_all add: recursive_map_def layout)

text \<open>A table whose directory entry is not present is not visible: accessing it faults.\<close>

lemma table_access_fault:
  assumes "recursive_map s" "unat i < 1024" "unat j < 1024" "\<not> present (entry s (pdir s) i)"
  shows "vload32 (0xFFC00000 + i * 4096 + 4 * j) s = None"
    and "vstore32 (0xFFC00000 + i * 4096 + 4 * j) x s = None"
proof -
  have "translate s (0xFFC00000 + i * 4096 + 4 * j) = None"
    using assms table_window [OF assms(2,3)]
    by (simp add: translate_def walk_def recursive_map_def Let_def)
  then show "vload32 (0xFFC00000 + i * 4096 + 4 * j) s = None"
    and "vstore32 (0xFFC00000 + i * 4096 + 4 * j) x s = None"
    by (simp_all add: vload32_def vstore32_def)
qed

end
