(* ===== verification/PMM.thy ===== *)
theory PMM
  imports Machine
begin

text \<open>
  The physical memory manager, kernel/src/kernel/pmm.c: a bitmap with one bit per 4 KiB frame
  (1 = used), filled from the Multiboot memory map by \<open>pmm_init\<close>, and a first-fit frame
  allocator on top of it. The bitmap is the C array \<open>pmm_bitmap[BITMAP_SIZE]\<close>; an index
  outside it is a fault (\<open>None\<close>), as the C code does not check it.
\<close>

section \<open>State\<close>

record physical_region =
  start_frame :: u32
  end_frame :: u32
  region_type :: u32

text \<open>
  \<open>pmm_regions\<close> holds the first \<open>pmm_region_count\<close> entries of the C array, so the count is
  its length.
\<close>

record pmm_state = machine +
  pmm_bitmap :: "nat \<Rightarrow> u8"
  pmm_regions :: "physical_region list"
  total_frames :: u32

record multiboot_info =
  mb_flags :: u32
  mem_upper :: u32
  mmap_length :: u32
  mmap_addr :: u32

record multiboot_memory_map =
  mm_size :: u32
  mm_addr :: u64
  mm_len :: u64
  mm_type :: u32

definition BITMAP_SIZE :: nat where
  "BITMAP_SIZE = 4096"

definition MAX_PMM_REGIONS :: nat where
  "MAX_PMM_REGIONS = 64"

definition BIOS_BOOT_RESERVED_END :: u32 where
  "BIOS_BOOT_RESERVED_END = 0x000FFFFF"

section \<open>Operations\<close>

definition pmm_record_region ::
  "u32 \<Rightarrow> u32 \<Rightarrow> u32 \<Rightarrow> 'a pmm_state_scheme \<Rightarrow> 'a pmm_state_scheme" where
  "pmm_record_region sf ef t s =
     (if length (pmm_regions s) \<ge> MAX_PMM_REGIONS then s
      else s\<lparr>pmm_regions := pmm_regions s @ [\<lparr>start_frame = sf, end_frame = ef, region_type = t\<rparr>]\<rparr>)"

definition pmm_set_bit :: "u32 \<Rightarrow> 'a pmm_state_scheme \<Rightarrow> 'a pmm_state_scheme option" where
  "pmm_set_bit frame_idx s =
     (let i = unat (frame_idx div 8) in
      if i < BITMAP_SIZE
      then Some (s\<lparr>pmm_bitmap := (pmm_bitmap s)
             (i := pmm_bitmap s i OR push_bit (unat (frame_idx mod 8)) 1)\<rparr>)
      else None)"

definition pmm_clear_bit :: "u32 \<Rightarrow> 'a pmm_state_scheme \<Rightarrow> 'a pmm_state_scheme option" where
  "pmm_clear_bit frame_idx s =
     (let i = unat (frame_idx div 8) in
      if i < BITMAP_SIZE
      then Some (s\<lparr>pmm_bitmap := (pmm_bitmap s)
             (i := pmm_bitmap s i AND NOT (push_bit (unat (frame_idx mod 8)) 1))\<rparr>)
      else None)"

definition pmm_test_bit :: "u32 \<Rightarrow> 'a pmm_state_scheme \<Rightarrow> u8 option" where
  "pmm_test_bit frame_idx s =
     (let i = unat (frame_idx div 8) in
      if i < BITMAP_SIZE
      then Some (pmm_bitmap s i AND push_bit (unat (frame_idx mod 8)) 1)
      else None)"

text \<open>The two range loops; \<open>i < BITMAP_SIZE * 8\<close> bounds them, so they stop.\<close>

function pmm_mark_range_free ::
  "u32 \<Rightarrow> u32 \<Rightarrow> 'a pmm_state_scheme \<Rightarrow> 'a pmm_state_scheme option" where
  "pmm_mark_range_free i last_frame s =
     (if i \<le> last_frame \<and> i < 32768
      then do { s1 \<leftarrow> pmm_clear_bit i s; pmm_mark_range_free (i + 1) last_frame s1 }
      else Some s)"
  by pat_completeness auto

function pmm_mark_range_used ::
  "u32 \<Rightarrow> u32 \<Rightarrow> 'a pmm_state_scheme \<Rightarrow> 'a pmm_state_scheme option" where
  "pmm_mark_range_used i last_frame s =
     (if i \<le> last_frame \<and> i < 32768
      then do { s1 \<leftarrow> pmm_set_bit i s; pmm_mark_range_used (i + 1) last_frame s1 }
      else Some s)"
  by pat_completeness auto

lemma unat_Suc_below: "i < (32768 :: u32) \<Longrightarrow> unat (i + 1) = Suc (unat i)"
  using unat_add_no_wrap [of i 1] by (simp add: word_less_nat_alt)

termination pmm_mark_range_free
  by (relation "measure (\<lambda>(i, _, _). 32768 - unat i)")
    (auto simp: unat_Suc_below word_less_nat_alt)

termination pmm_mark_range_used
  by (relation "measure (\<lambda>(i, _, _). 32768 - unat i)")
    (auto simp: unat_Suc_below word_less_nat_alt)

declare pmm_mark_range_free.simps [simp del]
declare pmm_mark_range_used.simps [simp del]

text \<open>
  One entry of the Multiboot memory map, read through the packed struct pointer at \<open>a\<close>
  (fields at offsets 0, 4, 12 and 20).
\<close>

definition read_mmap_entry :: "u32 \<Rightarrow> 'a machine_scheme \<Rightarrow> multiboot_memory_map option" where
  "read_mmap_entry a s = do {
     sz \<leftarrow> vload32 a s;
     alo \<leftarrow> vload32 (a + 4) s;
     ahi \<leftarrow> vload32 (a + 8) s;
     llo \<leftarrow> vload32 (a + 12) s;
     lhi \<leftarrow> vload32 (a + 16) s;
     ty \<leftarrow> vload32 (a + 20) s;
     Some \<lparr>mm_size = sz,
       mm_addr = ucast alo OR push_bit 32 (ucast ahi),
       mm_len = ucast llo OR push_bit 32 (ucast lhi),
       mm_type = ty\<rparr>
   }"

definition mmap_start_frame :: "multiboot_memory_map \<Rightarrow> u32" where
  "mmap_start_frame e = ucast (mm_addr e div 4096)"

definition mmap_end_frame :: "multiboot_memory_map \<Rightarrow> u32" where
  "mmap_end_frame e =
     (let ef = ucast ((mm_addr e + mm_len e + 4096 - 1) div 4096) - 1 in
      if ef \<ge> 32768 then 32768 - 1 else ef)"

text \<open>The loop body of \<open>pmm_init\<close> for one memory map entry.\<close>

definition pmm_add_mmap_entry ::
  "multiboot_memory_map \<Rightarrow> 'a pmm_state_scheme \<Rightarrow> 'a pmm_state_scheme option" where
  "pmm_add_mmap_entry e s = do {
     let s1 = pmm_record_region (mmap_start_frame e) (mmap_end_frame e) (mm_type e) s;
     s2 \<leftarrow> (if mm_type e = 1
            then pmm_mark_range_free (mmap_start_frame e) (mmap_end_frame e) s1 else Some s1);
     Some (if mmap_end_frame e + 1 > total_frames s2
           then s2\<lparr>total_frames := mmap_end_frame e + 1\<rparr> else s2)
   }"

text \<open>
  The \<open>while\<close> loop over the map. An entry whose \<open>size + 4\<close> wraps to 0 makes the C loop run
  forever: the result is then \<open>None\<close>.
\<close>

partial_function (option) pmm_parse_mmap ::
  "u32 \<Rightarrow> u32 \<Rightarrow> 'a pmm_state_scheme \<Rightarrow> 'a pmm_state_scheme option" where
  "pmm_parse_mmap mmap map_end s =
     (if mmap < map_end
      then do {
        e \<leftarrow> read_mmap_entry mmap s;
        s1 \<leftarrow> pmm_add_mmap_entry e s;
        pmm_parse_mmap (mmap + mm_size e + 4) map_end s1
      }
      else Some s)"

text \<open>A recorded and reserved range, as steps 3 to 6 of \<open>pmm_init\<close> do it.\<close>

definition pmm_reserve ::
  "u32 \<Rightarrow> u32 \<Rightarrow> 'a pmm_state_scheme \<Rightarrow> 'a pmm_state_scheme option" where
  "pmm_reserve sf ef s = pmm_mark_range_used sf ef (pmm_record_region sf ef 0 s)"

text \<open>The loop that raises \<open>total_frames\<close> to the end of every recorded region.\<close>

primrec pmm_raise_total ::
  "physical_region list \<Rightarrow> 'a pmm_state_scheme \<Rightarrow> 'a pmm_state_scheme" where
  "pmm_raise_total [] s = s"
| "pmm_raise_total (r # rs) s =
     pmm_raise_total rs
       (if end_frame r + 1 > total_frames s then s\<lparr>total_frames := end_frame r + 1\<rparr> else s)"

text \<open>The counting loop of \<open>pmm_init\<close> and \<open>pmm_get_free_frames\<close>.\<close>

function pmm_count_free :: "u32 \<Rightarrow> u32 \<Rightarrow> 'a pmm_state_scheme \<Rightarrow> u32 option" where
  "pmm_count_free i acc s =
     (if i < total_frames s
      then do {
        b \<leftarrow> pmm_test_bit i s;
        pmm_count_free (i + 1) (if b = 0 then acc + 1 else acc) s
      }
      else Some acc)"
  by pat_completeness auto

lemma unat_Suc_less: "(i :: u32) < n \<Longrightarrow> unat (i + 1) = Suc (unat i)"
  using unat_add_no_wrap [of i 1] unat_lt_2p32 [of n] by (simp add: word_less_nat_alt)

termination pmm_count_free
  by (relation "measure (\<lambda>(i, _, s). unat (total_frames s) - unat i)")
    (auto simp: unat_Suc_less word_less_nat_alt)

declare pmm_count_free.simps [simp del]

text \<open>
  \<open>pmm_init\<close>. The addresses of the linker symbols \<open>kernel_physical_start\<close> and
  \<open>kernel_physical_end\<close> are arguments.
\<close>

definition pmm_init ::
  "u32 \<Rightarrow> u32 \<Rightarrow> multiboot_info \<Rightarrow> 'a pmm_state_scheme \<Rightarrow> 'a pmm_state_scheme option" where
  "pmm_init kernel_physical_start kernel_physical_end mbinfo s0 = do {
     let s1 = s0\<lparr>pmm_bitmap := (\<lambda>i. 0xFF), pmm_regions := [], total_frames := 0\<rparr>;
     s2 \<leftarrow> (if mb_flags mbinfo AND push_bit 6 1 \<noteq> 0
            then pmm_parse_mmap (mmap_addr mbinfo) (mmap_addr mbinfo + mmap_length mbinfo) s1
            else (let top_phys = mem_upper mbinfo * 1024 + 0x00100000;
                      tf = top_phys div PAGE_SIZE;
                      tf = (if tf > 32768 then 32768 else tf);
                      s1 = s1\<lparr>total_frames := tf\<rparr>
                  in pmm_mark_range_free 0 (tf - 1) (pmm_record_region 0 (tf - 1) 1 s1)));
     s3 \<leftarrow> pmm_reserve 0 (BIOS_BOOT_RESERVED_END div PAGE_SIZE) s2;
     s4 \<leftarrow> pmm_reserve (kernel_physical_start div PAGE_SIZE)
             ((kernel_physical_end - 1) div PAGE_SIZE) s3;
     s5 \<leftarrow> pmm_reserve (0xB8000 div PAGE_SIZE) (0xB8000 div PAGE_SIZE) s4;
     s6 \<leftarrow> (if mb_flags mbinfo AND push_bit 6 1 \<noteq> 0
            then do {
              let sf = mmap_addr mbinfo div PAGE_SIZE;
              let ef = (mmap_addr mbinfo + mmap_length mbinfo - 1) div PAGE_SIZE;
              s \<leftarrow> pmm_reserve sf ef s5;
              Some (if ef + 1 > total_frames s then s\<lparr>total_frames := ef + 1\<rparr> else s)
            }
            else Some s5);
     let s7 = pmm_raise_total (pmm_regions s6) s6;
     free_frames \<leftarrow> pmm_count_free 0 0 s7;
     Some s7
   }"

text \<open>\<open>pmm_alloc_frame\<close>: the first free frame below \<open>total_frames\<close>; 0 is C's \<open>NULL\<close>.\<close>

function pmm_alloc_from ::
  "u32 \<Rightarrow> 'a pmm_state_scheme \<Rightarrow> (u32 \<times> 'a pmm_state_scheme) option" where
  "pmm_alloc_from i s =
     (if i < total_frames s
      then do {
        b \<leftarrow> pmm_test_bit i s;
        if b = 0
        then do { s1 \<leftarrow> pmm_set_bit i s; Some (i * PAGE_SIZE, s1) }
        else pmm_alloc_from (i + 1) s
      }
      else Some (0, s))"
  by pat_completeness auto

termination pmm_alloc_from
  by (relation "measure (\<lambda>(i, s). unat (total_frames s) - unat i)")
    (auto simp: unat_Suc_less word_less_nat_alt)

declare pmm_alloc_from.simps [simp del]

definition pmm_alloc_frame :: "'a pmm_state_scheme \<Rightarrow> (u32 \<times> 'a pmm_state_scheme) option" where
  "pmm_alloc_frame s = pmm_alloc_from 0 s"

definition pmm_free_frame :: "u32 \<Rightarrow> 'a pmm_state_scheme \<Rightarrow> 'a pmm_state_scheme option" where
  "pmm_free_frame addr s = pmm_clear_bit (addr div PAGE_SIZE) s"

definition pmm_get_total_frames :: "'a pmm_state_scheme \<Rightarrow> u32" where
  "pmm_get_total_frames s = total_frames s"

definition pmm_get_free_frames :: "'a pmm_state_scheme \<Rightarrow> u32 option" where
  "pmm_get_free_frames s = pmm_count_free 0 0 s"

definition pmm_get_total_memory_kb :: "'a pmm_state_scheme \<Rightarrow> u32" where
  "pmm_get_total_memory_kb s = (total_frames s * PAGE_SIZE) div 1024"

definition pmm_get_free_memory_kb :: "'a pmm_state_scheme \<Rightarrow> u32 option" where
  "pmm_get_free_memory_kb s = map_option (\<lambda>n. (n * PAGE_SIZE) div 1024) (pmm_get_free_frames s)"


section \<open>The bitmap as a set of used frames\<close>

definition frame_used :: "'a pmm_state_scheme \<Rightarrow> nat \<Rightarrow> bool" where
  "frame_used s n \<longleftrightarrow> bit (pmm_bitmap s (n div 8)) (n mod 8)"

definition mark_used :: "nat \<Rightarrow> 'a pmm_state_scheme \<Rightarrow> 'a pmm_state_scheme" where
  "mark_used k s = s\<lparr>pmm_bitmap := (pmm_bitmap s)
     (k div 8 := pmm_bitmap s (k div 8) OR push_bit (k mod 8) 1)\<rparr>"

definition mark_free :: "nat \<Rightarrow> 'a pmm_state_scheme \<Rightarrow> 'a pmm_state_scheme" where
  "mark_free k s = s\<lparr>pmm_bitmap := (pmm_bitmap s)
     (k div 8 := pmm_bitmap s (k div 8) AND NOT (push_bit (k mod 8) 1))\<rparr>"

lemma mark_simps [simp]:
  "phys (mark_used k s) = phys s" "phys (mark_free k s) = phys s"
  "cr3 (mark_used k s) = cr3 s" "cr3 (mark_free k s) = cr3 s"
  "cr0_pg (mark_used k s) = cr0_pg s" "cr0_pg (mark_free k s) = cr0_pg s"
  "total_frames (mark_used k s) = total_frames s" "total_frames (mark_free k s) = total_frames s"
  "pmm_regions (mark_used k s) = pmm_regions s" "pmm_regions (mark_free k s) = pmm_regions s"
  "pmm_state.more (mark_used k s) = pmm_state.more s"
  "pmm_state.more (mark_free k s) = pmm_state.more s"
  by (simp_all add: mark_used_def mark_free_def)

lemma same_bit_iff: "n div 8 = k div 8 \<and> n mod 8 = k mod 8 \<longleftrightarrow> n = (k :: nat)"
  by (metis mod_div_decomp)

lemma frame_used_mark_used [simp]: "frame_used (mark_used k s) n \<longleftrightarrow> n = k \<or> frame_used s n"
  using same_bit_iff [of n k]
  by (auto simp: frame_used_def mark_used_def bit_simps)

lemma frame_used_mark_free [simp]: "frame_used (mark_free k s) n \<longleftrightarrow> n \<noteq> k \<and> frame_used s n"
  using same_bit_iff [of n k]
  by (auto simp: frame_used_def mark_free_def bit_simps)

lemma bit_index_bound: "unat (i :: u32) < 32768 \<Longrightarrow> unat (i div 8) < BITMAP_SIZE"
  by (simp add: unat_div BITMAP_SIZE_def less_mult_imp_div_less)

lemma pmm_bit_ops [kstep]:
  assumes "unat i < 32768"
  shows "pmm_set_bit i s = Some (mark_used (unat i) s)"
    and "pmm_clear_bit i s = Some (mark_free (unat i) s)"
    and "\<exists>b. pmm_test_bit i s = Some b \<and> (b = 0 \<longleftrightarrow> \<not> frame_used s (unat i))"
  using bit_index_bound [OF assms]
  by (auto simp: pmm_set_bit_def pmm_clear_bit_def pmm_test_bit_def mark_used_def mark_free_def
      frame_used_def Let_def unat_div unat_mod push_bit_eq_mult and_exp_eq_0_iff_not_bit)

text \<open>Two states agree on everything but the bitmap.\<close>

definition same_but_bitmap :: "'a pmm_state_scheme \<Rightarrow> 'a pmm_state_scheme \<Rightarrow> bool" where
  "same_but_bitmap s t \<longleftrightarrow> (\<exists>b. t = s\<lparr>pmm_bitmap := b\<rparr>)"

lemma same_but_bitmapD:
  assumes "same_but_bitmap s t"
  shows "phys t = phys s" "cr3 t = cr3 s" "cr0_pg t = cr0_pg s" "total_frames t = total_frames s"
    "pmm_regions t = pmm_regions s" "pmm_state.more t = pmm_state.more s"
  using assms by (auto simp: same_but_bitmap_def)

lemma same_but_bitmap_intros [simp, intro]:
  "same_but_bitmap s s" "same_but_bitmap s (mark_used k s)" "same_but_bitmap s (mark_free k s)"
  unfolding same_but_bitmap_def mark_used_def mark_free_def
  by (rule exI [of _ "pmm_bitmap s"], simp) (blast+)

lemma same_but_bitmap_trans [trans]:
  "same_but_bitmap s t \<Longrightarrow> same_but_bitmap t u \<Longrightarrow> same_but_bitmap s u"
  by (auto simp: same_but_bitmap_def)

section \<open>Ranges\<close>

lemma mark_range_used_spec:
  "\<exists>t. pmm_mark_range_used i e s = Some t \<and> same_but_bitmap s t \<and>
     (\<forall>n. frame_used t n \<longleftrightarrow> frame_used s n \<or> (unat i \<le> n \<and> n \<le> unat e \<and> n < 32768))"
proof (induction i e s rule: pmm_mark_range_used.induct)
  case (1 i e s)
  show ?case
  proof (cases "i \<le> e \<and> i < 32768")
    case True
    then have i: "unat i < 32768" "unat i \<le> unat e" "unat (i + 1) = Suc (unat i)"
      by (simp_all add: word_less_nat_alt word_le_nat_alt unat_Suc_below)
    obtain t where t: "pmm_mark_range_used (i + 1) e (mark_used (unat i) s) = Some t"
      "same_but_bitmap (mark_used (unat i) s) t"
      "\<And>n. frame_used t n \<longleftrightarrow> frame_used (mark_used (unat i) s) n \<or>
         (unat (i + 1) \<le> n \<and> n \<le> unat e \<and> n < 32768)"
      using "1.IH" [OF True pmm_bit_ops(1) [OF i(1)]] by blast
    have "same_but_bitmap s t"
      using same_but_bitmap_intros(2) t(2) by (rule same_but_bitmap_trans)
    moreover have "frame_used t n \<longleftrightarrow> frame_used s n \<or> (unat i \<le> n \<and> n \<le> unat e \<and> n < 32768)" for n
      using i by (auto simp: t(3))
    ultimately show ?thesis
      using True t(1) by (simp add: pmm_mark_range_used.simps [of i e s] pmm_bit_ops(1) [OF i(1)])
  next
    case False
    then have "\<not> (unat i \<le> n \<and> n \<le> unat e \<and> n < 32768)" for n
      by (auto simp: word_less_nat_alt word_le_nat_alt)
    moreover have "pmm_mark_range_used i e s = Some s"
      using False by (subst pmm_mark_range_used.simps) auto
    ultimately show ?thesis by auto
  qed
qed

lemma mark_range_free_spec:
  "\<exists>t. pmm_mark_range_free i e s = Some t \<and> same_but_bitmap s t \<and>
     (\<forall>n. frame_used t n \<longleftrightarrow> frame_used s n \<and> \<not> (unat i \<le> n \<and> n \<le> unat e \<and> n < 32768))"
proof (induction i e s rule: pmm_mark_range_free.induct)
  case (1 i e s)
  show ?case
  proof (cases "i \<le> e \<and> i < 32768")
    case True
    then have i: "unat i < 32768" "unat i \<le> unat e" "unat (i + 1) = Suc (unat i)"
      by (simp_all add: word_less_nat_alt word_le_nat_alt unat_Suc_below)
    obtain t where t: "pmm_mark_range_free (i + 1) e (mark_free (unat i) s) = Some t"
      "same_but_bitmap (mark_free (unat i) s) t"
      "\<And>n. frame_used t n \<longleftrightarrow> frame_used (mark_free (unat i) s) n \<and>
         \<not> (unat (i + 1) \<le> n \<and> n \<le> unat e \<and> n < 32768)"
      using "1.IH" [OF True pmm_bit_ops(2) [OF i(1)]] by blast
    have "same_but_bitmap s t"
      using same_but_bitmap_intros(3) t(2) by (rule same_but_bitmap_trans)
    moreover have "frame_used t n \<longleftrightarrow> frame_used s n \<and> \<not> (unat i \<le> n \<and> n \<le> unat e \<and> n < 32768)" for n
      using i by (auto simp: t(3))
    ultimately show ?thesis
      using True t(1) by (simp add: pmm_mark_range_free.simps [of i e s] pmm_bit_ops(2) [OF i(1)])
  next
    case False
    then have "\<not> (unat i \<le> n \<and> n \<le> unat e \<and> n < 32768)" for n
      by (auto simp: word_less_nat_alt word_le_nat_alt)
    moreover have "pmm_mark_range_free i e s = Some s"
      using False by (subst pmm_mark_range_free.simps) auto
    ultimately show ?thesis by auto
  qed
qed

section \<open>Allocation\<close>

text \<open>
  The allocator's invariant: the frames it looks at have a bit in the bitmap, and frame 0,
  whose address is C's \<open>NULL\<close>, is never free.
\<close>

definition pmm_inv :: "'a pmm_state_scheme \<Rightarrow> bool" where
  "pmm_inv s \<longleftrightarrow> unat (total_frames s) \<le> 32768 \<and> frame_used s 0"

lemma pmm_alloc_from_spec:
  assumes "unat (total_frames s) \<le> 32768" and "unat i \<le> unat (total_frames s)"
  shows "pmm_alloc_from i s =
    (case find_index (\<lambda>k. \<not> frame_used s k) (unat i) (unat (total_frames s) - unat i) of
       None \<Rightarrow> Some (0, s)
     | Some k \<Rightarrow> Some (of_nat k * PAGE_SIZE, mark_used k s))"
  using assms
proof (induction i s rule: pmm_alloc_from.induct)
  case (1 i s)
  show ?case
  proof (cases "i < total_frames s")
    case True
    then have i: "unat i < 32768" "unat i < unat (total_frames s)" "unat (i + 1) = Suc (unat i)"
      using "1.prems" by (auto simp: word_less_nat_alt intro: unat_Suc_less)
    then obtain m where m: "unat (total_frames s) - unat i = Suc m"
      by (metis Suc_diff_Suc)
    obtain b where b: "pmm_test_bit i s = Some b" "b = 0 \<longleftrightarrow> \<not> frame_used s (unat i)"
      using pmm_bit_ops(3) [OF i(1)] by blast
    show ?thesis
    proof (cases "b = 0")
      case True
      then show ?thesis
        using \<open>i < total_frames s\<close> b i m
        by (simp add: pmm_alloc_from.simps [of i s] pmm_bit_ops(1))
    next
      case False
      have rest: "unat (total_frames s) - Suc (unat i) = m" using m by simp
      show ?thesis
        using \<open>i < total_frames s\<close> False b i m "1.IH" [OF True b(1) False] "1.prems" rest
        by (simp add: pmm_alloc_from.simps [of i s])
    qed
  next
    case False
    then have "unat (total_frames s) - unat i = 0" by (simp add: word_less_nat_alt)
    then show ?thesis using False by (simp add: pmm_alloc_from.simps [of i s])
  qed
qed


lemma pmm_alloc_frame_spec:
  assumes "pmm_inv s"
  shows "pmm_alloc_frame s =
    (case find_index (\<lambda>k. \<not> frame_used s k) 0 (unat (total_frames s)) of
       None \<Rightarrow> Some (0, s)
     | Some k \<Rightarrow> Some (of_nat k * PAGE_SIZE, mark_used k s))"
  using pmm_alloc_from_spec [of s 0] assms by (simp add: pmm_alloc_frame_def pmm_inv_def)

text \<open>The frame number of a page-aligned address below 128 MiB, and back.\<close>

lemma unat_frame_addr: "k < 32768 \<Longrightarrow> unat (of_nat k * PAGE_SIZE :: u32) = k * 4096"
  unfolding PAGE_SIZE_def by (subst unat_mult_no_wrap) (simp_all add: unat_of_nat_u32)

lemma page_aligned_frame_addr: "k < 32768 \<Longrightarrow> page_aligned (of_nat k * PAGE_SIZE :: u32)"
  by (simp add: page_aligned_mod unat_frame_addr)

lemma frame_addr_div: "k < 32768 \<Longrightarrow> unat ((of_nat k * PAGE_SIZE :: u32) div PAGE_SIZE) = k"
  by (simp add: unat_div unat_frame_addr) (simp add: PAGE_SIZE_def)

lemma pmm_alloc_frameE:
  assumes "pmm_inv s" and "pmm_alloc_frame s = Some (a, t)" and "a \<noteq> 0"
  obtains k where "a = of_nat k * PAGE_SIZE" "k < unat (total_frames s)" "k < 32768"
    "\<not> frame_used s k" "t = mark_used k s" "\<And>j. j < k \<Longrightarrow> frame_used s j"
proof -
  obtain k where k: "find_index (\<lambda>k. \<not> frame_used s k) 0 (unat (total_frames s)) = Some k"
    "a = of_nat k * PAGE_SIZE" "t = mark_used k s"
    using assms by (auto simp: pmm_alloc_frame_spec split: option.splits)
  then have "k < unat (total_frames s)" "\<not> frame_used s k" "\<And>j. j < k \<Longrightarrow> frame_used s j"
    by (auto simp: find_index_Some_iff)
  with k that assms(1) show thesis by (auto simp: pmm_inv_def)
qed

section \<open>The allocator as an interface\<close>

text \<open>
  What clients of the frame allocator (the page tables, the heap, the task loader) rely on.
  \<open>used s a\<close> says that the frame at address \<open>a\<close> is taken.
\<close>

locale frame_allocator =
  fixes alloc :: "'s \<Rightarrow> (u32 \<times> 's) option"
    and release :: "u32 \<Rightarrow> 's \<Rightarrow> 's option"
    and used :: "'s \<Rightarrow> u32 \<Rightarrow> bool"
    and managed :: "u32 \<Rightarrow> bool"
    and ok :: "'s \<Rightarrow> bool"
  assumes alloc_returns: "ok s \<Longrightarrow> \<exists>a t. alloc s = Some (a, t)"
    and alloc_null: "ok s \<Longrightarrow> alloc s = Some (0, t) \<Longrightarrow> t = s"
    and alloc_fresh: "ok s \<Longrightarrow> alloc s = Some (a, t) \<Longrightarrow> a \<noteq> 0 \<Longrightarrow>
      managed a \<and> \<not> used s a \<and> ok t \<and> (\<forall>b. managed b \<longrightarrow> used t b = (b = a \<or> used s b))"
    and release_ok: "ok s \<Longrightarrow> managed a \<Longrightarrow> a \<noteq> 0 \<Longrightarrow>
      \<exists>t. release a s = Some t \<and> ok t \<and> (\<forall>b. managed b \<longrightarrow> used t b = (b \<noteq> a \<and> used s b))"
begin

lemma alloc_distinct:
  assumes "ok s" "alloc s = Some (a, t)" "a \<noteq> 0" "alloc t = Some (b, u)" "b \<noteq> 0"
  shows "a \<noteq> b"
  using alloc_fresh [OF assms(1-3)] alloc_fresh [OF _ assms(4,5)] by blast

lemma alloc_release:
  assumes "ok s" "alloc s = Some (a, t)" "a \<noteq> 0"
  shows "\<exists>u. release a t = Some u \<and> ok u \<and> (\<forall>b. managed b \<longrightarrow> used u b = used s b)"
  using alloc_fresh [OF assms] release_ok [of t a] assms(3) by metis

text \<open>Allocating \<open>n\<close> frames in a row, as the page-by-page loops of the kernel do.\<close>

fun alloc_n :: "nat \<Rightarrow> 's \<Rightarrow> (u32 list \<times> 's) option" where
  "alloc_n 0 s = Some ([], s)"
| "alloc_n (Suc n) s =
     (case alloc s of None \<Rightarrow> None
      | Some (a, t) \<Rightarrow> if a = 0 then None
          else map_option (\<lambda>(as, u). (a # as, u)) (alloc_n n t))"

lemma alloc_n_distinct:
  "ok s \<Longrightarrow> alloc_n n s = Some (as, t) \<Longrightarrow>
     distinct as \<and> length as = n \<and> ok t \<and>
     (\<forall>a\<in>set as. managed a \<and> a \<noteq> 0 \<and> \<not> used s a) \<and>
     (\<forall>b. managed b \<longrightarrow> used t b = (b \<in> set as \<or> used s b))"
proof (induction n arbitrary: s as)
  case 0
  then show ?case by simp
next
  case (Suc n)
  then obtain a s1 as1 where a: "alloc s = Some (a, s1)" "a \<noteq> 0" "alloc_n n s1 = Some (as1, t)"
    "as = a # as1"
    by (auto split: option.splits prod.splits if_splits)
  note f = alloc_fresh [OF Suc.prems(1) a(1,2)]
  then have IH: "distinct as1 \<and> length as1 = n \<and> ok t \<and>
     (\<forall>a\<in>set as1. managed a \<and> a \<noteq> 0 \<and> \<not> used s1 a) \<and>
     (\<forall>b. managed b \<longrightarrow> used t b = (b \<in> set as1 \<or> used s1 b))"
    using Suc.IH [OF _ a(3)] by blast
  then show ?case using f a by auto
qed

end

definition frame_addr_used :: "'a pmm_state_scheme \<Rightarrow> u32 \<Rightarrow> bool" where
  "frame_addr_used s a \<longleftrightarrow> frame_used s (unat (a div PAGE_SIZE))"

definition pmm_managed :: "u32 \<Rightarrow> bool" where
  "pmm_managed a \<longleftrightarrow> page_aligned a \<and> unat a < 134217728"

lemma pmm_managed_iff: "pmm_managed a \<longleftrightarrow> (\<exists>k < 32768. a = of_nat k * PAGE_SIZE)"
proof
  assume "pmm_managed a"
  then have "unat a mod 4096 = 0" "unat a < 134217728"
    by (auto simp: pmm_managed_def page_aligned_mod)
  then obtain k where k: "unat a = 4096 * k" "k < 32768" by (auto elim: mod_0_imp_dvd [THEN dvdE])
  then have "a = of_nat k * PAGE_SIZE"
    by (simp add: word_unat_eq_iff unat_frame_addr)
  with k(2) show "\<exists>k < 32768. a = of_nat k * PAGE_SIZE" by blast
qed (auto simp: pmm_managed_def page_aligned_frame_addr unat_frame_addr)

lemma frame_addr_eq_iff:
  "j < 32768 \<Longrightarrow> k < 32768 \<Longrightarrow> of_nat j * PAGE_SIZE = (of_nat k * PAGE_SIZE :: u32) \<longleftrightarrow> j = k"
  by (metis frame_addr_div)

lemma pmm_free_frame_spec:
  assumes "k < 32768"
  shows "pmm_free_frame (of_nat k * PAGE_SIZE) s = Some (mark_free k s)"
  using pmm_bit_ops(2) [of "of_nat k * PAGE_SIZE div PAGE_SIZE"] frame_addr_div [OF assms] assms
  by (simp add: pmm_free_frame_def)

interpretation pmm: frame_allocator
  "pmm_alloc_frame :: 'a pmm_state_scheme \<Rightarrow> _" pmm_free_frame frame_addr_used pmm_managed pmm_inv
proof unfold_locales
  fix s :: "'a pmm_state_scheme"
  assume "pmm_inv s"
  then show "\<exists>a t. pmm_alloc_frame s = Some (a, t)"
    by (simp add: pmm_alloc_frame_spec split: option.splits)
next
  fix s t :: "'a pmm_state_scheme"
  assume s: "pmm_inv s" and a: "pmm_alloc_frame s = Some (0, t)"
  show "t = s"
  proof (rule ccontr)
    assume "t \<noteq> s"
    with a obtain k where k: "find_index (\<lambda>k. \<not> frame_used s k) 0 (unat (total_frames s)) = Some k"
      "of_nat k * PAGE_SIZE = (0 :: u32)"
      by (auto simp: pmm_alloc_frame_spec [OF s] split: option.splits)
    then have "k < 32768" "\<not> frame_used s k"
      using s by (auto simp: find_index_Some_iff pmm_inv_def)
    with k(2) have "k = 0" using unat_frame_addr [of k] by simp
    with \<open>\<not> frame_used s k\<close> s show False by (simp add: pmm_inv_def)
  qed
next
  fix s t :: "'a pmm_state_scheme" and a :: u32
  assume s: "pmm_inv s" and "pmm_alloc_frame s = Some (a, t)" "a \<noteq> 0"
  then obtain k where k: "a = of_nat k * PAGE_SIZE" "k < 32768" "\<not> frame_used s k" "t = mark_used k s"
    by (elim pmm_alloc_frameE)
  with \<open>a \<noteq> 0\<close> have "0 < k" by (cases "k = 0") simp_all
  with k s show "pmm_managed a \<and> \<not> frame_addr_used s a \<and> pmm_inv t \<and>
      (\<forall>b. pmm_managed b \<longrightarrow> frame_addr_used t b = (b = a \<or> frame_addr_used s b))"
    by (auto simp: pmm_managed_iff frame_addr_used_def frame_addr_div frame_addr_eq_iff pmm_inv_def)
next
  fix s :: "'a pmm_state_scheme" and a :: u32
  assume s: "pmm_inv s" and "pmm_managed a" "a \<noteq> 0"
  then obtain k where k: "k < 32768" "a = of_nat k * PAGE_SIZE" by (auto simp: pmm_managed_iff)
  with \<open>a \<noteq> 0\<close> have "k \<noteq> 0" by (cases "k = 0") simp_all
  with k s show "\<exists>t. pmm_free_frame a s = Some t \<and> pmm_inv t \<and>
      (\<forall>b. pmm_managed b \<longrightarrow> frame_addr_used t b = (b \<noteq> a \<and> frame_addr_used s b))"
    by (auto simp: pmm_free_frame_spec pmm_managed_iff frame_addr_used_def frame_addr_div
        frame_addr_eq_iff pmm_inv_def)
qed


section \<open>Initialisation\<close>

definition in_range :: "u32 \<Rightarrow> u32 \<Rightarrow> nat \<Rightarrow> bool" where
  "in_range sf ef n \<longleftrightarrow> unat sf \<le> n \<and> n \<le> unat ef \<and> n < 32768"

text \<open>All recorded regions end inside the bitmap.\<close>

definition regions_ok :: "'a pmm_state_scheme \<Rightarrow> bool" where
  "regions_ok s \<longleftrightarrow> (\<forall>r\<in>set (pmm_regions s). unat (end_frame r) < 32768)"

lemma pmm_record_region_simps [simp]:
  "phys (pmm_record_region a b c s) = phys s" "cr3 (pmm_record_region a b c s) = cr3 s"
  "cr0_pg (pmm_record_region a b c s) = cr0_pg s"
  "total_frames (pmm_record_region a b c s) = total_frames s"
  "frame_used (pmm_record_region a b c s) n = frame_used s n"
  by (simp_all add: pmm_record_region_def frame_used_def)

lemma regions_ok_record:
  "regions_ok s \<Longrightarrow> unat ef < 32768 \<Longrightarrow> regions_ok (pmm_record_region sf ef ty s)"
  by (auto simp: regions_ok_def pmm_record_region_def)

text \<open>
  The shape of every step of \<open>pmm_init\<close>: the machine is left alone, \<open>total_frames\<close> stays
  inside the bitmap and above every free frame, and the set of used frames changes to \<open>U\<close>.
\<close>

definition free_below :: "'a pmm_state_scheme \<Rightarrow> bool" where
  "free_below s \<longleftrightarrow> (\<forall>n. frame_used s n \<or> n < unat (total_frames s))"

definition init_step ::
  "'a pmm_state_scheme \<Rightarrow> 'a pmm_state_scheme \<Rightarrow> (nat \<Rightarrow> bool) \<Rightarrow> bool" where
  "init_step s t U \<longleftrightarrow> same_machine s t \<and> frame_used t = U \<and>
     (regions_ok s \<and> unat (total_frames s) \<le> 32768 \<longrightarrow>
      regions_ok t \<and> unat (total_frames t) \<le> 32768) \<and>
     (free_below s \<longrightarrow> free_below t)"

lemma pmm_reserve_step:
  assumes "unat ef < 32768"
  shows "\<exists>t. pmm_reserve sf ef s = Some t \<and>
    init_step s t (\<lambda>n. frame_used s n \<or> in_range sf ef n)"
proof -
  obtain t where t: "pmm_mark_range_used sf ef (pmm_record_region sf ef 0 s) = Some t"
    "same_but_bitmap (pmm_record_region sf ef 0 s) t"
    "\<forall>n. frame_used t n \<longleftrightarrow> frame_used (pmm_record_region sf ef 0 s) n \<or>
       (unat sf \<le> n \<and> n \<le> unat ef \<and> n < 32768)"
    using mark_range_used_spec by blast
  have "regions_ok s \<longrightarrow> regions_ok t"
    using regions_ok_record [OF _ assms, of s sf 0] same_but_bitmapD(5) [OF t(2)]
    by (simp add: regions_ok_def)
  then show ?thesis
    using t(1,3) same_but_bitmapD(1-4) [OF t(2)]
    by (auto simp: pmm_reserve_def init_step_def same_machine_def in_range_def free_below_def fun_eq_iff)
qed

lemma mmap_end_frame_bound: "unat (mmap_end_frame e) < 32768"
  by (simp add: mmap_end_frame_def Let_def word_less_nat_alt word_le_nat_alt)

lemma unat_end_plus_1: "unat (e :: u32) < 32768 \<Longrightarrow> unat (e + 1) \<le> 32768"
  using unat_add_no_wrap [of e 1] by simp

lemma pmm_add_mmap_entry_step:
  "\<exists>t. pmm_add_mmap_entry e s = Some t \<and>
     init_step s t (\<lambda>n. frame_used s n \<and>
       \<not> (mm_type e = 1 \<and> in_range (mmap_start_frame e) (mmap_end_frame e) n))"
proof -
  let ?s1 = "pmm_record_region (mmap_start_frame e) (mmap_end_frame e) (mm_type e) s"
  obtain t where t: "pmm_mark_range_free (mmap_start_frame e) (mmap_end_frame e) ?s1 = Some t"
    "same_but_bitmap ?s1 t"
    "\<forall>n. frame_used t n \<longleftrightarrow> frame_used ?s1 n \<and> \<not> in_range (mmap_start_frame e) (mmap_end_frame e) n"
    using mark_range_free_spec unfolding in_range_def by blast
  define u where "u = (if mm_type e = 1 then t else ?s1)"
  have u: "same_but_bitmap ?s1 u" "\<And>n. frame_used u n \<longleftrightarrow> frame_used s n \<and>
      \<not> (mm_type e = 1 \<and> in_range (mmap_start_frame e) (mmap_end_frame e) n)"
    using t(2,3) by (auto simp: u_def)
  define v where "v = (if mmap_end_frame e + 1 > total_frames u
    then u\<lparr>total_frames := mmap_end_frame e + 1\<rparr> else u)"
  have "pmm_add_mmap_entry e s = Some v"
    using t(1) by (cases "mm_type e = 1") (simp_all add: pmm_add_mmap_entry_def v_def u_def)
  moreover have "frame_used v = frame_used u" "pmm_regions v = pmm_regions u" "same_machine u v"
    by (auto simp: v_def fun_eq_iff frame_used_def same_machine_def)
  moreover have "regions_ok s \<longrightarrow> regions_ok u"
    using regions_ok_record [OF _ mmap_end_frame_bound, of s "mmap_start_frame e" e "mm_type e"]
      same_but_bitmapD(5) [OF u(1)] by (simp add: regions_ok_def)
  moreover have "unat (total_frames u) \<le> 32768 \<longrightarrow> unat (total_frames v) \<le> 32768"
    using unat_end_plus_1 [OF mmap_end_frame_bound] by (simp add: v_def)
  moreover have "unat (total_frames u) \<le> unat (total_frames v)"
    "unat (mmap_end_frame e) < unat (total_frames v)"
    using unat_add_no_wrap [of "mmap_end_frame e" 1] mmap_end_frame_bound [of e]
    by (auto simp: v_def word_less_nat_alt)
  ultimately show ?thesis
    using u(2) same_but_bitmapD(1-4) [OF u(1)]
    by (fastforce simp: init_step_def same_machine_def regions_ok_def free_below_def in_range_def fun_eq_iff)
qed

text \<open>
  \<open>mmap_at s a e es\<close>: the loop of \<open>pmm_init\<close> from address \<open>a\<close> to \<open>e\<close> visits exactly the
  entries \<open>es\<close> in memory. This is what a well-formed Multiboot map is.
\<close>

fun mmap_at ::
  "'a machine_scheme \<Rightarrow> u32 \<Rightarrow> u32 \<Rightarrow> multiboot_memory_map list \<Rightarrow> bool" where
  "mmap_at s a e [] \<longleftrightarrow> \<not> a < e"
| "mmap_at s a e (x # xs) \<longleftrightarrow>
     a < e \<and> read_mmap_entry a s = Some x \<and> mmap_at s (a + mm_size x + 4) e xs"

lemma read_mmap_entry_same: "same_machine s t \<Longrightarrow> read_mmap_entry a t = read_mmap_entry a s"
  by (simp add: read_mmap_entry_def same_machine_accesses [of s t])

lemma mmap_at_same: "same_machine s t \<Longrightarrow> mmap_at t a e xs = mmap_at s a e xs"
  by (induction xs arbitrary: a) (simp_all add: read_mmap_entry_same [of s t])

definition mmap_free :: "multiboot_memory_map list \<Rightarrow> nat \<Rightarrow> bool" where
  "mmap_free es n \<longleftrightarrow>
     (\<exists>e\<in>set es. mm_type e = 1 \<and> in_range (mmap_start_frame e) (mmap_end_frame e) n)"

lemma init_step_trans:
  "init_step s t U \<Longrightarrow> init_step t u V \<Longrightarrow> init_step s u V"
  by (auto simp: init_step_def same_machine_def)

lemma pmm_parse_mmap_step:
  "mmap_at s a e es \<Longrightarrow>
   \<exists>t. pmm_parse_mmap a e s = Some t \<and> init_step s t (\<lambda>n. frame_used s n \<and> \<not> mmap_free es n)"
proof (induction es arbitrary: a s)
  case Nil
  then show ?case
    by (simp add: pmm_parse_mmap.simps [of a e s] init_step_def same_machine_def mmap_free_def)
next
  case (Cons x xs)
  obtain s1 where s1: "pmm_add_mmap_entry x s = Some s1" "init_step s s1 (\<lambda>n. frame_used s n \<and>
       \<not> (mm_type x = 1 \<and> in_range (mmap_start_frame x) (mmap_end_frame x) n))"
    using pmm_add_mmap_entry_step by blast
  then have "mmap_at s1 (a + mm_size x + 4) e xs"
    using Cons.prems mmap_at_same [of s s1] by (simp add: init_step_def)
  then obtain t where t: "pmm_parse_mmap (a + mm_size x + 4) e s1 = Some t"
    "init_step s1 t (\<lambda>n. frame_used s1 n \<and> \<not> mmap_free xs n)"
    using Cons.IH by blast
  have "(\<lambda>n. frame_used s1 n \<and> \<not> mmap_free xs n) = (\<lambda>n. frame_used s n \<and> \<not> mmap_free (x # xs) n)"
    using s1(2) by (auto simp: init_step_def mmap_free_def)
  with init_step_trans [OF s1(2) t(2)] t(1) s1(1) Cons.prems show ?case
    by (simp add: pmm_parse_mmap.simps [of a e s])
qed

lemma pmm_raise_total_step:
  "\<forall>r\<in>set rs. unat (end_frame r) < 32768 \<Longrightarrow> init_step s (pmm_raise_total rs s) (frame_used s)"
proof (induction rs arbitrary: s)
  case Nil
  then show ?case by (simp add: init_step_def same_machine_def)
next
  case (Cons r rs)
  let ?t = "if end_frame r + 1 > total_frames s then s\<lparr>total_frames := end_frame r + 1\<rparr> else s"
  have "frame_used ?t = frame_used s" by (simp add: fun_eq_iff frame_used_def)
  then have "init_step s ?t (frame_used ?t)"
    using unat_end_plus_1 [of "end_frame r"] Cons.prems
    by (auto simp: init_step_def same_machine_def regions_ok_def free_below_def frame_used_def word_less_nat_alt)
  then show ?case
    using init_step_trans [OF _ Cons.IH [of ?t]] Cons.prems \<open>frame_used ?t = frame_used s\<close> by simp
qed

lemma pmm_raise_total_ge:
  "total_frames s \<le> total_frames (pmm_raise_total rs s)"
proof (induction rs arbitrary: s)
  case (Cons r rs)
  show ?case
    using Cons.IH [of "s\<lparr>total_frames := end_frame r + 1\<rparr>"] Cons.IH [of s]
    by (auto intro: order.trans)
qed simp

text \<open>The counting loop counts the free frames.\<close>

lemma pmm_count_free_spec:
  assumes "unat (total_frames s) \<le> 32768" "unat i \<le> unat (total_frames s)"
  shows "pmm_count_free i acc s =
    Some (acc + of_nat (card {n. unat i \<le> n \<and> n < unat (total_frames s) \<and> \<not> frame_used s n}))"
  using assms
proof (induction i acc s rule: pmm_count_free.induct)
  case (1 i acc s)
  let ?F = "\<lambda>i. {n. i \<le> n \<and> n < unat (total_frames s) \<and> \<not> frame_used s n}"
  show ?case
  proof (cases "i < total_frames s")
    case True
    then have i: "unat i < 32768" "unat i < unat (total_frames s)" "unat (i + 1) = Suc (unat i)"
      using "1.prems" by (auto simp: word_less_nat_alt intro: unat_Suc_less)
    obtain b where b: "pmm_test_bit i s = Some b" "b = 0 \<longleftrightarrow> \<not> frame_used s (unat i)"
      using pmm_bit_ops(3) [OF i(1)] by blast
    have "?F (unat i) = (if b = 0 then insert (unat i) (?F (Suc (unat i))) else ?F (Suc (unat i)))"
      using b(2) i(2) by (auto simp: Suc_le_eq) (metis le_neq_implies_less)+
    moreover have "finite (?F (Suc (unat i)))" by simp
    ultimately have "card (?F (unat i)) = (if b = 0 then Suc else id) (card (?F (Suc (unat i))))"
      by simp
    then show ?thesis
      using True b(1) i "1.IH" [OF True b(1)] "1.prems"
      by (simp add: pmm_count_free.simps [of i acc s])
  next
    case False
    then have "?F (unat i) = {}" by (auto simp: word_less_nat_alt)
    then have c: "card (?F (unat i)) = 0" by (simp only: card.empty)
    show ?thesis unfolding c using False by (simp add: pmm_count_free.simps [of i acc s])
  qed
qed


text \<open>Steps 3 to 5 of \<open>pmm_init\<close> and what they keep used.\<close>

definition boot_reserved :: "u32 \<Rightarrow> u32 \<Rightarrow> nat \<Rightarrow> bool" where
  "boot_reserved kernel_physical_start kernel_physical_end n \<longleftrightarrow>
     n \<le> 255 \<or>
     in_range (kernel_physical_start div PAGE_SIZE) ((kernel_physical_end - 1) div PAGE_SIZE) n"

lemma unat_frame_below: "unat (a :: u32) < 134217728 \<Longrightarrow> unat (a div PAGE_SIZE) < 32768"
  by (simp add: unat_div PAGE_SIZE_def less_mult_imp_div_less)

lemma unat_minus_1_below: "0 < unat a \<Longrightarrow> unat a \<le> n \<Longrightarrow> unat (a - 1 :: u32) < n"
  by (subst unat_sub) (auto simp: word_le_nat_alt)

lemma init_step_0: "frame_used s 0 \<Longrightarrow> init_step s t U \<Longrightarrow> regions_ok s \<Longrightarrow>
    unat (total_frames s) \<le> 32768 \<Longrightarrow> U 0 \<Longrightarrow> pmm_inv t"
  by (simp add: init_step_def pmm_inv_def)

lemma pmm_init_fixed_steps:
  assumes "0 < unat kernel_physical_end" "unat kernel_physical_end \<le> 134217728"
  shows "\<exists>t u v. pmm_reserve 0 (BIOS_BOOT_RESERVED_END div PAGE_SIZE) s = Some t \<and>
    pmm_reserve (kernel_physical_start div PAGE_SIZE) ((kernel_physical_end - 1) div PAGE_SIZE) t =
      Some u \<and>
    pmm_reserve (0xB8000 div PAGE_SIZE) (0xB8000 div PAGE_SIZE) u = Some v \<and>
    init_step s v (\<lambda>n. frame_used s n \<or> boot_reserved kernel_physical_start kernel_physical_end n)"
proof -
  have bios: "unat (BIOS_BOOT_RESERVED_END div PAGE_SIZE) = 255"
    and vga: "unat (0xB8000 div PAGE_SIZE) = 184"
    by (simp_all add: BIOS_BOOT_RESERVED_END_def PAGE_SIZE_def)
  have k: "unat ((kernel_physical_end - 1) div PAGE_SIZE) < 32768"
    by (intro unat_frame_below unat_minus_1_below assms)
  obtain t where t: "pmm_reserve 0 (BIOS_BOOT_RESERVED_END div PAGE_SIZE) s = Some t"
    "init_step s t (\<lambda>n. frame_used s n \<or> in_range 0 (BIOS_BOOT_RESERVED_END div PAGE_SIZE) n)"
    using pmm_reserve_step [of "BIOS_BOOT_RESERVED_END div PAGE_SIZE" 0 s] bios by auto
  obtain u where u: "pmm_reserve (kernel_physical_start div PAGE_SIZE)
      ((kernel_physical_end - 1) div PAGE_SIZE) t = Some u"
    "init_step t u (\<lambda>n. frame_used t n \<or> in_range (kernel_physical_start div PAGE_SIZE)
      ((kernel_physical_end - 1) div PAGE_SIZE) n)"
    using pmm_reserve_step [OF k] by blast
  obtain v where v: "pmm_reserve (0xB8000 div PAGE_SIZE) (0xB8000 div PAGE_SIZE) u = Some v"
    "init_step u v (\<lambda>n. frame_used u n \<or> in_range (0xB8000 div PAGE_SIZE) (0xB8000 div PAGE_SIZE) n)"
    using pmm_reserve_step [of "0xB8000 div PAGE_SIZE" "0xB8000 div PAGE_SIZE" u] vga by auto
  have "in_range 0 (BIOS_BOOT_RESERVED_END div PAGE_SIZE) n \<longleftrightarrow> n \<le> 255"
    and "in_range (0xB8000 div PAGE_SIZE) (0xB8000 div PAGE_SIZE) n \<longleftrightarrow> n = 184" for n
    unfolding in_range_def bios vga by auto
  moreover have "frame_used u = (\<lambda>n. frame_used t n \<or> in_range (kernel_physical_start div PAGE_SIZE)
      ((kernel_physical_end - 1) div PAGE_SIZE) n)"
    and "frame_used t = (\<lambda>n. frame_used s n \<or> in_range 0 (BIOS_BOOT_RESERVED_END div PAGE_SIZE) n)"
    using t(2) u(2) by (simp_all add: init_step_def)
  ultimately have
    "(\<lambda>n. frame_used u n \<or> in_range (0xB8000 div PAGE_SIZE) (0xB8000 div PAGE_SIZE) n) =
      (\<lambda>n. frame_used s n \<or> boot_reserved kernel_physical_start kernel_physical_end n)"
    by (auto simp: boot_reserved_def)
  with init_step_trans [OF init_step_trans [OF t(2) u(2)] v(2)] t(1) u(1) v(1) show ?thesis by auto
qed

text \<open>The last two loops of \<open>pmm_init\<close>.\<close>

lemma pmm_init_finish:
  assumes "regions_ok s" "unat (total_frames s) \<le> 32768"
  shows "\<exists>n. pmm_count_free 0 0 (pmm_raise_total (pmm_regions s) s) = Some n"
    and "init_step s (pmm_raise_total (pmm_regions s) s) (frame_used s)"
proof -
  show st: "init_step s (pmm_raise_total (pmm_regions s) s) (frame_used s)"
    using pmm_raise_total_step assms(1) by (simp add: regions_ok_def)
  show "\<exists>n. pmm_count_free 0 0 (pmm_raise_total (pmm_regions s) s) = Some n"
    using pmm_count_free_spec [of "pmm_raise_total (pmm_regions s) s" 0 0] st assms
    by (simp add: init_step_def)
qed


section \<open>Properties of the manager\<close>

abbreviation has_mmap :: "multiboot_info \<Rightarrow> bool" where
  "has_mmap mbinfo \<equiv> mb_flags mbinfo AND push_bit 6 1 \<noteq> 0"

definition boot_state :: "'a pmm_state_scheme \<Rightarrow> 'a pmm_state_scheme" where
  "boot_state s = s\<lparr>pmm_bitmap := (\<lambda>i. 0xFF), pmm_regions := [], total_frames := 0\<rparr>"

lemma bit_mask_iff_u8: "bit (mask 8 :: u8) (n mod 8)"
  by (simp add: bit_mask_iff)

lemma boot_state_simps [simp]:
  "frame_used (boot_state s) n" "regions_ok (boot_state s)" "total_frames (boot_state s) = 0"
  "same_machine s (boot_state s)"
proof -
  have "(0xFF :: u8) = mask 8" by (simp add: mask_eq_exp_minus_1)
  then have "bit (0xFF :: u8) (n mod 8)" by (metis bit_mask_iff_u8)
  then show "frame_used (boot_state s) n" by (simp add: frame_used_def boot_state_def)
qed (simp_all add: boot_state_def regions_ok_def same_machine_def)

lemma pmm_init_mmap_step:
  assumes "has_mmap mbinfo"
    and "mmap_at s (mmap_addr mbinfo) (mmap_addr mbinfo + mmap_length mbinfo) es"
    and "0 < unat kernel_physical_end" "unat kernel_physical_end \<le> 134217728"
    and "0 < unat (mmap_addr mbinfo + mmap_length mbinfo)"
    and "unat (mmap_addr mbinfo + mmap_length mbinfo) \<le> 134217728"
  shows "\<exists>t. pmm_init kernel_physical_start kernel_physical_end mbinfo s = Some t \<and>
    init_step (boot_state s) t (\<lambda>n. \<not> mmap_free es n \<or>
      boot_reserved kernel_physical_start kernel_physical_end n \<or>
      in_range (mmap_addr mbinfo div PAGE_SIZE)
        ((mmap_addr mbinfo + mmap_length mbinfo - 1) div PAGE_SIZE) n)"
proof -
  let ?b = "boot_state s" and ?a = "mmap_addr mbinfo" and ?e = "mmap_addr mbinfo + mmap_length mbinfo"
  let ?sf = "?a div PAGE_SIZE" and ?ef = "(?e - 1) div PAGE_SIZE"
  have "mmap_at ?b ?a ?e es" using assms(2) mmap_at_same [of s ?b] by simp
  then obtain s2 where s2: "pmm_parse_mmap ?a ?e ?b = Some s2"
    "init_step ?b s2 (\<lambda>n. frame_used ?b n \<and> \<not> mmap_free es n)"
    using pmm_parse_mmap_step by blast
  obtain s3 s4 s5 where s5: "pmm_reserve 0 (BIOS_BOOT_RESERVED_END div PAGE_SIZE) s2 = Some s3"
    "pmm_reserve (kernel_physical_start div PAGE_SIZE) ((kernel_physical_end - 1) div PAGE_SIZE) s3 =
      Some s4"
    "pmm_reserve (0xB8000 div PAGE_SIZE) (0xB8000 div PAGE_SIZE) s4 = Some s5"
    "init_step s2 s5 (\<lambda>n. frame_used s2 n \<or> boot_reserved kernel_physical_start kernel_physical_end n)"
    using pmm_init_fixed_steps [OF assms(3,4)] by blast
  have ef: "unat ?ef < 32768"
    by (intro unat_frame_below unat_minus_1_below assms)
  obtain s6 where s6: "pmm_reserve ?sf ?ef s5 = Some s6"
    "init_step s5 s6 (\<lambda>n. frame_used s5 n \<or> in_range ?sf ?ef n)"
    using pmm_reserve_step [OF ef] by blast
  define s7 where "s7 = (if ?ef + 1 > total_frames s6 then s6\<lparr>total_frames := ?ef + 1\<rparr> else s6)"
  have s7: "init_step s6 s7 (frame_used s6)"
    using unat_end_plus_1 [OF ef]
    by (auto simp: s7_def init_step_def same_machine_def regions_ok_def free_below_def frame_used_def fun_eq_iff
        word_less_nat_alt)
  note b7 = init_step_trans [OF init_step_trans [OF init_step_trans [OF s2(2) s5(4)] s6(2)] s7]
  then have ok: "regions_ok s7" "unat (total_frames s7) \<le> 32768" by (simp_all add: init_step_def)
  obtain n where n: "pmm_count_free 0 0 (pmm_raise_total (pmm_regions s7) s7) = Some n"
    using pmm_init_finish(1) [OF ok] by blast
  have "pmm_init kernel_physical_start kernel_physical_end mbinfo s =
      Some (pmm_raise_total (pmm_regions s7) s7)"
    using assms(1) s2(1) s5(1-3) s6(1) n
    by (simp add: pmm_init_def Let_def boot_state_def s7_def)
  moreover have "frame_used s7 = (\<lambda>n. \<not> mmap_free es n \<or>
      boot_reserved kernel_physical_start kernel_physical_end n \<or> in_range ?sf ?ef n)"
    using s2(2) s5(4) s6(2) s7 by (auto simp: init_step_def)
  ultimately show ?thesis
    using init_step_trans [OF b7 pmm_init_finish(2) [OF ok]] by auto
qed



text \<open>
  A map of one entry at 0x9000: 16 MiB of available memory from 1 MiB on; the kernel image
  lies from 2 MiB to 3 MiB.
\<close>

definition demo_mmap_entry :: multiboot_memory_map where
  "demo_mmap_entry = \<lparr>mm_size = 20, mm_addr = 0x100000, mm_len = 0x1000000, mm_type = 1\<rparr>"

definition demo_boot :: pmm_state where
  "demo_boot = \<lparr>phys = store32 (store32 (store32 (store32 (\<lambda>_. 0) 0x9000 20) 0x9004 0x100000)
       0x900C 0x1000000) 0x9014 1,
     cr3 = 0, cr0_pg = False, pmm_bitmap = (\<lambda>_. 0), pmm_regions = [], total_frames = 0\<rparr>"

definition demo_mbinfo :: multiboot_info where
  "demo_mbinfo = \<lparr>mb_flags = 64, mem_upper = 0, mmap_length = 24, mmap_addr = 0x9000\<rparr>"

lemma demo_boot_map: "mmap_at demo_boot 0x9000 (0x9000 + 24) [demo_mmap_entry]"
  by (simp add: demo_boot_def demo_mmap_entry_def read_mmap_entry_def vload32_def translate_def
      store32_def u32_byte_def bytes_to_u32_def)


text \<open>
  The run of the manager after boot: allocations, and frees of frames that are not reserved at
  boot.
\<close>

inductive pmm_run :: "(nat \<Rightarrow> bool) \<Rightarrow> 'a pmm_state_scheme \<Rightarrow> 'a pmm_state_scheme \<Rightarrow> bool"
  for reserved :: "nat \<Rightarrow> bool" where
  run_start: "pmm_run reserved s s"
| run_alloc: "pmm_run reserved s t \<Longrightarrow> pmm_alloc_frame t = Some (a, u) \<Longrightarrow> pmm_run reserved s u"
| run_free: "pmm_run reserved s t \<Longrightarrow> pmm_free_frame a t = Some u \<Longrightarrow> pmm_managed a \<Longrightarrow>
    \<not> reserved (unat (a div PAGE_SIZE)) \<Longrightarrow> pmm_run reserved s u"

lemma pmm_alloc_keeps_used:
  "pmm_inv s \<Longrightarrow> pmm_alloc_frame s = Some (a, t) \<Longrightarrow> pmm_inv t \<and> (frame_used s n \<longrightarrow> frame_used t n)"
  by (auto simp: pmm_alloc_frame_spec pmm_inv_def split: option.splits)

lemma pmm_run_invariant:
  assumes "pmm_run reserved s t" "pmm_inv s" "reserved 0"
  shows "pmm_inv t \<and> (\<forall>n. reserved n \<and> frame_used s n \<longrightarrow> frame_used t n)"
  using assms
proof (induction rule: pmm_run.induct)
  case (run_alloc s t a u)
  then show ?case using pmm_alloc_keeps_used by metis
next
  case (run_free s t a u)
  from \<open>pmm_managed a\<close> obtain k where k: "k < 32768" "a = of_nat k * PAGE_SIZE"
    by (auto simp: pmm_managed_iff)
  with run_free have "u = mark_free k t" "\<not> reserved k"
    by (simp_all add: pmm_free_frame_spec frame_addr_div)
  with run_free show ?case by (cases "k = 0") (auto simp: pmm_inv_def)
qed simp


definition demo_pmm :: pmm_state where
  "demo_pmm = \<lparr>phys = \<lambda>_. 0, cr3 = 0, cr0_pg = False,
     pmm_bitmap = (\<lambda>i. if i < 64 then 0xFF else 0), pmm_regions = [], total_frames = 600\<rparr>"

lemma demo_pmm_used: "frame_used demo_pmm n \<longleftrightarrow> n < 512"
proof -
  have "bit (0xFF :: u8) (n mod 8)"
    using bit_mask_iff_u8 [of n] by (simp add: mask_eq_exp_minus_1)
  then show ?thesis by (auto simp: frame_used_def demo_pmm_def)
qed

lemma demo_pmm_total: "total_frames demo_pmm = 600"
  by (simp add: demo_pmm_def)

lemma demo_pmm_inv: "pmm_inv demo_pmm"
  by (simp add: pmm_inv_def demo_pmm_used demo_pmm_total)

lemma demo_pmm_alloc:
  assumes "total_frames v = 600" "0 < k" "k < 600" "\<And>n. frame_used v n \<longleftrightarrow> n < k"
  shows "pmm_alloc_frame v = Some (of_nat k * PAGE_SIZE, mark_used k v)"
proof -
  have "find_index (\<lambda>k. \<not> frame_used v k) 0 600 = Some k"
    using assms by (subst find_index_Some_iff) auto
  moreover have "pmm_inv v" using assms by (simp add: pmm_inv_def)
  ultimately show ?thesis using assms(1) by (simp add: pmm_alloc_frame_spec)
qed


text \<open>
  Allocation and release are inverse on the bitmap: freeing a frame just allocated returns
  and leaves every frame as it was before, and two allocations in a row return different
  frames.
\<close>

theorem pmm_alloc_free_roundtrip:
  assumes "pmm_inv s" "pmm_alloc_frame s = Some (a, t)" "a \<noteq> 0"
  shows "(\<exists>u. pmm_free_frame a t = Some u \<and> frame_used u = frame_used s) \<and>
    (\<forall>b u. pmm_alloc_frame t = Some (b, u) \<and> b \<noteq> 0 \<longrightarrow> b \<noteq> a)"
proof -
  obtain k where k: "a = of_nat k * PAGE_SIZE" "k < 32768" "\<not> frame_used s k" "t = mark_used k s"
    using assms by (elim pmm_alloc_frameE)
  then have "pmm_free_frame a t = Some (mark_free k t)" "frame_used (mark_free k t) = frame_used s"
    by (auto simp: pmm_free_frame_spec)
  then show ?thesis using pmm.alloc_distinct [OF assms] by blast
qed

theorem pmm_alloc_free_roundtrip_witness:
  "pmm_alloc_frame demo_pmm = Some (0x200000, mark_used 512 demo_pmm) \<and>
   (\<exists>u. pmm_free_frame 0x200000 (mark_used 512 demo_pmm) = Some u \<and>
     frame_used u = frame_used demo_pmm)"
proof -
  have "pmm_alloc_frame demo_pmm = Some (of_nat 512 * PAGE_SIZE, mark_used 512 demo_pmm)"
    by (rule demo_pmm_alloc) (simp_all add: demo_pmm_total demo_pmm_used)
  then have a: "pmm_alloc_frame demo_pmm = Some (0x200000, mark_used 512 demo_pmm)"
    by (simp add: PAGE_SIZE_def)
  then show ?thesis using pmm_alloc_free_roundtrip [OF demo_pmm_inv a] by simp
qed

text \<open>
  \<open>pmm_get_free_frames\<close> counts the free frames below \<open>total_frames\<close>; a successful
  \<open>pmm_alloc_frame\<close> takes exactly one of them, and \<open>pmm_alloc_frame\<close> returns NULL exactly
  when the count is 0.
\<close>

theorem pmm_free_count:
  assumes "pmm_inv s"
  shows "pmm_get_free_frames s =
      Some (of_nat (card {n. n < unat (total_frames s) \<and> \<not> frame_used s n})) \<and>
    (pmm_alloc_frame s = Some (0, s) \<longleftrightarrow> pmm_get_free_frames s = Some 0) \<and>
    (\<forall>a t. pmm_alloc_frame s = Some (a, t) \<and> a \<noteq> 0 \<longrightarrow>
      (\<exists>n. pmm_get_free_frames s = Some n \<and> n \<noteq> 0 \<and> pmm_get_free_frames t = Some (n - 1)))"
proof -
  let ?F = "\<lambda>s :: 'a pmm_state_scheme. {n. n < unat (total_frames s) \<and> \<not> frame_used s n}"
  have bound: "unat (total_frames s) \<le> 32768" using assms by (simp add: pmm_inv_def)
  have count: "pmm_get_free_frames t = Some (of_nat (card (?F t)))"
    if "unat (total_frames t) \<le> 32768" for t :: "'a pmm_state_scheme"
    using pmm_count_free_spec [OF that, of 0 0] by (simp add: pmm_get_free_frames_def)
  have "card (?F s) \<le> card {..<unat (total_frames s)}" by (intro card_mono) auto
  then have small: "card (?F s) < 4294967296" using bound by simp
  then have zero: "(of_nat (card (?F s)) :: u32) = 0 \<longleftrightarrow> ?F s = {}"
    using unat_of_nat_u32 [OF small] by (metis (no_types, lifting) card_0_eq finite_nat_set_iff_bounded
        mem_Collect_eq unat_eq_zero)
  have null: "pmm_alloc_frame s = Some (0, s) \<longleftrightarrow> ?F s = {}"
  proof
    assume "?F s = {}"
    then have "find_index (\<lambda>k. \<not> frame_used s k) 0 (unat (total_frames s)) = None"
      by (auto simp: find_index_None_iff)
    then show "pmm_alloc_frame s = Some (0, s)" using assms by (simp add: pmm_alloc_frame_spec)
  next
    assume a: "pmm_alloc_frame s = Some (0, s)"
    show "?F s = {}"
    proof (cases "find_index (\<lambda>k. \<not> frame_used s k) 0 (unat (total_frames s))")
      case None
      then show ?thesis by (auto simp: find_index_None_iff)
    next
      case (Some k)
      then have "s = mark_used k s" using a by (simp add: pmm_alloc_frame_spec [OF assms])
      moreover have "\<not> frame_used s k" using Some by (simp add: find_index_Some_iff)
      ultimately show ?thesis using frame_used_mark_used [of k s k] by simp
    qed
  qed
  have step: "\<exists>n. pmm_get_free_frames s = Some n \<and> n \<noteq> 0 \<and> pmm_get_free_frames t = Some (n - 1)"
    if al: "pmm_alloc_frame s = Some (a, t)" "a \<noteq> 0" for a t
  proof -
    obtain k where k: "k < unat (total_frames s)" "\<not> frame_used s k" "t = mark_used k s"
      using pmm_alloc_frameE [OF assms al] by blast
    then have "?F s = insert k (?F t)" "k \<notin> ?F t" by auto
    then have c: "card (?F s) = Suc (card (?F t))" by simp
    have "?F s \<noteq> {}" using k by auto
    then show ?thesis
      using count [OF bound] count [of t] bound k(3) zero by (simp add: c)
  qed
  show ?thesis using count [OF bound] zero null step by auto
qed

theorem pmm_free_count_witness:
  "pmm_get_free_frames demo_pmm =
     Some (of_nat (card {n. n < unat (600 :: u32) \<and> \<not> frame_used demo_pmm n}))"
  using pmm_free_count [OF demo_pmm_inv] by (simp only: demo_pmm_total)

text \<open>
  \<open>pmm_free_frame\<close> does not check its argument: for every address from 128 MiB on it writes
  outside the bitmap array.
\<close>

theorem pmm_free_frame_out_of_bitmap:
  assumes "134217728 \<le> unat a"
  shows "pmm_free_frame a s = None"
proof -
  have "4096 \<le> unat a div 4096 div 8" using div_le_mono [OF assms, of 32768] by (simp flip: div_mult2_eq)
  then show ?thesis
    by (simp add: pmm_free_frame_def pmm_clear_bit_def unat_div PAGE_SIZE_def BITMAP_SIZE_def Let_def)
qed

theorem pmm_free_frame_out_of_bitmap_witness: "pmm_free_frame 0x08000000 demo_pmm = None"
  using pmm_free_frame_out_of_bitmap [of "0x08000000" demo_pmm] by simp

end
