(* ===== verification/VMM.thy ===== *)
theory VMM
  imports Layout PMM
begin

text \<open>
  The virtual memory manager, kernel/src/kernel/vmm.c, on the loaded directory; \<open>AddressSpace\<close> has
  the operations on other directories. All accesses to the directory and the tables go through the recursive mapping in
  virtual memory, as in the code, so a missing directory entry shows up as a page fault
  (\<open>None\<close>). \<open>vmm_inv\<close> is the shape of the paging structures that the code relies on.
\<close>

section \<open>State\<close>

record vmm_state = pmm_state +
  current_pdt_phys :: u32
  kernel_pdt_phys :: u32

section \<open>Operations\<close>

definition vmm_init :: "u32 \<Rightarrow> 'a vmm_state_scheme \<Rightarrow> 'a vmm_state_scheme" where
  "vmm_init pdt_phys_addr s =
     s\<lparr>current_pdt_phys := pdt_phys_addr, kernel_pdt_phys := pdt_phys_addr\<rparr>"

definition vmm_get_kernel_pdt_phys :: "'a vmm_state_scheme \<Rightarrow> u32" where
  "vmm_get_kernel_pdt_phys s = kernel_pdt_phys s"

text \<open>\<open>read_cr3\<close> and \<open>load_cr3\<close> of cpu.c.\<close>

definition read_cr3 :: "'a machine_scheme \<Rightarrow> u32" where
  "read_cr3 s = cr3 s"

definition load_cr3 :: "u32 \<Rightarrow> 'a machine_scheme \<Rightarrow> 'a machine_scheme" where
  "load_cr3 v s = s\<lparr>cr3 := v\<rparr>"

text \<open>The address of the first kernel page table, \<open>kernel_pt\<close> in the code.\<close>

definition kernel_pt :: u32 where
  "kernel_pt = 0xFFC00000 + drop_bit 22 KERNEL_VIRT_BASE * PAGE_SIZE"

text \<open>The two copy loops of \<open>vmm_clone_kernel_mappings\<close>: \<open>n\<close> entries from index \<open>i\<close> on.\<close>

primrec vmm_copy_pdes :: "u32 \<Rightarrow> nat \<Rightarrow> 'a machine_scheme \<Rightarrow> 'a machine_scheme option" where
  "vmm_copy_pdes i 0 s = Some s"
| "vmm_copy_pdes i (Suc n) s = do {
     x \<leftarrow> vload32 (VMM_PDT_VIRTUAL_ADDR + 4 * i) s;
     s1 \<leftarrow> vstore32 (VMM_TEMP_PAGE + 4 * i) x s;
     vmm_copy_pdes (i + 1) n s1
   }"

definition vmm_clone_kernel_mappings ::
  "'a pmm_state_scheme \<Rightarrow> (u32 \<times> 'a pmm_state_scheme) option" where
  "vmm_clone_kernel_mappings s = do {
     (new_pdt_phys, s1) \<leftarrow> pmm_alloc_frame s;
     if new_pdt_phys = 0 then Some (0, s1)
     else do {
       s2 \<leftarrow> vstore32 (kernel_pt + 4 * 1023) (new_pdt_phys OR PAGE_PRESENT OR PAGE_WRITE) s1;
       s3 \<leftarrow> memset VMM_TEMP_PAGE 0 (unat PAGE_SIZE) s2;
       s4 \<leftarrow> vmm_copy_pdes 0 768 s3;
       s5 \<leftarrow> vmm_copy_pdes 768 255 s4;
       s6 \<leftarrow> vstore32 (VMM_TEMP_PAGE + 4 * 1023) (new_pdt_phys OR PAGE_PRESENT OR PAGE_WRITE) s5;
       s7 \<leftarrow> vstore32 (kernel_pt + 4 * 1023) 0 s6;
       Some (new_pdt_phys, s7)
     }
   }"

definition vmm_map_page :: "u32 \<Rightarrow> u32 \<Rightarrow> u32 \<Rightarrow> 'a pmm_state_scheme \<Rightarrow> 'a pmm_state_scheme option" where
  "vmm_map_page vaddr paddr flags s = (
     let pde_idx = drop_bit 22 vaddr;
         pte_idx = drop_bit 12 vaddr AND 0x3FF;
         pdt = VMM_PDT_VIRTUAL_ADDR;
         pt = 0xFFC00000 + pde_idx * PAGE_SIZE in do {
       pde \<leftarrow> vload32 (pdt + 4 * pde_idx) s;
       if pde AND PAGE_PRESENT = 0
       then do {
         (new_pt_paddr, s1) \<leftarrow> pmm_alloc_frame s;
         if new_pt_paddr = 0 then Some s1
         else do {
           s2 \<leftarrow> vstore32 (kernel_pt + 4 * 1023) (new_pt_paddr OR PAGE_PRESENT OR PAGE_WRITE) s1;
           s3 \<leftarrow> memset VMM_TEMP_PAGE 0 (unat PAGE_SIZE) s2;
           s4 \<leftarrow> vstore32 (pdt + 4 * pde_idx) (new_pt_paddr OR flags OR PAGE_PRESENT) s3;
           s5 \<leftarrow> vstore32 (kernel_pt + 4 * 1023) 0 s4;
           vstore32 (pt + 4 * pte_idx) ((paddr AND 0xFFFFF000) OR flags OR PAGE_PRESENT) s5
         }
       }
       else vstore32 (pt + 4 * pte_idx) ((paddr AND 0xFFFFF000) OR flags OR PAGE_PRESENT) s
     })"

definition vmm_unmap_page :: "u32 \<Rightarrow> 'a machine_scheme \<Rightarrow> 'a machine_scheme option" where
  "vmm_unmap_page vaddr s = (
     let pde_idx = drop_bit 22 vaddr;
         pte_idx = drop_bit 12 vaddr AND 0x3FF;
         pt = 0xFFC00000 + pde_idx * PAGE_SIZE in
     vstore32 (pt + 4 * pte_idx) 0 s)"

definition vmm_get_phys_addr :: "u32 \<Rightarrow> 'a machine_scheme \<Rightarrow> u32 option" where
  "vmm_get_phys_addr vaddr s = (
     let pde_idx = drop_bit 22 vaddr;
         pte_idx = drop_bit 12 vaddr AND 0x3FF;
         offset = vaddr AND 0xFFF;
         pt = 0xFFC00000 + pde_idx * PAGE_SIZE in do {
       pde \<leftarrow> vload32 (VMM_PDT_VIRTUAL_ADDR + 4 * pde_idx) s;
       if pde AND PAGE_PRESENT = 0 then Some 0
       else do {
         pte \<leftarrow> vload32 (pt + 4 * pte_idx) s;
         if pte AND PAGE_PRESENT = 0 then Some 0
         else Some ((pte AND 0xFFFFF000) + offset)
       }
     })"

definition vmm_map_kernel_page :: "u32 \<Rightarrow> u32 \<Rightarrow> 'a pmm_state_scheme \<Rightarrow> 'a pmm_state_scheme option" where
  "vmm_map_kernel_page vaddr paddr s = vmm_map_page vaddr paddr (PAGE_PRESENT OR PAGE_WRITE) s"

definition vmm_map_user_page :: "u32 \<Rightarrow> u32 \<Rightarrow> 'a pmm_state_scheme \<Rightarrow> 'a pmm_state_scheme option" where
  "vmm_map_user_page vaddr paddr s =
     vmm_map_page vaddr paddr (PAGE_PRESENT OR PAGE_WRITE OR PAGE_USER) s"

definition vmm_map_page_for_pdt ::
  "u32 \<Rightarrow> u32 \<Rightarrow> u32 \<Rightarrow> u32 \<Rightarrow> 'a pmm_state_scheme \<Rightarrow> 'a pmm_state_scheme option" where
  "vmm_map_page_for_pdt pdt_phys vaddr paddr flags s = (
     let old_cr3 = read_cr3 s in do {
       s1 \<leftarrow> vmm_map_page vaddr paddr flags (load_cr3 pdt_phys s);
       Some (load_cr3 old_cr3 s1)
     })"

definition vmm_unmap_page_for_pdt :: "u32 \<Rightarrow> u32 \<Rightarrow> 'a machine_scheme \<Rightarrow> 'a machine_scheme option" where
  "vmm_unmap_page_for_pdt pdt_phys vaddr s = (
     let old_cr3 = read_cr3 s in do {
       s1 \<leftarrow> vmm_unmap_page vaddr (load_cr3 pdt_phys s);
       Some (load_cr3 old_cr3 s1)
     })"

text \<open>The loop of \<open>vmm_free_page_directory\<close> over \<open>n\<close> user entries from \<open>pde_idx\<close> on.\<close>

primrec vmm_free_user_tables :: "u32 \<Rightarrow> nat \<Rightarrow> 'a pmm_state_scheme \<Rightarrow> 'a pmm_state_scheme option" where
  "vmm_free_user_tables pde_idx 0 s = Some s"
| "vmm_free_user_tables pde_idx (Suc n) s = do {
     pde \<leftarrow> vload32 (VMM_PDT_VIRTUAL_ADDR + 4 * pde_idx) s;
     if pde AND PAGE_PRESENT = 0 then vmm_free_user_tables (pde_idx + 1) n s
     else (
       let pt_phys = pde AND 0xFFFFF000 in
       if pt_phys \<noteq> 0
       then do {
         s1 \<leftarrow> vstore32 (VMM_PDT_VIRTUAL_ADDR + 4 * pde_idx) 0 s;
         s2 \<leftarrow> pmm_free_frame pt_phys s1;
         vmm_free_user_tables (pde_idx + 1) n s2
       }
       else vmm_free_user_tables (pde_idx + 1) n s)
   }"

definition vmm_free_page_directory :: "u32 \<Rightarrow> 'a vmm_state_scheme \<Rightarrow> 'a vmm_state_scheme option" where
  "vmm_free_page_directory pdt_phys s = (
     if pdt_phys = 0 \<or> pdt_phys = kernel_pdt_phys s then Some s
     else
       let old_cr3 = read_cr3 s in do {
         s1 \<leftarrow> vmm_free_user_tables 0 768 (load_cr3 pdt_phys s);
         s2 \<leftarrow> vstore32 (VMM_PDT_VIRTUAL_ADDR + 4 * 1023) 0 s1;
         pmm_free_frame pdt_phys (load_cr3 old_cr3 s2)
       })"

section \<open>The shape of the paging structures\<close>

text \<open>
  \<open>dir_ok s d\<close>: the frame \<open>d\<close> holds a page directory that maps itself at entry 1023, has the
  kernel table (entry 768), and whose present entries point to different frames, all of them
  taken from the frame allocator.
\<close>

abbreviation table :: "'a machine_scheme \<Rightarrow> u32 \<Rightarrow> u32 \<Rightarrow> u32" where
  "table s d i \<equiv> frame_of (entry s d i)"

definition dir_ok :: "'a pmm_state_scheme \<Rightarrow> u32 \<Rightarrow> bool" where
  "dir_ok s d \<longleftrightarrow> page_aligned d \<and>
     present (entry s d 1023) \<and> table s d 1023 = d \<and> present (entry s d 768) \<and>
     (\<forall>i j. unat i < 1024 \<and> unat j < 1024 \<and> present (entry s d i) \<and> present (entry s d j) \<and>
        table s d i = table s d j \<longrightarrow> i = j) \<and>
     (\<forall>i. unat i < 1024 \<and> present (entry s d i) \<longrightarrow>
        pmm_managed (table s d i) \<and> table s d i \<noteq> 0 \<and> frame_addr_used s (table s d i))"

definition vmm_inv :: "'a pmm_state_scheme \<Rightarrow> bool" where
  "vmm_inv s \<longleftrightarrow> pmm_inv s \<and> cr0_pg s \<and> dir_ok s (pdir s)"

lemma dir_okD:
  assumes "dir_ok s d"
  shows "page_aligned d" "present (entry s d 1023)" "table s d 1023 = d" "present (entry s d 768)"
    and "\<And>i j. \<lbrakk>unat i < 1024; unat j < 1024; present (entry s d i); present (entry s d j);
      table s d i = table s d j\<rbrakk> \<Longrightarrow> i = j"
    and "\<And>i. \<lbrakk>unat i < 1024; present (entry s d i)\<rbrakk> \<Longrightarrow>
      pmm_managed (table s d i) \<and> table s d i \<noteq> 0 \<and> frame_addr_used s (table s d i)"
  using assms unfolding dir_ok_def by blast+

text \<open>A directory keeps its shape when its entries stay and no used frame is released.\<close>

lemma dir_ok_cong:
  assumes "dir_ok s d" "\<And>a. frame_addr_used s a \<Longrightarrow> frame_addr_used t a"
    and "\<And>i. unat i < 1024 \<Longrightarrow> entry t d i = entry s d i"
  shows "dir_ok t d"
proof -
  have "entry t d 1023 = entry s d 1023" "entry t d 768 = entry s d 768" by (simp_all add: assms(3))
  then show ?thesis
    unfolding dir_ok_def using dir_okD [OF assms(1)] assms(2,3) by metis
qed

lemma vmm_invD:
  assumes "vmm_inv s"
  shows "pmm_inv s" "cr0_pg s" "dir_ok s (pdir s)" "recursive_map s"
  using assms dir_okD [of s "pdir s"] by (auto simp: vmm_inv_def recursive_map_def)

text \<open>The index arithmetic of the code is the page walk's.\<close>

lemma index_folds:
  "drop_bit 22 v = pd_index v" "drop_bit 12 v AND 0x3FF = pt_index v"
  by (simp_all add: pd_index_def pt_index_def)

lemma kernel_pt_addr: "kernel_pt = 0xFFC00000 + 768 * 4096"
  by (simp add: kernel_pt_def layout PAGE_SIZE_def drop_bit_eq_div)

lemma present_flags: "e AND PAGE_PRESENT = 0 \<longleftrightarrow> \<not> present e"
  by (simp add: layout)

lemma new_entry:
  assumes "page_aligned f" "flags AND 0xFFFFF000 = 0"
  shows "present (f OR flags OR PAGE_PRESENT)" "frame_of (f OR flags OR PAGE_PRESENT) = f"
proof -
  have "(flags OR PAGE_PRESENT) AND 0xFFFFF000 = 0"
    using assms(2) by (simp add: bit.conj_disj_distrib2 layout)
  then show "frame_of (f OR flags OR PAGE_PRESENT) = f"
    using frame_of_entry [OF assms(1), of "flags OR PAGE_PRESENT"] by (simp add: or.assoc)
  have "bit (f OR flags OR PAGE_PRESENT) 0" by (simp add: bit_simps layout)
  then show "present (f OR flags OR PAGE_PRESENT)" by (metis and_exp_eq_0_iff_not_bit push_bit_of_1 power_0)
qed

lemma window_entry:
  assumes "page_aligned f"
  shows "present (f OR PAGE_PRESENT OR PAGE_WRITE)" "frame_of (f OR PAGE_PRESENT OR PAGE_WRITE) = f"
  using new_entry [OF assms, of PAGE_WRITE] by (simp_all add: ac_simps) (simp_all add: layout)

lemmas table_steps = table_access [where i = 768, folded kernel_pt_addr]

section \<open>Memory changes and the frame allocator\<close>

lemma frame_used_phys [simp]:
  "frame_used (s\<lparr>phys := m\<rparr>) n = frame_used s n" "frame_used (s\<lparr>cr3 := c\<rparr>) n = frame_used s n"
  "frame_addr_used (s\<lparr>phys := m\<rparr>) a = frame_addr_used s a"
  "frame_addr_used (s\<lparr>cr3 := c\<rparr>) a = frame_addr_used s a"
  "pmm_inv (s\<lparr>phys := m\<rparr>) = pmm_inv s" "pmm_inv (s\<lparr>cr3 := c\<rparr>) = pmm_inv s"
  by (simp_all add: frame_used_def frame_addr_used_def pmm_inv_def)

lemma table_changes_pmm [simp]:
  "frame_addr_used (set_entry f i x s) a = frame_addr_used s a"
  "frame_addr_used (zero_frame f s) a = frame_addr_used s a"
  "pmm_inv (set_entry f i x s) = pmm_inv s" "pmm_inv (zero_frame f s) = pmm_inv s"
  "total_frames (set_entry f i x s) = total_frames s" "total_frames (zero_frame f s) = total_frames s"
  by (simp_all add: set_entry_def zero_frame_def)

lemma entry_mark [simp]:
  "entry (mark_used k s) f i = entry s f i" "entry (mark_free k s) f i = entry s f i"
  "pdir (mark_used k s) = pdir s" "pdir (mark_free k s) = pdir s"
  by (simp_all add: entry_def pdir_def)

lemma entry_cr3 [simp]: "entry (s\<lparr>cr3 := c\<rparr>) f i = entry s f i"
  by (simp add: entry_def)

lemma pdir_cr3 [simp]: "pdir (s\<lparr>cr3 := c\<rparr>) = c AND 0xFFFFF000"
  by (simp add: pdir_def)

section \<open>The temporary window\<close>

lemma temp_page_index:
  assumes "unat d < 4096"
  shows "pd_index (VMM_TEMP_PAGE + d) = 768" "pt_index (VMM_TEMP_PAGE + d) = 1023"
    "(VMM_TEMP_PAGE + d) AND 0xFFF = d"
proof -
  have al: "page_aligned VMM_TEMP_PAGE" by (simp add: page_aligned_def layout)
  have u: "unat (VMM_TEMP_PAGE + d) = 3225415680 + unat d"
    using unat_in_frame [OF al assms] by (simp add: layout)
  have "(3225415680 + unat d) div 4096 = 787455" using assms by simp
  moreover have "(3225415680 + unat d) div 4194304 = (3225415680 + unat d) div 4096 div 1024"
    by (simp flip: div_mult2_eq)
  ultimately show "pd_index (VMM_TEMP_PAGE + d) = 768" "pt_index (VMM_TEMP_PAGE + d) = 1023"
    by (simp_all add: word_unat_eq_iff page_arith u)
  show "(VMM_TEMP_PAGE + d) AND 0xFFF = d" by (rule offset_in_frame [OF al assms])
qed

lemma window_stable:
  assumes "cr0_pg s" "present (entry s (pdir s) 768)" "entry s (table s (pdir s) 768) 1023 = e"
    "present e" "frame_of e = f" "pdir s \<noteq> f" "table s (pdir s) 768 \<noteq> f"
  shows "stable_map s VMM_TEMP_PAGE f"
  unfolding stable_map_def
proof (intro conjI allI impI)
  show "page_aligned f" using assms(5) by auto
  fix m and d :: u32
  assume m: "\<forall>a. a AND 0xFFFFF000 \<noteq> f \<longrightarrow> m a = phys s a" and d: "unat d < 4096"
  have same: "entry (s\<lparr>phys := m\<rparr>) g j = entry s g j" if "page_aligned g" "g \<noteq> f" "unat j < 1024" for g j
    using that m by (auto intro!: entry_phys_cong)
  have "pdir (s\<lparr>phys := m\<rparr>) = pdir s" by (simp add: pdir_def)
  then show "translate (s\<lparr>phys := m\<rparr>) (VMM_TEMP_PAGE + d) = Some (f + d)"
    using assms temp_page_index [OF d] by (simp add: translate_def walk_def Let_def same)
qed

lemma recursive_map_set_entry:
  assumes "recursive_map s" "page_aligned f" "unat i < 1024" "f \<noteq> pdir s \<or> i \<noteq> 1023"
  shows "recursive_map (set_entry f i x s)"
  using assms by (auto simp: recursive_map_def entry_set_entry)

lemma recursive_map_zero_frame:
  "recursive_map s \<Longrightarrow> page_aligned f \<Longrightarrow> f \<noteq> pdir s \<Longrightarrow> recursive_map (zero_frame f s)"
  by (simp add: recursive_map_def entry_zero_frame)

text \<open>The kernel table, through which the window at 0xC03FF000 is set, is not the directory.\<close>

lemma kernel_table_not_dir: "dir_ok s d \<Longrightarrow> table s d 768 \<noteq> d"
  using dir_okD(5) [of s d 768 1023] dir_okD(2-4) [of s d] by force

text \<open>Mapping a frame into the window and clearing it through there.\<close>

definition opened :: "u32 \<Rightarrow> 'a machine_scheme \<Rightarrow> 'a machine_scheme" where
  "opened f s = zero_frame f (set_entry (table s (pdir s) 768) 1023 (f OR PAGE_PRESENT OR PAGE_WRITE) s)"

lemma entry_opened:
  assumes "page_aligned f" "page_aligned g" "unat j < 1024"
  shows "entry (opened f s) g j =
    (if f = g then 0
     else if g = table s (pdir s) 768 \<and> j = 1023 then f OR PAGE_PRESENT OR PAGE_WRITE
     else entry s g j)"
  using assms by (simp add: opened_def entry_zero_frame entry_set_entry)

lemma opened_simps [simp]:
  "cr3 (opened f s) = cr3 s" "cr0_pg (opened f s) = cr0_pg s" "pdir (opened f s) = pdir s"
  by (simp_all add: opened_def)

lemma opened_pmm [simp]:
  "frame_addr_used (opened f s) a = frame_addr_used s a" "pmm_inv (opened f s) = pmm_inv s"
  "total_frames (opened f s) = total_frames s"
  by (simp_all add: opened_def)

lemma open_window:
  assumes "cr0_pg s" "dir_ok s (pdir s)" "page_aligned f" "f \<noteq> pdir s" "f \<noteq> table s (pdir s) 768"
  shows "vstore32 (kernel_pt + 4 * 1023) (f OR PAGE_PRESENT OR PAGE_WRITE) s =
      Some (set_entry (table s (pdir s) 768) 1023 (f OR PAGE_PRESENT OR PAGE_WRITE) s)"
    and "memset VMM_TEMP_PAGE 0 (unat PAGE_SIZE)
      (set_entry (table s (pdir s) 768) 1023 (f OR PAGE_PRESENT OR PAGE_WRITE) s) = Some (opened f s)"
    and "recursive_map (opened f s)"
    and "stable_map (opened f s) VMM_TEMP_PAGE f"
proof -
  let ?K = "table s (pdir s) 768"
  have K: "?K \<noteq> pdir s" "page_aligned ?K" using kernel_table_not_dir [OF assms(2)] by simp_all
  have rec: "recursive_map s" using assms(1,2) dir_okD [OF assms(2)] by (simp add: recursive_map_def)
  note d = dir_okD [OF assms(2)]
  show "vstore32 (kernel_pt + 4 * 1023) (f OR PAGE_PRESENT OR PAGE_WRITE) s =
      Some (set_entry ?K 1023 (f OR PAGE_PRESENT OR PAGE_WRITE) s)"
    using table_steps(2) [OF rec, of 1023] d(4) by simp
  have "stable_map (set_entry ?K 1023 (f OR PAGE_PRESENT OR PAGE_WRITE) s) VMM_TEMP_PAGE f"
    using assms d(4) K window_entry [OF assms(3)] by (intro window_stable) (simp_all add: entry_set_entry)
  then show "memset VMM_TEMP_PAGE 0 (unat PAGE_SIZE)
      (set_entry ?K 1023 (f OR PAGE_PRESENT OR PAGE_WRITE) s) = Some (opened f s)"
    using memset_page by (simp add: PAGE_SIZE_def opened_def)
  show "recursive_map (opened f s)"
    unfolding opened_def using rec assms K
    by (intro recursive_map_zero_frame recursive_map_set_entry) auto
  show "stable_map (opened f s) VMM_TEMP_PAGE f"
    using assms d(4) K window_entry [OF assms(3)] by (intro window_stable) (simp_all add: entry_opened)
qed

section \<open>Mapping a page\<close>

text \<open>The state after a fresh table \<open>f\<close> was cleared and linked at directory entry \<open>i\<close>.\<close>

definition new_table :: "u32 \<Rightarrow> u32 \<Rightarrow> u32 \<Rightarrow> 'a machine_scheme \<Rightarrow> 'a machine_scheme" where
  "new_table f i flags s =
     set_entry (table s (pdir s) 768) 1023 0
       (set_entry (pdir s) i (f OR flags OR PAGE_PRESENT) (opened f s))"

lemma new_table_simps [simp]:
  "cr3 (new_table f i flags s) = cr3 s" "cr0_pg (new_table f i flags s) = cr0_pg s"
  "pdir (new_table f i flags s) = pdir s"
  by (simp_all add: new_table_def)

lemma new_table_pmm [simp]:
  "frame_addr_used (new_table f i flags s) a = frame_addr_used s a"
  "pmm_inv (new_table f i flags s) = pmm_inv s"
  by (simp_all add: new_table_def)

lemma entry_new_table:
  assumes "page_aligned f" "page_aligned g" "unat i < 1024" "unat j < 1024"
    "f \<noteq> pdir s" "f \<noteq> table s (pdir s) 768" "table s (pdir s) 768 \<noteq> pdir s"
  shows "entry (new_table f i flags s) g j =
    (if g = f then 0
     else if g = pdir s \<and> j = i then f OR flags OR PAGE_PRESENT
     else if g = table s (pdir s) 768 \<and> j = 1023 then 0
     else entry s g j)"
  using assms by (auto simp: new_table_def entry_set_entry entry_opened)

lemma phys_opened:
  assumes "a AND 0xFFFFF000 \<noteq> f" "a AND 0xFFFFF000 \<noteq> table s (pdir s) 768"
  shows "phys (opened f s) a = phys s a"
  using assms by (simp add: opened_def phys_zero_frame phys_set_entry)

lemma phys_new_table:
  assumes "unat i < 1024" "a AND 0xFFFFF000 \<noteq> f" "a AND 0xFFFFF000 \<noteq> table s (pdir s) 768"
    "a AND 0xFFFFF000 \<noteq> pdir s"
  shows "phys (new_table f i flags s) a = phys s a"
  using assms by (simp add: new_table_def phys_opened phys_set_entry)

text \<open>A frame just allocated is none of the paging structures.\<close>

lemma fresh_frame:
  assumes "pmm_inv s" "pmm_alloc_frame s = Some (f, t)" "f \<noteq> 0"
  shows "page_aligned f" "pmm_managed f" "pmm_inv t" "same_machine s t"
    "\<And>d i. dir_ok s d \<Longrightarrow> unat i < 1024 \<Longrightarrow> present (entry s d i) \<Longrightarrow> table s d i \<noteq> f"
    "\<And>d. dir_ok s d \<Longrightarrow> d \<noteq> f" "\<And>d. dir_ok s d \<Longrightarrow> dir_ok t d" "frame_addr_used t f"
    "\<And>a. frame_addr_used s a \<Longrightarrow> frame_addr_used t a"
proof -
  note a = pmm.alloc_fresh [OF assms]
  then show "page_aligned f" "pmm_managed f" "pmm_inv t" "frame_addr_used t f"
    by (auto simp: pmm_managed_def)
  from assms obtain k where t: "t = mark_used k s" by (elim pmm_alloc_frameE)
  then show "same_machine s t" by (simp add: same_machine_def)
  show used: "frame_addr_used s a \<Longrightarrow> frame_addr_used t a" for a
    by (simp add: t frame_addr_used_def)
  show ne: "table s d i \<noteq> f" if "dir_ok s d" "unat i < 1024" "present (entry s d i)" for d i
    using dir_okD(6) [OF that] a by auto
  show "d \<noteq> f" if "dir_ok s d" for d
    using ne [OF that, of 1023] dir_okD [OF that] by simp
  show "dir_ok t d" if "dir_ok s d" for d
    using that used by (rule dir_ok_cong) (simp_all add: t)
qed

lemma vmm_map_page_present:
  assumes "recursive_map s" "present (entry s (pdir s) (pd_index v))"
  shows "vmm_map_page v p flags s =
    Some (set_entry (table s (pdir s) (pd_index v)) (pt_index v) (frame_of p OR flags OR PAGE_PRESENT) s)"
  using assms directory_access(1) [OF assms(1), of "pd_index v"]
    table_access(2) [OF assms(1) _ _ assms(2), of "pt_index v"]
  by (simp add: vmm_map_page_def Let_def index_folds present_flags PAGE_SIZE_def)

lemma vmm_map_page_absent:
  assumes "vmm_inv s" "\<not> present (entry s (pdir s) (pd_index v))"
    and f: "pmm_alloc_frame s = Some (f, s1)" "f \<noteq> 0" and "flags AND 0xFFFFF000 = 0"
  shows "vmm_map_page v p flags s =
    Some (set_entry f (pt_index v) (frame_of p OR flags OR PAGE_PRESENT)
      (new_table f (pd_index v) flags s1))"
proof -
  note inv = vmm_invD [OF assms(1)]
  note fr = fresh_frame [OF inv(1) f]
  have acc: "entry s1 g i = entry s g i" "pdir s1 = pdir s" for g i
    using same_machine_accesses [OF fr(4)] by simp_all
  let ?i = "pd_index v" and ?D = "pdir s" and ?K = "table s (pdir s) 768"
  have pg: "cr0_pg s1" "dir_ok s1 ?D"
    using fr(4) inv by (simp_all add: same_machine_def fr(7))
  have ne: "f \<noteq> ?D" "f \<noteq> ?K" "?K \<noteq> ?D" and i: "?i \<noteq> 1023"
    using fr(5) [OF inv(3), of 768] fr(6) [OF inv(3)] dir_okD [OF inv(3)]
      kernel_table_not_dir [OF inv(3)] assms(2) by auto
  note w = open_window [of s1 f, unfolded acc, OF pg fr(1) ne(1,2)]
  have link: "vstore32 (VMM_PDT_VIRTUAL_ADDR + 4 * ?i) (f OR flags OR PAGE_PRESENT) (opened f s1) =
      Some (set_entry ?D ?i (f OR flags OR PAGE_PRESENT) (opened f s1))"
    using directory_access(2) [OF w(3), of ?i] by (simp add: acc)
  let ?t = "set_entry ?D ?i (f OR flags OR PAGE_PRESENT) (opened f s1)"
  have rec: "recursive_map ?t"
    using w(3) i by (intro recursive_map_set_entry) simp_all
  have close: "vstore32 (kernel_pt + 4 * 1023) 0 ?t = Some (new_table f ?i flags s1)"
    using table_steps(2) [OF rec, of 1023 0] dir_okD(4) [OF inv(3)] assms(2) fr(1) ne
      new_entry [OF fr(1) assms(5)]
    by (cases "?i = 768") (simp_all add: new_table_def acc entry_set_entry entry_opened)
  have rec': "recursive_map (new_table f ?i flags s1)"
    using ne unfolding new_table_def acc by (intro recursive_map_set_entry rec) (simp_all add: acc)
  have "entry (new_table f ?i flags s1) ?D ?i = f OR flags OR PAGE_PRESENT"
    using fr(1) ne by (simp add: entry_new_table acc)
  then have "vstore32 (0xFFC00000 + ?i * 4096 + 4 * pt_index v) x (new_table f ?i flags s1) =
      Some (set_entry f (pt_index v) x (new_table f ?i flags s1))" for x
    using table_access(2) [OF rec', of ?i "pt_index v"] new_entry [OF fr(1) assms(5)]
    by (simp add: acc)
  then show ?thesis
    using directory_access(1) [OF inv(4), of ?i] assms(2) f w(1,2) link close
    by (simp add: vmm_map_page_def Let_def index_folds present_flags PAGE_SIZE_def)
qed

lemma page_eq_iff:
  "v AND 0xFFFFF000 = w AND 0xFFFFF000 \<longleftrightarrow> pd_index v = pd_index w \<and> pt_index v = pt_index w"
proof -
  have split: "x div 4194304 = x div 4096 div 1024" for x :: nat by (simp flip: div_mult2_eq)
  have "x = y \<longleftrightarrow> x div 1024 = y div 1024 \<and> x mod 1024 = y mod (1024 :: nat)" for x y
    by (metis mod_div_decomp)
  from this [of "unat v div 4096" "unat w div 4096"] show ?thesis
    unfolding word_unat_eq_iff page_arith split by simp
qed

lemma translate_same_page:
  "v AND 0xFFFFF000 = w AND 0xFFFFF000 \<Longrightarrow> translate s v = None \<longleftrightarrow> translate s w = None"
  by (auto simp: page_eq_iff translate_def walk_def Let_def)

lemma temp_page_iff: "v AND 0xFFFFF000 = VMM_TEMP_PAGE \<longleftrightarrow> pd_index v = 768 \<and> pt_index v = 1023"
  using page_eq_iff [of v VMM_TEMP_PAGE] temp_page_index [of 0] by (simp add: layout)

text \<open>Linking a fresh table keeps the shape of the directory.\<close>

lemma dir_ok_link:
  assumes "dir_ok s d" "\<And>a. frame_addr_used s a \<Longrightarrow> frame_addr_used t a"
    and f: "pmm_managed f" "f \<noteq> 0" "frame_addr_used t f"
      "\<And>i. unat i < 1024 \<Longrightarrow> present (entry s d i) \<Longrightarrow> table s d i \<noteq> f"
    and "\<not> present (entry s d i)" "present (entry t d i)" "table t d i = f"
    and other: "\<And>j. unat j < 1024 \<Longrightarrow> j \<noteq> i \<Longrightarrow> entry t d j = entry s d j"
  shows "dir_ok t d"
proof -
  note d = dir_okD [OF assms(1)]
  have "i \<noteq> 1023" "i \<noteq> 768" using d(2,4) assms(7) by auto
  then have fixed: "entry t d 1023 = entry s d 1023" "entry t d 768 = entry s d 768"
    by (simp_all add: other)
  have "a = b" if "unat a < 1024" "unat b < 1024" "present (entry t d a)" "present (entry t d b)"
    "table t d a = table t d b" for a b
    using that d(5) [of a b] f(4) [of a] f(4) [of b] other [of a] other [of b] assms(9)
    by (cases "a = i"; cases "b = i") auto
  moreover have "pmm_managed (table t d a) \<and> table t d a \<noteq> 0 \<and> frame_addr_used t (table t d a)"
    if "unat a < 1024" "present (entry t d a)" for a
    using that d(6) [of a] assms(2,9) f(1-3) other [of a] by (cases "a = i") auto
  ultimately show ?thesis
    unfolding dir_ok_def fixed using d(1-4) by blast
qed

lemma vmm_map_page_keeps:
  assumes "vmm_inv s" "\<not> present (entry s (pdir s) i)" "unat i < 1024" "unat j < 1024"
    "pmm_alloc_frame s = Some (f, s1)" "f \<noteq> 0" "flags AND 0xFFFFF000 = 0"
  shows "vmm_inv (set_entry f j x (new_table f i flags s1))"
proof -
  note inv = vmm_invD [OF assms(1)]
  note fr = fresh_frame [OF inv(1) assms(5,6)]
  have acc: "entry s1 g i = entry s g i" "pdir s1 = pdir s" for g i
    using same_machine_accesses [OF fr(4)] by simp_all
  let ?t = "set_entry f j x (new_table f i flags s1)"
  have ne: "f \<noteq> pdir s" "f \<noteq> table s (pdir s) 768" "table s (pdir s) 768 \<noteq> pdir s"
    using fr(5) [OF inv(3), of 768] fr(6) [OF inv(3)] dir_okD [OF inv(3)]
      kernel_table_not_dir [OF inv(3)] by auto
  have e: "entry ?t (pdir s) k = (if k = i then f OR flags OR PAGE_PRESENT else entry s (pdir s) k)"
    if "unat k < 1024" for k
    using that assms(3,4) fr(1) ne by (simp add: entry_set_entry entry_new_table acc)
  have "dir_ok ?t (pdir s)"
  proof (rule dir_ok_link [OF inv(3) _ fr(2) assms(6) _ fr(5) assms(2)])
    show "frame_addr_used ?t f" by (simp add: fr(8))
    show "present (entry ?t (pdir s) i)" "table ?t (pdir s) i = f"
      using e [OF assms(3)] new_entry [OF fr(1) assms(7)] by simp_all
  qed (simp_all add: e fr(9) inv(3))
  then show ?thesis
    using inv(2) fr(3,4) acc by (simp add: vmm_inv_def same_machine_def)
qed

text \<open>The effect of one table entry on the walk of a directory.\<close>

lemma walk_set_entry:
  assumes "dir_ok s d" "unat i < 1024" "present (entry s d i)" "i \<noteq> 1023" "unat j < 1024"
    and "pd_index w \<noteq> 1023"
  shows "walk (set_entry (table s d i) j x s) d w =
    (if pd_index w = i \<and> pt_index w = j
     then (if present x then Some (frame_of x + (w AND 0xFFF)) else None)
     else walk s d w)"
proof -
  note d = dir_okD [OF assms(1)]
  have ne: "table s d i \<noteq> d"
    using d(5) [of i 1023] d(2,3) assms(2-4) by auto
  have e: "entry (set_entry (table s d i) j x s) d k = entry s d k" if "unat k < 1024" for k
    using that assms(5) ne d(1) by (simp add: entry_set_entry)
  have t: "entry (set_entry (table s d i) j x s) (table s d k) l =
      (if k = i \<and> l = j then x else entry s (table s d k) l)"
    if "present (entry s d k)" "unat k < 1024" "unat l < 1024" for k l
    using that d(5) [of i k] assms(2,3,5) by (auto simp: entry_set_entry)
  show ?thesis
  proof (cases "present (entry s d (pd_index w))")
    case True
    then show ?thesis unfolding walk_def Let_def e [OF pd_index_bound] t [OF True pd_index_bound pt_index_bound]
      by auto
  next
    case False
    then have "pd_index w \<noteq> i" using assms(3) by auto
    with False show ?thesis by (simp add: walk_def e)
  qed
qed

lemma vmm_inv_set_table:
  assumes "vmm_inv s" "unat i < 1024" "present (entry s (pdir s) i)" "i \<noteq> 1023" "unat j < 1024"
  shows "vmm_inv (set_entry (table s (pdir s) i) j x s)"
proof -
  note inv = vmm_invD [OF assms(1)] and d = dir_okD [OF vmm_invD(3) [OF assms(1)]]
  have "table s (pdir s) i \<noteq> pdir s" using d(5) [of i 1023] d(2,3) assms(2-4) by auto
  then have "dir_ok (set_entry (table s (pdir s) i) j x s) (pdir s)"
    using assms(5) by (intro dir_ok_cong [OF inv(3)]) (simp_all add: entry_set_entry)
  then show ?thesis using inv by (simp add: vmm_inv_def)
qed

lemma pmm_alloc_some:
  assumes "pmm_inv s" "\<exists>k < unat (total_frames s). \<not> frame_used s k"
  obtains f t where "pmm_alloc_frame s = Some (f, t)" "f \<noteq> 0"
proof -
  obtain k where k: "find_index (\<lambda>k. \<not> frame_used s k) 0 (unat (total_frames s)) = Some k"
    using assms(2) find_index_None_iff [of "\<lambda>k. \<not> frame_used s k" 0 "unat (total_frames s)"]
    by (cases "find_index (\<lambda>k. \<not> frame_used s k) 0 (unat (total_frames s))") auto
  then have "\<not> frame_used s k" "k < 32768"
    using assms(1) by (auto simp: find_index_Some_iff pmm_inv_def)
  then have "of_nat k * PAGE_SIZE \<noteq> (0 :: u32)"
    using assms(1) frame_addr_eq_iff [of k 0] by (auto simp: pmm_inv_def)
  with k that show thesis by (simp add: pmm_alloc_frame_spec [OF assms(1)])
qed

lemma pmm_alloc_none:
  assumes "pmm_inv s" "\<forall>k < unat (total_frames s). frame_used s k"
  shows "pmm_alloc_frame s = Some (0, s)"
proof -
  have "find_index (\<lambda>k. \<not> frame_used s k) 0 (unat (total_frames s)) = None"
    using assms(2) by (simp add: find_index_None_iff)
  then show ?thesis by (simp add: pmm_alloc_frame_spec [OF assms(1)])
qed

section \<open>Enough frames\<close>

definition free_frames :: "'a pmm_state_scheme \<Rightarrow> nat" where
  "free_frames s = card {k. k < unat (total_frames s) \<and> \<not> frame_used s k}"

lemma free_frames_phys [simp]:
  "free_frames (s\<lparr>phys := m\<rparr>) = free_frames s" "free_frames (set_entry f i x s) = free_frames s"
  "free_frames (zero_frame f s) = free_frames s"
  by (simp_all add: free_frames_def set_entry_def zero_frame_def)

lemma alloc_enough:
  assumes "pmm_inv s" "Suc n \<le> free_frames s"
  obtains f t where "pmm_alloc_frame s = Some (f, t)" "f \<noteq> 0" "n \<le> free_frames t" "pmm_inv t"
    "same_machine s t" "pmm_state.more t = pmm_state.more s" "page_aligned f" "pmm_managed f" "\<not> frame_addr_used s f"
    "\<And>a. pmm_managed a \<Longrightarrow> frame_addr_used t a \<longleftrightarrow> a = f \<or> frame_addr_used s a"
proof -
  let ?F = "{k. k < unat (total_frames s) \<and> \<not> frame_used s k}"
  have "?F \<noteq> {}" using assms(2) unfolding free_frames_def by (metis card.empty not_less_eq_eq zero_le)
  then obtain f t where f: "pmm_alloc_frame s = Some (f, t)" "f \<noteq> 0"
    using pmm_alloc_some [OF assms(1)] by blast
  note a = pmm.alloc_fresh [OF assms(1) f]
  obtain k where k: "k < unat (total_frames s)" "\<not> frame_used s k" "t = mark_used k s"
    using assms(1) f by (elim pmm_alloc_frameE)
  have "{j. j < unat (total_frames t) \<and> \<not> frame_used t j} = ?F - {k}" by (auto simp: k)
  then have "free_frames t = free_frames s - 1"
    using k by (simp add: free_frames_def card_Diff_singleton)
  then show thesis
    using that [OF f] a assms(2) by (auto simp: k pmm_managed_def same_machine_def)
qed

text \<open>
  What mapping \<open>v\<close> leaves alone in a walk: every page other than \<open>v\<close>'s, the temporary window,
  and the window of the tables themselves (directory entry 1023).
\<close>

definition unrelated :: "u32 \<Rightarrow> u32 \<Rightarrow> bool" where
  "unrelated v w \<longleftrightarrow> w AND 0xFFFFF000 \<noteq> v AND 0xFFFFF000 \<and>
     w AND 0xFFFFF000 \<noteq> VMM_TEMP_PAGE \<and> pd_index w \<noteq> 1023"

lemma walk_new_table:
  assumes "vmm_inv s" "\<not> present (entry s (pdir s) (pd_index v))"
    and f: "pmm_alloc_frame s = Some (f, s1)" "f \<noteq> 0" and "flags AND 0xFFFFF000 = 0"
    and t: "t = set_entry f (pt_index v) x (new_table f (pd_index v) flags s1)"
  shows "present x \<Longrightarrow> walk t (pdir s) v = Some (frame_of x + (v AND 0xFFF))"
    and "unrelated v w \<Longrightarrow> walk t (pdir s) w = walk s (pdir s) w"
proof -
  note inv = vmm_invD [OF assms(1)]
  note fr = fresh_frame [OF inv(1) f] and d = dir_okD [OF inv(3)]
  have acc: "entry s1 g i = entry s g i" "pdir s1 = pdir s" for g i
    using same_machine_accesses [OF fr(4)] by simp_all
  have ne: "f \<noteq> pdir s" "f \<noteq> table s (pdir s) 768" "table s (pdir s) 768 \<noteq> pdir s"
    using fr(5) [OF inv(3), of 768] fr(6) [OF inv(3)] d(4) kernel_table_not_dir [OF inv(3)] by auto
  have ed: "entry t (pdir s) k =
      (if k = pd_index v then f OR flags OR PAGE_PRESENT else entry s (pdir s) k)" if "unat k < 1024" for k
    using that ne fr(1) by (simp add: t entry_set_entry entry_new_table acc)
  have ef: "entry t f l = (if l = pt_index v then x else 0)" if "unat l < 1024" for l
    using that ne fr(1) by (auto simp: t entry_set_entry entry_new_table acc)
  have et: "entry t (table s (pdir s) k) l =
      (if k = 768 \<and> l = 1023 then 0 else entry s (table s (pdir s) k) l)"
    if "present (entry s (pdir s) k)" "unat k < 1024" "unat l < 1024" "k \<noteq> 1023" for k l
    using that ne fr(1) fr(5) [OF inv(3) that(2,1)] d(5) [of k 768] d(5) [of k 1023] d(2-4)
    by (auto simp: t entry_set_entry entry_new_table acc)
  show "walk t (pdir s) v = Some (frame_of x + (v AND 0xFFF))" if "present x"
    using that new_entry [OF fr(1) assms(5)] by (simp add: walk_def Let_def ed ef)
  assume u: "unrelated v w"
  then have w: "pd_index w = pd_index v \<Longrightarrow> pt_index w \<noteq> pt_index v"
    "\<not> (pd_index w = 768 \<and> pt_index w = 1023)" "pd_index w \<noteq> 1023"
    by (auto simp: unrelated_def page_eq_iff temp_page_iff)
  show "walk t (pdir s) w = walk s (pdir s) w"
  proof (cases "pd_index w = pd_index v")
    case True
    then show ?thesis
      using w(1) assms(2) new_entry [OF fr(1) assms(5)] by (simp add: walk_def Let_def ed ef)
  next
    case False
    then show ?thesis using w by (intro walk_cong) (auto simp: ed et)
  qed
qed

lemma phys_map_page:
  assumes "vmm_inv s" "\<not> present (entry s (pdir s) (pd_index v))"
    "pmm_alloc_frame s = Some (f, s1)" "f \<noteq> 0" "a AND 0xFFFFF000 \<noteq> f"
    "a AND 0xFFFFF000 \<noteq> pdir s" "a AND 0xFFFFF000 \<noteq> table s (pdir s) 768" "unat j < 1024"
  shows "phys (set_entry f j x (new_table f (pd_index v) flags s1)) a = phys s a"
proof -
  note inv = vmm_invD [OF assms(1)]
  note fr = fresh_frame [OF inv(1) assms(3,4)]
  have "pdir s1 = pdir s" "table s1 (pdir s1) 768 = table s (pdir s) 768" "phys s1 = phys s"
    using same_machine_accesses [OF fr(4)] fr(4) by (simp_all add: same_machine_def)
  then show ?thesis using assms(5-8) fr(1) by (simp add: phys_set_entry phys_new_table)
qed

text \<open>
  The state \<open>t\<close> is \<open>s\<close> with the page of \<open>v\<close> mapped to the frame of \<open>p\<close>: the walk of \<open>v\<close> and its
  table entry are as asked, unrelated pages translate as before, and memory outside the paging
  structures is untouched.
\<close>

definition page_mapped ::
  "u32 \<Rightarrow> u32 \<Rightarrow> u32 \<Rightarrow> 'a pmm_state_scheme \<Rightarrow> 'a pmm_state_scheme \<Rightarrow> bool" where
  "page_mapped v p flags s t \<longleftrightarrow>
     vmm_inv t \<and> cr3 t = cr3 s \<and>
     translate t v = Some (frame_of p + (v AND 0xFFF)) \<and>
     entry t (table t (pdir t) (pd_index v)) (pt_index v) = frame_of p OR flags OR PAGE_PRESENT \<and>
     (\<forall>w. unrelated v w \<longrightarrow> translate t w = translate s w) \<and>
     (\<forall>a. (\<forall>i. unat i < 1024 \<and> present (entry t (pdir t) i) \<longrightarrow>
            a AND 0xFFFFF000 \<noteq> table t (pdir t) i) \<longrightarrow> phys t a = phys s a)"

lemma page_mapped_present:
  assumes "vmm_inv s" "pd_index v \<noteq> 1023" "flags AND 0xFFFFF000 = 0"
    and True: "present (entry s (pdir s) (pd_index v))"
  shows "page_mapped v p flags s (set_entry (table s (pdir s) (pd_index v)) (pt_index v)
    (frame_of p OR flags OR PAGE_PRESENT) s)" (is "page_mapped v p flags s ?t")
proof -
  note inv = vmm_invD [OF assms(1)] and d = dir_okD [OF vmm_invD(3) [OF assms(1)]]
  let ?x = "frame_of p OR flags OR PAGE_PRESENT" and ?D = "pdir s"
  let ?F = "table s ?D (pd_index v)"
  have x: "present ?x" "frame_of ?x = frame_of p" using new_entry [of "frame_of p"] assms(3) by auto
  have F: "?F \<noteq> ?D" using d(5) [of "pd_index v" 1023] d(2,3) True assms(2) by auto
  then have e: "entry ?t ?D k = entry s ?D k" if "unat k < 1024" for k
    using that by (simp add: entry_set_entry)
  have "phys ?t a = phys s a" if "a AND 0xFFFFF000 \<noteq> ?F" for a
    using that by (simp add: phys_set_entry)
  then have "phys ?t a = phys s a"
    if "\<forall>i. unat i < 1024 \<and> present (entry ?t ?D i) \<longrightarrow> a AND 0xFFFFF000 \<noteq> table ?t ?D i" for a
    using that True e [of "pd_index v"] by (metis pd_index_bound)
  moreover have "translate ?t v = Some (frame_of p + (v AND 0xFFF))"
    using walk_set_entry [OF inv(3) _ True assms(2) _ assms(2), of "pt_index v" ?x] x inv(2)
    by (simp add: translate_def)
  moreover have "translate ?t w = translate s w" if "unrelated v w" for w
    using walk_set_entry [OF inv(3) _ True assms(2), of "pt_index v" w ?x] that inv(2)
    by (auto simp: translate_def unrelated_def page_eq_iff)
  moreover have "entry ?t ?F (pt_index v) = ?x" by (simp add: entry_set_entry)
  ultimately show ?thesis
    using vmm_inv_set_table [OF assms(1) _ True assms(2)] e by (simp add: page_mapped_def)
qed

lemma page_mapped_absent:
  assumes "vmm_inv s" "pd_index v \<noteq> 1023" "flags AND 0xFFFFF000 = 0"
    and False: "\<not> present (entry s (pdir s) (pd_index v))"
    and f: "pmm_alloc_frame s = Some (f, s1)" "f \<noteq> 0"
  shows "page_mapped v p flags s (set_entry f (pt_index v) (frame_of p OR flags OR PAGE_PRESENT)
    (new_table f (pd_index v) flags s1))" (is "page_mapped v p flags s ?t")
proof -
  note inv = vmm_invD [OF assms(1)] and d = dir_okD [OF vmm_invD(3) [OF assms(1)]]
  note fr = fresh_frame [OF inv(1) f]
  let ?x = "frame_of p OR flags OR PAGE_PRESENT" and ?D = "pdir s"
  have x: "present ?x" "frame_of ?x = frame_of p" using new_entry [of "frame_of p"] assms(3) by auto
  have pd: "pdir ?t = ?D" "cr0_pg ?t" "cr3 ?t = cr3 s"
    using same_machine_accesses [OF fr(4)] fr(4) inv(2) by (simp_all add: same_machine_def)
  have keeps: "vmm_inv ?t" by (rule vmm_map_page_keeps) (use assms in simp_all)
  note w = walk_new_table [OF assms(1) False f assms(3) refl, where x = ?x]
  have acc: "entry s1 g i = entry s g i" "pdir s1 = pdir s" for g i
    using same_machine_accesses [OF fr(4)] by simp_all
  have ne: "f \<noteq> ?D" "f \<noteq> table s ?D 768" "table s ?D 768 \<noteq> ?D"
    using fr(5) [OF inv(3), of 768] fr(6) [OF inv(3)] d(4) kernel_table_not_dir [OF inv(3)] by auto
  have e: "entry ?t ?D k = (if k = pd_index v then f OR flags OR PAGE_PRESENT else entry s ?D k)"
    if "unat k < 1024" for k
    using that ne fr(1) by (simp add: entry_set_entry entry_new_table acc)
  have tab: "present (entry ?t ?D (pd_index v))" "table ?t ?D (pd_index v) = f"
    using e [OF pd_index_bound] new_entry [OF fr(1) assms(3)] by simp_all
  moreover have "768 \<noteq> pd_index v" using False d(4) by auto
  then have "entry ?t ?D 768 = entry s ?D 768" using e [of 768] by simp
  moreover have "present (entry ?t ?D 1023)" "table ?t ?D 1023 = ?D"
    using e [of 1023] d(2,3) assms(2) by simp_all
  ultimately have "phys ?t a = phys s a"
    if "\<forall>i. unat i < 1024 \<and> present (entry ?t ?D i) \<longrightarrow> a AND 0xFFFFF000 \<noteq> table ?t ?D i" for a
    using that [rule_format, of "pd_index v"] that [rule_format, of 768] that [rule_format, of 1023] d(4)
    by (intro phys_map_page [OF assms(1) False f]) simp_all
  moreover have "entry ?t f (pt_index v) = ?x" using fr(1) by (simp add: entry_set_entry)
  ultimately show ?thesis
    using keeps w x pd inv(2) tab by (simp add: page_mapped_def translate_def)
qed

lemma set_in_new_table: "\<exists>m. set_entry f j x (new_table f i flags s) = s\<lparr>phys := m\<rparr>"
proof -
  have e: "\<exists>m. set_entry f i x (s\<lparr>phys := n\<rparr>) = s\<lparr>phys := m\<rparr>" for f i x n by (simp add: set_entry_def) blast
  have "\<exists>m. opened f s = s\<lparr>phys := m\<rparr>"
    unfolding opened_def set_entry_def zero_frame_def by (rule exI) simp
  then show ?thesis unfolding new_table_def using e by metis
qed

text \<open>The same with what it costs: at most one frame, for the table.\<close>

lemma vmm_map_page_effect:
  assumes "vmm_inv s" "pd_index v \<noteq> 1023" "flags AND 0xFFFFF000 = 0"
    and "present (entry s (pdir s) (pd_index v)) \<or> 1 \<le> free_frames s"
  obtains t where "vmm_map_page v p flags s = Some t" "page_mapped v p flags s t"
    "\<exists>m b. t = s\<lparr>phys := m, pmm_bitmap := b\<rparr>" "present (entry t (pdir t) (pd_index v))"
    "present (entry s (pdir s) (pd_index v)) \<Longrightarrow> pmm_bitmap t = pmm_bitmap s"
    "\<And>i. present (entry s (pdir s) (pd_index v)) \<Longrightarrow> unat i < 1024 \<Longrightarrow>
      entry t (pdir t) i = entry s (pdir s) i"
    "\<And>a. frame_addr_used s a \<Longrightarrow> frame_addr_used t a" "free_frames s \<le> Suc (free_frames t)"
proof (cases "present (entry s (pdir s) (pd_index v))")
  case True
  note inv = vmm_invD [OF assms(1)] and d = dir_okD [OF vmm_invD(3) [OF assms(1)]]
  let ?F = "table s (pdir s) (pd_index v)"
  let ?t = "set_entry ?F (pt_index v) (frame_of p OR flags OR PAGE_PRESENT) s"
  have "?F \<noteq> pdir s" using d(5) [of "pd_index v" 1023] d(2,3) True assms(2) by auto
  then have "present (entry ?t (pdir ?t) (pd_index v))"
    "\<And>i. unat i < 1024 \<Longrightarrow> entry ?t (pdir ?t) i = entry s (pdir s) i"
    using True by (simp_all add: entry_set_entry)
  moreover have "\<exists>m b. ?t = s\<lparr>phys := m, pmm_bitmap := b\<rparr>" "pmm_bitmap ?t = pmm_bitmap s"
    unfolding set_entry_def by (rule exI, rule exI [of _ "pmm_bitmap s"]) simp_all
  ultimately show thesis
    using vmm_map_page_present [OF inv(4) True] page_mapped_present [OF assms(1-3) True]
    by (intro that [of ?t]) simp_all
next
  case False
  note inv = vmm_invD [OF assms(1)]
  have one: "Suc 0 \<le> free_frames s" using False assms(4) by simp
  have "{k. k < unat (total_frames s) \<and> \<not> frame_used s k} \<noteq> {}"
    using one unfolding free_frames_def by (metis card.empty not_less_eq_eq zero_le)
  then obtain f s1 where f: "pmm_alloc_frame s = Some (f, s1)" "f \<noteq> 0"
    using pmm_alloc_some [OF inv(1)] by blast
  obtain k where k: "k < unat (total_frames s)" "\<not> frame_used s k" "s1 = mark_used k s"
    using inv(1) f by (elim pmm_alloc_frameE)
  have "{j. j < unat (total_frames s1) \<and> \<not> frame_used s1 j} =
      {j. j < unat (total_frames s) \<and> \<not> frame_used s j} - {k}" by (auto simp: k)
  then have fr: "free_frames s \<le> Suc (free_frames s1)"
    using k by (simp add: free_frames_def card_Diff_singleton)
  note fresh = fresh_frame [OF inv(1) f]
  let ?t = "set_entry f (pt_index v) (frame_of p OR flags OR PAGE_PRESENT) (new_table f (pd_index v) flags s1)"
  have m: "page_mapped v p flags s ?t" by (rule page_mapped_absent [OF assms(1-3) False f])
  obtain m where "?t = s1\<lparr>phys := m\<rparr>" using set_in_new_table [of f _ _ _ _ s1] by blast
  moreover obtain b where "s1 = s\<lparr>pmm_bitmap := b\<rparr>" by (simp add: k mark_used_def)
  ultimately have "?t = s\<lparr>phys := m, pmm_bitmap := b\<rparr>" by simp
  then have t: "\<exists>m b. ?t = s\<lparr>phys := m, pmm_bitmap := b\<rparr>" by blast
  have "translate ?t v \<noteq> None" using m by (simp add: page_mapped_def)
  then have "present (entry ?t (pdir ?t) (pd_index v))"
    using m by (auto simp: translate_def walk_def page_mapped_def vmm_inv_def Let_def split: if_splits)
  moreover have "frame_addr_used ?t a" if "frame_addr_used s a" for a using fresh(9) [OF that] by simp
  moreover have "free_frames ?t = free_frames s1"
    by (simp add: new_table_def opened_def)
  ultimately show thesis
    using vmm_map_page_absent [OF assms(1) False f assms(3)] m fr t False
    by (intro that [of ?t]) auto
qed

text \<open>
  C6: \<open>vmm_map_page\<close> on well-formed paging structures, for a page outside the recursive window,
  returns when the page table exists or a frame is free: afterwards the hardware translates
  every address of the page to the given frame, the table entry carries the flags, every other
  page (the temporary window excepted) translates as before, memory outside the paging
  structures is unchanged, and the structures are well-formed again.
\<close>

theorem vmm_map_page_correct:
  assumes "vmm_inv s" and "pd_index v \<noteq> 1023" and "flags AND 0xFFFFF000 = 0"
    and "present (entry s (pdir s) (pd_index v)) \<or> (\<exists>k < unat (total_frames s). \<not> frame_used s k)"
  shows "\<exists>t. vmm_map_page v p flags s = Some t \<and> page_mapped v p flags s t"
proof (cases "present (entry s (pdir s) (pd_index v))")
  case True
  then show ?thesis
    using vmm_map_page_present [OF vmm_invD(4) [OF assms(1)] True] page_mapped_present [OF assms(1-3) True]
    by blast
next
  case False
  then obtain f s1 where f: "pmm_alloc_frame s = Some (f, s1)" "f \<noteq> 0"
    using assms(4) pmm_alloc_some [OF vmm_invD(1) [OF assms(1)]] by metis
  then show ?thesis
    using vmm_map_page_absent [OF assms(1) False f assms(3)] page_mapped_absent [OF assms(1-3) False f]
    by blast
qed

text \<open>A small machine with paging on: directory, identity table and kernel table.\<close>

definition demo_vmm :: vmm_state where
  "demo_vmm = set_entry 0x180000 1023 0x180003 (set_entry 0x180000 768 0x182003
     (set_entry 0x180000 0 0x181003
       \<lparr>phys = \<lambda>_. 0, cr3 = 0x180000, cr0_pg = True, pmm_bitmap = (\<lambda>i. if i < 64 then 0xFF else 0),
        pmm_regions = [], total_frames = 600, current_pdt_phys = 0x180000, kernel_pdt_phys = 0x180000\<rparr>))"

lemma demo_vmm_simps:
  "cr3 demo_vmm = 0x180000" "cr0_pg demo_vmm" "pdir demo_vmm = 0x180000" "total_frames demo_vmm = 600"
  "kernel_pdt_phys demo_vmm = 0x180000"
  by (simp_all add: demo_vmm_def pdir_def) (simp add: set_entry_def)

lemma demo_vmm_entry:
  assumes "unat i < 1024"
  shows "entry demo_vmm 0x180000 i =
    (if i = 1023 then 0x180003 else if i = 768 then 0x182003 else if i = 0 then 0x181003 else 0)"
proof -
  have "page_aligned 0x180000" by (simp add: page_aligned_def)
  with assms show ?thesis by (simp add: demo_vmm_def entry_set_entry) (simp add: entry_def load32_def)
qed

lemma demo_vmm_used: "frame_used demo_vmm n \<longleftrightarrow> n < 512"
proof -
  have "bit (0xFF :: u8) (n mod 8)"
    using bit_mask_iff_u8 [of n] by (simp add: mask_eq_exp_minus_1)
  then show ?thesis by (auto simp: frame_used_def demo_vmm_def set_entry_def)
qed

lemma demo_vmm_inv: "vmm_inv demo_vmm"
proof -
  have "i = j" if "unat i < 1024" "unat j < 1024" "present (entry demo_vmm 0x180000 i)"
    "present (entry demo_vmm 0x180000 j)" "table demo_vmm 0x180000 i = table demo_vmm 0x180000 j" for i j
    using that by (auto simp: demo_vmm_entry split: if_splits)
  moreover have "pmm_managed (table demo_vmm 0x180000 i) \<and> table demo_vmm 0x180000 i \<noteq> 0 \<and>
      frame_addr_used demo_vmm (table demo_vmm 0x180000 i)"
    if "unat i < 1024" "present (entry demo_vmm 0x180000 i)" for i
    using that by (auto simp: demo_vmm_entry pmm_managed_def page_aligned_def frame_addr_used_def
        demo_vmm_used PAGE_SIZE_def split: if_splits)
  moreover have "page_aligned 0x180000" "present (entry demo_vmm 0x180000 1023)"
    "table demo_vmm 0x180000 1023 = 0x180000" "present (entry demo_vmm 0x180000 768)"
    by (simp_all add: demo_vmm_entry page_aligned_def)
  ultimately have "dir_ok demo_vmm 0x180000"
    unfolding dir_ok_def by blast
  then show ?thesis
    by (simp add: vmm_inv_def demo_vmm_simps pmm_inv_def demo_vmm_used)
qed

theorem vmm_map_page_correct_witness:
  "\<exists>t. vmm_map_page 0x08048123 0x00201FFF 7 demo_vmm = Some t \<and> vmm_inv t \<and>
    translate t 0x08048123 = Some 0x00201123 \<and> translate t 0xC0100000 = translate demo_vmm 0xC0100000"
proof -
  have "\<exists>k < unat (total_frames demo_vmm). \<not> frame_used demo_vmm k"
    by (auto simp: demo_vmm_simps demo_vmm_used intro!: exI [of _ 599])
  moreover have "pd_index 0x08048123 \<noteq> 1023" "unrelated 0x08048123 0xC0100000"
    by (simp_all add: pd_index_def unrelated_def layout drop_bit_eq_div)
  ultimately show ?thesis
    using vmm_map_page_correct [OF demo_vmm_inv, of "0x08048123" 7 "0x00201FFF"]
    by (force simp: page_mapped_def)
qed

section \<open>Translation, unmapping and exhaustion\<close>

lemma get_phys_addr_translate:
  assumes "vmm_inv s"
  shows "vmm_get_phys_addr v s = Some (case translate s v of Some a \<Rightarrow> a | None \<Rightarrow> 0)"
proof -
  note inv = vmm_invD [OF assms]
  show ?thesis
  proof (cases "present (entry s (pdir s) (pd_index v))")
    case True
    then show ?thesis
      using directory_access(1) [OF inv(4), of "pd_index v"] inv(2)
        table_access(1) [OF inv(4) _ _ True, of "pt_index v"]
      by (simp add: vmm_get_phys_addr_def Let_def index_folds present_flags PAGE_SIZE_def
          translate_def walk_def)
  next
    case False
    then show ?thesis
      using directory_access(1) [OF inv(4), of "pd_index v"] inv(2)
      by (simp add: vmm_get_phys_addr_def Let_def index_folds present_flags translate_def walk_def)
  qed
qed

text \<open>
  C15: \<open>vmm_get_phys_addr\<close> returns exactly what the hardware walk of the current directory
  gives, and 0 for a page that is not mapped; it never faults.
\<close>

theorem vmm_get_phys_addr_walk:
  assumes "vmm_inv s"
  shows "vmm_get_phys_addr v s = Some (case translate s v of Some a \<Rightarrow> a | None \<Rightarrow> 0)"
  by (rule get_phys_addr_translate [OF assms])

theorem vmm_get_phys_addr_walk_witness:
  "vmm_get_phys_addr 0x00801234 demo_vmm = Some 0"
proof -
  have "translate demo_vmm 0x00801234 = None"
    by (simp add: translate_def demo_vmm_simps walk_def demo_vmm_entry pd_index_def drop_bit_eq_div)
  then show ?thesis using vmm_get_phys_addr_walk [OF demo_vmm_inv, of "0x00801234"] by simp
qed

text \<open>
  C19: \<open>vmm_unmap_page\<close> on a page whose table exists removes the translation of that page and of
  no other; on a page without a table the store through the recursive window is a page fault
  in the kernel, as the code does not look at the directory entry first.
\<close>

theorem vmm_unmap_page_correct:
  assumes "vmm_inv s" "pd_index v \<noteq> 1023"
  shows "if present (entry s (pdir s) (pd_index v))
    then \<exists>t. vmm_unmap_page v s = Some t \<and> vmm_inv t \<and> translate t v = None \<and>
      (\<forall>w. w AND 0xFFFFF000 \<noteq> v AND 0xFFFFF000 \<and> pd_index w \<noteq> 1023 \<longrightarrow> translate t w = translate s w)
    else vmm_unmap_page v s = None"
proof -
  note inv = vmm_invD [OF assms(1)]
  show ?thesis
  proof (cases "present (entry s (pdir s) (pd_index v))")
    case True
    let ?t = "set_entry (table s (pdir s) (pd_index v)) (pt_index v) 0 s"
    have "vmm_unmap_page v s = Some ?t"
      using table_access(2) [OF inv(4) _ _ True, of "pt_index v"]
      by (simp add: vmm_unmap_page_def Let_def index_folds PAGE_SIZE_def)
    moreover have "vmm_inv ?t" using True assms by (intro vmm_inv_set_table) simp_all
    moreover have "translate ?t w = (if w AND 0xFFFFF000 = v AND 0xFFFFF000 then None else translate s w)"
      if "pd_index w \<noteq> 1023" for w
      using walk_set_entry [OF inv(3) _ True assms(2) _ that, of "pt_index v" 0] inv(2)
      by (simp add: translate_def page_eq_iff)
    ultimately show ?thesis using True assms(2) by auto
  next
    case False
    then show ?thesis
      using table_access_fault(2) [OF inv(4) _ _ False, of "pt_index v"]
      by (simp add: vmm_unmap_page_def Let_def index_folds PAGE_SIZE_def)
  qed
qed

theorem vmm_unmap_page_correct_witness:
  "(\<exists>t. vmm_unmap_page 0x00003000 demo_vmm = Some t \<and> translate t 0x00003000 = None) \<and>
   vmm_unmap_page 0x00801000 demo_vmm = None"
proof -
  have "pd_index 0x00003000 = 0" "pd_index 0x00801000 = 2"
    by (simp_all add: pd_index_def drop_bit_eq_div)
  then show ?thesis
    using vmm_unmap_page_correct [OF demo_vmm_inv, of "0x00003000"]
      vmm_unmap_page_correct [OF demo_vmm_inv, of "0x00801000"]
    by (auto simp: demo_vmm_simps demo_vmm_entry)
qed

text \<open>
  When the page table is missing and no frame is left, \<open>vmm_map_page\<close> returns without
  mapping anything and without telling its caller: the state is unchanged and the page still
  does not translate.
\<close>

theorem vmm_map_page_out_of_frames:
  assumes "vmm_inv s" "\<not> present (entry s (pdir s) (pd_index v))"
    and "\<forall>k < unat (total_frames s). frame_used s k"
  shows "vmm_map_page v p flags s = Some s \<and> translate s v = None"
proof -
  note inv = vmm_invD [OF assms(1)]
  show ?thesis
    using directory_access(1) [OF inv(4), of "pd_index v"] assms(2) inv(2) pmm_alloc_none [OF inv(1) assms(3)]
    by (simp add: vmm_map_page_def Let_def index_folds present_flags translate_def walk_def)
qed

definition demo_vmm_full :: vmm_state where
  "demo_vmm_full = demo_vmm\<lparr>total_frames := 512\<rparr>"

lemma demo_vmm_full_inv: "vmm_inv demo_vmm_full"
proof -
  have "dir_ok demo_vmm_full (pdir demo_vmm)"
    by (rule dir_ok_cong [OF vmm_invD(3) [OF demo_vmm_inv]])
      (simp_all add: demo_vmm_full_def entry_def frame_addr_used_def frame_used_def)
  then have "dir_ok demo_vmm_full (pdir demo_vmm_full)"
    by (simp add: demo_vmm_full_def pdir_def)
  then show ?thesis
    using vmm_invD [OF demo_vmm_inv]
    by (simp add: vmm_inv_def demo_vmm_full_def pmm_inv_def frame_used_def)
qed

theorem vmm_map_page_out_of_frames_witness:
  "vmm_map_page 0x00801000 0x00201000 7 demo_vmm_full = Some demo_vmm_full"
proof -
  have e: "entry demo_vmm_full f i = entry demo_vmm f i" "pdir demo_vmm_full = pdir demo_vmm" for f i
    by (simp_all add: demo_vmm_full_def entry_def pdir_def)
  have "\<not> present (entry demo_vmm_full (pdir demo_vmm_full) (pd_index 0x00801000))"
    by (simp add: e demo_vmm_simps demo_vmm_entry pd_index_def drop_bit_eq_div)
  moreover have "\<forall>k < unat (total_frames demo_vmm_full). frame_used demo_vmm_full k"
    using demo_vmm_used by (simp add: demo_vmm_full_def frame_used_def)
  ultimately show ?thesis using vmm_map_page_out_of_frames [OF demo_vmm_full_inv] by blast
qed

end
