(* ===== verification/AddressSpace.thy ===== *)
theory AddressSpace
  imports VMM
begin

text \<open>
  Page directories as address spaces, the second half of vmm.c: cloning the current directory
  for a new task, mapping a page in a directory that is not loaded, and releasing a directory.
\<close>

section \<open>Writing to one frame\<close>

definition only_frame :: "u32 \<Rightarrow> 'a machine_scheme \<Rightarrow> 'a machine_scheme \<Rightarrow> bool" where
  "only_frame f s t \<longleftrightarrow>
     (\<exists>m. t = s\<lparr>phys := m\<rparr> \<and> (\<forall>a. a AND 0xFFFFF000 \<noteq> f \<longrightarrow> m a = phys s a))"

lemma only_frameD:
  assumes "only_frame f s t"
  shows "cr3 t = cr3 s" "cr0_pg t = cr0_pg s" "pdir t = pdir s" "machine.more t = machine.more s"
    and "\<And>a. a AND 0xFFFFF000 \<noteq> f \<Longrightarrow> phys t a = phys s a"
    and "\<And>g i. page_aligned g \<Longrightarrow> g \<noteq> f \<Longrightarrow> unat i < 1024 \<Longrightarrow> entry t g i = entry s g i"
proof -
  obtain m where t: "t = s\<lparr>phys := m\<rparr>" using assms by (auto simp: only_frame_def)
  then show "cr3 t = cr3 s" "cr0_pg t = cr0_pg s" "pdir t = pdir s" "machine.more t = machine.more s"
    by (simp_all add: pdir_def)
  show ph: "phys t a = phys s a" if "a AND 0xFFFFF000 \<noteq> f" for a
    using that assms by (auto simp: only_frame_def)
  show "entry t g i = entry s g i" if "page_aligned g" "g \<noteq> f" "unat i < 1024" for g i
    using that ph by (auto intro: entry_phys_cong)
qed

lemma only_frame_refl: "only_frame f s s"
  unfolding only_frame_def by (rule exI [of _ "phys s"]) simp

lemma only_frame_trans: "only_frame f s t \<Longrightarrow> only_frame f t u \<Longrightarrow> only_frame f s u"
  by (force simp: only_frame_def)

lemma only_frame_set_entry:
  "page_aligned f \<Longrightarrow> unat i < 1024 \<Longrightarrow> only_frame f s (set_entry f i x s)"
  unfolding only_frame_def set_entry_def using store32_other_frame by blast

lemma only_frame_pmm:
  assumes "only_frame f s t"
  shows "frame_addr_used t a = frame_addr_used s a" "pmm_inv t = pmm_inv s"
proof -
  obtain m where "t = s\<lparr>phys := m\<rparr>" using assms by (auto simp: only_frame_def)
  then show "frame_addr_used t a = frame_addr_used s a" "pmm_inv t = pmm_inv s" by simp_all
qed

lemma stable_map_only_frame:
  assumes "stable_map s p f" "only_frame f s t"
  shows "stable_map t p f"
proof -
  obtain m where t: "t = s\<lparr>phys := m\<rparr>" "\<forall>a. a AND 0xFFFFF000 \<noteq> f \<longrightarrow> m a = phys s a"
    using assms(2) by (auto simp: only_frame_def)
  then show ?thesis using assms(1) unfolding stable_map_def t(1) by auto
qed

lemma recursive_map_only_frame:
  "recursive_map s \<Longrightarrow> only_frame f s t \<Longrightarrow> f \<noteq> pdir s \<Longrightarrow> recursive_map t"
  using only_frameD [of f s t] by (simp add: recursive_map_def)

text \<open>A word written through a stable mapping lands in its frame.\<close>

lemma window_store:
  assumes "stable_map s VMM_TEMP_PAGE f" "unat i < 1024"
  shows "vstore32 (VMM_TEMP_PAGE + 4 * i) x s = Some (set_entry f i x s)"
proof -
  have "unat (4 * i) < 4096" using assms(2) by (simp add: unat_4_times)
  then have "translate (s\<lparr>phys := phys s\<rparr>) (VMM_TEMP_PAGE + 4 * i) = Some (f + 4 * i)"
    using assms(1) unfolding stable_map_def by blast
  then have tr: "translate s (VMM_TEMP_PAGE + 4 * i) = Some (f + 4 * i)" by simp
  have "page_aligned VMM_TEMP_PAGE" by (simp add: page_aligned_def layout)
  then have "unat (VMM_TEMP_PAGE + 4 * i) = 3225415680 + 4 * unat i"
    using assms(2) unat_in_frame [of VMM_TEMP_PAGE "4 * i"] by (simp add: unat_4_times) (simp add: layout)
  also have "\<dots> = 4 * (806353920 + unat i)" by simp
  finally have "unat (VMM_TEMP_PAGE + 4 * i) mod 4 = 0" by (metis mod_mult_self1_is_0)
  from vstore32_aligned [OF this tr] show ?thesis by (simp add: set_entry_def)
qed

lemma vmm_copy_pdes_spec:
  assumes "recursive_map s" "stable_map s VMM_TEMP_PAGE f" "f \<noteq> pdir s" "unat i + n \<le> 1023"
  shows "\<exists>t. vmm_copy_pdes i n s = Some t \<and> only_frame f s t \<and>
    (\<forall>k. unat k < 1024 \<longrightarrow> entry t f k =
      (if unat i \<le> unat k \<and> unat k < unat i + n then entry s (pdir s) k else entry s f k))"
  using assms
proof (induction n arbitrary: i s)
  case 0
  then show ?case by (auto simp: only_frame_refl)
next
  case (Suc n)
  have f: "page_aligned f" using Suc.prems(2) by (simp add: stable_map_def)
  have i: "unat i < 1024" using Suc.prems(4) by simp
  let ?x = "entry s (pdir s) i"
  let ?t = "set_entry f i ?x s"
  have step: "vmm_copy_pdes i (Suc n) s = vmm_copy_pdes (i + 1) n ?t"
    using directory_access(1) [OF Suc.prems(1) i] window_store [OF Suc.prems(2) i] by simp
  have o: "only_frame f s ?t" by (rule only_frame_set_entry [OF f i])
  have i1: "unat (i + 1) = Suc (unat i)" using unat_add_no_wrap [of i 1] i by simp
  have "\<exists>u. vmm_copy_pdes (i + 1) n ?t = Some u \<and> only_frame f ?t u \<and>
    (\<forall>k. unat k < 1024 \<longrightarrow> entry u f k =
      (if unat (i + 1) \<le> unat k \<and> unat k < unat (i + 1) + n then entry ?t (pdir ?t) k else entry ?t f k))"
    using Suc.prems i1
    by (intro Suc.IH recursive_map_only_frame [OF _ o] stable_map_only_frame [OF _ o]) simp_all
  then obtain u where u: "vmm_copy_pdes (i + 1) n ?t = Some u" "only_frame f ?t u"
    "\<And>k. unat k < 1024 \<Longrightarrow> entry u f k =
      (if Suc (unat i) \<le> unat k \<and> unat k < Suc (unat i) + n then entry ?t (pdir s) k else entry ?t f k)"
    by (auto simp: i1)
  have e: "entry u f k = (if unat i \<le> unat k \<and> unat k < unat i + Suc n then entry s (pdir s) k else entry s f k)"
    if k: "unat k < 1024" for k
  proof (cases "k = i")
    case True
    then show ?thesis using u(3) [OF i] f i by (simp add: entry_set_entry)
  next
    case False
    then have "unat k \<noteq> unat i" by (simp add: word_unat_eq_iff)
    then show ?thesis using u(3) [OF k] f i k False Suc.prems(3) by (auto simp: entry_set_entry)
  qed
  show ?case using step u(1) only_frame_trans [OF o u(2)] e by auto
qed

section \<open>Cloning the current directory\<close>

lemma below_1023: "unat k < 1024 \<Longrightarrow> k \<noteq> 1023 \<Longrightarrow> unat (k :: u32) < 1023"
  by (cases "unat k = 1023") (auto simp: word_unat_eq_iff)

text \<open>The two loops together copy every entry but the last.\<close>

lemma vmm_copy_all:
  assumes "recursive_map s" "stable_map s VMM_TEMP_PAGE f" "f \<noteq> pdir s"
  shows "\<exists>t. do { s4 \<leftarrow> vmm_copy_pdes 0 768 s; vmm_copy_pdes 768 255 s4 } = Some t \<and> only_frame f s t \<and>
    (\<forall>k. unat k < 1024 \<longrightarrow> k \<noteq> 1023 \<longrightarrow> entry t f k = entry s (pdir s) k)"
proof -
  obtain s4 where s4: "vmm_copy_pdes 0 768 s = Some s4" "only_frame f s s4"
    "\<And>k. unat k < 1024 \<Longrightarrow> entry s4 f k = (if unat k < 768 then entry s (pdir s) k else entry s f k)"
    using vmm_copy_pdes_spec [OF assms, of 0 768] by auto
  have c4: "recursive_map s4" "stable_map s4 VMM_TEMP_PAGE f" "pdir s4 = pdir s"
    using recursive_map_only_frame [OF assms(1) s4(2)] stable_map_only_frame [OF assms(2) s4(2)]
      only_frameD(3) [OF s4(2)] assms(3) by simp_all
  obtain s5 where s5: "vmm_copy_pdes 768 255 s4 = Some s5" "only_frame f s4 s5"
    "\<And>k. unat k < 1024 \<Longrightarrow> entry s5 f k =
      (if 768 \<le> unat k \<and> unat k < 1023 then entry s4 (pdir s) k else entry s4 f k)"
    using vmm_copy_pdes_spec [OF c4(1,2), of 768 255] assms(3) c4(3) by auto
  have "entry s5 f k = entry s (pdir s) k" if "unat k < 1024" "k \<noteq> 1023" for k
    using s5(3) [OF that(1)] s4(3) [OF that(1)] only_frameD(6) [OF s4(2), of "pdir s" k] that
      below_1023 [OF that] assms(3) by auto
  with s4(1) s5(1) only_frame_trans [OF s4(2) s5(2)] show ?thesis by auto
qed

lemma vmm_clone_spec:
  assumes "vmm_inv s" "pmm_alloc_frame s = Some (f, s1)" "f \<noteq> 0"
  shows "\<exists>t. vmm_clone_kernel_mappings s = Some (f, set_entry (table s (pdir s) 768) 1023 0 t) \<and>
    only_frame f (opened f s1) t \<and>
    (\<forall>k. unat k < 1024 \<longrightarrow> entry t f k =
      (if k = 1023 then f OR PAGE_PRESENT OR PAGE_WRITE else entry s (pdir s) k))"
proof -
  note inv = vmm_invD [OF assms(1)]
  note fr = fresh_frame [OF inv(1) assms(2,3)] and d = dir_okD [OF inv(3)]
  have acc: "entry s1 g i = entry s g i" "pdir s1 = pdir s" for g i
    using same_machine_accesses [OF fr(4)] by simp_all
  have ne: "f \<noteq> pdir s" "f \<noteq> table s (pdir s) 768" "table s (pdir s) 768 \<noteq> pdir s"
    using fr(5) [OF inv(3), of 768] fr(6) [OF inv(3)] d(4) kernel_table_not_dir [OF inv(3)] by auto
  have pg: "cr0_pg s1" "dir_ok s1 (pdir s)" using fr(4) inv by (simp_all add: same_machine_def fr(7))
  note w = open_window [of s1 f, unfolded acc, OF pg fr(1) ne(1,2)]
  let ?s3 = "opened f s1"
  have dir: "entry ?s3 (pdir s) k = entry s (pdir s) k" if "unat k < 1024" for k
    using that ne fr(1) by (simp add: entry_opened acc)
  obtain s5 where s5: "do { s4 \<leftarrow> vmm_copy_pdes 0 768 ?s3; vmm_copy_pdes 768 255 s4 } = Some s5"
    "only_frame f ?s3 s5" "\<And>k. unat k < 1024 \<Longrightarrow> k \<noteq> 1023 \<Longrightarrow> entry s5 f k = entry s (pdir s) k"
    using vmm_copy_all [OF w(3,4)] ne dir by (auto simp: acc)
  let ?s6 = "set_entry f 1023 (f OR PAGE_PRESENT OR PAGE_WRITE) s5"
  have o6: "only_frame f ?s3 ?s6"
    using only_frame_trans [OF s5(2) only_frame_set_entry [OF fr(1)]] by simp
  have e6: "entry ?s6 f k = (if k = 1023 then f OR PAGE_PRESENT OR PAGE_WRITE else entry s (pdir s) k)"
    if "unat k < 1024" for k
    using that s5(3) fr(1) by (auto simp: entry_set_entry)
  have "vstore32 (VMM_TEMP_PAGE + 4 * 1023) (f OR PAGE_PRESENT OR PAGE_WRITE) s5 = Some ?s6"
    using stable_map_only_frame [OF w(4) s5(2)] by (intro window_store) simp_all
  moreover have "recursive_map ?s6" using recursive_map_only_frame [OF w(3) o6] ne by (simp add: acc)
  then have "vstore32 (kernel_pt + 4 * 1023) 0 ?s6 = Some (set_entry (table s (pdir s) 768) 1023 0 ?s6)"
    using table_steps(2) [of ?s6 1023 0] only_frameD [OF o6] d(4) dir [of 768] ne by (simp add: acc)
  ultimately have "vmm_clone_kernel_mappings s =
      Some (f, set_entry (table s (pdir s) 768) 1023 0 ?s6)"
    using assms(2,3) w(1,2) s5(1) by (simp add: vmm_clone_kernel_mappings_def bind_Some_iff) blast
  with o6 e6 show ?thesis by blast
qed

text \<open>
  A directory \<open>f\<close> is a copy of \<open>d\<close>: same entries but the recursive one. Both see the same pages.
\<close>

definition dir_copy :: "'a machine_scheme \<Rightarrow> u32 \<Rightarrow> u32 \<Rightarrow> bool" where
  "dir_copy s d f \<longleftrightarrow> (\<forall>k. unat k < 1024 \<and> k \<noteq> 1023 \<longrightarrow> entry s f k = entry s d k)"

lemma clone_effect:
  assumes "vmm_inv s" "pmm_alloc_frame s = Some (f, s1)" "f \<noteq> 0"
  obtains t where "vmm_clone_kernel_mappings s = Some (f, t)" "cr3 t = cr3 s" "cr0_pg t"
    "pmm_inv t" "\<exists>m. t = s1\<lparr>phys := m\<rparr>"
    "\<And>k. unat k < 1024 \<Longrightarrow> entry t f k =
      (if k = 1023 then f OR PAGE_PRESENT OR PAGE_WRITE else entry s (pdir s) k)"
    "\<And>g k. page_aligned g \<Longrightarrow> g \<noteq> f \<Longrightarrow> unat k < 1024 \<Longrightarrow>
      entry t g k = (if g = table s (pdir s) 768 \<and> k = 1023 then 0 else entry s g k)"
    "\<And>a. frame_addr_used t a = frame_addr_used s1 a"
proof -
  note inv = vmm_invD [OF assms(1)]
  note fr = fresh_frame [OF inv(1) assms(2,3)] and d = dir_okD [OF inv(3)]
  have acc: "entry s1 g i = entry s g i" "pdir s1 = pdir s" "cr3 s1 = cr3 s" "cr0_pg s1" for g i
    using same_machine_accesses [OF fr(4)] fr(4) inv(2) by (simp_all add: same_machine_def)
  let ?K = "table s (pdir s) 768"
  have ne: "f \<noteq> ?K" using fr(5) [OF inv(3), of 768] d(4) by auto
  obtain t where t: "vmm_clone_kernel_mappings s = Some (f, set_entry ?K 1023 0 t)"
    "only_frame f (opened f s1) t"
    "\<And>k. unat k < 1024 \<Longrightarrow> entry t f k =
      (if k = 1023 then f OR PAGE_PRESENT OR PAGE_WRITE else entry s (pdir s) k)"
    using vmm_clone_spec [OF assms] by blast
  note o = only_frameD [OF t(2)] only_frame_pmm [OF t(2)]
  show thesis
  proof (rule that [OF t(1)])
    show "entry (set_entry ?K 1023 0 t) g k = (if g = ?K \<and> k = 1023 then 0 else entry s g k)"
      if "page_aligned g" "g \<noteq> f" "unat k < 1024" for g k
      using that o(6) [OF that] fr(1) by (auto simp: entry_set_entry entry_opened acc)
    show "\<exists>m. set_entry ?K 1023 0 t = s1\<lparr>phys := m\<rparr>"
      using t(2) by (auto simp: only_frame_def set_entry_def opened_def zero_frame_def)
  qed (use t(3) ne fr(1,3) o acc in \<open>simp_all add: entry_set_entry\<close>)
qed

lemma clone_dir_ok:
  assumes "vmm_inv s" "pmm_alloc_frame s = Some (f, s1)" "f \<noteq> 0"
    and "\<And>k. unat k < 1024 \<Longrightarrow> entry t f k =
      (if k = 1023 then f OR PAGE_PRESENT OR PAGE_WRITE else entry s (pdir s) k)"
    and "\<And>a. frame_addr_used t a = frame_addr_used s1 a"
  shows "dir_ok t f"
proof -
  note inv = vmm_invD [OF assms(1)]
  note fr = fresh_frame [OF inv(1) assms(2,3)] and d = dir_okD [OF inv(3)]
  note w = window_entry [OF fr(1)]
  have "i = j" if "unat i < 1024" "unat j < 1024" "present (entry t f i)" "present (entry t f j)"
    "table t f i = table t f j" for i j
    using that d(5) [of i j] fr(5) [OF inv(3), of i] fr(5) [OF inv(3), of j] w
    by (cases "i = 1023"; cases "j = 1023") (auto simp: assms(4))
  moreover have "pmm_managed (table t f i) \<and> table t f i \<noteq> 0 \<and> frame_addr_used t (table t f i)"
    if "unat i < 1024" "present (entry t f i)" for i
    using that d(6) [of i] fr(2,8,9) w assms(3)
    by (cases "i = 1023") (auto simp: assms(4,5))
  moreover have "present (entry t f 1023)" "table t f 1023 = f" "present (entry t f 768)"
    using w d(4) assms(4) [of 1023] assms(4) [of 768] by simp_all
  ultimately show ?thesis unfolding dir_ok_def using fr(1) by blast
qed

text \<open>
  C16: When a frame is free, \<open>vmm_clone_kernel_mappings\<close> returns a fresh, well-formed directory
  that maps itself recursively and in which every page outside the temporary window and the
  recursive window translates as in the current directory; the current directory stays
  loaded, well-formed, and keeps its own translations.
\<close>

theorem vmm_clone_correct:
  assumes "vmm_inv s" and "\<exists>k < unat (total_frames s). \<not> frame_used s k"
  shows "\<exists>f t. vmm_clone_kernel_mappings s = Some (f, t) \<and> f \<noteq> 0 \<and> \<not> frame_addr_used s f \<and>
    dir_ok t f \<and> f \<noteq> pdir t \<and> vmm_inv t \<and> cr3 t = cr3 s \<and>
    (\<forall>w. w AND 0xFFFFF000 \<noteq> VMM_TEMP_PAGE \<and> pd_index w \<noteq> 1023 \<longrightarrow>
       walk t f w = translate s w \<and> translate t w = translate s w)"
proof -
  note inv = vmm_invD [OF assms(1)] and d = dir_okD [OF vmm_invD(3) [OF assms(1)]]
  obtain f s1 where f: "pmm_alloc_frame s = Some (f, s1)" "f \<noteq> 0"
    by (rule pmm_alloc_some [OF inv(1) assms(2)])
  note fr = fresh_frame [OF inv(1) f]
  obtain t where t: "vmm_clone_kernel_mappings s = Some (f, t)" "cr3 t = cr3 s" "cr0_pg t" "pmm_inv t"
    and ef: "\<And>k. unat k < 1024 \<Longrightarrow> entry t f k =
      (if k = 1023 then f OR PAGE_PRESENT OR PAGE_WRITE else entry s (pdir s) k)"
    and eg: "\<And>g k. page_aligned g \<Longrightarrow> g \<noteq> f \<Longrightarrow> unat k < 1024 \<Longrightarrow>
      entry t g k = (if g = table s (pdir s) 768 \<and> k = 1023 then 0 else entry s g k)"
    and us: "\<And>a. frame_addr_used t a = frame_addr_used s1 a"
    by (rule clone_effect [OF assms(1) f]) (rule that)
  have pd: "pdir t = pdir s" using t(2) by (simp add: pdir_def)
  have ne: "f \<noteq> pdir s" "table s (pdir s) 768 \<noteq> pdir s"
    using fr(6) [OF inv(3)] kernel_table_not_dir [OF inv(3)] by auto
  have ed: "entry t (pdir s) k = entry s (pdir s) k" if "unat k < 1024" for k
    using that eg [of "pdir s" k] ne by auto
  have "dir_ok t (pdir s)"
    using fr(9) us by (intro dir_ok_cong [OF inv(3)]) (simp_all add: ed)
  then have inv_t: "vmm_inv t" using t(3,4) pd by (simp add: vmm_inv_def)
  have et: "entry t (table s (pdir s) k) l = entry s (table s (pdir s) k) l"
    if "present (entry s (pdir s) k)" "unat k < 1024" "unat l < 1024" "\<not> (k = 768 \<and> l = 1023)" for k l
    using that eg [of "table s (pdir s) k" l] fr(5) [OF inv(3), of k] d(5) [of k 768] d(4) by auto
  have tr: "walk t f w = translate s w" "translate t w = translate s w"
    if "w AND 0xFFFFF000 \<noteq> VMM_TEMP_PAGE" "pd_index w \<noteq> 1023" for w
  proof -
    have w: "\<not> (pd_index w = 768 \<and> pt_index w = 1023)" using that by (simp add: temp_page_iff)
    have "walk t f w = walk s (pdir s) w"
      unfolding walk_def Let_def ef [OF pd_index_bound] using that(2) et [OF _ _ _ w] by auto
    then show "walk t f w = translate s w" using inv(2) by (simp add: translate_def)
    have "walk t (pdir s) w = walk s (pdir s) w"
      using et [OF _ _ _ w] by (intro walk_cong) (auto simp: ed)
    then show "translate t w = translate s w" using inv(2) t(3) pd by (simp add: translate_def)
  qed
  show ?thesis
    using t(1,2) f(2) pmm.alloc_fresh [OF inv(1) f] clone_dir_ok [OF assms(1) f ef us] ne pd inv_t tr
    by (intro exI [of _ f] exI [of _ t]) auto
qed

theorem vmm_clone_correct_witness:
  "\<exists>f t. vmm_clone_kernel_mappings demo_vmm = Some (f, t) \<and> f \<noteq> 0 \<and> vmm_inv t \<and>
    walk t f 0x00003000 = translate demo_vmm 0x00003000"
proof -
  have "\<exists>k < unat (total_frames demo_vmm). \<not> frame_used demo_vmm k"
    by (auto simp: demo_vmm_simps demo_vmm_used intro!: exI [of _ 599])
  moreover have "(0x00003000 :: u32) AND 0xFFFFF000 \<noteq> VMM_TEMP_PAGE" "pd_index 0x00003000 \<noteq> 1023"
    by (simp_all add: pd_index_def layout drop_bit_eq_div)
  ultimately show ?thesis using vmm_clone_correct [OF demo_vmm_inv] by blast
qed

section \<open>Mapping in another directory\<close>

lemma load_cr3_inv:
  assumes "vmm_inv s" "dir_ok s d"
  shows "vmm_inv (load_cr3 d s)" "pdir (load_cr3 d s) = d"
proof -
  show p: "pdir (load_cr3 d s) = d"
    using dir_okD(1) [OF assms(2)] by (simp add: load_cr3_def page_aligned_and_id)
  have "dir_ok (load_cr3 d s) d" using assms(2)
    by (rule dir_ok_cong) (simp_all add: load_cr3_def)
  then show "vmm_inv (load_cr3 d s)" using vmm_invD [OF assms(1)]
    by (simp add: vmm_inv_def p) (simp add: load_cr3_def)
qed

lemma walk_load_cr3 [simp]: "walk (load_cr3 c s) d v = walk s d v"
  by (simp add: walk_def load_cr3_def Let_def)

lemma entry_load_cr3 [simp]: "entry (load_cr3 c s) d i = entry s d i"
  by (simp add: load_cr3_def)

text \<open>What a fresh table in directory \<open>d\<close> leaves alone in the loaded directory.\<close>

lemma new_table_isolated:
  assumes "vmm_inv s" "dir_ok s d" "d \<noteq> pdir s" "table s d 768 = table s (pdir s) 768"
    and "\<forall>k. unat k < 1024 \<and> present (entry s (pdir s) k) \<longrightarrow> table s (pdir s) k \<noteq> d"
    and f: "pmm_alloc_frame (load_cr3 d s) = Some (f, s1)" "f \<noteq> 0"
    and t: "t = set_entry f (pt_index v) x (new_table f (pd_index v) flags s1)"
  shows "\<And>k. unat k < 1024 \<Longrightarrow> entry t (pdir s) k = entry s (pdir s) k"
    and "\<And>w. w AND 0xFFFFF000 \<noteq> VMM_TEMP_PAGE \<Longrightarrow> pd_index w \<noteq> 1023 \<Longrightarrow>
      walk t (pdir s) w = walk s (pdir s) w"
    and "\<And>a. frame_addr_used s a \<Longrightarrow> frame_addr_used t a"
proof -
  let ?s = "load_cr3 d s" and ?C = "pdir s"
  let ?K = "table s ?C 768"
  have apart: "table s ?C k \<noteq> d" if "unat k < 1024" "present (entry s ?C k)" for k
    using assms(5) that by blast
  note L = load_cr3_inv [OF assms(1,2)]
  note inv = vmm_invD [OF L(1)] and dC = dir_okD [OF vmm_invD(3) [OF assms(1)]]
  note fr = fresh_frame [OF inv(1) f]
  have acc: "entry s1 g i = entry s g i" "pdir s1 = d" for g i
    using same_machine_accesses [OF fr(4)] L(2) by simp_all
  have dC': "dir_ok ?s ?C"
    by (rule dir_ok_cong [OF vmm_invD(3) [OF assms(1)]]) (simp_all add: load_cr3_def)
  have ne: "f \<noteq> d" "f \<noteq> ?K" "?K \<noteq> d" "f \<noteq> ?C" "?K \<noteq> ?C"
    using fr(5) [OF dC', of 768] fr(6) [OF dC'] fr(6) [OF inv(3)] dC(4) apart [of 768] L(2)
      kernel_table_not_dir [OF vmm_invD(3) [OF assms(1)]] by auto
  have e: "entry t g j = (if g = ?K \<and> j = 1023 then 0 else entry s g j)"
    if "page_aligned g" "g \<noteq> f" "g \<noteq> d" "unat j < 1024" for g j
    using that ne fr(1) assms(4) by (simp add: t entry_set_entry entry_new_table acc)
  show eC: "entry t ?C k = entry s ?C k" if "unat k < 1024" for k
    using that e [of ?C k] ne assms(3) by auto
  have et: "entry t (table s ?C k) l = entry s (table s ?C k) l"
    if "present (entry s ?C k)" "unat k < 1024" "unat l < 1024" "\<not> (k = 768 \<and> l = 1023)" for k l
    using that e [of "table s ?C k" l] fr(5) [OF dC', of k] dC(5) [of k 768] dC(4) apart [of k] by auto
  show "walk t ?C w = walk s ?C w"
    if "w AND 0xFFFFF000 \<noteq> VMM_TEMP_PAGE" "pd_index w \<noteq> 1023" for w
    using that et [of "pd_index w" "pt_index w"] by (intro walk_cong) (auto simp: eC temp_page_iff)
  show "frame_addr_used t a" if "frame_addr_used s a" for a
    using fr(9) [of a] that by (simp add: t load_cr3_def)
qed

text \<open>
  C17: Mapping a page in another directory, one that has no table for it yet, maps it there and
  nowhere else: the loaded directory comes back into CR3 and every one of its pages outside the
  two windows translates as before. (The two directories share the kernel table and neither
  is a table of the other, as after \<open>vmm_clone_kernel_mappings\<close>.)
\<close>

theorem vmm_map_page_for_pdt_isolated:
  assumes "vmm_inv s" "dir_ok s d" "d \<noteq> pdir s" "table s d 768 = table s (pdir s) 768"
    and "\<forall>k. unat k < 1024 \<and> present (entry s (pdir s) k) \<longrightarrow> table s (pdir s) k \<noteq> d"
    and "\<not> present (entry s d (pd_index v))" "flags AND 0xFFFFF000 = 0"
    and "\<exists>k < unat (total_frames s). \<not> frame_used s k"
  shows "\<exists>t. vmm_map_page_for_pdt d v p flags s = Some t \<and> cr3 t = cr3 s \<and> vmm_inv t \<and> dir_ok t d \<and>
    walk t d v = Some (frame_of p + (v AND 0xFFF)) \<and>
    (\<forall>w. w AND 0xFFFFF000 \<noteq> VMM_TEMP_PAGE \<and> pd_index w \<noteq> 1023 \<longrightarrow> translate t w = translate s w)"
proof -
  let ?s = "load_cr3 d s" and ?C = "pdir s"
  note L = load_cr3_inv [OF assms(1,2)]
  note inv = vmm_invD [OF L(1)]
  have tf: "\<exists>k < unat (total_frames ?s). \<not> frame_used ?s k" using assms(8) by (simp add: load_cr3_def)
  obtain f s1 where f: "pmm_alloc_frame ?s = Some (f, s1)" "f \<noteq> 0"
    by (rule pmm_alloc_some [OF inv(1) tf])
  have absent: "\<not> present (entry ?s (pdir ?s) (pd_index v))" using assms(6) L(2) by simp
  then have v: "pd_index v \<noteq> 1023" using dir_okD(2) [OF inv(3)] by auto
  let ?x = "frame_of p OR flags OR PAGE_PRESENT"
  let ?t = "set_entry f (pt_index v) ?x (new_table f (pd_index v) flags s1)"
  let ?u = "load_cr3 (cr3 s) ?t"
  have "page_mapped v p flags ?s ?t"
    by (rule page_mapped_absent [OF L(1) v assms(7) absent f])
  then have mt: "vmm_inv ?t" "cr3 ?t = d" "walk ?t d v = Some (frame_of p + (v AND 0xFFF))" "pdir ?t = d"
    using L(2) dir_okD(1) [OF assms(2)] vmm_invD(2)
    by (auto simp: page_mapped_def translate_def pdir_def load_cr3_def page_aligned_and_id vmm_inv_def)
  note iso = new_table_isolated [OF assms(1-5) f refl]
  have "vmm_map_page_for_pdt d v p flags s = Some ?u"
    using vmm_map_page_absent [OF L(1) absent f assms(7)]
    by (simp add: vmm_map_page_for_pdt_def read_cr3_def)
  moreover have u: "pdir ?u = ?C" "cr0_pg ?u"
    using vmm_invD(2) [OF mt(1)] by (simp_all add: load_cr3_def pdir_def)
  moreover have "dir_ok ?u ?C"
    using iso by (intro dir_ok_cong [OF vmm_invD(3) [OF assms(1)]]) (simp_all add: load_cr3_def)
  moreover have "dir_ok ?u d"
    using vmm_invD(3) [OF mt(1)] unfolding mt(4) by (rule dir_ok_cong) (simp_all add: load_cr3_def)
  moreover have "translate ?u w = translate s w"
    if "w AND 0xFFFFF000 \<noteq> VMM_TEMP_PAGE" "pd_index w \<noteq> 1023" for w
    using iso(2) [OF that] vmm_invD(2) [OF assms(1)] u by (simp add: translate_def)
  ultimately show ?thesis
    using mt vmm_invD(1) [OF mt(1)]
    by (intro exI [of _ ?u]) (simp add: vmm_inv_def, simp add: load_cr3_def)
qed

text \<open>The demo machine after its directory was cloned.\<close>

lemma demo_clone:
  obtains f t where "vmm_clone_kernel_mappings demo_vmm = Some (f, t)" "f \<noteq> 0" "vmm_inv t" "dir_ok t f"
    "f \<noteq> pdir t" "pdir t = 0x180000" "table t f 768 = table t (pdir t) 768"
    "\<And>k. unat k < 1024 \<Longrightarrow> present (entry t (pdir t) k) \<Longrightarrow> table t (pdir t) k \<noteq> f"
    "\<And>k. unat k < 1024 \<Longrightarrow> k \<noteq> 1023 \<Longrightarrow> entry t f k = entry demo_vmm 0x180000 k"
    "\<And>k. unat k < 1024 \<Longrightarrow> entry t (pdir t) k = entry demo_vmm 0x180000 k"
    "\<exists>k < unat (total_frames t). \<not> frame_used t k" "kernel_pdt_phys t = 0x180000"
proof -
  note inv = vmm_invD [OF demo_vmm_inv]
  have a: "pmm_alloc_frame demo_vmm = Some (0x200000, mark_used 512 demo_vmm)"
  proof -
    have "find_index (\<lambda>k. \<not> frame_used demo_vmm k) 0 600 = Some 512"
      by (subst find_index_Some_iff) (auto simp: demo_vmm_used)
    then show ?thesis
      by (simp add: pmm_alloc_frame_spec [OF inv(1)] demo_vmm_simps) (simp add: PAGE_SIZE_def)
  qed
  have nz: "(0x200000 :: u32) \<noteq> 0" by simp
  obtain t where t: "vmm_clone_kernel_mappings demo_vmm = Some (0x200000, t)" "cr3 t = cr3 demo_vmm"
    "cr0_pg t" "pmm_inv t" "\<exists>m. t = (mark_used 512 demo_vmm)\<lparr>phys := m\<rparr>"
    and ef: "\<And>k. unat k < 1024 \<Longrightarrow> entry t 0x200000 k =
      (if k = 1023 then 0x200000 OR PAGE_PRESENT OR PAGE_WRITE else entry demo_vmm (pdir demo_vmm) k)"
    and eg: "\<And>g k. page_aligned g \<Longrightarrow> g \<noteq> 0x200000 \<Longrightarrow> unat k < 1024 \<Longrightarrow>
      entry t g k = (if g = table demo_vmm (pdir demo_vmm) 768 \<and> k = 1023 then 0 else entry demo_vmm g k)"
    and us: "\<And>a. frame_addr_used t a = frame_addr_used (mark_used 512 demo_vmm) a"
    by (rule clone_effect [OF demo_vmm_inv a nz]) (rule that)
  have pd: "pdir t = 0x180000" using t(2) by (simp add: pdir_def demo_vmm_simps)
  have al: "page_aligned 0x180000" by (simp add: page_aligned_def)
  have ed: "entry t 0x180000 k = entry demo_vmm 0x180000 k" if "unat k < 1024" for k
    using that eg [OF al] by (simp add: demo_vmm_simps demo_vmm_entry)
  have "dir_ok t 0x180000"
    by (rule dir_ok_cong [OF inv(3) [unfolded demo_vmm_simps]])
      (unfold us, simp_all only: frame_addr_used_def frame_used_mark_used ed simp_thms)
  then have it: "vmm_inv t" using t(3,4) pd by (simp add: vmm_inv_def)
  obtain m where m: "t = (mark_used 512 demo_vmm)\<lparr>phys := m\<rparr>" using t(5) by blast
  have tot: "total_frames t = 600" "kernel_pdt_phys t = 0x180000" "\<not> frame_used t 599"
    by (simp_all add: m demo_vmm_simps demo_vmm_used) (simp add: mark_used_def demo_vmm_simps)
  show thesis
  proof (rule that [OF t(1) nz it])
    show "dir_ok t 0x200000" by (rule clone_dir_ok [OF demo_vmm_inv a nz ef us])
    show "\<exists>k < unat (total_frames t). \<not> frame_used t k" using tot by (intro exI [of _ 599]) simp
  qed (use ef ed pd tot in \<open>auto simp: demo_vmm_simps demo_vmm_entry split: if_splits\<close>)
qed

theorem vmm_map_page_for_pdt_isolated_witness:
  "\<exists>f s t. vmm_clone_kernel_mappings demo_vmm = Some (f, s) \<and>
    vmm_map_page_for_pdt f 0x08048000 0x00250000 7 s = Some t \<and>
    walk t f 0x08048000 = Some 0x00250000 \<and> translate t 0x08048000 = translate s 0x08048000"
proof -
  obtain f s where s: "vmm_clone_kernel_mappings demo_vmm = Some (f, s)" "vmm_inv s" "dir_ok s f"
    "f \<noteq> pdir s" "table s f 768 = table s (pdir s) 768"
    "\<And>k. unat k < 1024 \<Longrightarrow> present (entry s (pdir s) k) \<Longrightarrow> table s (pdir s) k \<noteq> f"
    "\<And>k. unat k < 1024 \<Longrightarrow> k \<noteq> 1023 \<Longrightarrow> entry s f k = entry demo_vmm 0x180000 k"
    "\<exists>k < unat (total_frames s). \<not> frame_used s k"
    by (rule demo_clone) blast
  have "pd_index 0x08048000 = 32" by (simp add: pd_index_def drop_bit_eq_div)
  then have "\<not> present (entry s f (pd_index 0x08048000))" by (simp add: s(7) demo_vmm_entry)
  moreover have "(0x08048000 :: u32) AND 0xFFFFF000 \<noteq> VMM_TEMP_PAGE" by (simp add: layout)
  ultimately obtain t where "vmm_map_page_for_pdt f 0x08048000 0x00250000 7 s = Some t"
    "walk t f 0x08048000 = Some 0x00250000" "translate t 0x08048000 = translate s 0x08048000"
    using vmm_map_page_for_pdt_isolated [OF s(2-5), of "0x08048000" 7 "0x00250000"] s(6,8)
      \<open>pd_index 0x08048000 = 32\<close> by auto
  then show ?thesis using s(1) by blast
qed

text \<open>
  The clone shares the page tables of the current directory, user tables included: when
  the current directory already has a table for \<open>v\<close>, mapping \<open>v\<close> in the clone (any directory
  \<open>d\<close> whose entry points to the same table) changes the translation of \<open>v\<close> in the current
  directory too.
\<close>

theorem vmm_shared_table_visible:
  assumes "vmm_inv s" "dir_ok s d" "pd_index v \<noteq> 1023" "flags AND 0xFFFFF000 = 0"
    and "entry s d (pd_index v) = entry s (pdir s) (pd_index v)"
    and "present (entry s d (pd_index v))"
  shows "\<exists>t. vmm_map_page_for_pdt d v p flags s = Some t \<and>
    walk t d v = Some (frame_of p + (v AND 0xFFF)) \<and>
    translate t v = Some (frame_of p + (v AND 0xFFF))"
proof -
  let ?s = "load_cr3 d s" and ?x = "frame_of p OR flags OR PAGE_PRESENT"
  let ?F = "table s d (pd_index v)"
  note L = load_cr3_inv [OF assms(1,2)]
  have pres: "present (entry ?s (pdir ?s) (pd_index v))" using assms(6) L(2) by simp
  have x: "present ?x" "frame_of ?x = frame_of p" using new_entry [of "frame_of p"] assms(4) by auto
  let ?t = "set_entry ?F (pt_index v) ?x ?s"
  have run: "vmm_map_page_for_pdt d v p flags s = Some (load_cr3 (cr3 s) ?t)"
    using vmm_map_page_present [OF vmm_invD(4) [OF L(1)] pres] L(2)
    by (simp add: vmm_map_page_for_pdt_def read_cr3_def)
  have w: "walk ?t c v = Some (frame_of p + (v AND 0xFFF))"
    if c: "dir_ok s c" and e: "entry s c (pd_index v) = entry s d (pd_index v)" for c
  proof -
    have "dir_ok ?s c" by (rule dir_ok_cong [OF c]) (simp_all add: load_cr3_def)
    from walk_set_entry [OF this _ _ assms(3) _ assms(3), of "pt_index v" ?x]
    show ?thesis using assms(6) x e by simp
  qed
  have "translate (load_cr3 (cr3 s) ?t) v = walk ?t (pdir s) v"
    using vmm_invD(2) [OF assms(1)] by (simp add: translate_def) (simp add: load_cr3_def pdir_def)
  then show ?thesis
    using run w [OF assms(2)] w [OF vmm_invD(3) [OF assms(1)]] assms(5)
    by (intro exI [of _ "load_cr3 (cr3 s) ?t"]) simp
qed

theorem vmm_shared_table_visible_witness:
  "\<exists>f s t. vmm_clone_kernel_mappings demo_vmm = Some (f, s) \<and> f \<noteq> pdir s \<and>
    vmm_map_page_for_pdt f 0x00003000 0x00250000 7 s = Some t \<and> translate t 0x00003000 = Some 0x00250000"
proof -
  obtain f s where s: "vmm_clone_kernel_mappings demo_vmm = Some (f, s)" "vmm_inv s" "dir_ok s f"
    "f \<noteq> pdir s"
    "\<And>k. unat k < 1024 \<Longrightarrow> k \<noteq> 1023 \<Longrightarrow> entry s f k = entry demo_vmm 0x180000 k"
    "\<And>k. unat k < 1024 \<Longrightarrow> entry s (pdir s) k = entry demo_vmm 0x180000 k"
    by (rule demo_clone) blast
  have "pd_index 0x00003000 = 0" by (simp add: pd_index_def drop_bit_eq_div)
  then have "\<exists>t. vmm_map_page_for_pdt f 0x00003000 0x00250000 7 s = Some t \<and>
      walk t f 0x00003000 = Some 0x00250000 \<and> translate t 0x00003000 = Some 0x00250000"
    using vmm_shared_table_visible [OF s(2,3), of "0x00003000" 7 "0x00250000"] s(5) [of 0] s(6) [of 0]
    by (simp add: demo_vmm_entry)
  then show ?thesis using s(1,4) by blast
qed

section \<open>Releasing a directory\<close>

lemma pmm_free_managed:
  assumes "pmm_managed a"
  obtains k where "k < 32768" "a = of_nat k * PAGE_SIZE" "\<And>s. pmm_free_frame a s = Some (mark_free k s)"
    "\<And>s b. pmm_managed b \<Longrightarrow> frame_addr_used (mark_free k s) b \<longleftrightarrow> b \<noteq> a \<and> frame_addr_used s b"
    "\<And>s. a \<noteq> 0 \<Longrightarrow> pmm_inv s \<Longrightarrow> pmm_inv (mark_free k s)"
proof -
  obtain k where k: "k < 32768" "a = of_nat k * PAGE_SIZE" using assms by (auto simp: pmm_managed_iff)
  show thesis
  proof (rule that [OF k])
    show "pmm_free_frame a s = Some (mark_free k s)" for s using k by (simp add: pmm_free_frame_spec)
    show "frame_addr_used (mark_free k s) b \<longleftrightarrow> b \<noteq> a \<and> frame_addr_used s b" if "pmm_managed b" for s b
      using that k by (auto simp: pmm_managed_iff frame_addr_used_def frame_addr_div frame_addr_eq_iff)
    show "pmm_inv (mark_free k s)" if "a \<noteq> 0" "pmm_inv s" for s
      using that k by (cases "k = 0") (auto simp: pmm_inv_def)
  qed
qed

text \<open>The tables that the loop releases: those of \<open>n\<close> entries from \<open>i\<close> on.\<close>

definition tables_of :: "'a machine_scheme \<Rightarrow> u32 \<Rightarrow> nat \<Rightarrow> nat \<Rightarrow> u32 set" where
  "tables_of s d i n = table s d ` {k. i \<le> unat k \<and> unat k < i + n \<and> present (entry s d k)}"

lemma tables_of_0 [simp]: "tables_of s d i 0 = {}"
  by (simp add: tables_of_def)

lemma tables_of_Suc:
  assumes "unat i = m"
  shows "tables_of s d m (Suc n) =
    (if present (entry s d i) then insert (table s d i) (tables_of s d (Suc m) n) else tables_of s d (Suc m) n)"
proof -
  have "unat k = m \<longleftrightarrow> k = i" for k using assms by (auto simp: word_unat_eq_iff)
  then have "m \<le> unat k \<and> unat k < m + Suc n \<longleftrightarrow> k = i \<or> Suc m \<le> unat k \<and> unat k < Suc m + n" for k
    by (metis (no_types) Suc_leI add_Suc_right add_Suc_shift le_add1 le_imp_less_Suc le_neq_implies_less
        less_or_eq_imp_le not_less_eq_eq order_refl)
  then have "{k. m \<le> unat k \<and> unat k < m + Suc n \<and> present (entry s d k)} =
      {k. (k = i \<or> Suc m \<le> unat k \<and> unat k < Suc m + n) \<and> present (entry s d k)}"
    by (intro Collect_cong) blast
  also have "\<dots> = (if present (entry s d i)
      then insert i {k. Suc m \<le> unat k \<and> unat k < Suc m + n \<and> present (entry s d k)}
      else {k. Suc m \<le> unat k \<and> unat k < Suc m + n \<and> present (entry s d k)})"
    by (simp only: split: if_split) blast
  finally show ?thesis unfolding tables_of_def by simp
qed

lemma tables_of_cong:
  assumes "\<And>k. i \<le> unat k \<Longrightarrow> unat k < i + n \<Longrightarrow> entry t d k = entry s d k"
  shows "tables_of t d i n = tables_of s d i n"
proof -
  have "{k. i \<le> unat k \<and> unat k < i + n \<and> present (entry t d k)} =
      {k. i \<le> unat k \<and> unat k < i + n \<and> present (entry s d k)}"
    by (intro Collect_cong conj_cong refl) (simp add: assms)
  then show ?thesis unfolding tables_of_def by (intro image_cong) (simp_all add: assms)
qed

lemma vmm_free_user_tables_spec:
  fixes s :: "'a pmm_state_scheme"
  assumes "recursive_map s" "pmm_inv s" "unat i + n \<le> 768"
    and "\<forall>a \<in> tables_of s (pdir s) (unat i) n. pmm_managed a \<and> a \<noteq> 0"
  shows "\<exists>t. vmm_free_user_tables i n s = Some t \<and> recursive_map t \<and> pmm_inv t \<and> cr3 t = cr3 s \<and>
    pmm_state.more t = pmm_state.more s \<and>
    (\<forall>a. a AND 0xFFFFF000 \<noteq> pdir s \<longrightarrow> phys t a = phys s a) \<and>
    (\<forall>b. pmm_managed b \<longrightarrow> frame_addr_used t b =
       (frame_addr_used s b \<and> b \<notin> tables_of s (pdir s) (unat i) n))"
  using assms
proof (induction n arbitrary: i s)
  case 0
  then show ?case by simp
next
  case (Suc n)
  have i: "unat i < 1024" "i \<noteq> 1023" using Suc.prems(3) by auto
  have i1: "unat (i + 1) = Suc (unat i)" using unat_add_no_wrap [of i 1] i by simp
  have sets: "tables_of s (pdir s) (unat i) (Suc n) =
      (if present (entry s (pdir s) i) then insert (table s (pdir s) i) (tables_of s (pdir s) (unat (i + 1)) n)
       else tables_of s (pdir s) (unat (i + 1)) n)"
    unfolding i1 by (rule tables_of_Suc) simp
  note rd = directory_access(1) [OF Suc.prems(1) i(1)]
  show ?case
  proof (cases "present (entry s (pdir s) i)")
    case False
    then have step: "vmm_free_user_tables i (Suc n) s = vmm_free_user_tables (i + 1) n s"
      using rd by (simp add: present_flags)
    have set_eq: "tables_of s (pdir s) (unat i) (Suc n) = tables_of s (pdir s) (unat (i + 1)) n"
      using sets False by (simp only: if_False)
    show ?thesis
      unfolding step set_eq
      by (rule Suc.IH [OF Suc.prems(1,2) _ Suc.prems(4) [unfolded set_eq]]) (use Suc.prems(3) i1 in simp)
  next
    case True
    let ?F = "table s (pdir s) i"
    have set_eq: "tables_of s (pdir s) (unat i) (Suc n) = insert ?F (tables_of s (pdir s) (unat (i + 1)) n)"
      using sets True by (simp only: if_True simp_thms)
    have F: "pmm_managed ?F" "?F \<noteq> 0" using Suc.prems(4) unfolding set_eq by blast+
    obtain k where k: "\<And>u :: 'a pmm_state_scheme. pmm_free_frame ?F u = Some (mark_free k u)"
      "\<And>(u :: 'a pmm_state_scheme) b. pmm_managed b \<Longrightarrow> frame_addr_used (mark_free k u) b \<longleftrightarrow> b \<noteq> ?F \<and> frame_addr_used u b"
      "\<And>u :: 'a pmm_state_scheme. ?F \<noteq> 0 \<Longrightarrow> pmm_inv u \<Longrightarrow> pmm_inv (mark_free k u)"
      by (rule pmm_free_managed [OF F(1)]) blast
    let ?u = "mark_free k (set_entry (pdir s) i 0 s)"
    have u: "recursive_map ?u" "pmm_inv ?u" "cr3 ?u = cr3 s" "pdir ?u = pdir s"
      using recursive_map_set_entry [OF Suc.prems(1), of "pdir s" i 0] i k(3) F(2) Suc.prems(2)
      by (simp_all add: recursive_map_def)
    have more: "pmm_state.more ?u = pmm_state.more s" by (simp add: set_entry_def)
    have e: "entry ?u (pdir s) j = (if j = i then 0 else entry s (pdir s) j)" if "unat j < 1024" for j
      using that i by (simp add: entry_set_entry)
    have rest: "tables_of ?u (pdir ?u) (unat (i + 1)) n = tables_of s (pdir s) (unat (i + 1)) n"
      unfolding u(4) by (rule tables_of_cong) (use Suc.prems(3) i1 e in auto)
    have step: "vmm_free_user_tables i (Suc n) s = vmm_free_user_tables (i + 1) n ?u"
      using True F k(1) rd directory_access(2) [OF Suc.prems(1) i(1)]
      by (simp add: present_flags Let_def)
    have ph: "phys ?u a = phys s a" if "a AND 0xFFFFF000 \<noteq> pdir s" for a
      using that i by (simp add: phys_set_entry)
    have pre: "unat (i + 1) + n \<le> 768" "\<forall>a \<in> tables_of ?u (pdir ?u) (unat (i + 1)) n. pmm_managed a \<and> a \<noteq> 0"
      using Suc.prems(3,4) i1 unfolding rest set_eq by (simp, blast)
    have "\<exists>t. vmm_free_user_tables (i + 1) n ?u = Some t \<and> recursive_map t \<and> pmm_inv t \<and> cr3 t = cr3 ?u \<and>
      pmm_state.more t = pmm_state.more ?u \<and>
      (\<forall>a. a AND 0xFFFFF000 \<noteq> pdir ?u \<longrightarrow> phys t a = phys ?u a) \<and>
      (\<forall>b. pmm_managed b \<longrightarrow> frame_addr_used t b =
         (frame_addr_used ?u b \<and> b \<notin> tables_of ?u (pdir ?u) (unat (i + 1)) n))"
      by (rule Suc.IH [OF u(1,2) pre])
    then obtain t where t: "vmm_free_user_tables (i + 1) n ?u = Some t" "recursive_map t" "pmm_inv t"
      "cr3 t = cr3 s" "pmm_state.more t = pmm_state.more s"
      "\<And>a. a AND 0xFFFFF000 \<noteq> pdir s \<Longrightarrow> phys t a = phys ?u a"
      "\<And>b. pmm_managed b \<Longrightarrow> frame_addr_used t b =
         (frame_addr_used ?u b \<and> b \<notin> tables_of s (pdir s) (unat (i + 1)) n)"
      unfolding rest [unfolded u(4)] u(3,4) more by blast
    have "frame_addr_used t b = (frame_addr_used s b \<and> b \<notin> tables_of s (pdir s) (unat i) (Suc n))"
      if "pmm_managed b" for b
      unfolding t(7) [OF that] k(2) [OF that] set_eq table_changes_pmm by blast
    with step t(1-6) ph show ?thesis by auto
  qed
qed

text \<open>
  C20: \<open>vmm_free_page_directory\<close> of a well-formed directory other than the kernel's and not the
  loaded one: it returns with CR3 restored, releases exactly the directory's frame and the
  tables of its entries below the kernel base, and writes to no frame but the directory. The
  kernel directory and the null address are left alone.
\<close>

theorem vmm_free_page_directory_correct:
  fixes s :: "'a vmm_state_scheme"
  assumes "vmm_inv s" "dir_ok s d"
  shows "if d = kernel_pdt_phys s then vmm_free_page_directory d s = Some s
    else \<exists>t. vmm_free_page_directory d s = Some t \<and> cr3 t = cr3 s \<and> pmm_inv t \<and>
      (\<forall>a. a AND 0xFFFFF000 \<noteq> d \<longrightarrow> phys t a = phys s a) \<and>
      (\<forall>b. pmm_managed b \<longrightarrow> frame_addr_used t b =
         (frame_addr_used s b \<and> b \<noteq> d \<and> b \<notin> tables_of s d 0 768))"
proof (cases "d = kernel_pdt_phys s")
  case True
  then show ?thesis by (simp add: vmm_free_page_directory_def)
next
  case False
  note L = load_cr3_inv [OF assms] and d = dir_okD [OF assms(2)]
  note inv = vmm_invD [OF L(1)]
  have m: "pmm_managed d" "d \<noteq> 0" using d(6) [of 1023] d(2,3) by auto
  have tab: "tables_of (load_cr3 d s) d (unat (0 :: u32)) 768 = tables_of s d 0 768"
    by (simp add: tables_of_def)
  have ok: "pmm_managed a \<and> a \<noteq> 0" if "a \<in> tables_of s d 0 768" for a
  proof -
    obtain k where k: "a = table s d k" "unat k < 768" "present (entry s d k)"
      using \<open>a \<in> tables_of s d 0 768\<close> unfolding tables_of_def by auto
    show ?thesis using d(6) [of k] k by auto
  qed
  obtain s1 where s1: "vmm_free_user_tables 0 768 (load_cr3 d s) = Some s1" "recursive_map s1" "pmm_inv s1"
    "cr3 s1 = d" "\<And>a. a AND 0xFFFFF000 \<noteq> d \<Longrightarrow> phys s1 a = phys s a"
    "\<And>b. pmm_managed b \<Longrightarrow> frame_addr_used s1 b = (frame_addr_used s b \<and> b \<notin> tables_of s d 0 768)"
    using vmm_free_user_tables_spec [OF inv(4,1), of 0 768, unfolded L(2) tab] ok
    by (auto simp: load_cr3_def)
  have p1: "pdir s1 = d" using s1(4) d(1) by (simp add: pdir_def page_aligned_and_id)
  have clear: "vstore32 (VMM_PDT_VIRTUAL_ADDR + 4 * 1023) 0 s1 = Some (set_entry d 1023 0 s1)"
    using directory_access(2) [OF s1(2), of 1023] p1 by simp
  obtain k where k: "\<And>u :: 'a vmm_state_scheme. pmm_free_frame d u = Some (mark_free k u)"
    "\<And>(u :: 'a vmm_state_scheme) b. pmm_managed b \<Longrightarrow> frame_addr_used (mark_free k u) b \<longleftrightarrow> b \<noteq> d \<and> frame_addr_used u b"
    "\<And>u :: 'a vmm_state_scheme. d \<noteq> 0 \<Longrightarrow> pmm_inv u \<Longrightarrow> pmm_inv (mark_free k u)"
    by (rule pmm_free_managed [OF m(1)]) blast
  let ?t = "mark_free k (load_cr3 (cr3 s) (set_entry d 1023 0 s1))"
  have run: "vmm_free_page_directory d s = Some ?t"
    using False m(2) s1(1) clear k(1) by (simp add: vmm_free_page_directory_def read_cr3_def Let_def)
  have ph: "phys ?t a = phys s a" if "a AND 0xFFFFF000 \<noteq> d" for a
    using that s1(5) [OF that] phys_set_entry [OF d(1) _ that, of 1023 0 s1] by (simp add: load_cr3_def)
  have us: "frame_addr_used ?t b = (frame_addr_used s b \<and> b \<noteq> d \<and> b \<notin> tables_of s d 0 768)"
    if "pmm_managed b" for b
    unfolding k(2) [OF that] using s1(6) [OF that] by (auto simp: load_cr3_def)
  have "pmm_inv ?t" "cr3 ?t = cr3 s"
    using k(3) [OF m(2)] s1(3) by (simp_all add: load_cr3_def)
  with run ph us False show ?thesis by (intro iffD2 [OF if_not_P] exI [of _ ?t]) blast+
qed

theorem vmm_free_page_directory_correct_witness:
  "\<exists>f s t. vmm_clone_kernel_mappings demo_vmm = Some (f, s) \<and> f \<noteq> kernel_pdt_phys s \<and>
    vmm_free_page_directory f s = Some t \<and> cr3 t = cr3 s \<and> \<not> frame_addr_used t f"
proof -
  obtain f s where s: "vmm_clone_kernel_mappings demo_vmm = Some (f, s)" "f \<noteq> 0" "vmm_inv s" "dir_ok s f"
    "f \<noteq> pdir s" "pdir s = 0x180000" "kernel_pdt_phys s = 0x180000"
    by (rule demo_clone) blast
  have "pmm_managed f" using dir_okD(2,3,6) [OF s(4)] by force
  then show ?thesis using vmm_free_page_directory_correct [OF s(3,4)] s by auto
qed

text \<open>
  Releasing a clone releases page tables that the current directory still uses: every
  table below the kernel base that both directories point to (after a clone: all of them, the
  table of the identity-mapped first 4 MiB included) is free in the bitmap afterwards while the
  entry of the current directory still points to it.
\<close>

theorem vmm_free_shared_table:
  assumes "vmm_inv s" "dir_ok s d" "d \<noteq> kernel_pdt_phys s" "d \<noteq> pdir s"
    and "unat i < 768" "entry s d i = entry s (pdir s) i" "present (entry s d i)"
  shows "\<exists>t. vmm_free_page_directory d s = Some t \<and> pdir t = pdir s \<and>
    entry t (pdir t) i = entry s (pdir s) i \<and> \<not> frame_addr_used t (table t (pdir t) i) \<and> \<not> vmm_inv t"
proof -
  obtain t where t: "vmm_free_page_directory d s = Some t" "cr3 t = cr3 s"
    "\<And>a. a AND 0xFFFFF000 \<noteq> d \<Longrightarrow> phys t a = phys s a"
    "\<And>b. pmm_managed b \<Longrightarrow> frame_addr_used t b =
      (frame_addr_used s b \<and> b \<noteq> d \<and> b \<notin> tables_of s d 0 768)"
    using vmm_free_page_directory_correct [OF assms(1,2)] assms(3) by auto
  have p: "pdir t = pdir s" using t(2) by (simp add: pdir_def)
  have i: "unat i < 1024" using assms(5) by simp
  have e: "entry t (pdir s) i = entry s (pdir s) i"
    using assms(4) t(3) by (intro entry_phys_cong i) auto
  have "table s d i \<in> tables_of s d 0 768"
    using assms(5,7) unfolding tables_of_def by (intro imageI) simp
  then have free: "\<not> frame_addr_used t (table t (pdir s) i)"
    using t(4) dir_okD(6) [OF assms(2) i assms(7)] assms(6) e by auto
  then have "\<not> vmm_inv t"
    using dir_okD(6) [of t "pdir s" i] p i e assms(6,7) by (auto simp: vmm_inv_def)
  with t(1) p e free show ?thesis by auto
qed

theorem vmm_free_shared_table_witness:
  "\<exists>f s t. vmm_clone_kernel_mappings demo_vmm = Some (f, s) \<and> vmm_free_page_directory f s = Some t \<and>
    pdir t = 0x180000 \<and> entry t 0x180000 0 = 0x181003 \<and> \<not> frame_addr_used t 0x181000"
proof -
  obtain f s where s: "vmm_clone_kernel_mappings demo_vmm = Some (f, s)" "vmm_inv s" "dir_ok s f"
    "f \<noteq> pdir s" "pdir s = 0x180000" "kernel_pdt_phys s = 0x180000"
    "\<And>k. unat k < 1024 \<Longrightarrow> k \<noteq> 1023 \<Longrightarrow> entry s f k = entry demo_vmm 0x180000 k"
    "\<And>k. unat k < 1024 \<Longrightarrow> entry s (pdir s) k = entry demo_vmm 0x180000 k"
    by (rule demo_clone) blast
  have e: "entry s f 0 = 0x181003" "entry s (pdir s) 0 = 0x181003"
    using s(7) [of 0] s(8) [of 0] by (simp_all add: demo_vmm_entry)
  have "f \<noteq> kernel_pdt_phys s" using s(4-6) by simp
  from vmm_free_shared_table [OF s(2,3) this s(4), of 0] show ?thesis
    using s(1,5) e by auto
qed

end
