(* ===== verification/Block.thy ===== *)
theory Block
  imports Prelude
begin

text \<open>
  The ATA PIO driver drivers/ata.c and the block layer drivers/block.c above it. The I/O ports are
  hardware: the driver takes them as an argument \<open>hw\<close>, four functions on a device state of any
  type, and the driver's own code is the sequence of port accesses it makes through them.

  The locale \<open>block_device\<close> states what fat16.c relies on: a read delivers the 512 bytes of the
  sector and a write replaces them. It is interpreted on the driver running on \<open>pio_ports\<close>, the
  register-level behaviour of a 28-bit LBA disk: the drive of the interpretation is a concrete
  state machine, the code between it and the file system is the driver's.
\<close>

record 'd ports =
  p_inb :: "u16 \<Rightarrow> 'd \<Rightarrow> u8 \<times> 'd"
  p_inw :: "u16 \<Rightarrow> 'd \<Rightarrow> u16 \<times> 'd"
  p_outb :: "u16 \<Rightarrow> u8 \<Rightarrow> 'd \<Rightarrow> 'd"
  p_outw :: "u16 \<Rightarrow> u16 \<Rightarrow> 'd \<Rightarrow> 'd"

definition ATA_PRIMARY_IO_BASE :: u16 where
  "ATA_PRIMARY_IO_BASE = 0x1F0"

definition ATA_PRIMARY_CTRL_BASE :: u16 where
  "ATA_PRIMARY_CTRL_BASE = 0x3F6"

definition ata_io_wait :: "'d ports \<Rightarrow> 'd \<Rightarrow> 'd" where
  "ata_io_wait hw d =
    (let d1 = snd (p_inb hw ATA_PRIMARY_CTRL_BASE d);
         d2 = snd (p_inb hw ATA_PRIMARY_CTRL_BASE d1);
         d3 = snd (p_inb hw ATA_PRIMARY_CTRL_BASE d2)
     in snd (p_inb hw ATA_PRIMARY_CTRL_BASE d3))"

text \<open>The polling loops; the argument counts the iterations left.\<close>

primrec not_busy_loop :: "'d ports \<Rightarrow> nat \<Rightarrow> 'd \<Rightarrow> int \<times> 'd" where
  "not_busy_loop hw 0 d = (- 1, d)"
| "not_busy_loop hw (Suc n) d =
    (let (status, d1) = p_inb hw (ATA_PRIMARY_IO_BASE + 7) d
     in if status AND 0x80 = 0 then (0, d1) else not_busy_loop hw n d1)"

definition ata_wait_not_busy :: "'d ports \<Rightarrow> 'd \<Rightarrow> int \<times> 'd" where
  "ata_wait_not_busy hw d = not_busy_loop hw 1000000 d"

primrec drq_loop :: "'d ports \<Rightarrow> nat \<Rightarrow> 'd \<Rightarrow> int \<times> 'd" where
  "drq_loop hw 0 d = (- 1, d)"
| "drq_loop hw (Suc n) d =
    (let (status, d1) = p_inb hw (ATA_PRIMARY_IO_BASE + 7) d
     in if status AND 0x01 \<noteq> 0 then (- 1, d1)
        else if status AND 0x80 = 0 \<and> status AND 0x08 \<noteq> 0 then (0, d1)
        else drq_loop hw n d1)"

definition ata_wait_drq :: "'d ports \<Rightarrow> 'd \<Rightarrow> int \<times> 'd" where
  "ata_wait_drq hw d = drq_loop hw 1000000 d"

definition ata_set_lba :: "'d ports \<Rightarrow> u32 \<Rightarrow> u8 \<Rightarrow> 'd \<Rightarrow> int \<times> 'd" where
  "ata_set_lba hw lba count d =
    (if count = 0 then (- 1, d)
     else let d1 = p_outb hw (ATA_PRIMARY_IO_BASE + 2) count d;
              d2 = p_outb hw (ATA_PRIMARY_IO_BASE + 3) (ucast (lba AND 0xFF)) d1;
              d3 = p_outb hw (ATA_PRIMARY_IO_BASE + 4) (ucast (drop_bit 8 lba AND 0xFF)) d2;
              d4 = p_outb hw (ATA_PRIMARY_IO_BASE + 5) (ucast (drop_bit 16 lba AND 0xFF)) d3;
              d5 = p_outb hw (ATA_PRIMARY_IO_BASE + 6) (ucast (0xE0 OR (drop_bit 24 lba AND 0x0F))) d4
          in (0, d5))"

text \<open>\<open>n\<close> words from and to the data register; a word is its two bytes, low byte first.\<close>

primrec ata_read_words :: "'d ports \<Rightarrow> nat \<Rightarrow> 'd \<Rightarrow> u8 list \<times> 'd" where
  "ata_read_words hw 0 d = ([], d)"
| "ata_read_words hw (Suc n) d =
    (let (w, d1) = p_inw hw ATA_PRIMARY_IO_BASE d;
         (bs, d2) = ata_read_words hw n d1
     in (ucast w # ucast (drop_bit 8 w) # bs, d2))"

definition ata_read_data :: "'d ports \<Rightarrow> 'd \<Rightarrow> u8 list \<times> 'd" where
  "ata_read_data hw d = ata_read_words hw 256 d"

definition word_of :: "u8 \<Rightarrow> u8 \<Rightarrow> u16" where
  "word_of lo hi = ucast lo OR push_bit 8 (ucast hi)"

fun ata_write_words :: "'d ports \<Rightarrow> u8 list \<Rightarrow> 'd \<Rightarrow> 'd" where
  "ata_write_words hw (lo # hi # bs) d =
    ata_write_words hw bs (p_outw hw ATA_PRIMARY_IO_BASE (word_of lo hi) d)"
| "ata_write_words hw _ d = d"

definition ata_write_data :: "'d ports \<Rightarrow> u8 list \<Rightarrow> 'd \<Rightarrow> 'd" where
  "ata_write_data hw buffer d = ata_write_words hw (take 512 buffer) d"

text \<open>
  One sector. The result is the sector read, or \<open>None\<close> for the return value \<open>-1\<close>; a write
  returns the C value. The callers of this file never pass a NULL buffer.
\<close>

definition ata_read_sector_internal :: "'d ports \<Rightarrow> u32 \<Rightarrow> 'd \<Rightarrow> u8 list option \<times> 'd" where
  "ata_read_sector_internal hw lba d =
    (let (r1, d1) = ata_wait_not_busy hw d in if r1 < 0 then (None, d1)
     else let (r2, d2) = ata_set_lba hw lba 1 d1 in if r2 < 0 then (None, d2)
     else let d3 = p_outb hw (ATA_PRIMARY_IO_BASE + 7) 0x20 d2;
              (r4, d4) = ata_wait_drq hw d3 in if r4 < 0 then (None, d4)
     else let (bs, d5) = ata_read_data hw d4
          in (Some bs, ata_io_wait hw d5))"

definition ata_write_sector_internal :: "'d ports \<Rightarrow> u32 \<Rightarrow> u8 list \<Rightarrow> 'd \<Rightarrow> int \<times> 'd" where
  "ata_write_sector_internal hw lba buffer d =
    (let (r1, d1) = ata_wait_not_busy hw d in if r1 < 0 then (- 1, d1)
     else let (r2, d2) = ata_set_lba hw lba 1 d1 in if r2 < 0 then (- 1, d2)
     else let d3 = p_outb hw (ATA_PRIMARY_IO_BASE + 7) 0x30 d2;
              (r4, d4) = ata_wait_drq hw d3 in if r4 < 0 then (- 1, d4)
     else let d5 = ata_io_wait hw (ata_write_data hw buffer d4)
          in ata_wait_not_busy hw d5)"

definition ata_init :: "'d ports \<Rightarrow> 'd \<Rightarrow> int \<times> 'd" where
  "ata_init hw d =
    (let (r1, d1) = ata_wait_not_busy hw d in if r1 < 0 then (- 1, d1)
     else let d2 = p_outb hw (ATA_PRIMARY_IO_BASE + 6) 0xA0 d1;
              d3 = ata_io_wait hw d2;
              (status, d4) = p_inb hw (ATA_PRIMARY_IO_BASE + 7) d3
          in if status = 0xFF \<or> status = 0 then (- 1, d4) else (0, d4))"

definition ata_is_present :: "'d ports \<Rightarrow> 'd \<Rightarrow> bool \<times> 'd" where
  "ata_is_present hw d = (let (r, d1) = ata_init hw d in (r = 0, d1))"

primrec ata_read_loop :: "'d ports \<Rightarrow> nat \<Rightarrow> u32 \<Rightarrow> 'd \<Rightarrow> u8 list option \<times> 'd" where
  "ata_read_loop hw 0 lba d = (Some [], d)"
| "ata_read_loop hw (Suc n) lba d =
    (case ata_read_sector_internal hw lba d of
       (None, d1) \<Rightarrow> (None, d1)
     | (Some bs, d1) \<Rightarrow>
         (case ata_read_loop hw n (lba + 1) d1 of
            (None, d2) \<Rightarrow> (None, d2)
          | (Some cs, d2) \<Rightarrow> (Some (bs @ cs), d2)))"

definition ata_read_sectors :: "'d ports \<Rightarrow> u32 \<Rightarrow> u32 \<Rightarrow> 'd \<Rightarrow> u8 list option \<times> 'd" where
  "ata_read_sectors hw lba count d =
    (if count = 0 then (None, d) else ata_read_loop hw (unat count) lba d)"

primrec ata_write_loop :: "'d ports \<Rightarrow> nat \<Rightarrow> u32 \<Rightarrow> u8 list \<Rightarrow> 'd \<Rightarrow> int \<times> 'd" where
  "ata_write_loop hw 0 lba buffer d = (0, d)"
| "ata_write_loop hw (Suc n) lba buffer d =
    (let (r, d1) = ata_write_sector_internal hw lba buffer d
     in if r < 0 then (- 1, d1) else ata_write_loop hw n (lba + 1) (drop 512 buffer) d1)"

definition ata_write_sectors :: "'d ports \<Rightarrow> u32 \<Rightarrow> u8 list \<Rightarrow> u32 \<Rightarrow> 'd \<Rightarrow> int \<times> 'd" where
  "ata_write_sectors hw lba buffer count d =
    (if count = 0 then (- 1, d) else ata_write_loop hw (unat count) lba buffer d)"

definition block_init :: "'d ports \<Rightarrow> 'd \<Rightarrow> int \<times> 'd" where
  "block_init hw d = ata_init hw d"

definition block_read :: "'d ports \<Rightarrow> u32 \<Rightarrow> u32 \<Rightarrow> 'd \<Rightarrow> u8 list option \<times> 'd" where
  "block_read hw lba count d = ata_read_sectors hw lba count d"

definition block_write :: "'d ports \<Rightarrow> u32 \<Rightarrow> u8 list \<Rightarrow> u32 \<Rightarrow> 'd \<Rightarrow> int \<times> 'd" where
  "block_write hw lba buffer count d = ata_write_sectors hw lba buffer count d"

section \<open>The interface of the block layer\<close>

type_synonym disk = "u32 \<Rightarrow> u8 list"

locale block_device =
  fixes hw :: "'d ports"
    and disk_of :: "'d \<Rightarrow> disk"
    and ok :: "'d \<Rightarrow> bool"
  assumes read_law: "ok d \<Longrightarrow> lba < 0x10000000 \<Longrightarrow>
      \<exists>d'. block_read hw lba 1 d = (Some (disk_of d lba), d') \<and> ok d' \<and> disk_of d' = disk_of d"
    and write_law: "ok d \<Longrightarrow> lba < 0x10000000 \<Longrightarrow> length buffer = 512 \<Longrightarrow>
      \<exists>d'. block_write hw lba buffer 1 d = (0, d') \<and> ok d' \<and> disk_of d' = (disk_of d)(lba := buffer)"
    and sector_law: "ok d \<Longrightarrow> length (disk_of d lba) = 512"

section \<open>A disk behind the ports\<close>

text \<open>
  The task-file registers, the words still to be read of the current sector, and the bytes
  received so far of the sector that is being written.
\<close>

datatype transfer = Idle | Reading "u8 list" | Writing "u8 list"

record pio =
  r_low :: u8
  r_mid :: u8
  r_high :: u8
  r_head :: u8
  xfer :: transfer
  sectors :: "u32 \<Rightarrow> u8 list"

definition pio_lba :: "pio \<Rightarrow> u32" where
  "pio_lba d = ucast (r_low d) OR push_bit 8 (ucast (r_mid d)) OR push_bit 16 (ucast (r_high d)) OR
     push_bit 24 (ucast (r_head d AND 0x0F))"

definition pio_inb :: "u16 \<Rightarrow> pio \<Rightarrow> u8 \<times> pio" where
  "pio_inb p d =
    (if p = 0x1F7 then (case xfer d of Idle \<Rightarrow> 0x40 | _ \<Rightarrow> 0x48, d) else (0, d))"

definition pio_outb :: "u16 \<Rightarrow> u8 \<Rightarrow> pio \<Rightarrow> pio" where
  "pio_outb p v d =
    (if p = 0x1F3 then d\<lparr>r_low := v\<rparr> else if p = 0x1F4 then d\<lparr>r_mid := v\<rparr>
     else if p = 0x1F5 then d\<lparr>r_high := v\<rparr> else if p = 0x1F6 then d\<lparr>r_head := v\<rparr>
     else if p = 0x1F7 \<and> v = 0x20 then d\<lparr>xfer := Reading (sectors d (pio_lba d))\<rparr>
     else if p = 0x1F7 \<and> v = 0x30 then d\<lparr>xfer := Writing []\<rparr>
     else d)"

definition pio_inw :: "u16 \<Rightarrow> pio \<Rightarrow> u16 \<times> pio" where
  "pio_inw p d =
    (case xfer d of
       Reading (lo # hi # bs) \<Rightarrow>
         (word_of lo hi, d\<lparr>xfer := (if bs = [] then Idle else Reading bs)\<rparr>)
     | _ \<Rightarrow> (0, d))"

definition pio_outw :: "u16 \<Rightarrow> u16 \<Rightarrow> pio \<Rightarrow> pio" where
  "pio_outw p w d =
    (case xfer d of
       Writing bs \<Rightarrow>
         (let bs' = bs @ [ucast w, ucast (drop_bit 8 w)]
          in if length bs' = 512 then d\<lparr>xfer := Idle, sectors := (sectors d)(pio_lba d := bs')\<rparr>
             else d\<lparr>xfer := Writing bs'\<rparr>)
     | _ \<Rightarrow> d)"

definition pio_ports :: "pio ports" where
  "pio_ports = \<lparr>p_inb = pio_inb, p_inw = pio_inw, p_outb = pio_outb, p_outw = pio_outw\<rparr>"

definition pio_ok :: "pio \<Rightarrow> bool" where
  "pio_ok d \<longleftrightarrow> xfer d = Idle \<and> (\<forall>lba. length (sectors d lba) = 512)"

lemma pio_ports_simps [simp]:
  "p_inb pio_ports = pio_inb" "p_inw pio_ports = pio_inw"
  "p_outb pio_ports = pio_outb" "p_outw pio_ports = pio_outw"
  by (simp_all add: pio_ports_def)

lemma word_of_bytes [simp]: "ucast (word_of lo hi) = lo" "ucast (drop_bit 8 (word_of lo hi)) = hi"
  by (rule bit_word_eqI; auto simp: word_of_def bit_simps dest: bit_imp_le_length)+

lemma pio_polls:
  "0 < n \<Longrightarrow> not_busy_loop pio_ports n d = (0, d)"
  "0 < n \<Longrightarrow> xfer d \<noteq> Idle \<Longrightarrow> drq_loop pio_ports n d = (0, d)"
  by (cases n; cases "xfer d"; simp add: pio_inb_def ATA_PRIMARY_IO_BASE_def)+

lemma pio_io_wait [simp]: "ata_io_wait pio_ports d = d"
  by (simp add: ata_io_wait_def pio_inb_def ATA_PRIMARY_CTRL_BASE_def)

lemma lba28:
  fixes lba :: u32
  assumes "lba < 0x10000000"
  shows "ucast (ucast (lba AND 0xFF) :: u8) OR push_bit 8 (ucast (ucast (drop_bit 8 lba AND 0xFF) :: u8)) OR
    push_bit 16 (ucast (ucast (drop_bit 16 lba AND 0xFF) :: u8)) OR
    push_bit 24 (ucast ((ucast (0xE0 OR (drop_bit 24 lba AND 0x0F)) :: u8) AND 0x0F)) = lba"
proof -
  have hi: "\<not> bit lba n" if "28 \<le> n" for n
  proof -
    have "unat lba < 2 ^ 28" using assms by (simp add: word_less_nat_alt)
    then have "unat lba < 2 ^ n" using that power_increasing [of 28 n "2 :: nat"] by simp
    then have "\<not> bit (unat lba) n" by (simp add: bit_iff_odd)
    then show ?thesis by (simp add: bit_unsigned_iff)
  qed
  have u: "ucast (x AND 0xFF) = (ucast x :: u8)" for x :: u32
  proof -
    have m: "(0xFF :: u32) = mask 8" by (simp add: mask_eq_exp_minus_1)
    show ?thesis unfolding m by (rule bit_word_eqI) (simp add: bit_simps)
  qed
  have h: "(ucast (0xE0 OR (x AND 0x0F)) :: u8) AND 0x0F = ucast x AND 0x0F" for x :: u32
  proof -
    have m: "(0x0F :: u32) = mask 4" "(0x0F :: u8) = mask 4" "(0xE0 :: u32) = push_bit 5 (mask 3)"
      by (simp_all add: mask_eq_exp_minus_1 push_bit_eq_mult)
    show ?thesis unfolding m by (rule bit_word_eqI) (auto simp: bit_simps)
  qed
  have m4: "(0x0F :: u8) = mask 4" by (simp add: mask_eq_exp_minus_1)
  show ?thesis
    unfolding u h unfolding m4
  proof (rule bit_word_eqI)
    fix n
    assume "n < LENGTH(32)"
    then consider "n < 8" | "8 \<le> n" "n < 16" | "16 \<le> n" "n < 24" | "24 \<le> n" "n < 28" | "28 \<le> n" "n < 32"
      by fastforce
    then show "bit ((ucast (ucast lba :: u8) :: u32) OR push_bit 8 (ucast (ucast (drop_bit 8 lba) :: u8)) OR
        push_bit 16 (ucast (ucast (drop_bit 16 lba) :: u8)) OR
        push_bit 24 (ucast ((ucast (drop_bit 24 lba) :: u8) AND mask 4))) n = bit lba n"
      by cases (auto simp: bit_simps hi)
  qed
qed

lemma pio_set_lba:
  assumes "lba < 0x10000000"
  shows "\<exists>d'. ata_set_lba pio_ports lba 1 d = (0, d') \<and> pio_lba d' = lba \<and> xfer d' = xfer d \<and>
    sectors d' = sectors d"
  using lba28 [OF assms] by (simp add: ata_set_lba_def Let_def pio_outb_def ATA_PRIMARY_IO_BASE_def pio_lba_def)

lemma pio_read_words:
  "length bs = 2 * n \<Longrightarrow> 0 < n \<Longrightarrow> xfer d = Reading bs \<Longrightarrow>
     ata_read_words pio_ports n d = (bs, d\<lparr>xfer := Idle\<rparr>)"
proof (induction n arbitrary: bs d)
  case (Suc n)
  then obtain lo hi cs where bs: "bs = lo # hi # cs" "length cs = 2 * n"
    by (cases bs; cases "tl bs") auto
  show ?case
  proof (cases n)
    case 0
    then show ?thesis using bs Suc.prems by (simp add: pio_inw_def)
  next
    case (Suc m)
    then have "cs \<noteq> []" using bs(2) by auto
    then have "pio_inw ATA_PRIMARY_IO_BASE d = (word_of lo hi, d\<lparr>xfer := Reading cs\<rparr>)"
      using bs(1) Suc.prems by (simp add: pio_inw_def)
    with Suc.IH [of cs "d\<lparr>xfer := Reading cs\<rparr>"] bs Suc show ?thesis by simp
  qed
qed simp

lemma pio_write_words:
  assumes "length as + length bs = 512" "even (length bs)" "bs \<noteq> []" "xfer d = Writing as"
  shows "ata_write_words pio_ports bs d =
    d\<lparr>xfer := Idle, sectors := (sectors d)(pio_lba d := as @ bs)\<rparr>"
  using assms
proof (induction pio_ports bs d arbitrary: as rule: ata_write_words.induct)
  case (1 lo hi bs d)
  show ?case
  proof (cases "bs = []")
    case True
    with 1 show ?thesis by (simp add: pio_outw_def)
  next
    case False
    let ?d = "d\<lparr>xfer := Writing (as @ [lo, hi])\<rparr>"
    have "length as \<noteq> 510" using 1(2) False by auto
    then have "pio_outw ATA_PRIMARY_IO_BASE (word_of lo hi) d = ?d"
      using 1 False by (simp add: pio_outw_def Let_def)
    with 1(1) [of "as @ [lo, hi]"] 1(2-) False show ?thesis
      by (simp add: pio_lba_def)
  qed
qed auto

lemma pio_read_sector:
  assumes "pio_ok d" "lba < 0x10000000"
  shows "\<exists>d'. ata_read_sector_internal pio_ports lba d = (Some (sectors d lba), d') \<and> pio_ok d' \<and>
    sectors d' = sectors d"
proof -
  obtain d1 where d1: "ata_set_lba pio_ports lba 1 d = (0, d1)" "pio_lba d1 = lba" "xfer d1 = xfer d"
    "sectors d1 = sectors d"
    using pio_set_lba [OF assms(2), of d] by blast
  define d2 where "d2 = pio_outb (ATA_PRIMARY_IO_BASE + 7) 0x20 d1"
  have d2: "d2 = d1\<lparr>xfer := Reading (sectors d lba)\<rparr>"
    using d1 by (simp add: d2_def pio_outb_def ATA_PRIMARY_IO_BASE_def)
  have "length (sectors d lba) = 2 * 256" using assms(1) by (simp add: pio_ok_def)
  then have "ata_read_data pio_ports d2 = (sectors d lba, d2\<lparr>xfer := Idle\<rparr>)"
    unfolding ata_read_data_def by (rule pio_read_words) (simp_all add: d2)
  then show ?thesis
    using assms(1) d1
    by (simp add: ata_read_sector_internal_def ata_wait_not_busy_def ata_wait_drq_def pio_polls
        d2_def [symmetric]) (simp add: pio_polls d2 pio_ok_def)
qed

lemma pio_write_sector:
  assumes "pio_ok d" "lba < 0x10000000" "length buffer = 512"
  shows "\<exists>d'. ata_write_sector_internal pio_ports lba buffer d = (0, d') \<and> pio_ok d' \<and>
    sectors d' = (sectors d)(lba := buffer)"
proof -
  obtain d1 where d1: "ata_set_lba pio_ports lba 1 d = (0, d1)" "pio_lba d1 = lba" "xfer d1 = xfer d"
    "sectors d1 = sectors d"
    using pio_set_lba [OF assms(2), of d] by blast
  define d2 where "d2 = pio_outb (ATA_PRIMARY_IO_BASE + 7) 0x30 d1"
  have d2: "d2 = d1\<lparr>xfer := Writing []\<rparr>"
    by (simp add: d2_def pio_outb_def ATA_PRIMARY_IO_BASE_def)
  have "buffer \<noteq> []" using assms(3) by auto
  then have "ata_write_data pio_ports buffer d2 =
      d2\<lparr>xfer := Idle, sectors := (sectors d2)(pio_lba d2 := buffer)\<rparr>"
    using pio_write_words [of "[]" buffer d2] assms(3) by (auto simp: ata_write_data_def d2)
  then have "ata_write_data pio_ports buffer d2 = d1\<lparr>xfer := Idle, sectors := (sectors d)(lba := buffer)\<rparr>"
    using d1 by (simp add: d2 pio_lba_def)
  then show ?thesis
    using assms d1
    by (simp add: ata_write_sector_internal_def ata_wait_not_busy_def ata_wait_drq_def pio_polls
        d2_def [symmetric]) (simp add: pio_polls d2 pio_ok_def ata_wait_not_busy_def)
qed

interpretation pio_disk: block_device pio_ports sectors pio_ok
proof unfold_locales
  fix d lba
  assume "pio_ok d" "lba < (0x10000000 :: u32)"
  from pio_read_sector [OF this]
  show "\<exists>d'. block_read pio_ports lba 1 d = (Some (sectors d lba), d') \<and> pio_ok d' \<and> sectors d' = sectors d"
    by (auto simp: block_read_def ata_read_sectors_def)
next
  fix d lba and buffer :: "u8 list"
  assume "pio_ok d" "lba < (0x10000000 :: u32)" "length buffer = 512"
  from pio_write_sector [OF this]
  show "\<exists>d'. block_write pio_ports lba buffer 1 d = (0, d') \<and> pio_ok d' \<and>
      sectors d' = (sectors d)(lba := buffer)"
    by (auto simp: block_write_def ata_write_sectors_def)
qed (simp add: pio_ok_def)

end
