(* ===== verification/FAT16.thy ===== *)
theory FAT16
  imports Block
begin

text \<open>
  The FAT16 file system, kernel/fat16.c and fat16.h, over the block layer. Structures are records
  with the fields of the C code; \<open>fat16_fs_t\<close> objects live at addresses of \<open>fs_store\<close>, so that
  the pointers an open file and \<open>fat16_current_fs\<close> keep are modelled as pointers (0 is NULL,
  1 the static \<open>fat16_mounted_fs\<close>). The local buffer \<open>sector[512]\<close> is a list of bytes and every
  index into it is checked: an index outside is \<open>None\<close>, as is a division by zero. Return codes
  are values. The messages of \<open>printk\<close> are left out, except what \<open>fat16_list_root\<close> prints.
\<close>

section \<open>Data\<close>

record fat16_fs =
  volume_lba :: u32
  bytes_per_sector :: u16
  sectors_per_cluster :: u8
  reserved_sector_count :: u16
  num_fats :: u8
  root_entry_count :: u16
  total_sectors_16 :: u16
  total_sectors_32 :: u32
  sectors_per_fat :: u16
  total_sectors :: u32
  root_dir_sectors :: u32
  fat_start_lba :: u32
  root_dir_start_lba :: u32
  data_start_lba :: u32
  cluster_count :: u32
  oem_name :: "u8 list"
  boot_signature :: u16

definition fat16_fs_zero :: fat16_fs where
  "fat16_fs_zero = \<lparr>volume_lba = 0, bytes_per_sector = 0, sectors_per_cluster = 0,
     reserved_sector_count = 0, num_fats = 0, root_entry_count = 0, total_sectors_16 = 0,
     total_sectors_32 = 0, sectors_per_fat = 0, total_sectors = 0, root_dir_sectors = 0,
     fat_start_lba = 0, root_dir_start_lba = 0, data_start_lba = 0, cluster_count = 0,
     oem_name = replicate 9 0, boot_signature = 0\<rparr>"

record fat16_file =
  file_fs :: nat
  start_cluster :: u16
  current_cluster :: u16
  file_size :: u32
  position :: u32
  dir_entry_lba :: u32
  dir_entry_offset :: u32
  modified :: bool
  active :: bool

definition fat16_file_zero :: fat16_file where
  "fat16_file_zero = \<lparr>file_fs = 0, start_cluster = 0, current_cluster = 0, file_size = 0,
     position = 0, dir_entry_lba = 0, dir_entry_offset = 0, modified = False, active = False\<rparr>"

record 'd fat_state =
  fat16_files :: "fat16_file list"
  fs_store :: "nat \<Rightarrow> fat16_fs"
  fat16_current_fs :: nat
  dev :: 'd

definition MOUNTED_FS :: nat where
  "MOUNTED_FS = 1"

definition FAT16_MAX_OPEN_FILES :: nat where
  "FAT16_MAX_OPEN_FILES = 16"

definition FAT16_FD_BASE :: int where
  "FAT16_FD_BASE = 3"

definition FAT16_CLUSTER_BAD :: u16 where
  "FAT16_CLUSTER_BAD = 0xFFF7"

definition FAT16_CLUSTER_MIN :: u16 where
  "FAT16_CLUSTER_MIN = 2"

definition FAT16_CLUSTER_EOC :: u16 where
  "FAT16_CLUSTER_EOC = 0xFFF8"

lemmas fat16_consts = FAT16_CLUSTER_BAD_def FAT16_CLUSTER_MIN_def FAT16_CLUSTER_EOC_def

section \<open>Bytes of a sector\<close>

definition get8 :: "u8 list \<Rightarrow> u32 \<Rightarrow> u8 option" where
  "get8 sector i = (if unat i < length sector then Some (sector ! unat i) else None)"

definition put8 :: "u8 list \<Rightarrow> u32 \<Rightarrow> u8 \<Rightarrow> u8 list option" where
  "put8 sector i v = (if unat i < length sector then Some (sector[unat i := v]) else None)"

definition fat16_read_le16 :: "u8 list \<Rightarrow> u32 \<Rightarrow> u16 option" where
  "fat16_read_le16 sector i = do {
     b0 \<leftarrow> get8 sector i;
     b1 \<leftarrow> get8 sector (i + 1);
     Some (word_of b0 b1)
   }"

definition fat16_read_le32 :: "u8 list \<Rightarrow> u32 \<Rightarrow> u32 option" where
  "fat16_read_le32 sector i = do {
     b0 \<leftarrow> get8 sector i;
     b1 \<leftarrow> get8 sector (i + 1);
     b2 \<leftarrow> get8 sector (i + 2);
     b3 \<leftarrow> get8 sector (i + 3);
     Some (bytes_to_u32 b0 b1 b2 b3)
   }"

definition fat16_write_le16 :: "u8 list \<Rightarrow> u32 \<Rightarrow> u16 \<Rightarrow> u8 list option" where
  "fat16_write_le16 sector i value = do {
     s1 \<leftarrow> put8 sector i (ucast (value AND 0xFF));
     put8 s1 (i + 1) (ucast (drop_bit 8 value AND 0xFF))
   }"

definition fat16_write_le32 :: "u8 list \<Rightarrow> u32 \<Rightarrow> u32 \<Rightarrow> u8 list option" where
  "fat16_write_le32 sector i value = do {
     s1 \<leftarrow> put8 sector i (u32_byte 0 value);
     s2 \<leftarrow> put8 s1 (i + 1) (u32_byte 1 value);
     s3 \<leftarrow> put8 s2 (i + 2) (u32_byte 2 value);
     put8 s3 (i + 3) (u32_byte 3 value)
   }"

text \<open>\<open>fat16_memcpy\<close> between positions of two buffers, \<open>fat16_memcmp\<close> of two byte strings.\<close>

primrec fat16_memcpy :: "u8 list \<Rightarrow> nat \<Rightarrow> u8 list \<Rightarrow> nat \<Rightarrow> nat \<Rightarrow> u8 list option" where
  "fat16_memcpy dst i src j 0 = Some dst"
| "fat16_memcpy dst i src j (Suc len) =
    (if i < length dst \<and> j < length src
     then fat16_memcpy (dst[i := src ! j]) (Suc i) src (Suc j) len else None)"

fun fat16_memcmp :: "u8 list \<Rightarrow> u8 list \<Rightarrow> nat \<Rightarrow> int option" where
  "fat16_memcmp a b 0 = Some 0"
| "fat16_memcmp (x # a) (y # b) (Suc len) =
    (if x \<noteq> y then Some (uint x - uint y) else fat16_memcmp a b len)"
| "fat16_memcmp _ _ (Suc len) = None"

section \<open>The file allocation table\<close>

primrec write_fat_copies ::
  "'d ports \<Rightarrow> fat16_fs \<Rightarrow> u32 \<Rightarrow> u32 \<Rightarrow> u16 \<Rightarrow> nat \<Rightarrow> u32 \<Rightarrow> 'd \<Rightarrow> (int \<times> 'd) option" where
  "write_fat_copies hw fs sector_index sector_offset value 0 fat_index d = Some (0, d)"
| "write_fat_copies hw fs sector_index sector_offset value (Suc n) fat_index d =
    (let lba = fat_start_lba fs + sector_index + fat_index * ucast (sectors_per_fat fs)
     in case block_read hw lba 1 d of
          (None, d1) \<Rightarrow> Some (- 1, d1)
        | (Some sector, d1) \<Rightarrow> do {
            sector1 \<leftarrow> fat16_write_le16 sector sector_offset value;
            let (r, d2) = block_write hw lba sector1 1 d1;
            if r < 0 then Some (- 1, d2)
            else write_fat_copies hw fs sector_index sector_offset value n (fat_index + 1) d2
          })"

definition fat16_write_fat_entry ::
  "'d ports \<Rightarrow> fat16_fs \<Rightarrow> u16 \<Rightarrow> u16 \<Rightarrow> 'd \<Rightarrow> (int \<times> 'd) option" where
  "fat16_write_fat_entry hw fs cluster value d =
    (let fat_offset = (ucast cluster :: u32) * 2; bps = (ucast (bytes_per_sector fs) :: u32)
     in if bps = 0 then None
        else write_fat_copies hw fs (fat_offset div bps) (fat_offset mod bps) value
               (unat (num_fats fs)) 0 d)"

definition fat16_read_fat_entry :: "'d ports \<Rightarrow> fat16_fs \<Rightarrow> u16 \<Rightarrow> 'd \<Rightarrow> (u16 \<times> 'd) option" where
  "fat16_read_fat_entry hw fs cluster d =
    (let fat_offset = (ucast cluster :: u32) * 2; bps = (ucast (bytes_per_sector fs) :: u32)
     in if bps = 0 then None
        else case block_read hw (fat_start_lba fs + fat_offset div bps) 1 d of
               (None, d1) \<Rightarrow> Some (FAT16_CLUSTER_BAD, d1)
             | (Some sector, d1) \<Rightarrow> do {
                 v \<leftarrow> fat16_read_le16 sector (fat_offset mod bps);
                 Some (v, d1)
               })"

text \<open>
  The search for a free cluster. The counter is a \<open>uint16_t\<close> and the bound a \<open>uint32_t\<close>: the
  loop need not end when the bound exceeds 65535.
\<close>

partial_function (option) find_free_cluster_from ::
  "'d ports \<Rightarrow> fat16_fs \<Rightarrow> u16 \<Rightarrow> 'd \<Rightarrow> (u16 option \<times> 'd) option" where
  "find_free_cluster_from hw fs cluster d =
    (if (ucast cluster :: u32) < cluster_count fs + 2 then do {
       (v, d1) \<leftarrow> fat16_read_fat_entry hw fs cluster d;
       if v = 0 then Some (Some cluster, d1)
       else find_free_cluster_from hw fs (cluster + 1) d1
     }
     else Some (None, d))"

definition fat16_find_free_cluster :: "'d ports \<Rightarrow> fat16_fs \<Rightarrow> 'd \<Rightarrow> (u16 option \<times> 'd) option" where
  "fat16_find_free_cluster hw fs d = find_free_cluster_from hw fs FAT16_CLUSTER_MIN d"

definition fat16_allocate_cluster ::
  "'d ports \<Rightarrow> fat16_fs \<Rightarrow> u16 \<Rightarrow> 'd \<Rightarrow> (u16 option \<times> 'd) option" where
  "fat16_allocate_cluster hw fs previous d = do {
     (c, d1) \<leftarrow> fat16_find_free_cluster hw fs d;
     case c of
       None \<Rightarrow> Some (None, d1)
     | Some next_cluster \<Rightarrow> do {
         (r, d2) \<leftarrow> fat16_write_fat_entry hw fs next_cluster FAT16_CLUSTER_EOC d1;
         if r < 0 then Some (None, d2)
         else if previous \<ge> FAT16_CLUSTER_MIN then do {
           (r2, d3) \<leftarrow> fat16_write_fat_entry hw fs previous next_cluster d2;
           if r2 < 0 then Some (None, d3) else Some (Some next_cluster, d3)
         }
         else Some (Some next_cluster, d2)
       }
   }"

definition fat16_cluster_to_lba :: "fat16_fs \<Rightarrow> u16 \<Rightarrow> u32" where
  "fat16_cluster_to_lba fs cluster =
    data_start_lba fs + (ucast cluster - 2) * ucast (sectors_per_cluster fs)"

definition fat16_is_eoc :: "u16 \<Rightarrow> bool" where
  "fat16_is_eoc cluster \<longleftrightarrow> cluster \<ge> FAT16_CLUSTER_EOC"

section \<open>Names\<close>

definition fat16_toupper :: "u8 \<Rightarrow> u8" where
  "fat16_toupper ch = (if 97 \<le> ch \<and> ch \<le> 122 then ch - (97 - 65) else ch)"

fun normalize_loop :: "u8 list \<Rightarrow> nat \<Rightarrow> nat \<Rightarrow> bool \<Rightarrow> u8 list \<Rightarrow> u8 list option" where
  "normalize_loop [] name_index ext_index in_extension normalized =
    (if name_index = 0 then None else Some normalized)"
| "normalize_loop (c # path) name_index ext_index in_extension normalized =
    (if c = 46 then
       if in_extension then None
       else normalize_loop path name_index ext_index True normalized
     else if \<not> in_extension then
       if name_index \<ge> 8 then None
       else normalize_loop path (Suc name_index) ext_index in_extension
              (normalized[name_index := fat16_toupper c])
     else
       if ext_index \<ge> 3 then None
       else normalize_loop path name_index (Suc ext_index) in_extension
              (normalized[8 + ext_index := fat16_toupper c]))"

text \<open>A path is the bytes before its terminator, \<open>None\<close> a NULL pointer.\<close>

definition fat16_normalize_short_name :: "u8 list option \<Rightarrow> u8 list option" where
  "fat16_normalize_short_name path = (case path of
     None \<Rightarrow> None
   | Some p \<Rightarrow> normalize_loop (dropWhile (\<lambda>c. c = 47) p) 0 0 False (replicate 11 32))"

section \<open>The root directory\<close>

datatype root_scan = ScanEnd | ScanNext | ScanFound u16 u32 u32

text \<open>The loop over the entries of one sector in \<open>fat16_find_root_entry\<close>.\<close>

partial_function (option) root_scan_sector ::
  "fat16_fs \<Rightarrow> u8 list \<Rightarrow> u8 list \<Rightarrow> u32 \<Rightarrow> root_scan option" where
  "root_scan_sector fs sector target_name offset =
    (if offset < ucast (bytes_per_sector fs) then do {
       first_byte \<leftarrow> get8 sector offset;
       if first_byte = 0 then Some ScanEnd
       else if first_byte = 0xE5 then root_scan_sector fs sector target_name (offset + 32)
       else do {
         attributes \<leftarrow> get8 sector (offset + 0x0B);
         if attributes AND 0x0F = 0x0F \<or> attributes AND 0x08 \<noteq> 0 \<or> attributes AND 0x10 \<noteq> 0
         then root_scan_sector fs sector target_name (offset + 32)
         else do {
           cmp \<leftarrow> fat16_memcmp (drop (unat offset) sector) target_name 11;
           if cmp = 0 then do {
             c \<leftarrow> fat16_read_le16 sector (offset + 0x1A);
             sz \<leftarrow> fat16_read_le32 sector (offset + 0x1C);
             Some (ScanFound c sz offset)
           }
           else root_scan_sector fs sector target_name (offset + 32)
         }
       }
     }
     else Some ScanNext)"

text \<open>The results -1, 0 and 1 of \<open>fat16_find_root_entry\<close>, the last with its out parameters.\<close>

datatype root_find = RootError | RootAbsent | RootFound u16 u32 u32 u32

primrec find_root_loop ::
  "'d ports \<Rightarrow> fat16_fs \<Rightarrow> u8 list \<Rightarrow> nat \<Rightarrow> u32 \<Rightarrow> 'd \<Rightarrow> (root_find \<times> 'd) option" where
  "find_root_loop hw fs target_name 0 lba d = Some (RootAbsent, d)"
| "find_root_loop hw fs target_name (Suc n) lba d =
    (case block_read hw lba 1 d of
       (None, d1) \<Rightarrow> Some (RootError, d1)
     | (Some sector, d1) \<Rightarrow> do {
         r \<leftarrow> root_scan_sector fs sector target_name 0;
         case r of
           ScanEnd \<Rightarrow> Some (RootAbsent, d1)
         | ScanFound c sz offset \<Rightarrow> Some (RootFound c sz lba offset, d1)
         | ScanNext \<Rightarrow> find_root_loop hw fs target_name n (lba + 1) d1
       })"

definition fat16_find_root_entry ::
  "'d ports \<Rightarrow> fat16_fs \<Rightarrow> u8 list \<Rightarrow> 'd \<Rightarrow> (root_find \<times> 'd) option" where
  "fat16_find_root_entry hw fs target_name d =
    find_root_loop hw fs target_name (unat (root_dir_sectors fs)) (root_dir_start_lba fs) d"

partial_function (option) free_scan_sector :: "fat16_fs \<Rightarrow> u8 list \<Rightarrow> u32 \<Rightarrow> u32 option option" where
  "free_scan_sector fs sector offset =
    (if offset < ucast (bytes_per_sector fs) then do {
       first_byte \<leftarrow> get8 sector offset;
       if first_byte = 0 \<or> first_byte = 0xE5 then Some (Some offset)
       else free_scan_sector fs sector (offset + 32)
     }
     else Some None)"

primrec find_free_root_loop ::
  "'d ports \<Rightarrow> fat16_fs \<Rightarrow> nat \<Rightarrow> u32 \<Rightarrow> 'd \<Rightarrow> ((u32 \<times> u32) option \<times> 'd) option" where
  "find_free_root_loop hw fs 0 lba d = Some (None, d)"
| "find_free_root_loop hw fs (Suc n) lba d =
    (case block_read hw lba 1 d of
       (None, d1) \<Rightarrow> Some (None, d1)
     | (Some sector, d1) \<Rightarrow> do {
         r \<leftarrow> free_scan_sector fs sector 0;
         case r of
           Some offset \<Rightarrow> Some (Some (lba, offset), d1)
         | None \<Rightarrow> find_free_root_loop hw fs n (lba + 1) d1
       })"

definition fat16_find_free_root_entry ::
  "'d ports \<Rightarrow> fat16_fs \<Rightarrow> 'd \<Rightarrow> ((u32 \<times> u32) option \<times> 'd) option" where
  "fat16_find_free_root_entry hw fs d =
    find_free_root_loop hw fs (unat (root_dir_sectors fs)) (root_dir_start_lba fs) d"

primrec put_bytes :: "u8 list \<Rightarrow> u32 \<Rightarrow> u8 list \<Rightarrow> u8 list option" where
  "put_bytes sector i [] = Some sector"
| "put_bytes sector i (b # bs) = do { s1 \<leftarrow> put8 sector i b; put_bytes s1 (i + 1) bs }"

text \<open>\<open>fat16_update_root_entry\<close> writes the first cluster and the size of a file into its entry.\<close>

definition fat16_update_root_entry :: "'d ports \<Rightarrow> fat16_file \<Rightarrow> 'd \<Rightarrow> (int \<times> 'd) option" where
  "fat16_update_root_entry hw file d =
    (case block_read hw (dir_entry_lba file) 1 d of
       (None, d1) \<Rightarrow> Some (- 1, d1)
     | (Some sector, d1) \<Rightarrow> do {
         s1 \<leftarrow> fat16_write_le16 sector (dir_entry_offset file + 0x1A) (start_cluster file);
         s2 \<leftarrow> fat16_write_le32 s1 (dir_entry_offset file + 0x1C) (file_size file);
         let (r, d2) = block_write hw (dir_entry_lba file) s2 1 d1;
         if r < 0 then Some (- 1, d2) else Some (0, d2)
       })"

definition fat16_create_root_entry ::
  "'d ports \<Rightarrow> u8 list \<Rightarrow> u32 \<Rightarrow> u32 \<Rightarrow> 'd \<Rightarrow> (int \<times> 'd) option" where
  "fat16_create_root_entry hw normalized lba offset d =
    (case block_read hw lba 1 d of
       (None, d1) \<Rightarrow> Some (- 1, d1)
     | (Some sector, d1) \<Rightarrow> do {
         s0 \<leftarrow> put_bytes sector offset normalized;
         s1 \<leftarrow> put8 s0 (offset + 0x0B) 0x20;
         s2 \<leftarrow> put8 s1 (offset + 0x0C) 0;
         s3 \<leftarrow> put8 s2 (offset + 0x0D) 0;
         s4 \<leftarrow> fat16_write_le16 s3 (offset + 0x0E) 0;
         s5 \<leftarrow> fat16_write_le16 s4 (offset + 0x10) 0;
         s6 \<leftarrow> fat16_write_le16 s5 (offset + 0x12) 0;
         s7 \<leftarrow> fat16_write_le16 s6 (offset + 0x14) 0;
         s8 \<leftarrow> fat16_write_le16 s7 (offset + 0x16) 0;
         s9 \<leftarrow> fat16_write_le16 s8 (offset + 0x18) 0;
         s10 \<leftarrow> fat16_write_le16 s9 (offset + 0x1A) 0;
         s11 \<leftarrow> fat16_write_le32 s10 (offset + 0x1C) 0;
         let (r, d2) = block_write hw lba s11 1 d1;
         if r < 0 then Some (- 1, d2) else Some (0, d2)
       })"

definition fat16_delete_root_entry :: "'d ports \<Rightarrow> u32 \<Rightarrow> u32 \<Rightarrow> 'd \<Rightarrow> (int \<times> 'd) option" where
  "fat16_delete_root_entry hw lba offset d =
    (case block_read hw lba 1 d of
       (None, d1) \<Rightarrow> Some (- 1, d1)
     | (Some sector, d1) \<Rightarrow> do {
         s1 \<leftarrow> put8 sector offset 0xE5;
         let (r, d2) = block_write hw lba s1 1 d1;
         if r < 0 then Some (- 1, d2) else Some (0, d2)
       })"

section \<open>Operations of the file system\<close>

text \<open>\<open>(fs != NULL) ? fs : fat16_current_fs\<close>\<close>

definition use_fs :: "nat \<Rightarrow> 'd fat_state \<Rightarrow> nat" where
  "use_fs fs s = (if fs \<noteq> 0 then fs else fat16_current_fs s)"

definition fat16_create ::
  "'d ports \<Rightarrow> nat \<Rightarrow> u8 list option \<Rightarrow> 'd fat_state \<Rightarrow> (int \<times> 'd fat_state) option" where
  "fat16_create hw fs path s =
    (if use_fs fs s = 0 \<or> path = None then Some (- 1, s)
     else case fat16_normalize_short_name path of
       None \<Rightarrow> Some (- 1, s)
     | Some normalized \<Rightarrow> do {
         let f = fs_store s (use_fs fs s);
         (r, d1) \<leftarrow> fat16_find_root_entry hw f normalized (dev s);
         case r of
           RootFound _ _ _ _ \<Rightarrow> Some (- 1, s\<lparr>dev := d1\<rparr>)
         | _ \<Rightarrow> do {
             (e, d2) \<leftarrow> fat16_find_free_root_entry hw f d1;
             case e of
               None \<Rightarrow> Some (- 1, s\<lparr>dev := d2\<rparr>)
             | Some (lba, offset) \<Rightarrow> do {
                 (rc, d3) \<leftarrow> fat16_create_root_entry hw normalized lba offset d2;
                 Some (rc, s\<lparr>dev := d3\<rparr>)
               }
           }
       })"

text \<open>
  \<open>fat16_list_root\<close>: one line per entry, its directory flag, name and size. The name is the
  non-blank characters of the first eight bytes, then a dot and those of the extension when the
  first byte of the extension is not blank. A zero first byte leaves the loop over the sector
  only.
\<close>

record list_line =
  line_dir :: bool
  line_name :: "u8 list"
  line_size :: u32

definition list_name :: "u8 list \<Rightarrow> u8 list" where
  "list_name e =
    filter (\<lambda>c. c \<noteq> 32) (take 8 e) @
    (if e ! 8 \<noteq> 32 then 46 # filter (\<lambda>c. c \<noteq> 32) (take 3 (drop 8 e)) else [])"

partial_function (option) list_sector ::
  "fat16_fs \<Rightarrow> u8 list \<Rightarrow> u32 \<Rightarrow> list_line list \<Rightarrow> list_line list option" where
  "list_sector fs sector offset out =
    (if offset < ucast (bytes_per_sector fs) then do {
       first_byte \<leftarrow> get8 sector offset;
       if first_byte = 0 then Some out
       else if first_byte = 0xE5 then list_sector fs sector (offset + 32) out
       else do {
         attributes \<leftarrow> get8 sector (offset + 0x0B);
         if attributes AND 0x0F = 0x0F \<or> attributes AND 0x08 \<noteq> 0
         then list_sector fs sector (offset + 32) out
         else do {
           sz \<leftarrow> fat16_read_le32 sector (offset + 0x1C);
           list_sector fs sector (offset + 32)
             (out @ [\<lparr>line_dir = (attributes AND 0x10 \<noteq> 0),
                line_name = list_name (take 11 (drop (unat offset) sector)), line_size = sz\<rparr>])
         }
       }
     }
     else Some out)"

primrec list_root_loop ::
  "'d ports \<Rightarrow> fat16_fs \<Rightarrow> nat \<Rightarrow> u32 \<Rightarrow> list_line list \<Rightarrow> 'd \<Rightarrow> (int \<times> list_line list \<times> 'd) option" where
  "list_root_loop hw fs 0 lba out d = Some (0, out, d)"
| "list_root_loop hw fs (Suc n) lba out d =
    (case block_read hw lba 1 d of
       (None, d1) \<Rightarrow> Some (- 1, out, d1)
     | (Some sector, d1) \<Rightarrow> do {
         out1 \<leftarrow> list_sector fs sector 0 out;
         list_root_loop hw fs n (lba + 1) out1 d1
       })"

text \<open>The structure is read before the test for NULL: without a mounted volume that is undefined.\<close>

definition fat16_list_root ::
  "'d ports \<Rightarrow> nat \<Rightarrow> 'd fat_state \<Rightarrow> (int \<times> list_line list \<times> 'd fat_state) option" where
  "fat16_list_root hw fs s =
    (if use_fs fs s = 0 then None
     else do {
       let f = fs_store s (use_fs fs s);
       (r, out, d1) \<leftarrow> list_root_loop hw f (unat (root_dir_sectors f)) (root_dir_start_lba f) [] (dev s);
       Some (r, out, s\<lparr>dev := d1\<rparr>)
     })"

definition fat16_delete ::
  "'d ports \<Rightarrow> nat \<Rightarrow> u8 list option \<Rightarrow> 'd fat_state \<Rightarrow> (int \<times> 'd fat_state) option" where
  "fat16_delete hw fs path s =
    (if use_fs fs s = 0 \<or> path = None then Some (- 1, s)
     else case fat16_normalize_short_name path of
       None \<Rightarrow> Some (- 1, s)
     | Some normalized \<Rightarrow> do {
         (r, d1) \<leftarrow> fat16_find_root_entry hw (fs_store s (use_fs fs s)) normalized (dev s);
         case r of
           RootFound _ _ lba offset \<Rightarrow> do {
             (rc, d2) \<leftarrow> fat16_delete_root_entry hw lba offset d1;
             Some (rc, s\<lparr>dev := d2\<rparr>)
           }
         | _ \<Rightarrow> Some (- 1, s\<lparr>dev := d1\<rparr>)
       })"

text \<open>The fields of the boot sector, and the layout that \<open>fat16_mount\<close> derives from them.\<close>

definition parse_bpb :: "u32 \<Rightarrow> u8 list \<Rightarrow> fat16_fs option" where
  "parse_bpb lba sector = do {
     signature \<leftarrow> fat16_read_le16 sector 510;
     bps \<leftarrow> fat16_read_le16 sector 0x0B;
     spc \<leftarrow> get8 sector 0x0D;
     rsv \<leftarrow> fat16_read_le16 sector 0x0E;
     nf \<leftarrow> get8 sector 0x10;
     rec_count \<leftarrow> fat16_read_le16 sector 0x11;
     t16 \<leftarrow> fat16_read_le16 sector 0x13;
     spf \<leftarrow> fat16_read_le16 sector 0x16;
     t32 \<leftarrow> fat16_read_le32 sector 0x20;
     Some (fat16_fs_zero\<lparr>volume_lba := lba, bytes_per_sector := bps, sectors_per_cluster := spc,
       reserved_sector_count := rsv, num_fats := nf, root_entry_count := rec_count,
       total_sectors_16 := t16, sectors_per_fat := spf, total_sectors_32 := t32,
       boot_signature := signature, oem_name := take 8 (drop 3 sector) @ [0]\<rparr>)
   }"

definition bpb_corrupt :: "fat16_fs \<Rightarrow> bool" where
  "bpb_corrupt f \<longleftrightarrow> bytes_per_sector f = 0 \<or> sectors_per_cluster f = 0 \<or>
     reserved_sector_count f = 0 \<or> num_fats f = 0 \<or> root_entry_count f = 0 \<or> sectors_per_fat f = 0"

definition bpb_layout :: "fat16_fs \<Rightarrow> fat16_fs" where
  "bpb_layout f =
    (let bps = (ucast (bytes_per_sector f) :: u32);
         rsv = (ucast (reserved_sector_count f) :: u32);
         fats = (ucast (num_fats f) :: u32) * ucast (sectors_per_fat f);
         rds = (ucast (root_entry_count f) * 32 + (bps - 1)) div bps;
         fat_start = volume_lba f + rsv;
         root_start = fat_start + fats
     in f\<lparr>root_dir_sectors := rds, fat_start_lba := fat_start, root_dir_start_lba := root_start,
          data_start_lba := root_start + rds,
          cluster_count := (total_sectors f - (rsv + fats + rds)) div ucast (sectors_per_cluster f)\<rparr>)"

definition fat16_mount ::
  "'d ports \<Rightarrow> nat \<Rightarrow> u32 \<Rightarrow> 'd fat_state \<Rightarrow> (int \<times> 'd fat_state) option" where
  "fat16_mount hw fs lba s =
    (if fs = 0 then Some (- 1, s)
     else case block_read hw lba 1 (dev s) of
       (None, d1) \<Rightarrow> Some (- 1, s\<lparr>dev := d1\<rparr>)
     | (Some sector, d1) \<Rightarrow> do {
         signature \<leftarrow> fat16_read_le16 sector 510;
         if signature \<noteq> 0xAA55 then Some (- 1, s\<lparr>dev := d1\<rparr>)
         else do {
           f \<leftarrow> parse_bpb lba sector;
           let s1 = s\<lparr>dev := d1, fs_store := (fs_store s)(fs := f)\<rparr>;
           if bpb_corrupt f then Some (- 1, s1)
           else do {
             let t = (if total_sectors_16 f \<noteq> 0 then ucast (total_sectors_16 f) else total_sectors_32 f);
             let f1 = f\<lparr>total_sectors := t\<rparr>;
             if t = 0 then Some (- 1, s1\<lparr>fs_store := (fs_store s)(fs := f1)\<rparr>)
             else Some (0, s1\<lparr>fs_store := (fs_store s)(fs := bpb_layout f1, MOUNTED_FS := bpb_layout f1),
                    fat16_current_fs := MOUNTED_FS\<rparr>)
           }
         }
       })"

definition fat16_open ::
  "'d ports \<Rightarrow> nat \<Rightarrow> u8 list option \<Rightarrow> 'd fat_state \<Rightarrow> (int \<times> 'd fat_state) option" where
  "fat16_open hw fs path s =
    (if use_fs fs s = 0 \<or> path = None then Some (- 1, s)
     else case fat16_normalize_short_name path of
       None \<Rightarrow> Some (- 1, s)
     | Some normalized \<Rightarrow> do {
         (r, d1) \<leftarrow> fat16_find_root_entry hw (fs_store s (use_fs fs s)) normalized (dev s);
         let s1 = s\<lparr>dev := d1\<rparr>;
         case r of
           RootFound cl sz lba offset \<Rightarrow>
             if sz > 0 \<and> cl < FAT16_CLUSTER_MIN then Some (- 1, s1)
             else (case find_index (\<lambda>i. \<not> active (fat16_files s ! i)) 0 FAT16_MAX_OPEN_FILES of
                 None \<Rightarrow> Some (- 1, s1)
               | Some index \<Rightarrow>
                   Some (int index + FAT16_FD_BASE,
                     s1\<lparr>fat16_files := (fat16_files s)[index :=
                       \<lparr>file_fs = use_fs fs s, start_cluster = cl, current_cluster = cl,
                        file_size = sz, position = 0, dir_entry_lba = lba,
                        dir_entry_offset = offset, modified = False, active = True\<rparr>]\<rparr>))
         | _ \<Rightarrow> Some (- 1, s1)
       })"

text \<open>
  Where the byte at the position of a file lies: the sector of its current cluster and the offset
  in that sector, as both loops compute it.
\<close>

definition file_place :: "fat16_fs \<Rightarrow> fat16_file \<Rightarrow> (u32 \<times> u32 \<times> u32) option" where
  "file_place f file =
    (let bps = (ucast (bytes_per_sector f) :: u32);
         cluster_size = bps * ucast (sectors_per_cluster f)
     in if bps = 0 \<or> cluster_size = 0 then None
        else let cluster_offset = position file mod cluster_size;
                 sector_in_cluster = cluster_offset div bps
             in Some (fat16_cluster_to_lba f (current_cluster file) + sector_in_cluster,
                      sector_in_cluster, cluster_offset mod bps))"

text \<open>The loop of \<open>fat16_read\<close>; \<open>total_read\<close> is also how far \<open>buffer\<close> has moved.\<close>

partial_function (option) read_loop ::
  "'d ports \<Rightarrow> fat16_fs \<Rightarrow> fat16_file \<Rightarrow> u8 list \<Rightarrow> u32 \<Rightarrow> u32 \<Rightarrow> 'd \<Rightarrow>
   (int \<times> fat16_file \<times> u8 list \<times> 'd) option" where
  "read_loop hw f file buffer remaining total_read d =
    (if remaining = 0 \<or> current_cluster file < FAT16_CLUSTER_MIN
     then Some (sint total_read, file, buffer, d)
     else do {
       (lba, sector_in_cluster, sector_offset) \<leftarrow> file_place f file;
       case block_read hw lba 1 d of
         (None, d1) \<Rightarrow> Some (- 1, file, buffer, d1)
       | (Some sector, d1) \<Rightarrow> do {
           let chunk = min (ucast (bytes_per_sector f) - sector_offset) remaining;
           buffer1 \<leftarrow> fat16_memcpy buffer (unat total_read) sector (unat sector_offset) (unat chunk);
           let file1 = file\<lparr>position := position file + chunk\<rparr>;
           if position file1 < file_size file1 \<and>
              sector_in_cluster = ucast (sectors_per_cluster f) - 1 \<and>
              sector_offset + chunk = ucast (bytes_per_sector f)
           then do {
             (next_cluster, d2) \<leftarrow> fat16_read_fat_entry hw f (current_cluster file1) d1;
             if next_cluster < FAT16_CLUSTER_MIN \<or> fat16_is_eoc next_cluster
             then Some (sint (total_read + chunk), file1, buffer1, d2)
             else read_loop hw f (file1\<lparr>current_cluster := next_cluster\<rparr>) buffer1
                    (remaining - chunk) (total_read + chunk) d2
           }
           else read_loop hw f file1 buffer1 (remaining - chunk) (total_read + chunk) d1
         }
     })"

text \<open>The test of a descriptor that \<open>fat16_read\<close> and \<open>fat16_write\<close> share.\<close>

definition fd_index :: "int \<Rightarrow> nat option" where
  "fd_index fd =
    (let index = fd - FAT16_FD_BASE
     in if index < 0 \<or> index \<ge> int FAT16_MAX_OPEN_FILES then None else Some (nat index))"

definition fat16_read ::
  "'d ports \<Rightarrow> int \<Rightarrow> u8 list option \<Rightarrow> u32 \<Rightarrow> 'd fat_state \<Rightarrow>
   (int \<times> u8 list option \<times> 'd fat_state) option" where
  "fat16_read hw fd buffer count s =
    (case buffer of None \<Rightarrow> Some (- 1, buffer, s) | Some buf \<Rightarrow>
     if count = 0 then Some (- 1, buffer, s)
     else case fd_index fd of None \<Rightarrow> Some (- 1, buffer, s) | Some index \<Rightarrow>
     let file = fat16_files s ! index
     in if \<not> active file \<or> file_fs file = 0 then Some (- 1, buffer, s)
        else if position file \<ge> file_size file then Some (0, buffer, s)
        else do {
          let remaining = min (file_size file - position file) count;
          (r, file1, buf1, d1) \<leftarrow> read_loop hw (fs_store s (file_fs file)) file buf remaining 0 (dev s);
          Some (r, Some buf1, s\<lparr>fat16_files := (fat16_files s)[index := file1], dev := d1\<rparr>)
        })"

text \<open>
  The loop of \<open>fat16_write\<close>. The three return values of the loop body are -1 from an error and
  the total from the end; \<open>modified\<close> is set only at the end.
\<close>

partial_function (option) write_loop ::
  "'d ports \<Rightarrow> fat16_fs \<Rightarrow> fat16_file \<Rightarrow> u8 list \<Rightarrow> u32 \<Rightarrow> u32 \<Rightarrow> 'd \<Rightarrow>
   (int \<times> fat16_file \<times> 'd) option" where
  "write_loop hw f file buffer remaining total_written d =
    (if remaining = 0 then Some (sint total_written, file\<lparr>modified := True\<rparr>, d)
     else if current_cluster file < FAT16_CLUSTER_MIN then Some (- 1, file, d)
     else do {
       (lba, sector_in_cluster, sector_offset) \<leftarrow> file_place f file;
       let chunk = min (ucast (bytes_per_sector f) - sector_offset) remaining;
       (r, d1) \<leftarrow>
         (if sector_offset \<noteq> 0 \<or> chunk < ucast (bytes_per_sector f) then
            case block_read hw lba 1 d of
              (None, d1) \<Rightarrow> Some (- 1, d1)
            | (Some sector, d1) \<Rightarrow> do {
                sector1 \<leftarrow> fat16_memcpy sector (unat sector_offset) buffer (unat total_written) (unat chunk);
                Some (block_write hw lba sector1 1 d1)
              }
          else if unat total_written + 512 \<le> length buffer
          then Some (block_write hw lba (take 512 (drop (unat total_written) buffer)) 1 d)
          else None);
       if r < 0 then Some (- 1, file, d1)
       else do {
         let file1 = file\<lparr>position := position file + chunk,
                file_size := max (file_size file) (position file + chunk)\<rparr>;
         if remaining - chunk = 0
         then Some (sint (total_written + chunk), file1\<lparr>modified := True\<rparr>, d1)
         else if sector_in_cluster = ucast (sectors_per_cluster f) - 1 \<and>
           sector_offset + chunk = ucast (bytes_per_sector f)
         then do {
           (next_cluster, d2) \<leftarrow> fat16_read_fat_entry hw f (current_cluster file1) d1;
           if next_cluster < FAT16_CLUSTER_MIN \<or> fat16_is_eoc next_cluster
           then do {
             (c, d3) \<leftarrow> fat16_allocate_cluster hw f (current_cluster file1) d2;
             case c of
               None \<Rightarrow> Some (- 1, file1, d3)
             | Some new_cluster \<Rightarrow>
                 write_loop hw f (file1\<lparr>current_cluster := new_cluster\<rparr>) buffer
                   (remaining - chunk) (total_written + chunk) d3
           }
           else write_loop hw f (file1\<lparr>current_cluster := next_cluster\<rparr>) buffer
                  (remaining - chunk) (total_written + chunk) d2
         }
         else write_loop hw f file1 buffer (remaining - chunk) (total_written + chunk) d1
       }
     })"

text \<open>The first cluster of an empty file, allocated before the loop.\<close>

definition write_first_cluster ::
  "'d ports \<Rightarrow> fat16_fs \<Rightarrow> fat16_file \<Rightarrow> 'd \<Rightarrow> (fat16_file option \<times> 'd) option" where
  "write_first_cluster hw f file d =
    (let file1 =
       (if current_cluster file < FAT16_CLUSTER_MIN \<and> start_cluster file \<ge> FAT16_CLUSTER_MIN
        then file\<lparr>current_cluster := start_cluster file\<rparr> else file)
     in if position file1 = 0 \<and> start_cluster file1 < FAT16_CLUSTER_MIN then do {
          (c, d1) \<leftarrow> fat16_allocate_cluster hw f 0 d;
          Some (map_option (\<lambda>new. file1\<lparr>start_cluster := new, current_cluster := new\<rparr>) c, d1)
        }
        else Some (Some file1, d))"

definition fat16_write ::
  "'d ports \<Rightarrow> int \<Rightarrow> u8 list option \<Rightarrow> u32 \<Rightarrow> 'd fat_state \<Rightarrow> (int \<times> 'd fat_state) option" where
  "fat16_write hw fd buffer count s =
    (case buffer of None \<Rightarrow> Some (- 1, s) | Some buf \<Rightarrow>
     if count = 0 then Some (- 1, s)
     else case fd_index fd of None \<Rightarrow> Some (- 1, s) | Some index \<Rightarrow>
     let file = fat16_files s ! index
     in if \<not> active file \<or> file_fs file = 0 then Some (- 1, s)
        else do {
          let f = fs_store s (file_fs file);
          (file1, d1) \<leftarrow> write_first_cluster hw f file (dev s);
          case file1 of
            None \<Rightarrow> Some (- 1, s\<lparr>dev := d1\<rparr>)
          | Some file2 \<Rightarrow> do {
              (r, file3, d2) \<leftarrow> write_loop hw f file2 buf count 0 d1;
              Some (r, s\<lparr>fat16_files := (fat16_files s)[index := file3], dev := d2\<rparr>)
            }
        })"

definition fat16_close :: "'d ports \<Rightarrow> int \<Rightarrow> 'd fat_state \<Rightarrow> (int \<times> 'd fat_state) option" where
  "fat16_close hw fd s =
    (case fd_index fd of None \<Rightarrow> Some (- 1, s) | Some index \<Rightarrow>
     let file = fat16_files s ! index;
         closed = (fat16_files s)[index := fat16_file_zero]
     in if \<not> active file then Some (- 1, s)
        else if modified file then do {
          (r, d1) \<leftarrow> fat16_update_root_entry hw file (dev s);
          if r < 0 then Some (- 1, s\<lparr>dev := d1\<rparr>)
          else Some (0, s\<lparr>fat16_files := closed, dev := d1\<rparr>)
        }
        else Some (0, s\<lparr>fat16_files := closed\<rparr>))"

end
