(* ===== verification/FatTable.thy ===== *)
theory FatTable
  imports FAT16
begin

text \<open>
  The allocation table of a mounted volume as a function from clusters to values: reading and
  writing an entry, searching and allocating a cluster. All lemmas hold for every device that
  satisfies the contract \<open>block_device\<close>.
\<close>

section \<open>Bytes of a sector\<close>

lemma get8_nat: "n < length sec \<Longrightarrow> n < 4294967296 \<Longrightarrow> get8 sec (of_nat n) = Some (sec ! n)"
  by (simp add: get8_def unat_of_nat_u32)

lemma put8_nat: "n < length sec \<Longrightarrow> n < 4294967296 \<Longrightarrow> put8 sec (of_nat n) v = Some (sec[n := v])"
  by (simp add: put8_def unat_of_nat_u32)

lemma ucast_low_byte: "ucast (v AND 0xFF) = (ucast v :: u8)" for v :: u16
proof -
  have m: "(0xFF :: u16) = mask 8" by (simp add: mask_eq_exp_minus_1)
  show ?thesis unfolding m by (rule bit_word_eqI) (simp add: bit_simps)
qed

lemma ucast_high_byte: "ucast (drop_bit 8 v AND 0xFF) = (ucast (drop_bit 8 v) :: u8)" for v :: u16
  by (rule ucast_low_byte)

lemma word_of_ucast [simp]: "word_of (ucast v) (ucast (drop_bit 8 v)) = v"
proof (rule bit_word_eqI)
  fix n
  assume "n < LENGTH(16)"
  then show "bit (word_of (ucast v) (ucast (drop_bit 8 v))) n = bit v n"
    by (cases "n < 8") (auto simp: word_of_def bit_simps)
qed

definition set_le16 :: "u8 list \<Rightarrow> nat \<Rightarrow> u16 \<Rightarrow> u8 list" where
  "set_le16 sec n v = sec[n := ucast v, Suc n := ucast (drop_bit 8 v)]"

definition get_le16 :: "u8 list \<Rightarrow> nat \<Rightarrow> u16" where
  "get_le16 sec n = word_of (sec ! n) (sec ! Suc n)"

lemma length_set_le16 [simp]: "length (set_le16 sec n v) = length sec"
  by (simp add: set_le16_def)

lemma get_set_le16 [simp]: "Suc n < length sec \<Longrightarrow> get_le16 (set_le16 sec n v) n = v"
  by (simp add: get_le16_def set_le16_def)

lemma get_set_le16_other:
  assumes "m \<noteq> n" "even m" "even n"
  shows "get_le16 (set_le16 sec n v) m = get_le16 sec m"
proof -
  have "m \<noteq> Suc n" "n \<noteq> Suc m" using assms by auto
  with assms(1) show ?thesis by (simp add: get_le16_def set_le16_def)
qed

lemma read_le16_nat:
  "Suc n < length sec \<Longrightarrow> n < 65536 \<Longrightarrow> fat16_read_le16 sec (of_nat n) = Some (get_le16 sec n)"
  using get8_nat [of n sec] get8_nat [of "Suc n" sec]
  by (simp add: fat16_read_le16_def get_le16_def add.commute)

lemma write_le16_nat:
  "Suc n < length sec \<Longrightarrow> n < 65536 \<Longrightarrow> fat16_write_le16 sec (of_nat n) v = Some (set_le16 sec n v)"
  using put8_nat [of n sec] put8_nat [of "Suc n" "sec[n := ucast v]"]
  by (simp add: fat16_write_le16_def set_le16_def ucast_low_byte ucast_high_byte add.commute)

section \<open>Well-formed volumes\<close>

text \<open>
  The layout that a valid boot sector gives: the FATs, the root directory and the clusters follow
  each other without wrap-around below the 28-bit limit of the driver, a FAT has an entry for
  every cluster, and the cluster numbers stay below the reserved values.
\<close>

definition fs_ok :: "fat16_fs \<Rightarrow> bool" where
  "fs_ok f \<longleftrightarrow> bytes_per_sector f = 512 \<and> 0 < unat (sectors_per_cluster f) \<and> 0 < unat (num_fats f) \<and>
     0 < unat (sectors_per_fat f) \<and>
     unat (root_dir_start_lba f) = unat (fat_start_lba f) + unat (num_fats f) * unat (sectors_per_fat f) \<and>
     unat (data_start_lba f) = unat (root_dir_start_lba f) + unat (root_dir_sectors f) \<and>
     unat (data_start_lba f) + unat (cluster_count f) * unat (sectors_per_cluster f) \<le> 268435456 \<and>
     unat (cluster_count f) + 2 \<le> unat (sectors_per_fat f) * 256 \<and> unat (cluster_count f) \<le> 65524"

definition valid_cluster :: "fat16_fs \<Rightarrow> u16 \<Rightarrow> bool" where
  "valid_cluster f c \<longleftrightarrow> 2 \<le> unat c \<and> unat c < unat (cluster_count f) + 2"

definition in_fats :: "fat16_fs \<Rightarrow> u32 \<Rightarrow> bool" where
  "in_fats f lba \<longleftrightarrow> unat (fat_start_lba f) \<le> unat lba \<and> unat lba < unat (root_dir_start_lba f)"

text \<open>The sector of a FAT and the offset in it where the entry of a cluster lies.\<close>

definition fat_sec :: "u16 \<Rightarrow> nat" where
  "fat_sec c = unat c div 256"

definition fat_off :: "u16 \<Rightarrow> nat" where
  "fat_off c = 2 * (unat c mod 256)"

definition fat_entry :: "fat16_fs \<Rightarrow> disk \<Rightarrow> u16 \<Rightarrow> u16" where
  "fat_entry f D c = get_le16 (D (fat_start_lba f + of_nat (fat_sec c))) (fat_off c)"

lemma fat_off_less: "Suc (fat_off c) < 512" "even (fat_off c)"
proof -
  have "unat c mod 256 < 256" by simp
  then show "Suc (fat_off c) < 512" unfolding fat_off_def by linarith
qed (simp add: fat_off_def)

lemma fat_pos_inj: "fat_sec c = fat_sec c' \<Longrightarrow> fat_off c = fat_off c' \<Longrightarrow> c = c'"
proof -
  assume "fat_sec c = fat_sec c'" "fat_off c = fat_off c'"
  then have "unat c = unat c'"
    by (metis fat_sec_def fat_off_def div_mult_mod_eq mult_cancel1 numeral_eq_iff zero_neq_numeral)
  then show "c = c'" by (simp add: word_unat_eq_iff)
qed

lemma fat_offset:
  fixes c :: u16
  shows "(ucast c * 2 :: u32) div ucast (512 :: u16) = of_nat (fat_sec c)"
    and "(ucast c * 2 :: u32) mod ucast (512 :: u16) = of_nat (fat_off c)"
proof -
  have c: "unat c < 65536" using unsigned_less [of c, where 'a = nat] by simp
  then have u: "unat (ucast c * 2 :: u32) = 2 * unat c"
    by (subst unat_mult_no_wrap) (simp_all add: unsigned_ucast_eq take_bit_nat_eq_self)
  have d: "2 * unat c div 512 = fat_sec c" by (simp add: fat_sec_def)
  have m: "2 * unat c mod 512 = fat_off c"
    using mult_mod_right [of 2 "unat c" 256] by (simp add: fat_off_def)
  have e: "(ucast (512 :: u16) :: u32) = 512" by simp
  have "fat_sec c < 4294967296" "fat_off c < 4294967296"
    using c fat_off_less(1) [of c] by (simp_all add: fat_sec_def)
  note n = this [THEN unat_of_nat_u32]
  show "(ucast c * 2 :: u32) div ucast (512 :: u16) = of_nat (fat_sec c)"
    unfolding e by (simp add: word_unat_eq_iff unat_div u d n)
  show "(ucast c * 2 :: u32) mod ucast (512 :: u16) = of_nat (fat_off c)"
    unfolding e by (simp add: word_unat_eq_iff unat_mod u m n)
qed

text \<open>Sector \<open>j\<close> of copy \<open>k\<close> of the table.\<close>

definition fat_lba :: "fat16_fs \<Rightarrow> nat \<Rightarrow> nat \<Rightarrow> u32" where
  "fat_lba f k j = fat_start_lba f + of_nat j + of_nat k * ucast (sectors_per_fat f)"

lemma unat_fat_lba:
  assumes "fs_ok f" "k < unat (num_fats f)" "j < unat (sectors_per_fat f)"
  shows "unat (fat_lba f k j) = unat (fat_start_lba f) + k * unat (sectors_per_fat f) + j"
    and "in_fats f (fat_lba f k j)" and "fat_lba f k j < 0x10000000"
proof -
  have nf: "unat (num_fats f) < 256" and sp: "unat (sectors_per_fat f) < 65536"
    using unsigned_less [of "num_fats f", where 'a = nat] unsigned_less [of "sectors_per_fat f", where 'a = nat]
    by simp_all
  have kj: "k * unat (sectors_per_fat f) + j < unat (num_fats f) * unat (sectors_per_fat f)"
  proof -
    have "k * unat (sectors_per_fat f) + j < (k + 1) * unat (sectors_per_fat f)" using assms(3) by simp
    also have "\<dots> \<le> unat (num_fats f) * unat (sectors_per_fat f)" using assms(2) by (intro mult_le_mono1) simp
    finally show ?thesis .
  qed
  have b: "unat (fat_start_lba f) + (k * unat (sectors_per_fat f) + j) < 268435456"
    using assms(1) kj by (simp add: fs_ok_def)
  have s: "unat (ucast (sectors_per_fat f) :: u32) = unat (sectors_per_fat f)"
    by (simp add: unsigned_ucast_eq take_bit_nat_eq_self less_trans [OF sp])
  have "unat (of_nat k * ucast (sectors_per_fat f) :: u32) = k * unat (sectors_per_fat f)"
    using b assms(2) nf by (subst unat_mult_no_wrap) (simp_all add: unat_of_nat_u32 s)
  moreover have "unat (fat_start_lba f + of_nat j) = unat (fat_start_lba f) + j"
    using b assms(3) sp by (subst unat_add_no_wrap) (simp_all add: unat_of_nat_u32)
  ultimately show u: "unat (fat_lba f k j) = unat (fat_start_lba f) + k * unat (sectors_per_fat f) + j"
    unfolding fat_lba_def using b by (subst unat_add_no_wrap) simp_all
  show "in_fats f (fat_lba f k j)" using assms(1) kj u by (simp add: in_fats_def fs_ok_def)
  show "fat_lba f k j < 0x10000000" using u b by (simp add: word_less_nat_alt)
qed

lemma fat_sec_less: "fs_ok f \<Longrightarrow> valid_cluster f c \<Longrightarrow> fat_sec c < unat (sectors_per_fat f)"
  unfolding fat_sec_def by (intro div_less_iff_less_mult [THEN iffD2]) (auto simp: fs_ok_def valid_cluster_def)

lemma fat_entry_lba: "fat_entry f D c = get_le16 (D (fat_lba f 0 (fat_sec c))) (fat_off c)"
  by (simp add: fat_entry_def fat_lba_def)

text \<open>The disk after an entry was written to the copies \<open>k, \<dots>, k + n - 1\<close>.\<close>

definition fat_update :: "fat16_fs \<Rightarrow> nat \<Rightarrow> nat \<Rightarrow> u16 \<Rightarrow> u16 \<Rightarrow> disk \<Rightarrow> disk" where
  "fat_update f k n c v D =
    (\<lambda>lba. if \<exists>i. k \<le> i \<and> i < k + n \<and> lba = fat_lba f i (fat_sec c)
           then set_le16 (D lba) (fat_off c) v else D lba)"

definition set_fat :: "fat16_fs \<Rightarrow> u16 \<Rightarrow> u16 \<Rightarrow> disk \<Rightarrow> disk" where
  "set_fat f c v D = fat_update f 0 (unat (num_fats f)) c v D"

lemma ex_range_Suc:
  "(\<exists>i. k \<le> i \<and> i < k + Suc n \<and> P i) \<longleftrightarrow> P k \<or> (\<exists>i. Suc k \<le> i \<and> i < Suc k + n \<and> P i)"
proof
  assume "\<exists>i. k \<le> i \<and> i < k + Suc n \<and> P i"
  then obtain i where "k \<le> i" "i < k + Suc n" "P i" by blast
  then show "P k \<or> (\<exists>i. Suc k \<le> i \<and> i < Suc k + n \<and> P i)" by (cases "i = k") auto
next
  assume "P k \<or> (\<exists>i. Suc k \<le> i \<and> i < Suc k + n \<and> P i)"
  then show "\<exists>i. k \<le> i \<and> i < k + Suc n \<and> P i"
  proof
    assume "\<exists>i. Suc k \<le> i \<and> i < Suc k + n \<and> P i"
    then obtain i where "Suc k \<le> i" "i < Suc k + n" "P i" by blast
    then show ?thesis by (intro exI [of _ i]) simp
  qed (auto intro: exI [of _ k])
qed

lemma fat_update_Suc:
  assumes "fs_ok f" "valid_cluster f c" "k + Suc n \<le> unat (num_fats f)"
  shows "fat_update f (Suc k) n c v
      (D(fat_lba f k (fat_sec c) := set_le16 (D (fat_lba f k (fat_sec c))) (fat_off c) v)) =
    fat_update f k (Suc n) c v D"
proof -
  have ne: "fat_lba f i (fat_sec c) \<noteq> fat_lba f k (fat_sec c)" if "Suc k \<le> i" "i < Suc k + n" for i
  proof
    assume eq: "fat_lba f i (fat_sec c) = fat_lba f k (fat_sec c)"
    have "i * unat (sectors_per_fat f) = k * unat (sectors_per_fat f)"
      using unat_fat_lba(1) [OF assms(1) _ fat_sec_less [OF assms(1,2)], of i]
        unat_fat_lba(1) [OF assms(1) _ fat_sec_less [OF assms(1,2)], of k] that assms(3) eq by simp
    then show False using that assms(1) by (simp add: fs_ok_def)
  qed
  have ex: "(\<exists>i. k \<le> i \<and> i < k + Suc n \<and> lba = fat_lba f i (fat_sec c)) \<longleftrightarrow>
      lba = fat_lba f k (fat_sec c) \<or> (\<exists>i. Suc k \<le> i \<and> i < Suc k + n \<and> lba = fat_lba f i (fat_sec c))" for lba
    by (rule ex_range_Suc)
  show ?thesis
  proof
    fix lba
    show "fat_update f (Suc k) n c v
        (D(fat_lba f k (fat_sec c) := set_le16 (D (fat_lba f k (fat_sec c))) (fat_off c) v)) lba =
      fat_update f k (Suc n) c v D lba"
      unfolding fat_update_def ex using ne by (cases "lba = fat_lba f k (fat_sec c)") (simp_all, metis, metis)
  qed
qed

lemma set_fat_entry:
  assumes "fs_ok f" "valid_cluster f c" "valid_cluster f c'" "\<And>lba. length (D lba) = 512"
  shows "fat_entry f (set_fat f c v D) c' = (if c' = c then v else fat_entry f D c')"
proof -
  have nf: "0 < unat (num_fats f)" using assms(1) by (simp add: fs_ok_def)
  let ?l = "fat_lba f 0 (fat_sec c')"
  have hit: "(\<exists>i. 0 \<le> i \<and> i < 0 + unat (num_fats f) \<and> ?l = fat_lba f i (fat_sec c)) \<longleftrightarrow>
      fat_sec c' = fat_sec c"
  proof
    assume "\<exists>i. 0 \<le> i \<and> i < 0 + unat (num_fats f) \<and> ?l = fat_lba f i (fat_sec c)"
    then obtain i where i: "i < unat (num_fats f)" "?l = fat_lba f i (fat_sec c)" by auto
    have "fat_sec c' = i * unat (sectors_per_fat f) + fat_sec c"
      using unat_fat_lba(1) [OF assms(1) nf fat_sec_less [OF assms(1,3)]]
        unat_fat_lba(1) [OF assms(1) i(1) fat_sec_less [OF assms(1,2)]] i(2) by simp
    moreover have "fat_sec c' < unat (sectors_per_fat f)" by (rule fat_sec_less [OF assms(1,3)])
    ultimately show "fat_sec c' = fat_sec c" by (cases i) auto
  qed (use nf in auto)
  show ?thesis
  proof (cases "fat_sec c' = fat_sec c")
    case True
    then have "set_fat f c v D ?l = set_le16 (D ?l) (fat_off c) v"
      using hit by (simp add: set_fat_def fat_update_def)
    moreover have "c' \<noteq> c \<Longrightarrow> fat_off c' \<noteq> fat_off c" using True fat_pos_inj by blast
    ultimately show ?thesis
      using fat_off_less [of c] fat_off_less [of c'] assms(4)
      by (simp add: fat_entry_lba get_set_le16_other)
  next
    case False
    then show ?thesis using hit by (auto simp: fat_entry_lba set_fat_def fat_update_def)
  qed
qed

lemma set_fat_outside:
  assumes "fs_ok f" "valid_cluster f c" "\<not> in_fats f lba"
  shows "set_fat f c v D lba = D lba"
  using assms unat_fat_lba(2) [OF assms(1) _ fat_sec_less [OF assms(1,2)]]
  by (auto simp: set_fat_def fat_update_def)

lemma length_set_fat: "(\<And>lba. length (D lba) = 512) \<Longrightarrow> length (set_fat f c v D lba) = 512"
  by (simp add: set_fat_def fat_update_def)

section \<open>Entries on a device\<close>

context block_device
begin

lemma read_fat_entry:
  assumes "fs_ok f" "valid_cluster f c" "ok d"
  shows "\<exists>d'. fat16_read_fat_entry hw f c d = Some (fat_entry f (disk_of d) c, d') \<and> ok d' \<and>
    disk_of d' = disk_of d"
proof -
  have nf: "0 < unat (num_fats f)" and bps: "bytes_per_sector f = 512"
    using assms(1) by (simp_all add: fs_ok_def)
  have l: "fat_lba f 0 (fat_sec c) < 0x10000000"
    by (rule unat_fat_lba(3) [OF assms(1) nf fat_sec_less [OF assms(1,2)]])
  from read_law [OF assms(3) this] obtain d' where
    d': "block_read hw (fat_lba f 0 (fat_sec c)) 1 d = (Some (disk_of d (fat_lba f 0 (fat_sec c))), d')"
    "ok d'" "disk_of d' = disk_of d" by blast
  have "fat16_read_le16 (disk_of d (fat_lba f 0 (fat_sec c))) (of_nat (fat_off c)) =
      Some (fat_entry f (disk_of d) c)"
    using fat_off_less [of c] sector_law [OF assms(3)] by (simp add: read_le16_nat fat_entry_lba)
  with d' show ?thesis
    unfolding fat16_read_fat_entry_def Let_def bps fat_offset
    by (simp add: fat_lba_def)
qed

lemma write_fat_copies:
  assumes "fs_ok f" "valid_cluster f c"
  shows "ok d \<Longrightarrow> k + n \<le> unat (num_fats f) \<Longrightarrow>
    \<exists>d'. write_fat_copies hw f (of_nat (fat_sec c)) (of_nat (fat_off c)) v n (of_nat k) d = Some (0, d') \<and>
      ok d' \<and> disk_of d' = fat_update f k n c v (disk_of d)"
proof (induction n arbitrary: k d)
  case 0
  then show ?case by (auto simp: fat_update_def fun_eq_iff)
next
  case (Suc n)
  let ?l = "fat_lba f k (fat_sec c)"
  have l: "?l < 0x10000000"
    using unat_fat_lba(3) [OF assms(1) _ fat_sec_less [OF assms(1,2)], of k] Suc.prems(2) by simp
  from read_law [OF Suc.prems(1) l] obtain d1 where d1:
    "block_read hw ?l 1 d = (Some (disk_of d ?l), d1)" "ok d1" "disk_of d1 = disk_of d" by blast
  let ?sec = "set_le16 (disk_of d ?l) (fat_off c) v"
  have len: "length (disk_of d ?l) = 512" by (rule sector_law [OF Suc.prems(1)])
  then have wr: "fat16_write_le16 (disk_of d ?l) (of_nat (fat_off c)) v = Some ?sec"
    using fat_off_less [of c] by (simp add: write_le16_nat)
  from write_law [OF d1(2) l, of ?sec] len obtain d2 where d2:
    "block_write hw ?l ?sec 1 d1 = (0, d2)" "ok d2" "disk_of d2 = (disk_of d)(?l := ?sec)"
    using d1(3) by auto
  from Suc.IH [OF d2(2), of "Suc k"] Suc.prems(2) obtain d' where
    "write_fat_copies hw f (of_nat (fat_sec c)) (of_nat (fat_off c)) v n (of_nat (Suc k)) d2 = Some (0, d')"
    "ok d'" "disk_of d' = fat_update f (Suc k) n c v (disk_of d2)" by auto
  with d1 d2 wr fat_update_Suc [OF assms Suc.prems(2), of v "disk_of d"] show ?case
    by (simp add: fat_lba_def add.commute)
qed

lemma write_fat_entry:
  assumes "fs_ok f" "valid_cluster f c" "ok d"
  shows "\<exists>d'. fat16_write_fat_entry hw f c v d = Some (0, d') \<and> ok d' \<and>
    disk_of d' = set_fat f c v (disk_of d)"
proof -
  have bps: "bytes_per_sector f = 512" using assms(1) by (simp add: fs_ok_def)
  from write_fat_copies [OF assms(1,2,3), of 0 "unat (num_fats f)" v] show ?thesis
    unfolding fat16_write_fat_entry_def Let_def bps fat_offset by (simp add: set_fat_def)
qed

end

section \<open>Free clusters\<close>

definition free_clusters :: "fat16_fs \<Rightarrow> disk \<Rightarrow> u16 set" where
  "free_clusters f D = {c. valid_cluster f c \<and> fat_entry f D c = 0}"

text \<open>The least free cluster from \<open>c\<close> on is the one the search returns.\<close>

definition least_free :: "fat16_fs \<Rightarrow> disk \<Rightarrow> nat \<Rightarrow> u16 option" where
  "least_free f D n =
    map_option of_nat (find_index (\<lambda>i. fat_entry f D (of_nat i) = 0) n (unat (cluster_count f) + 2 - n))"

lemma unat_of_nat_u16: "n < 65536 \<Longrightarrow> unat (of_nat n :: u16) = n"
  by (simp add: unat_of_nat take_bit_nat_eq_self)

lemma unat_ucast_of_nat: "n < 65536 \<Longrightarrow> unat (ucast (of_nat n :: u16) :: u32) = n"
  by (simp add: unsigned_ucast_eq unat_of_nat_u16 take_bit_nat_eq_self)

lemma valid_cluster_nat:
  "fs_ok f \<Longrightarrow> 2 \<le> n \<Longrightarrow> n < unat (cluster_count f) + 2 \<Longrightarrow> valid_cluster f (of_nat n)"
  by (simp add: valid_cluster_def unat_of_nat_u16 fs_ok_def)

lemma least_free_None: "fs_ok f \<Longrightarrow> least_free f D 2 = None \<longleftrightarrow> free_clusters f D = {}"
proof -
  assume f: "fs_ok f"
  have "least_free f D 2 = None \<longleftrightarrow>
      (\<forall>k. 2 \<le> k \<and> k < unat (cluster_count f) + 2 \<longrightarrow> fat_entry f D (of_nat k) \<noteq> 0)"
    by (simp add: least_free_def find_index_None_iff)
  also have "\<dots> \<longleftrightarrow> (\<forall>c. valid_cluster f c \<longrightarrow> fat_entry f D c \<noteq> 0)"
  proof -
    have "of_nat (unat c) = c" for c :: u16 by simp
    then show ?thesis using valid_cluster_nat [OF f] by (metis valid_cluster_def)
  qed
  finally show ?thesis by (auto simp: free_clusters_def)
qed

lemma least_free_Some:
  assumes "fs_ok f" "least_free f D 2 = Some c"
  shows "c \<in> free_clusters f D" and "\<And>c'. c' \<in> free_clusters f D \<Longrightarrow> c \<le> c'"
proof -
  from assms(2) obtain i where i: "c = of_nat i" "2 \<le> i" "i < unat (cluster_count f) + 2"
    "fat_entry f D (of_nat i) = 0"
    "\<And>j. 2 \<le> j \<Longrightarrow> j < i \<Longrightarrow> fat_entry f D (of_nat j) \<noteq> 0"
    by (auto simp: least_free_def find_index_Some_iff)
  then show "c \<in> free_clusters f D"
    using valid_cluster_nat [OF assms(1)] by (simp add: free_clusters_def)
  have u: "unat c = i" using i assms(1) by (simp add: unat_of_nat_u16 fs_ok_def)
  fix c'
  assume "c' \<in> free_clusters f D"
  then have "2 \<le> unat c'" "fat_entry f D (of_nat (unat c')) = 0"
    by (simp_all add: free_clusters_def valid_cluster_def)
  then show "c \<le> c'" using i(5) [of "unat c'"] u by (auto simp: word_le_nat_alt not_less [symmetric])
qed

context block_device
begin

lemma find_free_from:
  assumes "fs_ok f"
  shows "ok d \<Longrightarrow> 2 \<le> n \<Longrightarrow> n + m = unat (cluster_count f) + 2 \<Longrightarrow>
    \<exists>d'. find_free_cluster_from hw f (of_nat n) d = Some (least_free f (disk_of d) n, d') \<and> ok d' \<and>
      disk_of d' = disk_of d"
proof (induction m arbitrary: n d)
  case 0
  have "unat (cluster_count f + 2) = unat (cluster_count f) + 2"
    using assms by (subst unat_add_no_wrap) (simp_all add: fs_ok_def)
  moreover have "unat (ucast (of_nat n :: u16) :: u32) = n"
    using 0 assms by (intro unat_ucast_of_nat) (simp add: fs_ok_def)
  ultimately show ?case
    using 0 by (subst find_free_cluster_from.simps) (simp add: word_less_nat_alt least_free_def)
next
  case (Suc m)
  have u: "unat (cluster_count f + 2) = unat (cluster_count f) + 2"
    using assms by (subst unat_add_no_wrap) (simp_all add: fs_ok_def)
  moreover have "unat (ucast (of_nat n :: u16) :: u32) = n"
    using Suc.prems assms by (intro unat_ucast_of_nat) (simp add: fs_ok_def)
  ultimately have lt: "(ucast (of_nat n :: u16) :: u32) < cluster_count f + 2"
    using Suc.prems by (simp add: word_less_nat_alt)
  have "valid_cluster f (of_nat n)" using valid_cluster_nat [OF assms] Suc.prems by simp
  from read_fat_entry [OF assms this Suc.prems(1)] obtain d1 where d1:
    "fat16_read_fat_entry hw f (of_nat n) d = Some (fat_entry f (disk_of d) (of_nat n), d1)"
    "ok d1" "disk_of d1 = disk_of d" by blast
  have s: "unat (cluster_count f) + 2 - n = Suc m" "unat (cluster_count f) + 2 - Suc n = m"
    using Suc.prems(3) by simp_all
  have lf: "least_free f D n =
      (if fat_entry f D (of_nat n) = 0 then Some (of_nat n) else least_free f D (Suc n))" for D
    unfolding least_free_def s by simp
  show ?case
  proof (cases "fat_entry f (disk_of d) (of_nat n) = 0")
    case True
    with d1 lt show ?thesis
      by (subst find_free_cluster_from.simps) (simp add: lf)
  next
    case False
    from Suc.IH [OF d1(2), of "Suc n"] Suc.prems d1(3) obtain d' where
      "find_free_cluster_from hw f (of_nat (Suc n)) d1 = Some (least_free f (disk_of d) (Suc n), d')"
      "ok d'" "disk_of d' = disk_of d" by auto
    with False d1 lt show ?thesis
      by (subst find_free_cluster_from.simps) (simp add: lf add.commute)
  qed
qed

text \<open>Allocating a cluster: the least free one becomes the end of a chain and is linked.\<close>

lemma allocate_cluster:
  assumes "fs_ok f" "ok d" "previous = 0 \<or> valid_cluster f previous"
  shows "free_clusters f (disk_of d) = {} \<Longrightarrow>
      \<exists>d'. fat16_allocate_cluster hw f previous d = Some (None, d') \<and> ok d' \<and> disk_of d' = disk_of d"
    and "free_clusters f (disk_of d) \<noteq> {} \<Longrightarrow>
      \<exists>c d'. fat16_allocate_cluster hw f previous d = Some (Some c, d') \<and> ok d' \<and>
        c \<in> free_clusters f (disk_of d) \<and> (\<forall>c' \<in> free_clusters f (disk_of d). c \<le> c') \<and>
        disk_of d' = (if previous = 0 then set_fat f c FAT16_CLUSTER_EOC (disk_of d)
          else set_fat f previous c (set_fat f c FAT16_CLUSTER_EOC (disk_of d)))"
proof -
  from find_free_from [OF assms(1,2), of 2 "unat (cluster_count f)"] obtain d1 where d1:
    "fat16_find_free_cluster hw f d = Some (least_free f (disk_of d) 2, d1)" "ok d1" "disk_of d1 = disk_of d"
    by (auto simp: fat16_find_free_cluster_def FAT16_CLUSTER_MIN_def)
  show "\<exists>d'. fat16_allocate_cluster hw f previous d = Some (None, d') \<and> ok d' \<and> disk_of d' = disk_of d"
    if "free_clusters f (disk_of d) = {}"
    using least_free_None [OF assms(1), of "disk_of d"] d1 that by (simp add: fat16_allocate_cluster_def)
  assume "free_clusters f (disk_of d) \<noteq> {}"
  then obtain c where c: "least_free f (disk_of d) 2 = Some c"
    using least_free_None [OF assms(1)] by blast
  note lf = least_free_Some [OF assms(1) c]
  then have v: "valid_cluster f c" by (simp add: free_clusters_def)
  from write_fat_entry [OF assms(1) v d1(2), of FAT16_CLUSTER_EOC] obtain d2 where d2:
    "fat16_write_fat_entry hw f c FAT16_CLUSTER_EOC d1 = Some (0, d2)" "ok d2"
    "disk_of d2 = set_fat f c FAT16_CLUSTER_EOC (disk_of d)"
    using d1(3) by auto
  show "\<exists>c d'. fat16_allocate_cluster hw f previous d = Some (Some c, d') \<and> ok d' \<and>
      c \<in> free_clusters f (disk_of d) \<and> (\<forall>c' \<in> free_clusters f (disk_of d). c \<le> c') \<and>
      disk_of d' = (if previous = 0 then set_fat f c FAT16_CLUSTER_EOC (disk_of d)
        else set_fat f previous c (set_fat f c FAT16_CLUSTER_EOC (disk_of d)))"
  proof (cases "previous = 0")
    case True
    with c d1 d2 lf show ?thesis
      by (auto simp: fat16_allocate_cluster_def FAT16_CLUSTER_MIN_def)
  next
    case False
    then have vp: "valid_cluster f previous" using assms(3) by blast
    then have "FAT16_CLUSTER_MIN \<le> previous"
      by (simp add: valid_cluster_def FAT16_CLUSTER_MIN_def word_le_nat_alt)
    moreover from write_fat_entry [OF assms(1) vp d2(2), of c] obtain d3 where
      "fat16_write_fat_entry hw f previous c d2 = Some (0, d3)" "ok d3"
      "disk_of d3 = set_fat f previous c (set_fat f c FAT16_CLUSTER_EOC (disk_of d))"
      using d2(3) by auto
    ultimately show ?thesis using c d1 d2 lf False
      by (auto simp: fat16_allocate_cluster_def)
  qed
qed

end

end
