(* ===== verification/FileData.thy ===== *)
theory FileData
  imports FatTable
begin

text \<open>
  The data of files: clusters on the disk, chains of clusters, the bytes of a file along its chain,
  and what the loops of \<open>fat16_read\<close> and \<open>fat16_write\<close> do to them.
\<close>

section \<open>Clusters on the disk\<close>

lemma unat_ucast_u16 [simp]: "unat (ucast (x :: u16) :: u32) = unat x"
  using unsigned_less [of x, where 'a = nat] by (simp add: unsigned_ucast_eq take_bit_nat_eq_self)

lemma unat_ucast_u8 [simp]: "unat (ucast (x :: u8) :: u32) = unat x"
  using unsigned_less [of x, where 'a = nat] by (simp add: unsigned_ucast_eq take_bit_nat_eq_self)

lemma unat_u16: "unat (x :: u16) < 65536"
  using unsigned_less [of x, where 'a = nat] by simp

lemma unat_u8: "unat (x :: u8) < 256"
  using unsigned_less [of x, where 'a = nat] by simp

abbreviation spc :: "fat16_fs \<Rightarrow> nat" where
  "spc f \<equiv> unat (sectors_per_cluster f)"

definition cluster_bytes :: "fat16_fs \<Rightarrow> nat" where
  "cluster_bytes f = 512 * spc f"

text \<open>Sector \<open>q\<close> of cluster \<open>c\<close>.\<close>

definition data_lba :: "fat16_fs \<Rightarrow> u16 \<Rightarrow> nat \<Rightarrow> u32" where
  "data_lba f c q = fat16_cluster_to_lba f c + of_nat q"

definition cbyte :: "fat16_fs \<Rightarrow> disk \<Rightarrow> u16 \<Rightarrow> nat \<Rightarrow> u8" where
  "cbyte f D c i = D (data_lba f c (i div 512)) ! (i mod 512)"

lemma cluster_bytes_pos: "fs_ok f \<Longrightarrow> 0 < cluster_bytes f"
  by (simp add: cluster_bytes_def fs_ok_def)

lemma unat_data_lba:
  assumes "fs_ok f" "valid_cluster f c" "q < spc f"
  shows "unat (data_lba f c q) = unat (data_start_lba f) + (unat c - 2) * spc f + q"
    and "data_lba f c q < 0x10000000" and "\<not> in_fats f (data_lba f c q)"
    and "unat (data_start_lba f) \<le> unat (data_lba f c q)"
proof -
  have c: "2 \<le> unat c" "unat c - 2 < unat (cluster_count f)"
    using assms(2) by (auto simp: valid_cluster_def)
  have "(unat c - 2) * spc f + q < (unat c - 2 + 1) * spc f" using assms(3) by simp
  also have "\<dots> \<le> unat (cluster_count f) * spc f" using c(2) by (intro mult_le_mono1) simp
  finally have lt: "(unat c - 2) * spc f + q < unat (cluster_count f) * spc f" .
  have b: "unat (data_start_lba f) + ((unat c - 2) * spc f + q) < 268435456"
    using assms(1) lt by (simp add: fs_ok_def)
  have u2: "unat (ucast c - 2 :: u32) = unat c - 2"
    using c(1) by (simp add: unat_sub word_le_nat_alt)
  have m: "unat ((ucast c - 2) * ucast (sectors_per_cluster f) :: u32) = (unat c - 2) * spc f"
    using b by (subst unat_mult_no_wrap) (simp_all add: u2)
  have a: "unat (fat16_cluster_to_lba f c) = unat (data_start_lba f) + (unat c - 2) * spc f"
    unfolding fat16_cluster_to_lba_def using b m by (subst unat_add_no_wrap) simp_all
  have "q < 4294967296" using assms(3) unat_u8 [of "sectors_per_cluster f"] by simp
  then show u: "unat (data_lba f c q) = unat (data_start_lba f) + (unat c - 2) * spc f + q"
    unfolding data_lba_def using b a by (subst unat_add_no_wrap) (simp_all add: unat_of_nat_u32)
  then show "data_lba f c q < 0x10000000" using b by (simp add: word_less_nat_alt)
  show "\<not> in_fats f (data_lba f c q)" using u assms(1) by (simp add: in_fats_def fs_ok_def)
  show "unat (data_start_lba f) \<le> unat (data_lba f c q)" using u by simp
qed

lemma data_lba_inj:
  assumes "fs_ok f" "valid_cluster f c" "q < spc f" "valid_cluster f c'" "q' < spc f"
  shows "data_lba f c q = data_lba f c' q' \<longleftrightarrow> c = c' \<and> q = q'"
proof
  assume "data_lba f c q = data_lba f c' q'"
  then have e: "(unat c - 2) * spc f + q = (unat c' - 2) * spc f + q'"
    using unat_data_lba(1) [OF assms(1-3)] unat_data_lba(1) [OF assms(1,4,5)] by simp
  have "((unat c - 2) * spc f + q) div spc f = unat c - 2" "((unat c' - 2) * spc f + q') div spc f = unat c' - 2"
    using assms(3,5) by simp_all
  with e have "unat c - 2 = unat c' - 2" by simp
  moreover have "2 \<le> unat c" "2 \<le> unat c'" using assms(2,4) by (simp_all add: valid_cluster_def)
  ultimately have "unat c = unat c'" by simp
  with e show "c = c' \<and> q = q'" by (simp add: word_unat_eq_iff)
qed simp

lemma mod_cluster:
  assumes "fs_ok f"
  shows "x mod cluster_bytes f div 512 < spc f" and "x mod cluster_bytes f mod 512 = x mod 512"
proof -
  have "x mod cluster_bytes f < 512 * spc f" using cluster_bytes_pos [OF assms] by (simp add: cluster_bytes_def)
  then show "x mod cluster_bytes f div 512 < spc f" by (simp add: div_less_iff_less_mult mult.commute)
  show "x mod cluster_bytes f mod 512 = x mod 512" by (simp add: cluster_bytes_def mod_mult2_eq)
qed

section \<open>Chains and the bytes of a file\<close>

definition chain :: "fat16_fs \<Rightarrow> disk \<Rightarrow> u16 list \<Rightarrow> bool" where
  "chain f D cs \<longleftrightarrow> cs \<noteq> [] \<and> distinct cs \<and> (\<forall>c \<in> set cs. valid_cluster f c) \<and>
     (\<forall>i. Suc i < length cs \<longrightarrow> fat_entry f D (cs ! i) = cs ! Suc i) \<and>
     fat_entry f D (last cs) \<ge> FAT16_CLUSTER_EOC"

definition fbyte :: "fat16_fs \<Rightarrow> disk \<Rightarrow> u16 list \<Rightarrow> nat \<Rightarrow> u8" where
  "fbyte f D cs x = cbyte f D (cs ! (x div cluster_bytes f)) (x mod cluster_bytes f)"

text \<open>Writing bytes at position \<open>p\<close> into cluster \<open>c\<close>, within one sector.\<close>

definition put_data :: "fat16_fs \<Rightarrow> u16 \<Rightarrow> nat \<Rightarrow> u8 list \<Rightarrow> disk \<Rightarrow> disk" where
  "put_data f c p bs D =
    (let lba = data_lba f c (p mod cluster_bytes f div 512) in D(lba := overwrite (D lba) (p mod 512) bs))"

lemma cbyte_put_data:
  assumes "fs_ok f" "valid_cluster f c" "valid_cluster f c'" "i < cluster_bytes f"
    and "\<And>lba. length (D lba) = 512" "p mod 512 + length bs \<le> 512"
  shows "cbyte f (put_data f c p bs D) c' i =
    (if c' = c \<and> p mod cluster_bytes f \<le> i \<and> i < p mod cluster_bytes f + length bs
     then bs ! (i - p mod cluster_bytes f) else cbyte f D c' i)"
proof -
  let ?P = "p mod cluster_bytes f"
  have i: "i div 512 < spc f" using assms(4) by (simp add: div_less_iff_less_mult cluster_bytes_def mult.commute)
  note inj = data_lba_inj [OF assms(1,3) i assms(2) mod_cluster(1) [OF assms(1), of p]]
  have pm: "?P mod 512 = p mod 512" by (rule mod_cluster(2) [OF assms(1)])
  show ?thesis
  proof (cases "c' = c \<and> i div 512 = ?P div 512")
    case True
    have P: "?P = 512 * (?P div 512) + p mod 512" using pm mult_div_mod_eq [of 512 ?P] by simp
    have I: "i = 512 * (?P div 512) + i mod 512" using True mult_div_mod_eq [of 512 i] by simp
    have "(?P \<le> i \<and> i < ?P + length bs) \<longleftrightarrow> (p mod 512 \<le> i mod 512 \<and> i mod 512 < p mod 512 + length bs)"
      and "i - ?P = i mod 512 - p mod 512"
      using P I by linarith+
    moreover have "i mod 512 < 512" by simp
    ultimately show ?thesis
      using True inj assms(5,6) nth_overwrite [of "p mod 512" bs "D (data_lba f c (?P div 512))" "i mod 512"]
      by (simp add: cbyte_def put_data_def Let_def)
  next
    case False
    have "\<not> (c' = c \<and> ?P \<le> i \<and> i < ?P + length bs)"
    proof
      assume a: "c' = c \<and> ?P \<le> i \<and> i < ?P + length bs"
      have "?P = 512 * (?P div 512) + p mod 512" using pm mult_div_mod_eq [of 512 ?P] by simp
      then have "512 * (?P div 512) \<le> i" "i < 512 * (?P div 512) + 512" using a assms(6) by linarith+
      then have "i div 512 = ?P div 512" by (simp add: div_nat_eqI)
      then show False using False a by simp
    qed
    then show ?thesis using False inj by (auto simp: cbyte_def put_data_def Let_def)
  qed
qed

lemma fat_entry_cong: "(\<And>lba. in_fats f lba \<Longrightarrow> D' lba = D lba) \<Longrightarrow> fs_ok f \<Longrightarrow> valid_cluster f c \<Longrightarrow>
    fat_entry f D' c = fat_entry f D c"
  using unat_fat_lba(2) [of f 0 "fat_sec c"] fat_sec_less [of f c] by (simp add: fat_entry_lba fs_ok_def)

lemma fat_entry_put_data:
  assumes "fs_ok f" "valid_cluster f c" "valid_cluster f c'"
  shows "fat_entry f (put_data f c p bs D) c' = fat_entry f D c'"
  using assms unat_data_lba(3) [OF assms(1,2) mod_cluster(1) [OF assms(1)]]
  by (intro fat_entry_cong) (auto simp: put_data_def Let_def)

lemma cbyte_set_fat:
  assumes "fs_ok f" "valid_cluster f c" "valid_cluster f c'" "i < cluster_bytes f"
  shows "cbyte f (set_fat f c v D) c' i = cbyte f D c' i"
proof -
  have "i div 512 < spc f" using assms(4) by (simp add: div_less_iff_less_mult cluster_bytes_def mult.commute)
  then show ?thesis
    using set_fat_outside [OF assms(1,2) unat_data_lba(3) [OF assms(1,3)]] by (simp add: cbyte_def)
qed

lemma length_put_data:
  "(\<And>lba. length (D lba) = 512) \<Longrightarrow> p mod 512 + length bs \<le> 512 \<Longrightarrow> length (put_data f c p bs D lba) = 512"
  by (simp add: put_data_def Let_def)

lemma chain_nth_valid: "chain f D cs \<Longrightarrow> i < length cs \<Longrightarrow> valid_cluster f (cs ! i)"
  by (auto simp: chain_def)

lemma chain_put_data:
  assumes "fs_ok f" "chain f D cs" "valid_cluster f c"
  shows "chain f (put_data f c p bs D) cs"
  using assms fat_entry_put_data [OF assms(1,3)] by (simp add: chain_def)

text \<open>A chunk within one sector changes exactly its bytes of the file.\<close>

lemma fbyte_put_data:
  assumes "fs_ok f" "chain f D cs" "p div cluster_bytes f < length cs" "x div cluster_bytes f < length cs"
    and "\<And>lba. length (D lba) = 512" "p mod 512 + length bs \<le> 512"
  shows "fbyte f (put_data f (cs ! (p div cluster_bytes f)) p bs D) cs x =
    (if p \<le> x \<and> x < p + length bs then bs ! (x - p) else fbyte f D cs x)"
proof -
  let ?C = "cluster_bytes f" and ?P = "p mod cluster_bytes f" and ?X = "x mod cluster_bytes f"
  note v = chain_nth_valid [OF assms(2)]
  have C: "0 < ?C" by (rule cluster_bytes_pos [OF assms(1)])
  have eq: "cs ! (x div ?C) = cs ! (p div ?C) \<longleftrightarrow> x div ?C = p div ?C"
    using assms(2-4) by (simp add: chain_def nth_eq_iff_index_eq)
  have p: "p = p div ?C * ?C + ?P" and x: "x = x div ?C * ?C + ?X" by simp_all
  have fin: "?P + length bs \<le> ?C"
  proof -
    have "?P = 512 * (?P div 512) + p mod 512" using mod_cluster(2) [OF assms(1), of p] mult_div_mod_eq [of 512 ?P] by simp
    moreover have "?P div 512 + 1 \<le> spc f" using mod_cluster(1) [OF assms(1), of p] by simp
    then have "512 * (?P div 512 + 1) \<le> 512 * spc f" by (rule mult_le_mono2)
    ultimately show ?thesis using assms(6) by (simp add: cluster_bytes_def)
  qed
  have same: "(p \<le> x \<and> x < p + length bs) \<longleftrightarrow> x div ?C = p div ?C \<and> ?P \<le> ?X \<and> ?X < ?P + length bs"
  proof (cases "x div ?C = p div ?C")
    case True
    then have x': "x = p div ?C * ?C + ?X" using x by simp
    have "p \<le> x \<longleftrightarrow> ?P \<le> ?X" "x < p + length bs \<longleftrightarrow> ?X < ?P + length bs"
      using p x' by linarith+
    with True show ?thesis by simp
  next
    case False
    have "\<not> (p \<le> x \<and> x < p + length bs)"
    proof
      assume a: "p \<le> x \<and> x < p + length bs"
      then have "p div ?C * ?C \<le> x" "x < p div ?C * ?C + ?C" using p fin by linarith+
      then have "x div ?C = p div ?C" by (intro div_nat_eqI) (simp_all add: mult.commute)
      with False show False by simp
    qed
    with False show ?thesis by simp
  qed
  have diff: "x div ?C = p div ?C \<Longrightarrow> ?X - ?P = x - p" using p x by (metis diff_cancel2 add.commute)
  have X: "?X < ?C" using C by simp
  show ?thesis
    unfolding fbyte_def
    using cbyte_put_data [OF assms(1) v [OF assms(3)] v [OF assms(4)] X, of D p bs] assms(5,6) same eq diff
    by auto
qed

lemma free_not_in_chain:
  assumes "chain f D cs" "c \<in> free_clusters f D"
  shows "c \<notin> set cs"
proof
  assume "c \<in> set cs"
  then obtain i where i: "i < length cs" "cs ! i = c" by (metis in_set_conv_nth)
  have "fat_entry f D c = 0" using assms(2) by (simp add: free_clusters_def)
  show False
  proof (cases "Suc i < length cs")
    case True
    then have "cs ! Suc i = 0" using assms(1) i \<open>fat_entry f D c = 0\<close> by (auto simp: chain_def)
    moreover have "valid_cluster f (cs ! Suc i)" using chain_nth_valid [OF assms(1) True] .
    ultimately show False by (simp add: valid_cluster_def)
  next
    case False
    then have "last cs = c" using i by (metis Suc_lessI diff_Suc_1 last_conv_nth list.size(3) not_less_zero)
    then show False using assms(1) \<open>fat_entry f D c = 0\<close> by (simp add: chain_def FAT16_CLUSTER_EOC_def)
  qed
qed

definition link_cluster :: "fat16_fs \<Rightarrow> u16 \<Rightarrow> u16 \<Rightarrow> disk \<Rightarrow> disk" where
  "link_cluster f prev c D = set_fat f prev c (set_fat f c FAT16_CLUSTER_EOC D)"

lemma link_cluster_entry:
  assumes "fs_ok f" "valid_cluster f prev" "valid_cluster f c" "prev \<noteq> c" "\<And>lba. length (D lba) = 512"
    and "valid_cluster f x"
  shows "fat_entry f (link_cluster f prev c D) x =
    (if x = prev then c else if x = c then FAT16_CLUSTER_EOC else fat_entry f D x)"
  using assms unfolding link_cluster_def by (simp add: set_fat_entry length_set_fat)

lemma link_cluster_data:
  assumes "fs_ok f" "valid_cluster f prev" "valid_cluster f c" "valid_cluster f x" "i < cluster_bytes f"
  shows "cbyte f (link_cluster f prev c D) x i = cbyte f D x i"
  using assms by (simp add: link_cluster_def cbyte_set_fat)

lemma last_in_chain: "chain f D cs \<Longrightarrow> valid_cluster f (last cs)"
  by (simp add: chain_def)

lemma chain_link:
  assumes "fs_ok f" "chain f D cs" "c \<in> free_clusters f D" "\<And>lba. length (D lba) = 512"
  shows "chain f (link_cluster f (last cs) c D) (cs @ [c])"
    and "x div cluster_bytes f < length cs \<Longrightarrow>
      fbyte f (link_cluster f (last cs) c D) (cs @ [c]) x = fbyte f D cs x"
    and "free_clusters f (link_cluster f (last cs) c D) = free_clusters f D - {c}"
proof -
  have vc: "valid_cluster f c" using assms(3) by (simp add: free_clusters_def)
  have nc: "c \<notin> set cs" by (rule free_not_in_chain [OF assms(2,3)])
  have cs: "cs \<noteq> []" "distinct cs" "\<And>x. x \<in> set cs \<Longrightarrow> valid_cluster f x"
    using assms(2) by (auto simp: chain_def)
  have ne: "last cs \<noteq> c" using nc cs(1) last_in_set by metis
  note e = link_cluster_entry [OF assms(1) last_in_chain [OF assms(2)] vc ne assms(4)]
  have "fat_entry f (link_cluster f (last cs) c D) ((cs @ [c]) ! i) = (cs @ [c]) ! Suc i"
    if "Suc i < length (cs @ [c])" for i
  proof (cases "Suc i < length cs")
    case True
    have "cs ! i \<noteq> last cs" using True cs by (simp add: last_conv_nth nth_eq_iff_index_eq)
    moreover have "cs ! i \<noteq> c" using True nc by (metis Suc_lessD nth_mem)
    ultimately show ?thesis
      using True e [of "cs ! i"] chain_nth_valid [OF assms(2), of i] assms(2)
      by (simp add: nth_append chain_def)
  next
    case False
    then have i: "Suc i = length cs" using that by simp
    then have "cs ! i = last cs" using cs(1) by (metis diff_Suc_1 last_conv_nth)
    with i e [of "last cs"] last_in_chain [OF assms(2)] show ?thesis by (simp add: nth_append)
  qed
  moreover have "fat_entry f (link_cluster f (last cs) c D) c = FAT16_CLUSTER_EOC"
    using e [OF vc] ne by simp
  ultimately show "chain f (link_cluster f (last cs) c D) (cs @ [c])"
    using cs nc vc by (auto simp: chain_def)
  show "fbyte f (link_cluster f (last cs) c D) (cs @ [c]) x = fbyte f D cs x"
    if "x div cluster_bytes f < length cs"
    using that link_cluster_data [OF assms(1) last_in_chain [OF assms(2)] vc chain_nth_valid [OF assms(2) that]]
      cluster_bytes_pos [OF assms(1)]
    by (simp add: fbyte_def nth_append)
  have "fat_entry f (link_cluster f (last cs) c D) x = 0 \<longleftrightarrow> fat_entry f D x = 0 \<and> x \<noteq> c"
    if "valid_cluster f x" for x
    using e [OF that] vc ne free_not_in_chain [OF assms(2), of x] last_in_set [OF cs(1)] that
    by (auto simp: free_clusters_def valid_cluster_def FAT16_CLUSTER_EOC_def)
  then show "free_clusters f (link_cluster f (last cs) c D) = free_clusters f D - {c}"
    by (auto simp: free_clusters_def)
qed

section \<open>The write loop\<close>

lemma memcpy_overwrite:
  "i + n \<le> length dst \<Longrightarrow> j + n \<le> length src \<Longrightarrow>
     fat16_memcpy dst i src j n = Some (overwrite dst i (take n (drop j src)))"
proof (induction n arbitrary: dst i j)
  case (Suc n)
  have "take (Suc n) (drop j src) = src ! j # take n (drop (Suc j) src)"
    using Suc.prems by (simp add: Cons_nth_drop_Suc [symmetric])
  with Suc.IH [of "Suc i" "dst[i := src ! j]" "Suc j"] Suc.prems show ?case
    by (simp add: overwrite_Cons)
qed simp

text \<open>Where the position of a file lies, in natural numbers.\<close>

lemma file_place_eq:
  assumes "fs_ok f" "p < 4294967296" "position file = of_nat p"
  shows "file_place f file = Some (data_lba f (current_cluster file) (p mod cluster_bytes f div 512),
     of_nat (p mod cluster_bytes f div 512), of_nat (p mod 512))"
proof -
  have bps: "bytes_per_sector f = 512" and s: "0 < spc f" using assms(1) by (simp_all add: fs_ok_def)
  have s256: "spc f < 256" by (rule unat_u8)
  have b: "(ucast (512 :: u16) :: u32) = 512" by simp
  have cb: "unat (512 * ucast (sectors_per_cluster f) :: u32) = cluster_bytes f"
    using s256 by (subst unat_mult_no_wrap) (simp_all add: cluster_bytes_def)
  then have nz: "512 * (ucast (sectors_per_cluster f) :: u32) \<noteq> 0"
    using cluster_bytes_pos [OF assms(1)] by auto
  have cb_lt: "cluster_bytes f < 4294967296" using s256 by (simp add: cluster_bytes_def)
  have m: "unat (of_nat p mod (512 * ucast (sectors_per_cluster f)) :: u32) = p mod cluster_bytes f"
    using assms(2) cb by (simp add: unat_mod unat_of_nat_u32)
  have lt: "p mod cluster_bytes f < 4294967296"
    using mod_less_divisor [OF cluster_bytes_pos [OF assms(1)], of p] cb_lt by simp
  have d: "(of_nat p mod (512 * ucast (sectors_per_cluster f)) :: u32) div 512 = of_nat (p mod cluster_bytes f div 512)"
    using lt by (simp add: word_unat_eq_iff unat_div m unat_of_nat_u32 less_imp_diff_less div_le_dividend [THEN le_less_trans])
  have o: "(of_nat p mod (512 * ucast (sectors_per_cluster f)) :: u32) mod 512 = of_nat (p mod 512)"
    using mod_cluster(2) [OF assms(1), of p] assms(2) by (simp add: word_unat_eq_iff unat_mod cb unat_of_nat_u32)
  show ?thesis
    using nz by (simp add: file_place_def bps b assms(3) d o data_lba_def Let_def)
qed

lemma sint_of_nat_small: "k < 2147483648 \<Longrightarrow> sint (of_nat k :: u32) = int k"
  by (simp add: signed_of_nat signed_take_bit_int_eq_self)

text \<open>The bytes that one iteration transfers: up to the end of the sector.\<close>

definition chunk_len :: "nat \<Rightarrow> nat \<Rightarrow> nat" where
  "chunk_len p r = min (512 - p mod 512) r"

lemma chunk_len:
  "0 < r \<Longrightarrow> 0 < chunk_len p r" "chunk_len p r \<le> r" "p mod 512 + chunk_len p r \<le> 512"
  "chunk_len p r \<noteq> r \<Longrightarrow> p mod 512 + chunk_len p r = 512"
  by (auto simp: chunk_len_def min_def less_imp_le [OF mod_less_divisor])

lemma chunk_word:
  assumes "r < 4294967296"
  shows "min (512 - of_nat (p mod 512)) (of_nat r) = (of_nat (chunk_len p r) :: u32)"
proof -
  have o: "unat (512 - of_nat (p mod 512) :: u32) = 512 - p mod 512"
    by (simp add: unat_sub word_le_nat_alt unat_of_nat_u32 less_imp_le)
  have "unat (of_nat (chunk_len p r) :: u32) = chunk_len p r"
    using assms chunk_len(2) [of p r] by (intro unat_of_nat_u32) simp
  then show ?thesis
    using o assms by (simp add: word_unat_eq_iff min_def word_le_nat_alt unat_of_nat_u32 chunk_len_def)
qed

text \<open>The chunk ends the cluster exactly when the next position is a multiple of the cluster size.\<close>

lemma boundary_iff:
  assumes "fs_ok f" "0 < n" "p mod 512 + n \<le> 512"
  shows "p mod cluster_bytes f div 512 = spc f - 1 \<and> p mod 512 + n = 512 \<longleftrightarrow> (p + n) mod cluster_bytes f = 0"
    and "(p + n) mod cluster_bytes f \<noteq> 0 \<Longrightarrow> (p + n) div cluster_bytes f = p div cluster_bytes f"
    and "(p + n) mod cluster_bytes f = 0 \<Longrightarrow> (p + n) div cluster_bytes f = Suc (p div cluster_bytes f)"
    and "(p + n - 1) div cluster_bytes f = p div cluster_bytes f"
proof -
  define C where "C = cluster_bytes f"
  define P where "P = p mod C"
  define q where "q = P div 512"
  define off where "off = p mod 512"
  have C: "0 < C" "C = 512 * spc f" and s: "0 < spc f"
    using cluster_bytes_pos [OF assms(1)] assms(1) by (simp_all add: fs_ok_def C_def cluster_bytes_def)
  have P: "P = 512 * q + off"
    using mod_cluster(2) [OF assms(1), of p] mult_div_mod_eq [of 512 P] by (simp add: P_def C_def q_def off_def)
  have q: "q + 1 \<le> spc f" using mod_cluster(1) [OF assms(1), of p] by (simp add: P_def C_def q_def)
  then have "512 * (q + 1) \<le> C" unfolding C(2) by (rule mult_le_mono2)
  moreover have off: "off + n \<le> 512" using assms(3) by (simp add: off_def)
  ultimately have fin: "P + n \<le> C" using P by simp
  have p: "p + n = C * (p div C) + (P + n)" using mult_div_mod_eq [of C p] P_def by linarith
  have lt: "P + n < C \<Longrightarrow> (p + n) mod C = P + n \<and> (p + n) div C = p div C"
    unfolding p by simp
  have eq: "P + n = C \<Longrightarrow> (p + n) mod C = 0 \<and> (p + n) div C = Suc (p div C)"
    unfolding p using C(1) by simp
  have iff: "(p + n) mod C = 0 \<longleftrightarrow> P + n = C"
    using lt eq fin assms(2) by (metis add_gr_0 le_neq_implies_less less_not_refl)
  have "q = spc f - 1 \<and> off + n = 512 \<longleftrightarrow> (p + n) mod C = 0"
  proof
    assume a: "q = spc f - 1 \<and> off + n = 512"
    then have "q + 1 = spc f" using s by simp
    then have "P + n = C" using P a C(2) by linarith
    then show "(p + n) mod C = 0" using iff by simp
  next
    assume "(p + n) mod C = 0"
    then have e: "P + n = 512 * spc f" using iff C(2) by simp
    have "\<not> q + 1 < spc f" using e P off by linarith
    then have d: "spc f = q + 1" using q by simp
    then show "q = spc f - 1 \<and> off + n = 512" using e P by simp
  qed
  then show "p mod cluster_bytes f div 512 = spc f - 1 \<and> p mod 512 + n = 512 \<longleftrightarrow> (p + n) mod cluster_bytes f = 0"
    by (simp add: q_def P_def C_def off_def)
  show "(p + n) mod cluster_bytes f \<noteq> 0 \<Longrightarrow> (p + n) div cluster_bytes f = p div cluster_bytes f"
    using lt iff fin unfolding C_def by (metis le_neq_implies_less)
  show "(p + n) mod cluster_bytes f = 0 \<Longrightarrow> (p + n) div cluster_bytes f = Suc (p div cluster_bytes f)"
    using eq iff unfolding C_def by simp
  have "p + n - 1 = C * (p div C) + (P + n - 1)" using p assms(2) by linarith
  moreover have "P + n - 1 < C" using fin assms(2) by linarith
  ultimately show "(p + n - 1) div cluster_bytes f = p div cluster_bytes f" unfolding C_def [symmetric] by simp
qed

lemma boundary_word:
  assumes "fs_ok f" "0 < n" "p mod 512 + n \<le> 512"
  shows "of_nat (p mod cluster_bytes f div 512) = (ucast (sectors_per_cluster f) - 1 :: u32) \<and>
      of_nat (p mod 512) + of_nat n = (512 :: u32) \<longleftrightarrow> (p + n) mod cluster_bytes f = 0"
proof -
  have s: "0 < spc f" "spc f < 256" using assms(1) unat_u8 by (simp_all add: fs_ok_def)
  then have "unat (ucast (sectors_per_cluster f) - 1 :: u32) = spc f - 1"
    by (subst unat_minus_one) (auto simp: word_unat_eq_iff)
  moreover have "p mod cluster_bytes f div 512 < 256" using mod_cluster(1) [OF assms(1), of p] s by simp
  ultimately have "of_nat (p mod cluster_bytes f div 512) = (ucast (sectors_per_cluster f) - 1 :: u32) \<longleftrightarrow>
      p mod cluster_bytes f div 512 = spc f - 1"
    by (simp add: word_unat_eq_iff unat_of_nat_u32)
  moreover have "unat (of_nat (p mod 512) + of_nat n :: u32) = p mod 512 + n"
    using assms(3) unat_of_nat_u32 [of "p mod 512 + n"] by simp
  then have "of_nat (p mod 512) + of_nat n = (512 :: u32) \<longleftrightarrow> p mod 512 + n = 512"
    by (simp add: word_unat_eq_iff)
  ultimately show ?thesis using boundary_iff(1) [OF assms] by simp
qed

text \<open>
  What a write leaves alone: the clusters of other files (used and outside the chain) with their
  entries and bytes, and every sector before the data area that is not part of a FAT.
\<close>

definition others_same :: "fat16_fs \<Rightarrow> u16 list \<Rightarrow> disk \<Rightarrow> disk \<Rightarrow> bool" where
  "others_same f cs D D' \<longleftrightarrow>
     (\<forall>c. valid_cluster f c \<and> c \<notin> set cs \<and> c \<notin> free_clusters f D \<longrightarrow>
        fat_entry f D' c = fat_entry f D c \<and> (\<forall>i < cluster_bytes f. cbyte f D' c i = cbyte f D c i)) \<and>
     (\<forall>lba. \<not> in_fats f lba \<and> unat lba < unat (data_start_lba f) \<longrightarrow> D' lba = D lba)"

lemma free_put_data:
  "fs_ok f \<Longrightarrow> valid_cluster f c \<Longrightarrow> free_clusters f (put_data f c p bs D) = free_clusters f D"
  by (auto simp: free_clusters_def fat_entry_put_data)

lemma others_put_data:
  assumes "fs_ok f" "c \<in> set cs" "valid_cluster f c" "\<And>lba. length (D lba) = 512" "p mod 512 + length bs \<le> 512"
  shows "others_same f cs D (put_data f c p bs D)"
proof -
  have "put_data f c p bs D lba = D lba" if "unat lba < unat (data_start_lba f)" for lba
    using unat_data_lba(4) [OF assms(1,3) mod_cluster(1) [OF assms(1)], of p] that
    by (auto simp: put_data_def Let_def)
  moreover have "cbyte f (put_data f c p bs D) c' i = cbyte f D c' i"
    if "valid_cluster f c'" "c' \<notin> set cs" "i < cluster_bytes f" for c' i
    using cbyte_put_data [OF assms(1,3) that(1,3) assms(4,5)] assms(2) that(2) by auto
  ultimately show ?thesis
    using fat_entry_put_data [OF assms(1,3)] by (auto simp: others_same_def)
qed

lemma others_link:
  assumes "fs_ok f" "chain f D cs" "c \<in> free_clusters f D" "\<And>lba. length (D lba) = 512"
  shows "others_same f cs D (link_cluster f (last cs) c D)"
proof -
  have vc: "valid_cluster f c" using assms(3) by (simp add: free_clusters_def)
  have l: "last cs \<in> set cs" "valid_cluster f (last cs)" using assms(2) by (simp_all add: chain_def)
  then have ne: "last cs \<noteq> c" using free_not_in_chain [OF assms(2,3)] by metis
  have "link_cluster f (last cs) c D lba = D lba" if "\<not> in_fats f lba" for lba
    using set_fat_outside [OF assms(1) vc that] set_fat_outside [OF assms(1) l(2) that]
    by (simp add: link_cluster_def)
  moreover have "fat_entry f (link_cluster f (last cs) c D) x = fat_entry f D x"
    if "valid_cluster f x" "x \<notin> set cs" "x \<notin> free_clusters f D" for x
    using link_cluster_entry [OF assms(1) l(2) vc ne assms(4) that(1)] that l(1) assms(3) by auto
  ultimately show ?thesis
    using link_cluster_data [OF assms(1) l(2) vc] by (auto simp: others_same_def)
qed

lemma others_trans:
  assumes "others_same f cs D D1" "others_same f (cs @ cs') D1 D2"
    and "free_clusters f D1 \<union> set cs' \<subseteq> free_clusters f D"
  shows "others_same f cs D D2"
  using assms unfolding others_same_def by (auto simp: subset_iff)

context block_device
begin

text \<open>The sector written by one iteration.\<close>

lemma write_chunk:
  assumes "fs_ok f" "valid_cluster f c" "ok d" "0 < r" "t + r \<le> length buf" "length buf < 2147483648"
    and n_def: "n = chunk_len p r" and lba_def: "lba = data_lba f c (p mod cluster_bytes f div 512)"
  shows "\<exists>d1. (if of_nat (p mod 512) \<noteq> (0 :: u32) \<or> of_nat n < (512 :: u32) then
       case block_read hw lba 1 d of
         (None, d1) \<Rightarrow> Some (- 1, d1)
       | (Some sector, d1) \<Rightarrow> do {
           sector1 \<leftarrow> fat16_memcpy sector (unat (of_nat (p mod 512) :: u32)) buf (unat (of_nat t :: u32)) (unat (of_nat n :: u32));
           Some (block_write hw lba sector1 1 d1)
         }
     else if unat (of_nat t :: u32) + 512 \<le> length buf
     then Some (block_write hw lba (take 512 (drop (unat (of_nat t :: u32)) buf)) 1 d)
     else None) = Some (0, d1) \<and> ok d1 \<and>
     disk_of d1 = put_data f c p (take n (drop t buf)) (disk_of d)"
proof -
  let ?bs = "take n (drop t buf)" and ?o = "p mod 512"
  have n: "n \<le> r" "?o + n \<le> 512" using chunk_len(2,3) by (simp_all add: n_def)
  have u: "unat (of_nat ?o :: u32) = ?o" "unat (of_nat t :: u32) = t" "unat (of_nat n :: u32) = n"
    using assms(4-6) n by (simp_all add: unat_of_nat_u32)
  have len: "length ?bs = n" using n(1) assms(5) by simp
  have l: "lba < 0x10000000"
    unfolding lba_def by (rule unat_data_lba(2) [OF assms(1,2) mod_cluster(1) [OF assms(1)]])
  have sec: "length (disk_of d lba) = 512" by (rule sector_law [OF assms(3)])
  show ?thesis
  proof (cases "of_nat ?o \<noteq> (0 :: u32) \<or> of_nat n < (512 :: u32)")
    case True
    from read_law [OF assms(3) l] obtain d0 where d0: "block_read hw lba 1 d = (Some (disk_of d lba), d0)"
      "ok d0" "disk_of d0 = disk_of d" by blast
    have "fat16_memcpy (disk_of d lba) ?o buf t n = Some (overwrite (disk_of d lba) ?o ?bs)"
      using n sec assms(5) by (intro memcpy_overwrite) simp_all
    moreover from write_law [OF d0(2) l, of "overwrite (disk_of d lba) ?o ?bs"] n sec len obtain d1 where
      "block_write hw lba (overwrite (disk_of d lba) ?o ?bs) 1 d0 = (0, d1)" "ok d1"
      "disk_of d1 = (disk_of d)(lba := overwrite (disk_of d lba) ?o ?bs)"
      using d0(3) by auto
    ultimately show ?thesis
      using True d0 by (simp add: u put_data_def Let_def lba_def)
  next
    case False
    then have "?o = 0" "512 \<le> n"
      using u by (auto simp: word_less_nat_alt word_unat_eq_iff)
    then have n512: "n = 512" "?o = 0" using n(2) by simp_all
    have "overwrite (disk_of d lba) 0 ?bs = ?bs" using len sec n512 by (simp add: overwrite_def)
    moreover from write_law [OF assms(3) l, of ?bs] len n512 obtain d1 where
      "block_write hw lba ?bs 1 d = (0, d1)" "ok d1" "disk_of d1 = (disk_of d)(lba := ?bs)" by auto
    ultimately show ?thesis
      using False n512 n(1) assms(5) u by (simp add: put_data_def Let_def lba_def)
  qed
qed

text \<open>One iteration of the loop, in natural numbers.\<close>

lemma write_loop_step:
  assumes "fs_ok f" "valid_cluster f (current_cluster file)" "ok d" "0 < r" "t + r \<le> length buf"
    and "length buf < 2147483648" "position file = of_nat p" "p + r < 4294967296"
    and n_def: "n = chunk_len p r"
    and file1: "file1 = file\<lparr>position := of_nat (p + n), file_size := max (file_size file) (of_nat (p + n))\<rparr>"
  shows "\<exists>d1. ok d1 \<and>
    disk_of d1 = put_data f (current_cluster file) p (take n (drop t buf)) (disk_of d) \<and>
    write_loop hw f file buf (of_nat r) (of_nat t) d =
      (if r = n then Some (int (t + n), file1\<lparr>modified := True\<rparr>, d1)
       else if (p + n) mod cluster_bytes f = 0 then do {
         (next_cluster, d2) \<leftarrow> fat16_read_fat_entry hw f (current_cluster file) d1;
         if next_cluster < FAT16_CLUSTER_MIN \<or> fat16_is_eoc next_cluster
         then do {
           (c, d3) \<leftarrow> fat16_allocate_cluster hw f (current_cluster file) d2;
           case c of
             None \<Rightarrow> Some (- 1, file1, d3)
           | Some new_cluster \<Rightarrow>
               write_loop hw f (file1\<lparr>current_cluster := new_cluster\<rparr>) buf (of_nat (r - n)) (of_nat (t + n)) d3
         }
         else write_loop hw f (file1\<lparr>current_cluster := next_cluster\<rparr>) buf (of_nat (r - n)) (of_nat (t + n)) d2
       }
       else write_loop hw f file1 buf (of_nat (r - n)) (of_nat (t + n)) d1)"
proof -
  have n: "0 < n" "n \<le> r" "p mod 512 + n \<le> 512" using chunk_len(1) [OF assms(4)] chunk_len(2,3) by (simp_all add: n_def)
  have bps: "(ucast (bytes_per_sector f) :: u32) = 512" using assms(1) by (simp add: fs_ok_def)
  have r: "r < 4294967296" using assms(8) by simp
  obtain d1 where d1: "ok d1"
    "disk_of d1 = put_data f (current_cluster file) p (take n (drop t buf)) (disk_of d)"
    "(if of_nat (p mod 512) \<noteq> (0 :: u32) \<or> of_nat n < (512 :: u32) then
       case block_read hw (data_lba f (current_cluster file) (p mod cluster_bytes f div 512)) 1 d of
         (None, d1) \<Rightarrow> Some (- 1, d1)
       | (Some sector, d1) \<Rightarrow> do {
           sector1 \<leftarrow> fat16_memcpy sector (unat (of_nat (p mod 512) :: u32)) buf (unat (of_nat t :: u32)) (unat (of_nat n :: u32));
           Some (block_write hw (data_lba f (current_cluster file) (p mod cluster_bytes f div 512)) sector1 1 d1)
         }
     else if unat (of_nat t :: u32) + 512 \<le> length buf
     then Some (block_write hw (data_lba f (current_cluster file) (p mod cluster_bytes f div 512)) (take 512 (drop (unat (of_nat t :: u32)) buf)) 1 d)
     else None) = Some (0, d1)"
    using write_chunk [OF assms(1-6) n_def refl] by blast
  have place: "file_place f file = Some (data_lba f (current_cluster file) (p mod cluster_bytes f div 512),
     of_nat (p mod cluster_bytes f div 512), of_nat (p mod 512))"
    using file_place_eq [OF assms(1) _ assms(7)] assms(8) by simp
  have nz: "(of_nat r :: u32) \<noteq> 0"
    unfolding unat_eq_0 [symmetric] unat_of_nat_u32 [OF r] using assms(4) by simp
  have rn: "of_nat r - of_nat n = (of_nat (r - n) :: u32)" using n(2) by (simp add: of_nat_diff)
  have "r - n < 4294967296" using r by simp
  note u = unat_of_nat_u32 [OF this]
  have rz: "of_nat (r - n) = (0 :: u32) \<longleftrightarrow> r = n"
    unfolding unat_eq_0 [symmetric] u using n(2) by auto
  have mn: "\<not> current_cluster file < FAT16_CLUSTER_MIN"
    using assms(2) by (simp add: valid_cluster_def FAT16_CLUSTER_MIN_def word_less_nat_alt)
  have st: "sint (of_nat (t + n) :: u32) = int (t + n)"
    using assms(5,6) n(2) by (intro sint_of_nat_small) simp
  have pn: "position file + of_nat n = of_nat (p + n)" "(of_nat t + of_nat n :: u32) = of_nat (t + n)"
    using assms(7) by simp_all
  have "write_loop hw f file buf (of_nat r) (of_nat t) d =
      (if r = n then Some (int (t + n), file1\<lparr>modified := True\<rparr>, d1)
       else if (p + n) mod cluster_bytes f = 0 then do {
         (next_cluster, d2) \<leftarrow> fat16_read_fat_entry hw f (current_cluster file) d1;
         if next_cluster < FAT16_CLUSTER_MIN \<or> fat16_is_eoc next_cluster
         then do {
           (c, d3) \<leftarrow> fat16_allocate_cluster hw f (current_cluster file) d2;
           case c of
             None \<Rightarrow> Some (- 1, file1, d3)
           | Some new_cluster \<Rightarrow>
               write_loop hw f (file1\<lparr>current_cluster := new_cluster\<rparr>) buf (of_nat (r - n)) (of_nat (t + n)) d3
         }
         else write_loop hw f (file1\<lparr>current_cluster := next_cluster\<rparr>) buf (of_nat (r - n)) (of_nat (t + n)) d2
       }
       else write_loop hw f file1 buf (of_nat (r - n)) (of_nat (t + n)) d1)"
    unfolding file1
    apply (subst write_loop.simps)
    apply (simp only: nz mn place bind.bind_lunit if_False if_True case_prod_conv Let_def bps chunk_word [OF r, of p, folded n_def])
    apply (simp only: d1(3) bind.bind_lunit case_prod_conv rn rz pn st boundary_word [OF assms(1) n(1,3)])
    apply (simp cong: if_cong del: of_nat_add)
    done
  with d1(1,2) show ?thesis by blast
qed

lemma write_loop_correct:
  assumes "fs_ok f" "length buf < 2147483648"
  shows "ok d \<Longrightarrow> chain f (disk_of d) cs \<Longrightarrow> current_cluster file = last cs \<Longrightarrow>
    position file = of_nat p \<Longrightarrow> p div cluster_bytes f = length cs - 1 \<Longrightarrow> 0 < r \<Longrightarrow>
    t + r \<le> length buf \<Longrightarrow> p + r < 4294967296 \<Longrightarrow>
    (p + r - 1) div cluster_bytes f - p div cluster_bytes f \<le> card (free_clusters f (disk_of d)) \<Longrightarrow>
    \<exists>cs' d'. write_loop hw f file buf (of_nat r) (of_nat t) d =
        Some (int (t + r), file\<lparr>position := of_nat (p + r), file_size := max (file_size file) (of_nat (p + r)),
          current_cluster := last (cs @ cs'), modified := True\<rparr>, d') \<and>
      ok d' \<and> chain f (disk_of d') (cs @ cs') \<and>
      length (cs @ cs') = (p + r - 1) div cluster_bytes f + 1 \<and> set cs' \<subseteq> free_clusters f (disk_of d) \<and>
      (\<forall>x < p. fbyte f (disk_of d') (cs @ cs') x = fbyte f (disk_of d) cs x) \<and>
      (\<forall>i < r. fbyte f (disk_of d') (cs @ cs') (p + i) = buf ! (t + i)) \<and>
      others_same f cs (disk_of d) (disk_of d')"
proof (induction r arbitrary: d cs "file" p t rule: less_induct)
  case (less r)
  note prems = less.prems
  define n where "n = chunk_len p r"
  define C where "C = cluster_bytes f"
  let ?D = "disk_of d" and ?bs = "take n (drop t buf)"
  let ?file1 = "file\<lparr>position := of_nat (p + n), file_size := max (file_size file) (of_nat (p + n))\<rparr>"
  have n: "0 < n" "n \<le> r" "p mod 512 + n \<le> 512"
    using chunk_len(1) [OF prems(6)] chunk_len(2,3) by (simp_all add: n_def)
  have C: "0 < C" using cluster_bytes_pos [OF assms(1)] by (simp add: C_def)
  have cs: "cs \<noteq> []" using prems(2) by (simp add: chain_def)
  then have pC: "p div C < length cs" and lastp: "last cs = cs ! (p div C)"
    using prems(5) by (simp_all add: C_def last_conv_nth)
  have lv: "valid_cluster f (last cs)" by (rule last_in_chain [OF prems(2)])
  have cv: "valid_cluster f (current_cluster file)" using lv prems(3) by simp
  have bs: "length ?bs = n" using n(2) prems(7) by simp
  have sec: "\<And>lba. length (?D lba) = 512" by (rule sector_law [OF prems(1)])
  obtain d1 where d1: "ok d1" "disk_of d1 = put_data f (last cs) p ?bs ?D" and
    step: "write_loop hw f file buf (of_nat r) (of_nat t) d =
      (if r = n then Some (int (t + n), ?file1\<lparr>modified := True\<rparr>, d1)
       else if (p + n) mod cluster_bytes f = 0 then do {
         (next_cluster, d2) \<leftarrow> fat16_read_fat_entry hw f (last cs) d1;
         if next_cluster < FAT16_CLUSTER_MIN \<or> fat16_is_eoc next_cluster
         then do {
           (c, d3) \<leftarrow> fat16_allocate_cluster hw f (last cs) d2;
           case c of
             None \<Rightarrow> Some (- 1, ?file1, d3)
           | Some new_cluster \<Rightarrow>
               write_loop hw f (?file1\<lparr>current_cluster := new_cluster\<rparr>) buf (of_nat (r - n)) (of_nat (t + n)) d3
         }
         else write_loop hw f (?file1\<lparr>current_cluster := next_cluster\<rparr>) buf (of_nat (r - n)) (of_nat (t + n)) d2
       }
       else write_loop hw f ?file1 buf (of_nat (r - n)) (of_nat (t + n)) d1)"
    using write_loop_step [OF assms(1) cv prems(1,6,7) assms(2) prems(4,8) n_def refl, unfolded prems(3)]
    by (elim exE conjE) (rule that)
  let ?D1 = "disk_of d1"
  have ch1: "chain f ?D1 cs" unfolding d1(2) by (rule chain_put_data [OF assms(1) prems(2) lv])
  have fr1: "free_clusters f ?D1 = free_clusters f ?D" unfolding d1(2) by (rule free_put_data [OF assms(1) lv])
  have ot1: "others_same f cs ?D ?D1"
    unfolding d1(2) using others_put_data [OF assms(1) _ lv sec, of cs p ?bs] cs n(3) bs by simp
  have fb1: "fbyte f ?D1 cs x = (if p \<le> x \<and> x < p + n then buf ! (t + (x - p)) else fbyte f ?D cs x)"
    if "x div C < length cs" for x
  proof -
    have "?bs ! (x - p) = buf ! (t + (x - p))" if "p \<le> x \<and> x < p + n"
      using that n(2) prems(7) by (subst nth_take) auto
    moreover have "fbyte f ?D1 cs x = (if p \<le> x \<and> x < p + n then ?bs ! (x - p) else fbyte f ?D cs x)"
      using fbyte_put_data [OF assms(1) prems(2), of p x ?bs] pC that sec n(3) bs d1(2) lastp
      by (simp add: C_def)
    ultimately show ?thesis by simp
  qed
  have old: "x div C < length cs" if "x < p + n" for x
  proof -
    have "x div C \<le> (p + n - 1) div C" using that by (intro div_le_mono) simp
    also have "\<dots> = p div C" using boundary_iff(4) [OF assms(1) n(1,3)] by (simp add: C_def)
    finally show ?thesis using pC by simp
  qed
  have mx: "max (max s (of_nat (p + n))) (of_nat (p + r)) = max s (of_nat (p + r))" for s :: u32
  proof -
    have "(of_nat (p + n) :: u32) \<le> of_nat (p + r)"
      using n(2) prems(8) unat_of_nat_u32 [of "p + n"] unat_of_nat_u32 [of "p + r"]
      by (simp add: word_le_nat_alt del: of_nat_add)
    then show ?thesis by (simp only: max.assoc max_absorb2)
  qed
  show ?case
  proof (cases "r = n")
    case True
    have "p + r - 1 = p + n - 1" using True by simp
    then have "length cs = (p + r - 1) div C + 1"
      using boundary_iff(4) [OF assms(1) n(1,3)] prems(5) cs by (simp add: C_def)
    moreover have "?file1\<lparr>modified := True\<rparr> = file\<lparr>position := of_nat (p + r),
        file_size := max (file_size file) (of_nat (p + r)), current_cluster := last cs, modified := True\<rparr>"
      using True prems(3) by simp
    ultimately show ?thesis
      using step True d1(1) ch1 fb1 old ot1
      by (intro exI [of _ "[]"] exI [of _ d1]) (auto simp: C_def)
  next
    case False
    then have rn: "r - n < r" "0 < r - n" using n by auto
    have sum: "p + n + (r - n) = p + r" "t + n + (r - n) = t + r" using n(2) by simp_all
    show ?thesis
    proof (cases "(p + n) mod C = 0")
      case in_cluster: False
      have dv: "(p + n) div C = p div C"
        using boundary_iff(2) [OF assms(1) n(1,3)] in_cluster by (simp add: C_def)
      from less.IH [OF rn(1) d1(1) ch1, of ?file1 "p + n" "t + n"] obtain cs' d' where IH:
        "write_loop hw f ?file1 buf (of_nat (r - n)) (of_nat (t + n)) d1 =
          Some (int (t + r), ?file1\<lparr>position := of_nat (p + r), file_size := max (file_size ?file1) (of_nat (p + r)),
            current_cluster := last (cs @ cs'), modified := True\<rparr>, d')"
        "ok d'" "chain f (disk_of d') (cs @ cs')" "length (cs @ cs') = (p + r - 1) div C + 1"
        "set cs' \<subseteq> free_clusters f ?D1"
        "\<And>x. x < p + n \<Longrightarrow> fbyte f (disk_of d') (cs @ cs') x = fbyte f ?D1 cs x"
        "\<And>i. i < r - n \<Longrightarrow> fbyte f (disk_of d') (cs @ cs') (p + n + i) = buf ! (t + n + i)"
        "others_same f cs ?D1 (disk_of d')"
        using prems(3-9) rn(2) sum dv fr1 unfolding C_def by auto
      have "fbyte f (disk_of d') (cs @ cs') (p + i) = buf ! (t + i)" if "i < r" for i
      proof (cases "i < n")
        case True
        then show ?thesis using IH(6) [of "p + i"] fb1 [OF old, of "p + i"] by simp
      next
        case False
        then show ?thesis using IH(7) [of "i - n"] that by (simp add: add.assoc)
      qed
      moreover have "others_same f cs ?D (disk_of d')"
        using others_trans [OF ot1, of "[]"] IH(8) fr1 by simp
      moreover have "fbyte f (disk_of d') (cs @ cs') x = fbyte f ?D cs x" if "x < p" for x
        using IH(6) [of x] fb1 [OF old, of x] that by simp
      ultimately show ?thesis
        using step False in_cluster IH(1-5) fr1 mx
        by (intro exI [of _ cs'] exI [of _ d']) (simp add: C_def)
    next
      case boundary: True
      have dv: "(p + n) div C = length cs"
        using boundary_iff(3) [OF assms(1) n(1,3)] boundary prems(5) cs by (simp add: C_def)
      have "(p + n) div C \<le> (p + r - 1) div C" using rn n(2) by (intro div_le_mono) simp
      then have need: "Suc (p div C) \<le> (p + r - 1) div C"
        using dv prems(5) cs by (simp add: C_def)
      with prems(9) have ne: "free_clusters f ?D1 \<noteq> {}" unfolding fr1 C_def by auto
      from read_fat_entry [OF assms(1) lv d1(1)] obtain d2 where d2:
        "fat16_read_fat_entry hw f (last cs) d1 = Some (fat_entry f ?D1 (last cs), d2)" "ok d2" "disk_of d2 = ?D1"
        by blast
      have eoc: "fat16_is_eoc (fat_entry f ?D1 (last cs))" using ch1 by (simp add: fat16_is_eoc_def chain_def)
      have l0: "last cs \<noteq> 0" using lv by (auto simp: valid_cluster_def)
      from allocate_cluster(2) [OF assms(1) d2(2), of "last cs"] lv ne l0 d2(3) obtain c d3 where c:
        "fat16_allocate_cluster hw f (last cs) d2 = Some (Some c, d3)" "ok d3" "c \<in> free_clusters f ?D1"
        "disk_of d3 = link_cluster f (last cs) c ?D1"
        unfolding link_cluster_def by auto
      have sec1: "\<And>lba. length (?D1 lba) = 512" by (rule sector_law [OF d1(1)])
      note link = chain_link [OF assms(1) ch1 c(3) sec1, folded c(4)]
      let ?file2 = "?file1\<lparr>current_cluster := c\<rparr>"
      have cd: "card (free_clusters f (disk_of d3)) = card (free_clusters f ?D) - 1"
        using link(3) c(3) fr1 by (simp add: card_Diff_singleton)
      have fit: "(p + n + (r - n) - 1) div cluster_bytes f - (p + n) div cluster_bytes f
          \<le> card (free_clusters f (disk_of d3))"
      proof -
        have "0 < length cs" using cs by simp
        then show ?thesis
          using prems(9) cd dv prems(5) unfolding C_def [symmetric] sum(1) by linarith
      qed
      have "p + n + (r - n) < 4294967296" "t + n + (r - n) \<le> length buf" using prems(7,8) sum by simp_all
      from less.IH [OF rn(1) c(2) link(1), of ?file2 "p + n" "t + n", OF _ _ _ rn(2) this(2,1) fit] dv sum
      obtain cs' d' where IH:
        "write_loop hw f ?file2 buf (of_nat (r - n)) (of_nat (t + n)) d3 =
          Some (int (t + r), ?file2\<lparr>position := of_nat (p + r), file_size := max (file_size ?file2) (of_nat (p + r)),
            current_cluster := last ((cs @ [c]) @ cs'), modified := True\<rparr>, d')"
        "ok d'" "chain f (disk_of d') ((cs @ [c]) @ cs')" "length ((cs @ [c]) @ cs') = (p + r - 1) div C + 1"
        "set cs' \<subseteq> free_clusters f (disk_of d3)"
        "\<And>x. x < p + n \<Longrightarrow> fbyte f (disk_of d') ((cs @ [c]) @ cs') x = fbyte f (disk_of d3) (cs @ [c]) x"
        "\<And>i. i < r - n \<Longrightarrow> fbyte f (disk_of d') ((cs @ [c]) @ cs') (p + n + i) = buf ! (t + n + i)"
        "others_same f (cs @ [c]) (disk_of d3) (disk_of d')"
        unfolding C_def by auto
      have keep: "fbyte f (disk_of d') ((cs @ [c]) @ cs') x = fbyte f ?D1 cs x" if "x < p + n" for x
        using IH(6) [OF that] link(2) [of x] old [OF that] by (simp add: C_def)
      have "fbyte f (disk_of d') (cs @ c # cs') (p + i) = buf ! (t + i)" if "i < r" for i
      proof (cases "i < n")
        case True
        then show ?thesis using keep [of "p + i"] fb1 [OF old, of "p + i"] by simp
      next
        case False
        then show ?thesis using IH(7) [of "i - n"] that by (simp add: add.assoc)
      qed
      moreover have "others_same f cs ?D (disk_of d')"
      proof (rule others_trans [OF _ IH(8)])
        show "others_same f cs ?D (disk_of d3)"
          using others_trans [OF ot1, of "[]"] others_link [OF assms(1) ch1 c(3) sec1] fr1 c(4) by simp
        show "free_clusters f (disk_of d3) \<union> set [c] \<subseteq> free_clusters f ?D"
          using link(3) fr1 c(3) by auto
      qed
      moreover have "fbyte f (disk_of d') (cs @ c # cs') x = fbyte f ?D cs x" if "x < p" for x
        using keep [of x] fb1 [OF old, of x] that by simp
      moreover have "set (c # cs') \<subseteq> free_clusters f ?D"
        using IH(5) link(3) c(3) fr1 by auto
      ultimately show ?thesis
        using step False boundary d2(1) c(1) eoc IH(1-4) mx
        by (intro exI [of _ "c # cs'"] exI [of _ d']) (simp add: C_def)
    qed
  qed
qed

end

section \<open>The read loop\<close>

lemma sector_fbytes:
  assumes "fs_ok f" "p mod 512 + n \<le> 512" "\<And>lba. length (D lba) = 512"
  shows "take n (drop (p mod 512) (D (data_lba f (cs ! (p div cluster_bytes f)) (p mod cluster_bytes f div 512)))) =
    map (fbyte f D cs) [p..<p + n]" (is "?l = ?r")
proof (rule nth_equalityI)
  show "length ?l = length ?r" using assms(2,3) by simp
next
  fix i
  assume "i < length ?l"
  then have i: "i < n" by simp
  define C where "C = cluster_bytes f"
  define P where "P = p mod C"
  have dv: "(p + i) div C = p div C"
    using boundary_iff(4) [OF assms(1), of "Suc i" p] i assms(2) by (simp add: C_def)
  have md: "(p + i) mod C = P + i"
    using dv by (metis P_def add.commute add.left_commute add_diff_cancel_left' minus_mult_div_eq_mod mult_div_mod_eq)
  have P512: "P mod 512 = p mod 512" using mod_cluster(2) [OF assms(1)] by (simp add: P_def C_def)
  have e: "P + i = 512 * (P div 512) + (p mod 512 + i)" using mult_div_mod_eq [of 512 P] P512 by simp
  have k: "p mod 512 + i < 512" using i assms(2) by simp
  have "x = 512 * q + k \<Longrightarrow> k < 512 \<Longrightarrow> x div 512 = q \<and> x mod 512 = k" for x q k :: nat by simp
  from this [OF e k] have "(P + i) div 512 = P div 512" "(P + i) mod 512 = p mod 512 + i" by blast+
  then show "?l ! i = ?r ! i"
    using i assms(2,3) dv md by (simp add: fbyte_def cbyte_def C_def [symmetric] P_def [symmetric])
qed

lemma valid_not_eoc: "fs_ok f \<Longrightarrow> valid_cluster f c \<Longrightarrow> \<not> c < FAT16_CLUSTER_MIN \<and> \<not> fat16_is_eoc c"
  by (simp add: valid_cluster_def fs_ok_def fat16_is_eoc_def FAT16_CLUSTER_MIN_def FAT16_CLUSTER_EOC_def
      word_less_nat_alt word_le_nat_alt)

context block_device
begin

lemma read_loop_step:
  assumes "fs_ok f" "valid_cluster f (current_cluster file)" "ok d" "0 < r" "t + r \<le> length buf"
    and "length buf < 2147483648" "position file = of_nat p" "p + r < 4294967296"
    and n_def: "n = chunk_len p r"
  shows "\<exists>d1. ok d1 \<and> disk_of d1 = disk_of d \<and>
    read_loop hw f file buf (of_nat r) (of_nat t) d =
      (let file1 = file\<lparr>position := of_nat (p + n)\<rparr>;
           buf1 = overwrite buf t (take n (drop (p mod 512)
             (disk_of d (data_lba f (current_cluster file) (p mod cluster_bytes f div 512)))))
       in if of_nat (p + n) < file_size file \<and> (p + n) mod cluster_bytes f = 0 then do {
         (next_cluster, d2) \<leftarrow> fat16_read_fat_entry hw f (current_cluster file) d1;
         if next_cluster < FAT16_CLUSTER_MIN \<or> fat16_is_eoc next_cluster
         then Some (int (t + n), file1, buf1, d2)
         else read_loop hw f (file1\<lparr>current_cluster := next_cluster\<rparr>) buf1 (of_nat (r - n)) (of_nat (t + n)) d2
       }
       else read_loop hw f file1 buf1 (of_nat (r - n)) (of_nat (t + n)) d1)"
proof -
  let ?lba = "data_lba f (current_cluster file) (p mod cluster_bytes f div 512)"
  let ?buf1 = "overwrite buf t (take n (drop (p mod 512) (disk_of d ?lba)))"
  have n: "0 < n" "n \<le> r" "p mod 512 + n \<le> 512" using chunk_len(1) [OF assms(4)] chunk_len(2,3) by (simp_all add: n_def)
  have bps: "(ucast (bytes_per_sector f) :: u32) = 512" using assms(1) by (simp add: fs_ok_def)
  have r: "r < 4294967296" using assms(8) by simp
  have place: "file_place f file = Some (?lba, of_nat (p mod cluster_bytes f div 512), of_nat (p mod 512))"
    using file_place_eq [OF assms(1) _ assms(7)] assms(8) by simp
  have nz: "(of_nat r :: u32) \<noteq> 0"
    unfolding unat_eq_0 [symmetric] unat_of_nat_u32 [OF r] using assms(4) by simp
  have mn: "\<not> current_cluster file < FAT16_CLUSTER_MIN" using valid_not_eoc [OF assms(1,2)] by simp
  have rn: "of_nat r - of_nat n = (of_nat (r - n) :: u32)" using n(2) by (simp add: of_nat_diff)
  have st: "sint (of_nat (t + n) :: u32) = int (t + n)"
    using assms(5,6) n(2) by (intro sint_of_nat_small) simp
  have pn: "position file + of_nat n = of_nat (p + n)" "(of_nat t + of_nat n :: u32) = of_nat (t + n)"
    using assms(7) by simp_all
  have u: "unat (of_nat (p mod 512) :: u32) = p mod 512" "unat (of_nat t :: u32) = t" "unat (of_nat n :: u32) = n"
    using assms(4-6) n by (simp_all add: unat_of_nat_u32)
  have l: "?lba < 0x10000000" by (rule unat_data_lba(2) [OF assms(1,2) mod_cluster(1) [OF assms(1)]])
  from read_law [OF assms(3) this] obtain d1 where d1: "block_read hw ?lba 1 d = (Some (disk_of d ?lba), d1)"
    "ok d1" "disk_of d1 = disk_of d" by blast
  have cp: "fat16_memcpy buf t (disk_of d ?lba) (p mod 512) n = Some ?buf1"
    using n sector_law [OF assms(3)] assms(5) by (intro memcpy_overwrite) simp_all
  have sel: "position (file\<lparr>position := of_nat (p + n)\<rparr>) = of_nat (p + n)"
    "file_size (file\<lparr>position := of_nat (p + n)\<rparr>) = file_size file"
    "current_cluster (file\<lparr>position := of_nat (p + n)\<rparr>) = current_cluster file" by simp_all
  have "read_loop hw f file buf (of_nat r) (of_nat t) d =
      (let file1 = file\<lparr>position := of_nat (p + n)\<rparr>
       in if of_nat (p + n) < file_size file \<and> (p + n) mod cluster_bytes f = 0 then do {
         (next_cluster, d2) \<leftarrow> fat16_read_fat_entry hw f (current_cluster file) d1;
         if next_cluster < FAT16_CLUSTER_MIN \<or> fat16_is_eoc next_cluster
         then Some (int (t + n), file1, ?buf1, d2)
         else read_loop hw f (file1\<lparr>current_cluster := next_cluster\<rparr>) ?buf1 (of_nat (r - n)) (of_nat (t + n)) d2
       }
       else read_loop hw f file1 ?buf1 (of_nat (r - n)) (of_nat (t + n)) d1)"
    unfolding Let_def
    apply (subst read_loop.simps)
    apply (simp only: nz mn place bind.bind_lunit if_False if_True case_prod_conv Let_def bps simp_thms
        chunk_word [OF r, of p, folded n_def] d1(1) option.case u cp rn pn sel st
        boundary_word [OF assms(1) n(1,3)])
    done
  with d1 show ?thesis by (simp only: Let_def) blast
qed

text \<open>Reading \<open>r\<close> bytes from position \<open>p\<close> delivers the bytes of the file along its chain.\<close>

lemma read_loop_correct:
  assumes "fs_ok f" "chain f D cs" "sz \<le> length cs * cluster_bytes f" "sz < 4294967296"
  shows "ok d \<Longrightarrow> disk_of d = D \<Longrightarrow> file_size file = of_nat sz \<Longrightarrow> position file = of_nat p \<Longrightarrow>
    0 < r \<Longrightarrow> p + r \<le> sz \<Longrightarrow> current_cluster file = cs ! (p div cluster_bytes f) \<Longrightarrow>
    t + r \<le> length buf \<Longrightarrow> length buf < 2147483648 \<Longrightarrow>
    \<exists>file' d'. read_loop hw f file buf (of_nat r) (of_nat t) d =
      Some (int (t + r), file', overwrite buf t (map (fbyte f D cs) [p..<p + r]), d') \<and>
      ok d' \<and> disk_of d' = D \<and>
      file' = file\<lparr>position := of_nat (p + r), current_cluster := current_cluster file'\<rparr> \<and>
      (p + r < sz \<longrightarrow> current_cluster file' = cs ! ((p + r) div cluster_bytes f))"
proof (induction r arbitrary: d "file" p t buf rule: less_induct)
  case (less r)
  note prems = less.prems
  define n where "n = chunk_len p r"
  define C where "C = cluster_bytes f"
  have n: "0 < n" "n \<le> r" "p mod 512 + n \<le> 512"
    using chunk_len(1) [OF prems(5)] chunk_len(2,3) by (simp_all add: n_def)
  have C: "0 < C" using cluster_bytes_pos [OF assms(1)] by (simp add: C_def)
  have idx: "x div C < length cs" if "x < sz" for x
    using that assms(3) C by (simp add: div_less_iff_less_mult C_def)
  have v: "valid_cluster f (current_cluster file)"
    using chain_nth_valid [OF assms(2) idx [of p]] prems(5-7) by (simp add: C_def)
  have lt: "p + r < 4294967296" using prems(6) assms(4) by simp
  have sec: "\<And>lba. length (D lba) = 512" using sector_law [OF prems(1)] prems(2) by simp
  have cur: "current_cluster file = cs ! (p div C)" using prems(7) by (simp add: C_def)
  let ?bs = "map (fbyte f D cs) [p..<p + n]"
  have sf: "take n (drop (p mod 512) (D (data_lba f (cs ! (p div cluster_bytes f)) (p mod cluster_bytes f div 512)))) = ?bs"
    by (rule sector_fbytes [OF assms(1) n(3)]) (rule sec)
  let ?file1 = "file\<lparr>position := of_nat (p + n)\<rparr>" and ?buf1 = "overwrite buf t ?bs"
  obtain d1 where d1: "ok d1" "disk_of d1 = D" and
    step: "read_loop hw f file buf (of_nat r) (of_nat t) d =
      (if of_nat (p + n) < file_size file \<and> (p + n) mod C = 0 then do {
         (next_cluster, d2) \<leftarrow> fat16_read_fat_entry hw f (cs ! (p div C)) d1;
         if next_cluster < FAT16_CLUSTER_MIN \<or> fat16_is_eoc next_cluster
         then Some (int (t + n), ?file1, ?buf1, d2)
         else read_loop hw f (?file1\<lparr>current_cluster := next_cluster\<rparr>) ?buf1 (of_nat (r - n)) (of_nat (t + n)) d2
       }
       else read_loop hw f ?file1 ?buf1 (of_nat (r - n)) (of_nat (t + n)) d1)"
    using read_loop_step [OF assms(1) v prems(1,5,8,9,4) lt n_def,
        unfolded prems(2) cur sf [folded C_def] Let_def C_def [symmetric]]
    by (elim exE conjE) (rule that)
  have size: "of_nat (p + n) < file_size file \<longleftrightarrow> p + n < sz"
    using prems(3,6) n(2) lt assms(4) unat_of_nat_u32 [of "p + n"] unat_of_nat_u32 [of sz]
    by (simp add: word_less_nat_alt del: of_nat_add)
  have sum: "p + n + (r - n) = p + r" "t + n + (r - n) = t + r" using n(2) by simp_all
  have join: "overwrite ?buf1 (t + n) (map (fbyte f D cs) [p + n..<p + r]) =
      overwrite buf t (map (fbyte f D cs) [p..<p + r])"
    using overwrite_overwrite [of t ?bs "map (fbyte f D cs) [p + n..<p + r]" buf] prems(8) n(2)
      upt_add_eq_append [of p "p + n" "r - n"] sum(1) by (simp flip: map_append)
  have len1: "length ?buf1 = length buf" using prems(8) n(2) by simp
  have cont: "\<exists>file' d'. read_loop hw f file2 ?buf1 (of_nat (r - n)) (of_nat (t + n)) d2 =
      Some (int (t + r), file', overwrite buf t (map (fbyte f D cs) [p..<p + r]), d') \<and>
      ok d' \<and> disk_of d' = D \<and>
      file' = file\<lparr>position := of_nat (p + r), current_cluster := current_cluster file'\<rparr> \<and>
      (p + r < sz \<longrightarrow> current_cluster file' = cs ! ((p + r) div C))"
    if f2: "file2 = ?file1\<lparr>current_cluster := c\<rparr>" and "ok d2" "disk_of d2 = D"
      and nxt: "p + n < sz \<Longrightarrow> c = cs ! ((p + n) div C)" for file2 c d2
  proof (cases "r = n")
    case True
    have "read_loop hw f file2 ?buf1 0 (of_nat (t + n)) d2 =
        Some (sint (of_nat (t + n) :: u32), file2, ?buf1, d2)"
      by (subst read_loop.simps) simp
    moreover have "sint (of_nat (t + n) :: u32) = int (t + n)"
      using prems(8,9) n(2) by (intro sint_of_nat_small) simp
    ultimately show ?thesis using that True by auto
  next
    case False
    then have rn: "r - n < r" "0 < r - n" using n by auto
    then have "p + n < sz" using prems(6) by simp
    moreover have "p + n + (r - n) \<le> sz" "t + n + (r - n) \<le> length ?buf1" "length ?buf1 < 2147483648"
      using prems(6,8,9) sum len1 by simp_all
    ultimately show ?thesis
      using less.IH [OF rn(1) that(2,3), of file2 "p + n" "t + n" ?buf1] rn(2) nxt prems(3) f2
      unfolding sum join C_def by (auto simp: join)
  qed
  show ?case
  proof (cases "p + n < sz \<and> (p + n) mod C = 0")
    case True
    from read_fat_entry [OF assms(1) v d1(1)] obtain d2 where d2:
      "fat16_read_fat_entry hw f (cs ! (p div C)) d1 = Some (fat_entry f D (cs ! (p div C)), d2)"
      "ok d2" "disk_of d2 = D" using d1(2) cur by auto
    have dv: "(p + n) div C = Suc (p div C)"
      using boundary_iff(3) [OF assms(1) n(1,3)] True by (simp add: C_def)
    have s: "Suc (p div C) < length cs" using idx [of "p + n"] True dv by simp
    then have nx: "fat_entry f D (cs ! (p div C)) = cs ! Suc (p div C)"
      using assms(2) by (simp add: chain_def)
    have "valid_cluster f (cs ! Suc (p div C))" by (rule chain_nth_valid [OF assms(2) s])
    with cont [OF refl d2(2,3), of "cs ! Suc (p div C)"] dv step size True d2(1) nx valid_not_eoc [OF assms(1)]
    show ?thesis by (simp add: C_def)
  next
    case False
    have c: "?file1 = ?file1\<lparr>current_cluster := current_cluster file\<rparr>" by simp
    have "current_cluster file = cs ! ((p + n) div C)" if "p + n < sz"
      using boundary_iff(2) [OF assms(1) n(1,3)] False that prems(7) by (simp add: C_def)
    with cont [OF c d1] step size False show ?thesis by (auto simp: C_def)
  qed
qed

end

end
