(* ===== verification/Directory.thy ===== *)
theory Directory
  imports FileData
begin

text \<open>
  The root directory as a sequence of 32-byte entries: entry \<open>j\<close> is the \<open>j mod 16\<close>th of sector
  \<open>j div 16\<close>. The nested loops of \<open>fat16_find_root_entry\<close> and \<open>fat16_find_free_root_entry\<close> are
  searches over that sequence.
\<close>

section \<open>Entries\<close>

definition get_le32 :: "u8 list \<Rightarrow> nat \<Rightarrow> u32" where
  "get_le32 sec n = bytes_to_u32 (sec ! n) (sec ! (n + 1)) (sec ! (n + 2)) (sec ! (n + 3))"

definition set_le32 :: "u8 list \<Rightarrow> nat \<Rightarrow> u32 \<Rightarrow> u8 list" where
  "set_le32 sec n v = sec[n := u32_byte 0 v, n + 1 := u32_byte 1 v, n + 2 := u32_byte 2 v, n + 3 := u32_byte 3 v]"

lemma get8_add: "n + k < length sec \<Longrightarrow> n + k < 4294967296 \<Longrightarrow> get8 sec (of_nat n + of_nat k) = Some (sec ! (n + k))"
  using get8_nat [of "n + k" sec] by simp

lemma put8_add:
  "n + k < length sec \<Longrightarrow> n + k < 4294967296 \<Longrightarrow> put8 sec (of_nat n + of_nat k) v = Some (sec[n + k := v])"
  using put8_nat [of "n + k" sec] by simp

lemma read_le32_nat:
  "n + 3 < length sec \<Longrightarrow> n < 65536 \<Longrightarrow> fat16_read_le32 sec (of_nat n) = Some (get_le32 sec n)"
  using get8_nat [of n sec] get8_add [of n 1 sec] get8_add [of n 2 sec] get8_add [of n 3 sec]
  by (simp add: fat16_read_le32_def get_le32_def)

lemma write_le32_nat:
  "n + 3 < length sec \<Longrightarrow> n < 65536 \<Longrightarrow> fat16_write_le32 sec (of_nat n) v = Some (set_le32 sec n v)"
  using put8_nat [of n sec "u32_byte 0 v"] put8_add [of n 1 "sec[n := u32_byte 0 v]" "u32_byte 1 v"]
    put8_add [of n 2 "sec[n := u32_byte 0 v, n + 1 := u32_byte 1 v]" "u32_byte 2 v"]
    put8_add [of n 3 "sec[n := u32_byte 0 v, n + 1 := u32_byte 1 v, n + 2 := u32_byte 2 v]" "u32_byte 3 v"]
  by (simp add: fat16_write_le32_def set_le32_def)

lemma length_set_le32 [simp]: "length (set_le32 sec n v) = length sec"
  by (simp add: set_le32_def)

lemma get_set_le32 [simp]: "n + 3 < length sec \<Longrightarrow> get_le32 (set_le32 sec n v) n = v"
  by (simp add: get_le32_def set_le32_def)

definition first_byte :: "u8 list \<Rightarrow> nat \<Rightarrow> u8" where
  "first_byte sec k = sec ! (32 * k)"

text \<open>Entry \<open>k\<close> of a sector is a file with this name.\<close>

definition is_file :: "u8 list \<Rightarrow> nat \<Rightarrow> u8 list \<Rightarrow> bool" where
  "is_file sec k name \<longleftrightarrow> first_byte sec k \<noteq> 0 \<and> first_byte sec k \<noteq> 0xE5 \<and>
     (let attributes = sec ! (32 * k + 11)
      in attributes AND 0x0F \<noteq> 0x0F \<and> attributes AND 0x08 = 0 \<and> attributes AND 0x10 = 0) \<and>
     take 11 (drop (32 * k) sec) = name"

text \<open>The search stops at the file or at the end marker.\<close>

definition stops :: "u8 list \<Rightarrow> nat \<Rightarrow> u8 list \<Rightarrow> bool" where
  "stops sec k name \<longleftrightarrow> first_byte sec k = 0 \<or> is_file sec k name"

lemma memcmp_eq:
  "n \<le> length a \<Longrightarrow> n \<le> length b \<Longrightarrow>
     \<exists>c. fat16_memcmp a b n = Some c \<and> (c = 0 \<longleftrightarrow> take n a = take n b)"
  by (induction a b n rule: fat16_memcmp.induct) (auto simp: word_uint_eq_iff)

lemma entry_offset:
  "k \<le> 16 \<Longrightarrow> (of_nat (32 * k) :: u32) < 512 \<longleftrightarrow> k < 16"
  by (simp add: word_less_nat_alt unat_of_nat_u32 del: of_nat_mult)

lemma offset_add: "(of_nat (32 * k) :: u32) + 32 = of_nat (32 * Suc k)"
  by simp

lemma root_scan_sector_eq:
  assumes "bytes_per_sector f = 512" "length sec = 512" "length name = 11"
  shows "k + n = 16 \<Longrightarrow> root_scan_sector f sec name (of_nat (32 * k)) =
    Some (case find_index (\<lambda>i. stops sec i name) k n of
       None \<Rightarrow> ScanNext
     | Some i \<Rightarrow> if first_byte sec i = 0 then ScanEnd
         else ScanFound (get_le16 sec (32 * i + 26)) (get_le32 sec (32 * i + 28)) (of_nat (32 * i)))"
proof (induction n arbitrary: k)
  case 0
  then show ?case
    using entry_offset [of 16] by (subst root_scan_sector.simps) (simp add: assms(1))
next
  case (Suc n)
  have k: "k < 16" using Suc.prems by simp
  then have lt: "(of_nat (32 * k) :: u32) < ucast (bytes_per_sector f)"
    using entry_offset [of k] by (simp add: assms(1) del: of_nat_mult)
  have g: "get8 sec (of_nat (32 * k)) = Some (first_byte sec k)"
    "get8 sec (of_nat (32 * k) + 0x0B) = Some (sec ! (32 * k + 11))"
    using get8_nat [of "32 * k" sec] get8_nat [of "32 * k + 11" sec] k assms(2)
    by (simp_all add: first_byte_def)
  have le: "fat16_read_le16 sec (of_nat (32 * k) + 0x1A) = Some (get_le16 sec (32 * k + 26))"
    "fat16_read_le32 sec (of_nat (32 * k) + 0x1C) = Some (get_le32 sec (32 * k + 28))"
    using read_le16_nat [of "32 * k + 26" sec] read_le32_nat [of "32 * k + 28" sec] k assms(2) by simp_all
  have u: "unat (of_nat (32 * k) :: u32) = 32 * k" using k by (intro unat_of_nat_u32) simp
  have k11: "11 \<le> 512 - 32 * k" using k by linarith
  obtain cmp where cmp: "fat16_memcmp (drop (32 * k) sec) name 11 = Some cmp"
    "cmp = 0 \<longleftrightarrow> take 11 (drop (32 * k) sec) = name"
    using memcmp_eq [of 11 "drop (32 * k) sec" name] k11 assms(2,3) by auto
  have IH: "root_scan_sector f sec name (of_nat (32 * k) + 32) =
    Some (case find_index (\<lambda>i. stops sec i name) (Suc k) n of
       None \<Rightarrow> ScanNext
     | Some i \<Rightarrow> if first_byte sec i = 0 then ScanEnd
         else ScanFound (get_le16 sec (32 * i + 26)) (get_le32 sec (32 * i + 28)) (of_nat (32 * i)))"
    using Suc.IH [of "Suc k"] Suc.prems unfolding offset_add by simp
  show ?case
    apply (subst root_scan_sector.simps)
    apply (simp only: lt if_True g le u cmp(1) IH bind.bind_lunit)
    apply (auto simp: stops_def is_file_def Let_def cmp(2))
    done
qed

lemma free_scan_sector_eq:
  assumes "bytes_per_sector f = 512" "length sec = 512"
  shows "k + n = 16 \<Longrightarrow> free_scan_sector f sec (of_nat (32 * k)) =
    Some (map_option (\<lambda>i. of_nat (32 * i))
      (find_index (\<lambda>i. first_byte sec i = 0 \<or> first_byte sec i = 0xE5) k n))"
proof (induction n arbitrary: k)
  case 0
  then show ?case
    using entry_offset [of 16] by (subst free_scan_sector.simps) (simp add: assms(1))
next
  case (Suc n)
  have k: "k < 16" using Suc.prems by simp
  then have lt: "(of_nat (32 * k) :: u32) < ucast (bytes_per_sector f)"
    using entry_offset [of k] by (simp add: assms(1) del: of_nat_mult)
  have g: "get8 sec (of_nat (32 * k)) = Some (first_byte sec k)"
    using get8_nat [of "32 * k" sec] k assms(2) by (simp add: first_byte_def)
  have IH: "free_scan_sector f sec (of_nat (32 * k) + 32) =
      Some (map_option (\<lambda>i. of_nat (32 * i))
        (find_index (\<lambda>i. first_byte sec i = 0 \<or> first_byte sec i = 0xE5) (Suc k) n))"
    using Suc.IH [of "Suc k"] Suc.prems unfolding offset_add by simp
  show ?case
    by (subst free_scan_sector.simps) (simp add: lt g IH del: of_nat_mult)
qed

section \<open>The directory as one sequence\<close>

definition root_lba :: "fat16_fs \<Rightarrow> nat \<Rightarrow> u32" where
  "root_lba f j = root_dir_start_lba f + of_nat (j div 16)"

abbreviation root_sec :: "fat16_fs \<Rightarrow> disk \<Rightarrow> nat \<Rightarrow> u8 list" where
  "root_sec f D j \<equiv> D (root_lba f j)"

definition root_size :: "fat16_fs \<Rightarrow> nat" where
  "root_size f = 16 * unat (root_dir_sectors f)"

definition root_cluster :: "fat16_fs \<Rightarrow> disk \<Rightarrow> nat \<Rightarrow> u16" where
  "root_cluster f D j = get_le16 (root_sec f D j) (32 * (j mod 16) + 26)"

definition root_length :: "fat16_fs \<Rightarrow> disk \<Rightarrow> nat \<Rightarrow> u32" where
  "root_length f D j = get_le32 (root_sec f D j) (32 * (j mod 16) + 28)"

definition root_offset :: "nat \<Rightarrow> u32" where
  "root_offset j = of_nat (32 * (j mod 16))"

text \<open>The entry where the search for a name ends, and whether that is a file.\<close>

definition root_lookup :: "fat16_fs \<Rightarrow> disk \<Rightarrow> u8 list \<Rightarrow> nat option" where
  "root_lookup f D name = find_index (\<lambda>j. stops (root_sec f D j) (j mod 16) name) 0 (root_size f)"

definition root_result :: "fat16_fs \<Rightarrow> disk \<Rightarrow> nat option \<Rightarrow> root_find" where
  "root_result f D r = (case r of None \<Rightarrow> RootAbsent
     | Some j \<Rightarrow> if first_byte (root_sec f D j) (j mod 16) = 0 then RootAbsent
         else RootFound (root_cluster f D j) (root_length f D j) (root_lba f j) (root_offset j))"

definition root_free :: "fat16_fs \<Rightarrow> disk \<Rightarrow> nat option" where
  "root_free f D = find_index (\<lambda>j. first_byte (root_sec f D j) (j mod 16) = 0 \<or>
     first_byte (root_sec f D j) (j mod 16) = 0xE5) 0 (root_size f)"

lemma unat_root_lba:
  assumes "fs_ok f" "j < root_size f"
  shows "unat (root_lba f j) = unat (root_dir_start_lba f) + j div 16"
    and "root_lba f j < 0x10000000" and "\<not> in_fats f (root_lba f j)"
    and "unat (root_lba f j) < unat (data_start_lba f)"
proof -
  have j: "j div 16 < unat (root_dir_sectors f)" using assms(2) by (simp add: root_size_def div_less_iff_less_mult mult.commute)
  have b: "unat (root_dir_start_lba f) + j div 16 < 268435456" using assms(1) j by (simp add: fs_ok_def)
  then show u: "unat (root_lba f j) = unat (root_dir_start_lba f) + j div 16"
    unfolding root_lba_def by (subst unat_add_no_wrap) (simp_all add: unat_of_nat_u32)
  then show "root_lba f j < 0x10000000" using b by (simp add: word_less_nat_alt)
  show "\<not> in_fats f (root_lba f j)" using u by (simp add: in_fats_def)
  show "unat (root_lba f j) < unat (data_start_lba f)" using u j assms(1) by (simp add: fs_ok_def)
qed

lemma root_lba_inj:
  "fs_ok f \<Longrightarrow> i < root_size f \<Longrightarrow> j < root_size f \<Longrightarrow> root_lba f i = root_lba f j \<longleftrightarrow> i div 16 = j div 16"
  using unat_root_lba(1) [of f i] unat_root_lba(1) [of f j] by (auto simp: word_unat_eq_iff)

text \<open>The entries of one sector.\<close>

lemma root_lba_sector: "i < 16 \<Longrightarrow> root_lba f (16 * q + i) = root_dir_start_lba f + of_nat q \<and> (16 * q + i) mod 16 = i"
  by (simp add: root_lba_def)

lemma find_index_sector:
  assumes "\<And>i. i < 16 \<Longrightarrow> P (16 * q + i) = Q i"
  shows "find_index P (16 * q) 16 = map_option ((+) (16 * q)) (find_index Q 0 16)"
  using find_index_shift [of P "16 * q" 0 16] find_index_cong [of 0 16 "\<lambda>i. P (16 * q + i)" Q] assms by simp

context block_device
begin

lemma find_root_loop_eq:
  assumes "fs_ok f" "length name = 11"
  shows "ok d \<Longrightarrow> q + m = unat (root_dir_sectors f) \<Longrightarrow>
    \<exists>d'. find_root_loop hw f name m (root_dir_start_lba f + of_nat q) d =
      Some (root_result f (disk_of d)
        (find_index (\<lambda>j. stops (root_sec f (disk_of d) j) (j mod 16) name) (16 * q) (16 * m)), d') \<and>
      ok d' \<and> disk_of d' = disk_of d"
proof (induction m arbitrary: q d)
  case 0
  then show ?case by (simp add: root_result_def)
next
  case (Suc m)
  let ?D = "disk_of d" and ?lba = "root_dir_start_lba f + of_nat q"
  let ?P = "\<lambda>j. stops (root_sec f ?D j) (j mod 16) name"
  have "16 * q < root_size f" using Suc.prems(2) by (simp add: root_size_def)
  then have l: "?lba < 0x10000000"
    using unat_root_lba(2) [OF assms(1)] root_lba_sector [of 0 f q] by fastforce
  from read_law [OF Suc.prems(1) l] obtain d1 where d1:
    "block_read hw ?lba 1 d = (Some (?D ?lba), d1)" "ok d1" "disk_of d1 = ?D" by blast
  have sec: "length (?D ?lba) = 512" by (rule sector_law [OF Suc.prems(1)])
  have bps: "bytes_per_sector f = 512" using assms(1) by (simp add: fs_ok_def)
  note scan = root_scan_sector_eq [OF bps sec assms(2), of 0 16, simplified]
  have split: "find_index ?P (16 * q) (16 * Suc m) =
      (case find_index (\<lambda>i. stops (?D ?lba) i name) 0 16 of
         None \<Rightarrow> find_index ?P (16 * Suc q) (16 * m) | Some i \<Rightarrow> Some (16 * q + i))"
    using find_index_add [of ?P "16 * q" 16 "16 * m"]
      find_index_sector [of ?P q "\<lambda>i. stops (?D ?lba) i name"] root_lba_sector
    by (simp add: add.commute split: option.split)
  show ?case
  proof (cases "find_index (\<lambda>i. stops (?D ?lba) i name) 0 16")
    case None
    from Suc.IH [OF d1(2), of "Suc q"] Suc.prems(2) d1(3) obtain d' where
      "find_root_loop hw f name m (root_dir_start_lba f + of_nat (Suc q)) d1 =
        Some (root_result f ?D (find_index ?P (16 * Suc q) (16 * m)), d')" "ok d'" "disk_of d' = ?D" by auto
    with d1(1) scan None split show ?thesis by (simp add: algebra_simps)
  next
    case (Some i)
    then have i: "i < 16" by (simp add: find_index_Some_iff)
    with d1 scan Some split root_lba_sector [OF i, of f q] show ?thesis
      by (simp add: root_result_def root_cluster_def root_length_def root_offset_def)
  qed
qed

lemma find_root_entry:
  assumes "fs_ok f" "length name = 11" "ok d"
  shows "\<exists>d'. fat16_find_root_entry hw f name d =
    Some (root_result f (disk_of d) (root_lookup f (disk_of d) name), d') \<and> ok d' \<and> disk_of d' = disk_of d"
  using find_root_loop_eq [OF assms, of 0 "unat (root_dir_sectors f)"]
  by (simp add: fat16_find_root_entry_def root_lookup_def root_size_def)

lemma find_free_root_loop_eq:
  assumes "fs_ok f"
  shows "ok d \<Longrightarrow> q + m = unat (root_dir_sectors f) \<Longrightarrow>
    \<exists>d'. find_free_root_loop hw f m (root_dir_start_lba f + of_nat q) d =
      Some (map_option (\<lambda>j. (root_lba f j, root_offset j))
        (find_index (\<lambda>j. first_byte (root_sec f (disk_of d) j) (j mod 16) = 0 \<or>
           first_byte (root_sec f (disk_of d) j) (j mod 16) = 0xE5) (16 * q) (16 * m)), d') \<and>
      ok d' \<and> disk_of d' = disk_of d"
proof (induction m arbitrary: q d)
  case 0
  then show ?case by simp
next
  case (Suc m)
  let ?D = "disk_of d" and ?lba = "root_dir_start_lba f + of_nat q"
  let ?Q = "\<lambda>sec i. first_byte sec i = 0 \<or> first_byte sec i = 0xE5"
  let ?P = "\<lambda>j. ?Q (root_sec f ?D j) (j mod 16)"
  have "16 * q < root_size f" using Suc.prems(2) by (simp add: root_size_def)
  then have l: "?lba < 0x10000000"
    using unat_root_lba(2) [OF assms(1)] root_lba_sector [of 0 f q] by fastforce
  from read_law [OF Suc.prems(1) l] obtain d1 where d1:
    "block_read hw ?lba 1 d = (Some (?D ?lba), d1)" "ok d1" "disk_of d1 = ?D" by blast
  have sec: "length (?D ?lba) = 512" by (rule sector_law [OF Suc.prems(1)])
  have bps: "bytes_per_sector f = 512" using assms(1) by (simp add: fs_ok_def)
  note scan = free_scan_sector_eq [OF bps sec, of 0 16, simplified]
  have split: "find_index ?P (16 * q) (16 * Suc m) =
      (case find_index (?Q (?D ?lba)) 0 16 of
         None \<Rightarrow> find_index ?P (16 * Suc q) (16 * m) | Some i \<Rightarrow> Some (16 * q + i))"
    using find_index_add [of ?P "16 * q" 16 "16 * m"] find_index_sector [of ?P q "?Q (?D ?lba)"] root_lba_sector
    by (simp add: add.commute split: option.split)
  show ?case
  proof (cases "find_index (?Q (?D ?lba)) 0 16")
    case None
    from Suc.IH [OF d1(2), of "Suc q"] Suc.prems(2) d1(3) obtain d' where
      "find_free_root_loop hw f m (root_dir_start_lba f + of_nat (Suc q)) d1 =
        Some (map_option (\<lambda>j. (root_lba f j, root_offset j)) (find_index ?P (16 * Suc q) (16 * m)), d')"
      "ok d'" "disk_of d' = ?D" by auto
    with d1(1) scan None split show ?thesis by (simp add: algebra_simps)
  next
    case (Some i)
    then have i: "i < 16" by (simp add: find_index_Some_iff)
    with d1 scan Some split root_lba_sector [OF i, of f q] show ?thesis
      by (simp add: root_offset_def)
  qed
qed

lemma find_free_root_entry:
  assumes "fs_ok f" "ok d"
  shows "\<exists>d'. fat16_find_free_root_entry hw f d =
    Some (map_option (\<lambda>j. (root_lba f j, root_offset j)) (root_free f (disk_of d)), d') \<and>
    ok d' \<and> disk_of d' = disk_of d"
  using find_free_root_loop_eq [OF assms, of 0 "unat (root_dir_sectors f)"]
  by (simp add: fat16_find_free_root_entry_def root_free_def root_size_def)

end

section \<open>Changing entries\<close>

text \<open>A new entry: the name, the archive attribute, and zeros.\<close>

definition new_entry :: "u8 list \<Rightarrow> u8 list" where
  "new_entry name = name @ 0x20 # replicate 20 0"

lemma put8_overwrite:
  assumes "w = of_nat (length bs)" "n + length bs < length sec" "length sec < 65536"
  shows "put8 (overwrite sec n bs) (of_nat n + w) v = Some (overwrite sec n (bs @ [v]))"
proof -
  have "put8 (overwrite sec n bs) (of_nat n + w) v = Some ((overwrite sec n bs)[n + length bs := v])"
    unfolding assms(1) using assms(2,3) by (intro put8_add) simp_all
  also have "(overwrite sec n bs)[n + length bs := v] = overwrite sec n (bs @ [v])"
    using overwrite_overwrite [of n bs "[v]" sec] overwrite_Cons [of "n + length bs" "overwrite sec n bs" v "[]"] assms(2)
    by simp
  finally show ?thesis .
qed

lemma put_bytes_overwrite:
  assumes "n + length bs + length cs \<le> length sec" "length sec < 65536"
  shows "put_bytes (overwrite sec n bs) (of_nat n + of_nat (length bs)) cs = Some (overwrite sec n (bs @ cs))"
  using assms(1)
proof (induction cs arbitrary: bs)
  case (Cons c cs)
  have "put8 (overwrite sec n bs) (of_nat n + of_nat (length bs)) c = Some (overwrite sec n (bs @ [c]))"
    using Cons.prems assms(2) by (intro put8_overwrite) simp_all
  with Cons.IH [of "bs @ [c]"] Cons.prems show ?case by (simp add: ac_simps)
qed simp

lemma le16_overwrite:
  assumes "w = of_nat (length bs)" "n + length bs + 1 < length sec" "length sec < 65536"
  shows "fat16_write_le16 (overwrite sec n bs) (of_nat n + w) 0 = Some (overwrite sec n (bs @ [0, 0]))"
  using put8_overwrite [of w bs n sec 0] put8_overwrite [of "w + 1" "bs @ [0]" n sec 0] assms
  by (simp add: fat16_write_le16_def ac_simps)

lemma le32_overwrite:
  assumes "w = of_nat (length bs)" "n + length bs + 3 < length sec" "length sec < 65536"
  shows "fat16_write_le32 (overwrite sec n bs) (of_nat n + w) 0 = Some (overwrite sec n (bs @ [0, 0, 0, 0]))"
proof -
  have z: "u32_byte k 0 = 0" for k by (simp add: u32_byte_def)
  show ?thesis
    using put8_overwrite [of w bs n sec 0] put8_overwrite [of "w + 1" "bs @ [0]" n sec 0]
      put8_overwrite [of "w + 2" "bs @ [0, 0]" n sec 0] put8_overwrite [of "w + 3" "bs @ [0, 0, 0]" n sec 0] assms
    by (simp add: fat16_write_le32_def z ac_simps)
qed

context block_device
begin

lemma create_root_entry:
  assumes "ok d" "lba < 0x10000000" "n + 32 \<le> 512" "length name = 11"
  shows "\<exists>d'. fat16_create_root_entry hw name lba (of_nat n) d = Some (0, d') \<and> ok d' \<and>
    disk_of d' = (disk_of d)(lba := overwrite (disk_of d lba) n (new_entry name))"
proof -
  let ?sec = "disk_of d lba"
  obtain d1 where d1: "block_read hw lba 1 d = (Some ?sec, d1)" "ok d1" "disk_of d1 = disk_of d"
    using read_law [OF assms(1,2)] by blast
  have len: "length ?sec = 512" by (rule sector_law [OF assms(1)])
  have s0: "put_bytes ?sec (of_nat n) name = Some (overwrite ?sec n name)"
    using put_bytes_overwrite [of n "[]" name ?sec] assms(3,4) len by simp
  have new: "length (overwrite ?sec n (new_entry name)) = 512"
    using assms(3,4) len by (simp add: new_entry_def)
  obtain d2 where d2: "block_write hw lba (overwrite ?sec n (new_entry name)) 1 d1 = (0, d2)" "ok d2"
    "disk_of d2 = (disk_of d)(lba := overwrite ?sec n (new_entry name))"
    using write_law [OF d1(2) assms(2) new] d1(3) by auto
  have e: "new_entry name = name @ [0x20, 0, 0, 0, 0, 0, 0, 0, 0, 0, 0, 0, 0, 0, 0, 0, 0, 0, 0, 0, 0]"
    by (simp add: new_entry_def numeral_eq_Suc)
  show ?thesis
    using d1 d2 assms(3,4) len
    by (simp add: fat16_create_root_entry_def s0 put8_overwrite le16_overwrite le32_overwrite e)
qed

end

text \<open>The first cluster and the size of an entry, as \<open>fat16_update_root_entry\<close> stores them.\<close>

definition stamp :: "u8 list \<Rightarrow> nat \<Rightarrow> u16 \<Rightarrow> u32 \<Rightarrow> u8 list" where
  "stamp sec k c sz = set_le32 (set_le16 sec (32 * k + 26) c) (32 * k + 28) sz"

lemma stamp_nth:
  assumes "x mod 32 < 26"
  shows "stamp sec k c sz ! x = sec ! x"
proof -
  have "x \<noteq> 32 * k + m" if "26 \<le> m" "m < 32" for m
    using assms that by (metis add.commute mod_less mod_mult_self2 not_le)
  from this [of 26] this [of 27] this [of 28] this [of 29] this [of 30] this [of 31] show ?thesis
    by (simp add: stamp_def set_le32_def set_le16_def)
qed

lemma length_stamp [simp]: "length (stamp sec k c sz) = length sec"
  by (simp add: stamp_def)

lemma stamp_get:
  assumes "k < 16" "length sec = 512"
  shows "get_le16 (stamp sec k c sz) (32 * k + 26) = c" "get_le32 (stamp sec k c sz) (32 * k + 28) = sz"
proof -
  show "get_le32 (stamp sec k c sz) (32 * k + 28) = sz" using assms by (simp add: stamp_def)
  have "get_le16 (stamp sec k c sz) (32 * k + 26) = get_le16 (set_le16 sec (32 * k + 26) c) (32 * k + 26)"
    by (simp add: stamp_def get_le16_def set_le32_def)
  also have "\<dots> = c" using assms by simp
  finally show "get_le16 (stamp sec k c sz) (32 * k + 26) = c" .
qed

text \<open>Whether a search stops at an entry depends on its first twelve bytes only.\<close>

lemma stops_cong:
  assumes "length sec = 512" "length sec' = 512" "i < 16"
    and "\<And>m. m < 12 \<Longrightarrow> sec' ! (32 * i + m) = sec ! (32 * i + m)"
  shows "first_byte sec' i = first_byte sec i" "stops sec' i name = stops sec i name"
proof -
  show fb: "first_byte sec' i = first_byte sec i" using assms(4) [of 0] by (simp add: first_byte_def)
  have "take 11 (drop (32 * i) sec') = take 11 (drop (32 * i) sec)"
    using assms by (intro nth_equalityI) simp_all
  with assms(4) [of 11] fb show "stops sec' i name = stops sec i name"
    by (simp add: stops_def is_file_def)
qed

lemma stamp_stops:
  assumes "length sec = 512" "i < 16"
  shows "stops (stamp sec k c sz) i name = stops sec i name"
  using assms by (intro stops_cong(2)) (simp_all add: stamp_nth)

definition root_update :: "fat16_fs \<Rightarrow> nat \<Rightarrow> u16 \<Rightarrow> u32 \<Rightarrow> disk \<Rightarrow> disk" where
  "root_update f j c sz D = D(root_lba f j := stamp (root_sec f D j) (j mod 16) c sz)"

lemma root_update_lookup:
  assumes "\<And>lba. length (D lba) = 512"
  shows "root_lookup f (root_update f j c sz D) name = root_lookup f D name"
    and "root_cluster f (root_update f j c sz D) j = c" and "root_length f (root_update f j c sz D) j = sz"
    and "first_byte (root_sec f (root_update f j c sz D) j) (j mod 16) = first_byte (root_sec f D j) (j mod 16)"
proof -
  show "root_lookup f (root_update f j c sz D) name = root_lookup f D name"
    unfolding root_lookup_def
    using stamp_stops [OF assms] by (intro find_index_cong) (simp add: root_update_def)
  show "root_cluster f (root_update f j c sz D) j = c" "root_length f (root_update f j c sz D) j = sz"
    using stamp_get [of "j mod 16" "root_sec f D j" c sz] assms
    by (simp_all add: root_cluster_def root_length_def root_update_def)
  have "32 * (j mod 16) mod 32 < (26 :: nat)" by simp
  then show "first_byte (root_sec f (root_update f j c sz D) j) (j mod 16) = first_byte (root_sec f D j) (j mod 16)"
    by (simp add: root_update_def first_byte_def stamp_nth)
qed

text \<open>Sectors of the root directory are neither FAT nor data.\<close>

lemma root_change_keeps:
  assumes "fs_ok f" "j < root_size f" "valid_cluster f c"
  shows "fat_entry f (D(root_lba f j := v)) c = fat_entry f D c"
    and "i < cluster_bytes f \<Longrightarrow> cbyte f (D(root_lba f j := v)) c i = cbyte f D c i"
proof -
  show "fat_entry f (D(root_lba f j := v)) c = fat_entry f D c"
    using unat_root_lba(3) [OF assms(1,2)] by (intro fat_entry_cong assms) auto
  show "cbyte f (D(root_lba f j := v)) c i = cbyte f D c i" if "i < cluster_bytes f"
  proof -
    have "i div 512 < spc f" using that by (simp add: div_less_iff_less_mult cluster_bytes_def mult.commute)
    then show ?thesis
      using unat_data_lba(4) [OF assms(1,3)] unat_root_lba(4) [OF assms(1,2)] by (fastforce simp: cbyte_def)
  qed
qed

lemma root_change_chain:
  assumes "fs_ok f" "j < root_size f" "chain f D cs"
  shows "chain f (D(root_lba f j := v)) cs"
    and "x div cluster_bytes f < length cs \<Longrightarrow> fbyte f (D(root_lba f j := v)) cs x = fbyte f D cs x"
  using assms root_change_keeps [OF assms(1,2)] chain_nth_valid [OF assms(3)] cluster_bytes_pos [OF assms(1)]
  by (auto simp: chain_def fbyte_def)

text \<open>An entry created in the first free slot is the one that a later search finds.\<close>

definition root_create :: "fat16_fs \<Rightarrow> nat \<Rightarrow> u8 list \<Rightarrow> disk \<Rightarrow> disk" where
  "root_create f j name D =
    D(root_lba f j := overwrite (root_sec f D j) (32 * (j mod 16)) (new_entry name))"

lemma root_create_lookup:
  assumes "fs_ok f" "\<And>lba. length (D lba) = 512" "length name = 11" "name ! 0 \<noteq> 0" "name ! 0 \<noteq> 0xE5"
    and "root_free f D = Some j" "root_result f D (root_lookup f D name) = RootAbsent"
  shows "root_lookup f (root_create f j name D) name = Some j"
    and "root_cluster f (root_create f j name D) j = 0" and "root_length f (root_create f j name D) j = 0"
    and "first_byte (root_sec f (root_create f j name D) j) (j mod 16) \<noteq> 0"
proof -
  let ?D = "root_create f j name D" and ?k = "j mod 16"
  let ?sec = "root_sec f D j"
  have k: "?k < 16" by simp
  have j: "j < root_size f"
    and fr: "\<And>i. i < j \<Longrightarrow> first_byte (root_sec f D i) (i mod 16) \<noteq> 0 \<and> first_byte (root_sec f D i) (i mod 16) \<noteq> 0xE5"
    and fj: "first_byte ?sec ?k = 0 \<or> first_byte ?sec ?k = 0xE5"
    using assms(6) by (auto simp: root_free_def find_index_Some_iff)
  have new: "length (new_entry name) = 32" using assms(3) by (simp add: new_entry_def)
  have sec: "root_sec f ?D j = overwrite ?sec (32 * ?k) (new_entry name)" by (simp add: root_create_def)
  have nth: "root_sec f ?D j ! (32 * ?k + m) = new_entry name ! m" if "m < 32" for m
    using nth_overwrite [of "32 * ?k" "new_entry name" ?sec "32 * ?k + m"] that new assms(2) k sec by simp
  have zero: "new_entry name ! m = 0" if "12 \<le> m" "m < 32" for m
    using that assms(3) by (simp add: new_entry_def nth_append nth_Cons')
  have "take 11 (drop (32 * ?k) (root_sec f ?D j)) = name"
    using nth new assms(2,3) k sec by (intro nth_equalityI) (simp_all add: new_entry_def nth_append)
  moreover have "root_sec f ?D j ! (32 * ?k + 11) = 0x20"
    using nth [of 11] assms(3) by (simp add: new_entry_def nth_append)
  moreover have fb: "first_byte (root_sec f ?D j) ?k = name ! 0"
    using nth [of 0] assms(3) by (simp add: new_entry_def nth_append first_byte_def)
  ultimately have stop: "stops (root_sec f ?D j) ?k name"
    using assms(4,5) by (simp add: stops_def is_file_def)
  have before: "\<not> stops (root_sec f ?D i) (i mod 16) name" if i: "i < j" for i
  proof -
    have "\<not> stops (root_sec f D i) (i mod 16) name"
    proof
      assume s: "stops (root_sec f D i) (i mod 16) name"
      have "i < root_size f" using i j by simp
      then have "root_lookup f D name \<noteq> None" using s by (auto simp: root_lookup_def find_index_None_iff)
      then obtain i0 where i0: "root_lookup f D name = Some i0" by blast
      then have "i0 \<le> i" using s by (auto simp: root_lookup_def find_index_Some_iff not_less [symmetric])
      from i0 have "first_byte (root_sec f D i0) (i0 mod 16) = 0"
        using assms(7) by (auto simp: root_result_def split: if_splits)
      then show False using fr [of i0] \<open>i0 \<le> i\<close> i by simp
    qed
    moreover have "stops (root_sec f ?D i) (i mod 16) name = stops (root_sec f D i) (i mod 16) name"
    proof (cases "root_lba f i = root_lba f j")
      case True
      then have ne: "i mod 16 \<noteq> ?k"
        using root_lba_inj [OF assms(1), of i j] i j by (metis div_mult_mod_eq less_not_refl less_trans)
      have "root_sec f ?D i ! (32 * (i mod 16) + m) = root_sec f D i ! (32 * (i mod 16) + m)" if m: "m < 12" for m
      proof -
        have im: "i mod 16 < 16" by simp
        have "\<not> (32 * ?k \<le> 32 * (i mod 16) + m \<and> 32 * (i mod 16) + m < 32 * ?k + 32)"
          using ne m by linarith
        moreover have "32 * (i mod 16) + m < 512" using im m by linarith
        moreover have "32 * ?k + length (new_entry name) \<le> length ?sec" using new assms(2) k by simp
        ultimately show ?thesis
          using True new assms(2) by (auto simp: sec nth_overwrite)
      qed
      then show ?thesis
        using True sec new assms(2) k by (intro stops_cong(2)) simp_all
    qed (simp add: root_create_def)
    ultimately show ?thesis by simp
  qed
  show "root_lookup f ?D name = Some j"
    unfolding root_lookup_def find_index_Some_iff using j stop before by auto
  show "root_cluster f ?D j = 0"
    using nth [of 26] nth [of 27] zero by (simp add: root_cluster_def get_le16_def word_of_def add.commute)
  show "root_length f ?D j = 0"
    using nth [of 28] nth [of 29] nth [of 30] nth [of 31] zero
    by (simp add: root_length_def get_le32_def add.commute)
  show "first_byte (root_sec f ?D j) ?k \<noteq> 0" using fb assms(4) by simp
qed

end
