(* ===== verification/FileSystem.thy ===== *)
theory FileSystem
  imports Directory
begin

text \<open>
  The correctness of the FAT16 driver: mounting computes the layout of the volume, short names are
  normalised as the 8.3 rule says, and the contents of a file survive writing, closing, opening
  and reading. The statements hold for every device with the contract \<open>block_device\<close>.
\<close>

section \<open>Mounting\<close>

text \<open>The total sector count that \<open>fat16_mount\<close> chooses.\<close>

definition bpb_total :: "fat16_fs \<Rightarrow> u32" where
  "bpb_total f = (if total_sectors_16 f \<noteq> 0 then ucast (total_sectors_16 f) else total_sectors_32 f)"

text \<open>Sectors before the first cluster, counted from the start of the volume.\<close>

definition overhead :: "fat16_fs \<Rightarrow> nat" where
  "overhead f = unat (reserved_sector_count f) + unat (num_fats f) * unat (sectors_per_fat f) +
     (unat (root_entry_count f) * 32 + 511) div 512"

text \<open>A boot sector that describes a FAT16 volume of 512-byte sectors within the reach of LBA28.\<close>

definition geometry_ok :: "fat16_fs \<Rightarrow> bool" where
  "geometry_ok f \<longleftrightarrow> bytes_per_sector f = 512 \<and> \<not> bpb_corrupt f \<and>
     unat (volume_lba f) + unat (bpb_total f) \<le> 268435456 \<and> overhead f < unat (bpb_total f) \<and>
     (unat (bpb_total f) - overhead f) div unat (sectors_per_cluster f) \<le> 65524 \<and>
     (unat (bpb_total f) - overhead f) div unat (sectors_per_cluster f) + 2 \<le> unat (sectors_per_fat f) * 256"

lemma bpb_layout_ok:
  assumes "geometry_ok f"
  defines "g \<equiv> bpb_layout (f\<lparr>total_sectors := bpb_total f\<rparr>)"
  shows "fs_ok g"
    and "unat (fat_start_lba g) = unat (volume_lba f) + unat (reserved_sector_count f)"
    and "unat (data_start_lba g) = unat (volume_lba f) + overhead f"
    and "unat (data_start_lba g) + unat (cluster_count g) * unat (sectors_per_cluster g)
      \<le> unat (volume_lba f) + unat (bpb_total f)"
    and "unat (root_dir_sectors g) = (unat (root_entry_count f) * 32 + 511) div 512"
proof -
  let ?rds = "(unat (root_entry_count f) * 32 + 511) div 512"
  let ?fats = "(ucast (num_fats f) :: u32) * ucast (sectors_per_fat f)"
  have bps: "bytes_per_sector f = 512" and nz: "\<not> bpb_corrupt f"
    and vol: "unat (volume_lba f) + unat (bpb_total f) \<le> 268435456"
    and ov: "overhead f < unat (bpb_total f)"
    using assms(1) by (simp_all add: geometry_ok_def)
  have "unat (num_fats f) * unat (sectors_per_fat f) \<le> 255 * 65535"
    using unat_u8 [of "num_fats f"] unat_u16 [of "sectors_per_fat f"] by (intro mult_le_mono) auto
  then have fats: "unat ?fats = unat (num_fats f) * unat (sectors_per_fat f)"
    by (subst unat_mult_no_wrap) simp_all
  have "unat (ucast (root_entry_count f) * 32 :: u32) = unat (root_entry_count f) * 32"
    using unat_u16 [of "root_entry_count f"] by (subst unat_mult_no_wrap) simp_all
  then have "unat (ucast (root_entry_count f) * 32 + 511 :: u32) = unat (root_entry_count f) * 32 + 511"
    using unat_u16 [of "root_entry_count f"] by (subst unat_add_no_wrap) simp_all
  then have rds: "unat ((ucast (root_entry_count f) * 32 + 511 :: u32) div 512) = ?rds"
    by (simp add: unat_div)
  have g: "g = f\<lparr>total_sectors := bpb_total f, root_dir_sectors := (ucast (root_entry_count f) * 32 + 511) div 512,
      fat_start_lba := volume_lba f + ucast (reserved_sector_count f),
      root_dir_start_lba := volume_lba f + ucast (reserved_sector_count f) + ?fats,
      data_start_lba := volume_lba f + ucast (reserved_sector_count f) + ?fats +
        (ucast (root_entry_count f) * 32 + 511) div 512,
      cluster_count := (bpb_total f - (ucast (reserved_sector_count f) + ?fats +
        (ucast (root_entry_count f) * 32 + 511) div 512)) div ucast (sectors_per_cluster f)\<rparr>"
    by (simp add: g_def bpb_layout_def Let_def bps)
  have f1: "unat (volume_lba f + ucast (reserved_sector_count f)) =
      unat (volume_lba f) + unat (reserved_sector_count f)"
    using vol ov by (subst unat_add_no_wrap) (simp_all add: overhead_def)
  then have f2: "unat (volume_lba f + ucast (reserved_sector_count f) + ?fats) =
      unat (volume_lba f) + unat (reserved_sector_count f) + unat (num_fats f) * unat (sectors_per_fat f)"
    using vol ov fats by (subst unat_add_no_wrap) (simp_all add: overhead_def)
  then have f3: "unat (volume_lba f + ucast (reserved_sector_count f) + ?fats +
      (ucast (root_entry_count f) * 32 + 511) div 512) = unat (volume_lba f) + overhead f"
    using vol ov rds by (subst unat_add_no_wrap) (simp_all add: overhead_def)
  have o1: "unat (ucast (reserved_sector_count f) + ?fats) =
      unat (reserved_sector_count f) + unat (num_fats f) * unat (sectors_per_fat f)"
    using vol ov fats by (subst unat_add_no_wrap) (simp_all add: overhead_def)
  then have o: "unat (ucast (reserved_sector_count f) + ?fats +
      (ucast (root_entry_count f) * 32 + 511) div 512) = overhead f"
    using vol ov rds by (subst unat_add_no_wrap) (simp_all add: overhead_def)
  have "unat (bpb_total f - (ucast (reserved_sector_count f) + ?fats +
      (ucast (root_entry_count f) * 32 + 511) div 512)) = unat (bpb_total f) - overhead f"
    using o ov by (simp add: unat_sub word_le_nat_alt)
  then have cc: "unat (cluster_count g) = (unat (bpb_total f) - overhead f) div unat (sectors_per_cluster f)"
    by (simp add: g unat_div)
  then have "unat (cluster_count g) * unat (sectors_per_cluster f) \<le> unat (bpb_total f) - overhead f"
    by simp
  then show dl: "unat (data_start_lba g) + unat (cluster_count g) * unat (sectors_per_cluster g)
      \<le> unat (volume_lba f) + unat (bpb_total f)"
    using f3 ov by (simp add: g)
  show "unat (fat_start_lba g) = unat (volume_lba f) + unat (reserved_sector_count f)"
    "unat (data_start_lba g) = unat (volume_lba f) + overhead f"
    "unat (root_dir_sectors g) = ?rds"
    using f1 f3 rds by (simp_all add: g)
  have geo: "unat (cluster_count g) \<le> 65524" "unat (cluster_count g) + 2 \<le> unat (sectors_per_fat f) * 256"
    using assms(1) cc by (simp_all add: geometry_ok_def)
  have pos: "0 < unat (sectors_per_cluster f)" "0 < unat (num_fats f)" "0 < unat (sectors_per_fat f)"
    using nz by (auto simp: bpb_corrupt_def unat_gt_0)
  have fields: "bytes_per_sector g = 512" "sectors_per_cluster g = sectors_per_cluster f"
    "num_fats g = num_fats f" "sectors_per_fat g = sectors_per_fat f" by (simp_all add: g bps)
  have "unat (root_dir_start_lba g) = unat (fat_start_lba g) + unat (num_fats f) * unat (sectors_per_fat f)"
    "unat (data_start_lba g) = unat (root_dir_start_lba g) + unat (root_dir_sectors g)"
    using f1 f2 f3 rds by (simp_all add: g overhead_def)
  with geo pos fields dl vol show "fs_ok g" by (simp add: fs_ok_def)
qed

lemma parse_bpb_volume: "parse_bpb lba sector = Some f \<Longrightarrow> volume_lba f = lba"
  by (auto simp: parse_bpb_def elim!: bind_SomeE)

text \<open>
  C26: mounting a volume. When the first sector carries the signature and describes a FAT16 volume of
  512-byte sectors that lies below the 28-bit limit, \<open>fat16_mount\<close> succeeds, changes nothing on the
  disk, makes the volume the current one, and the layout it records is the one the boot sector
  implies: the FATs start after the reserved sectors, the clusters after the FATs and the root
  directory, no computation wraps, and all clusters lie inside the volume.
\<close>

theorem fat16_mount_correct:
  assumes "block_device hw disk_of ok" "ok (dev s)" "lba < 0x10000000" "fs \<noteq> 0"
    and "get_le16 (disk_of (dev s) lba) 510 = 0xAA55"
    and "parse_bpb lba (disk_of (dev s) lba) = Some f" "geometry_ok f"
  shows "\<exists>s'. fat16_mount hw fs lba s = Some (0, s') \<and> ok (dev s') \<and>
    disk_of (dev s') = disk_of (dev s) \<and> fat16_files s' = fat16_files s \<and>
    fat16_current_fs s' = MOUNTED_FS \<and> fs_store s' fs = fs_store s' MOUNTED_FS \<and>
    fs_ok (fs_store s' MOUNTED_FS) \<and>
    unat (fat_start_lba (fs_store s' MOUNTED_FS)) = unat lba + unat (reserved_sector_count f) \<and>
    unat (data_start_lba (fs_store s' MOUNTED_FS)) = unat lba + overhead f \<and>
    unat (data_start_lba (fs_store s' MOUNTED_FS)) + unat (cluster_count (fs_store s' MOUNTED_FS)) *
      unat (sectors_per_cluster (fs_store s' MOUNTED_FS)) \<le> unat lba + unat (bpb_total f)"
proof -
  obtain d1 where d1: "block_read hw lba 1 (dev s) = (Some (disk_of (dev s) lba), d1)" "ok d1"
    "disk_of d1 = disk_of (dev s)"
    using block_device.read_law [OF assms(1-3)] by blast
  have sig: "fat16_read_le16 (disk_of (dev s) lba) 510 = Some 0xAA55"
    using read_le16_nat [of 510 "disk_of (dev s) lba"] block_device.sector_law [OF assms(1,2)] assms(5)
    by simp
  have nc: "\<not> bpb_corrupt f" and "0 < unat (bpb_total f)" using assms(7) by (auto simp: geometry_ok_def)
  then have t: "bpb_total f \<noteq> 0" by auto
  have "fat16_mount hw fs lba s = Some (0, s\<lparr>dev := d1,
      fs_store := (fs_store s)(fs := bpb_layout (f\<lparr>total_sectors := bpb_total f\<rparr>),
        MOUNTED_FS := bpb_layout (f\<lparr>total_sectors := bpb_total f\<rparr>)), fat16_current_fs := MOUNTED_FS\<rparr>)"
    using assms(4,6) d1(1) sig nc t
    by (simp add: fat16_mount_def bpb_total_def [symmetric] Let_def)
  with d1 bpb_layout_ok [OF assms(7)] parse_bpb_volume [OF assms(6)] show ?thesis by simp
qed

section \<open>Short names\<close>

text \<open>
  The 8.3 rule: leading slashes are dropped; the name before the first dot has one to eight
  characters, the extension after it at most three and no further dot; both are upper-cased and
  padded with blanks.
\<close>

definition short_name :: "u8 list \<Rightarrow> u8 list option" where
  "short_name path =
    (let p = dropWhile (\<lambda>c. c = 47) path;
         name = takeWhile (\<lambda>c. c \<noteq> 46) p;
         ext = tl (dropWhile (\<lambda>c. c \<noteq> 46) p)
     in if 1 \<le> length name \<and> length name \<le> 8 \<and> length ext \<le> 3 \<and> 46 \<notin> set ext
        then Some (map fat16_toupper name @ replicate (8 - length name) 32 @
                   map fat16_toupper ext @ replicate (3 - length ext) 32)
        else None)"

lemma normalize_ext:
  "length arr = 11 \<Longrightarrow> e \<le> 3 \<Longrightarrow> normalize_loop ext n e True arr =
     (if 46 \<notin> set ext \<and> e + length ext \<le> 3 \<and> n \<noteq> 0
      then Some (overwrite arr (8 + e) (map fat16_toupper ext)) else None)"
proof (induction ext arbitrary: e arr)
  case (Cons c ext)
  show ?case
  proof (cases "c = 46 \<or> e \<ge> 3")
    case False
    with Cons.IH [of "arr[8 + e := fat16_toupper c]" "Suc e"] Cons.prems
      overwrite_Cons [of "8 + e" arr "fat16_toupper c" "map fat16_toupper ext"] show ?thesis
      by auto
  qed auto
qed simp

lemma normalize_name:
  "length arr = 11 \<Longrightarrow> n \<le> 8 \<Longrightarrow> normalize_loop p n 0 False arr =
     (let name = takeWhile (\<lambda>c. c \<noteq> 46) p; ext = tl (dropWhile (\<lambda>c. c \<noteq> 46) p)
      in if 1 \<le> n + length name \<and> n + length name \<le> 8 \<and> length ext \<le> 3 \<and> 46 \<notin> set ext
         then Some (overwrite (overwrite arr n (map fat16_toupper name)) 8 (map fat16_toupper ext))
         else None)"
proof (induction p arbitrary: n arr)
  case Nil
  then show ?case by auto
next
  case (Cons c p)
  show ?case
  proof (cases "c = 46")
    case True
    with Cons.prems show ?thesis by (auto simp: normalize_ext)
  next
    case False
    show ?thesis
    proof (cases "n \<ge> 8")
      case False
      with \<open>c \<noteq> 46\<close> Cons.IH [of "arr[n := fat16_toupper c]" "Suc n"] Cons.prems show ?thesis
        by (auto simp: overwrite_Cons Let_def)
    qed (use False in \<open>auto simp: Let_def\<close>)
  qed
qed

lemma overwrite_name:
  assumes "length name \<le> 8" "length ext \<le> 3"
  shows "overwrite (overwrite (replicate 11 b) 0 name) 8 ext =
    name @ replicate (8 - length name) b @ ext @ replicate (3 - length ext) b"
proof -
  have "8 - length name \<le> 11 - length name" "11 - length name - (8 + length ext - length name) = 3 - length ext"
    using assms by simp_all
  then show ?thesis using assms by (simp add: overwrite_def min_def)
qed

lemma normalize_short_name_eq: "fat16_normalize_short_name (Some p) = short_name p"
  unfolding fat16_normalize_short_name_def option.case short_name_def
  by (subst normalize_name) (auto simp: Let_def overwrite_name)



section \<open>Files\<close>

text \<open>The record that \<open>fat16_open\<close> stores for entry \<open>j\<close> of the root directory.\<close>

definition opened :: "nat \<Rightarrow> fat16_fs \<Rightarrow> disk \<Rightarrow> nat \<Rightarrow> fat16_file" where
  "opened u f D j = \<lparr>file_fs = u, start_cluster = root_cluster f D j, current_cluster = root_cluster f D j,
     file_size = root_length f D j, position = 0, dir_entry_lba = root_lba f j,
     dir_entry_offset = root_offset j, modified = False, active = True\<rparr>"

text \<open>Entry \<open>j\<close> is what a search for the name finds, and it is a file.\<close>

definition has_file :: "fat16_fs \<Rightarrow> disk \<Rightarrow> u8 list \<Rightarrow> nat \<Rightarrow> bool" where
  "has_file f D name j \<longleftrightarrow> root_lookup f D name = Some j \<and> first_byte (root_sec f D j) (j mod 16) \<noteq> 0"

lemma has_file_index: "has_file f D name j \<Longrightarrow> j < root_size f"
  by (auto simp: has_file_def root_lookup_def find_index_Some_iff)

lemma has_file_cong:
  assumes "has_file f D name j" "\<And>i. i < root_size f \<Longrightarrow> D' (root_lba f i) = D (root_lba f i)"
  shows "has_file f D' name j" "root_cluster f D' j = root_cluster f D j" "root_length f D' j = root_length f D j"
proof -
  have "root_lookup f D' name = root_lookup f D name"
    unfolding root_lookup_def using assms(2) by (intro find_index_cong) simp
  with assms has_file_index [OF assms(1)]
  show "has_file f D' name j" "root_cluster f D' j = root_cluster f D j" "root_length f D' j = root_length f D j"
    by (simp_all add: has_file_def root_cluster_def root_length_def)
qed

lemma normalized_length: "fat16_normalize_short_name path = Some n \<Longrightarrow> length n = 11"
proof -
  assume n: "fat16_normalize_short_name path = Some n"
  then obtain p where p: "path = Some p" by (auto simp: fat16_normalize_short_name_def split: option.splits)
  have "short_name p = Some n"
    using n unfolding fat16_normalize_short_name_def p option.case short_name_def
    by (subst (asm) normalize_name) (auto simp: Let_def overwrite_name split: if_splits)
  then show "length n = 11" by (auto simp: short_name_def Let_def split: if_splits)
qed

definition free_slot :: "'d fat_state \<Rightarrow> nat option" where
  "free_slot s = find_index (\<lambda>i. \<not> active (fat16_files s ! i)) 0 FAT16_MAX_OPEN_FILES"

lemma use_fs_update [simp]:
  "use_fs fs (s\<lparr>dev := d\<rparr>) = use_fs fs s" "use_fs fs (s\<lparr>fat16_files := fl\<rparr>) = use_fs fs s"
  by (simp_all add: use_fs_def)

lemma free_slot_Some: "free_slot s = Some i \<Longrightarrow> i < 16 \<and> \<not> active (fat16_files s ! i)"
  by (auto simp: free_slot_def find_index_Some_iff FAT16_MAX_OPEN_FILES_def)

lemma fd_index_of: "i < 16 \<Longrightarrow> fd_index (int i + FAT16_FD_BASE) = Some i"
  by (simp add: fd_index_def FAT16_FD_BASE_def FAT16_MAX_OPEN_FILES_def)

context block_device
begin

lemma open_file:
  assumes "ok (dev s)" "use_fs fs s = u" "u \<noteq> 0" "fs_store s u = f" "fs_ok f"
    and "fat16_normalize_short_name (Some path) = Some name" "has_file f (disk_of (dev s)) name j"
    and "root_length f (disk_of (dev s)) j = 0 \<or> root_cluster f (disk_of (dev s)) j \<ge> FAT16_CLUSTER_MIN"
    and "free_slot s = Some i"
  shows "\<exists>d'. fat16_open hw fs (Some path) s = Some (int i + FAT16_FD_BASE,
      s\<lparr>dev := d', fat16_files := (fat16_files s)[i := opened u f (disk_of (dev s)) j]\<rparr>) \<and>
    ok d' \<and> disk_of d' = disk_of (dev s)"
proof -
  let ?D = "disk_of (dev s)"
  obtain d' where d': "fat16_find_root_entry hw f name (dev s) =
      Some (root_result f ?D (root_lookup f ?D name), d')" "ok d'" "disk_of d' = ?D"
    using find_root_entry [OF assms(5) normalized_length [OF assms(6)] assms(1)] by blast
  have "root_result f ?D (root_lookup f ?D name) =
      RootFound (root_cluster f ?D j) (root_length f ?D j) (root_lba f j) (root_offset j)"
    using assms(7) by (simp add: root_result_def has_file_def)
  moreover have "\<not> (root_length f ?D j > 0 \<and> root_cluster f ?D j < FAT16_CLUSTER_MIN)"
    using assms(8) by (auto simp: not_less)
  ultimately show ?thesis
    using d' assms(2,3,4,6,9)
    by (auto simp: fat16_open_def free_slot_def [symmetric] opened_def)
qed

text \<open>Writing into an empty file: a chain of free clusters that holds the buffer.\<close>

lemma write_new_file:
  assumes "ok (dev s)" "i < 16" "length (fat16_files s) = 16" "file = fat16_files s ! i" "active file"
    and "file_fs file \<noteq> 0" "fs_store s (file_fs file) = f" "fs_ok f"
    and "start_cluster file = 0" "current_cluster file = 0" "position file = 0" "file_size file = 0"
    and "0 < length buf" "length buf < 2147483648"
    and "(length buf - 1) div cluster_bytes f + 1 \<le> card (free_clusters f (disk_of (dev s)))"
  shows "\<exists>cs d'. cs \<noteq> [] \<and> fat16_write hw (int i + FAT16_FD_BASE) (Some buf) (of_nat (length buf)) s =
      Some (int (length buf), s\<lparr>fat16_files := (fat16_files s)[i := file\<lparr>start_cluster := hd cs,
        position := of_nat (length buf), file_size := of_nat (length buf), current_cluster := last cs,
        modified := True\<rparr>], dev := d'\<rparr>) \<and>
    ok d' \<and> chain f (disk_of d') cs \<and> length cs = (length buf - 1) div cluster_bytes f + 1 \<and>
    set cs \<subseteq> free_clusters f (disk_of (dev s)) \<and>
    (\<forall>x < length buf. fbyte f (disk_of d') cs x = buf ! x) \<and>
    others_same f [] (disk_of (dev s)) (disk_of d')"
proof -
  let ?D = "disk_of (dev s)" and ?n = "length buf"
  have "free_clusters f ?D \<noteq> {}" using assms(15) by auto
  from allocate_cluster(2) [OF assms(8,1), of 0] this obtain c d1 where c:
    "fat16_allocate_cluster hw f 0 (dev s) = Some (Some c, d1)" "ok d1" "c \<in> free_clusters f ?D"
    "disk_of d1 = set_fat f c FAT16_CLUSTER_EOC ?D" by auto
  have vc: "valid_cluster f c" using c(3) by (simp add: free_clusters_def)
  have sec: "\<And>lba. length (?D lba) = 512" by (rule sector_law [OF assms(1)])
  have e: "fat_entry f (disk_of d1) x = (if x = c then FAT16_CLUSTER_EOC else fat_entry f ?D x)"
    if "valid_cluster f x" for x
    unfolding c(4) using set_fat_entry [OF assms(8) vc that, of ?D] sec by simp
  have ch: "chain f (disk_of d1) [c]" using e [OF vc] vc by (simp add: chain_def)
  have "c' \<in> free_clusters f (disk_of d1) \<longleftrightarrow> c' \<in> free_clusters f ?D \<and> c' \<noteq> c" for c'
    using e [of c'] by (auto simp: free_clusters_def FAT16_CLUSTER_EOC_def split: if_splits)
  then have fr: "free_clusters f (disk_of d1) = free_clusters f ?D - {c}" by blast
  let ?file = "file\<lparr>start_cluster := c, current_cluster := c\<rparr>"
  have first: "write_first_cluster hw f file (dev s) = Some (Some ?file, d1)"
    using assms(9-11) c(1) by (simp add: write_first_cluster_def FAT16_CLUSTER_MIN_def)
  have need: "(0 + ?n - 1) div cluster_bytes f - 0 div cluster_bytes f \<le> card (free_clusters f (disk_of d1))"
    using assms(15) c(3) by (simp add: fr card_Diff_singleton)
  obtain cs' d' where w: "write_loop hw f ?file buf (of_nat ?n) (of_nat 0) d1 =
      Some (int (0 + ?n), ?file\<lparr>position := of_nat (0 + ?n), file_size := max (file_size ?file) (of_nat (0 + ?n)),
        current_cluster := last ([c] @ cs'), modified := True\<rparr>, d')"
    "ok d'" "chain f (disk_of d') ([c] @ cs')" "length ([c] @ cs') = (0 + ?n - 1) div cluster_bytes f + 1"
    "set cs' \<subseteq> free_clusters f (disk_of d1)"
    "\<forall>i < ?n. fbyte f (disk_of d') ([c] @ cs') (0 + i) = buf ! (0 + i)"
    "others_same f [c] (disk_of d1) (disk_of d')"
    using write_loop_correct [OF assms(8,14) c(2) ch, of ?file 0 ?n 0, OF _ _ _ assms(13) _ _ need]
      assms(11,14) by auto
  have nz: "(of_nat ?n :: u32) \<noteq> 0"
    using assms(13,14) of_nat_u32_eq_0 [of ?n] by simp
  have ot: "others_same f [] ?D (disk_of d')"
  proof (rule others_trans [of _ _ _ "disk_of d1" "[c]"])
    show "others_same f [] ?D (disk_of d1)"
      using e cbyte_set_fat [OF assms(8) vc] set_fat_outside [OF assms(8) vc] c(3,4)
      by (auto simp: others_same_def)
    show "others_same f ([] @ [c]) (disk_of d1) (disk_of d')" using w(7) by simp
    show "free_clusters f (disk_of d1) \<union> set [c] \<subseteq> free_clusters f ?D" using fr c(3) by auto
  qed
  have "fat16_write hw (int i + FAT16_FD_BASE) (Some buf) (of_nat ?n) s =
      Some (int ?n, s\<lparr>fat16_files := (fat16_files s)[i := file\<lparr>start_cluster := c,
        position := of_nat ?n, file_size := of_nat ?n, current_cluster := last (c # cs'),
        modified := True\<rparr>], dev := d'\<rparr>)"
    using w(1) first nz assms(2,5,6,7,12)
    by (simp add: fat16_write_def fd_index_of assms(4) [symmetric] max_def)
  then show ?thesis
    using w(2-6) ot c(3) fr by (intro exI [of _ "c # cs'"] exI [of _ d']) auto
qed

lemma create_file:
  assumes "ok (dev s)" "use_fs fs s = u" "u \<noteq> 0" "fs_store s u = f" "fs_ok f"
    and "fat16_normalize_short_name (Some path) = Some name" "name ! 0 \<noteq> 0" "name ! 0 \<noteq> 0xE5"
    and "root_result f (disk_of (dev s)) (root_lookup f (disk_of (dev s)) name) = RootAbsent"
    and "root_free f (disk_of (dev s)) = Some j"
  shows "\<exists>d'. fat16_create hw fs (Some path) s = Some (0, s\<lparr>dev := d'\<rparr>) \<and> ok d' \<and>
    disk_of d' = root_create f j name (disk_of (dev s))"
proof -
  let ?D = "disk_of (dev s)"
  note len = normalized_length [OF assms(6)]
  obtain d1 where d1: "fat16_find_root_entry hw f name (dev s) = Some (RootAbsent, d1)" "ok d1" "disk_of d1 = ?D"
    using find_root_entry [OF assms(5) len assms(1)] assms(9) by auto
  obtain d2 where d2: "fat16_find_free_root_entry hw f d1 = Some (Some (root_lba f j, root_offset j), d2)"
    "ok d2" "disk_of d2 = ?D"
    using find_free_root_entry [OF assms(5) d1(2)] d1(3) assms(10) by auto
  have j: "j < root_size f" using assms(10) by (auto simp: root_free_def find_index_Some_iff)
  have "j mod 16 < 16" by simp
  then have "32 * (j mod 16) + 32 \<le> 512" by linarith
  from create_root_entry [OF d2(2) unat_root_lba(2) [OF assms(5) j] this len] obtain d3 where
    "fat16_create_root_entry hw name (root_lba f j) (root_offset j) d2 = Some (0, d3)" "ok d3"
    "disk_of d3 = root_create f j name ?D"
    using d2(3) by (auto simp: root_offset_def root_create_def)
  with d1 d2 assms(2,3,4,6) show ?thesis by (intro exI [of _ d3]) (simp add: fat16_create_def Let_def)
qed

lemma close_file:
  assumes "ok (dev s)" "i < 16" "file = fat16_files s ! i" "active file" "modified file" "fs_ok f"
    and "dir_entry_lba file = root_lba f j" "dir_entry_offset file = root_offset j" "j < root_size f"
  shows "\<exists>d'. fat16_close hw (int i + FAT16_FD_BASE) s =
      Some (0, s\<lparr>fat16_files := (fat16_files s)[i := fat16_file_zero], dev := d'\<rparr>) \<and> ok d' \<and>
    disk_of d' = root_update f j (start_cluster file) (file_size file) (disk_of (dev s))"
proof -
  let ?D = "disk_of (dev s)" and ?k = "j mod 16"
  let ?sec = "root_sec f ?D j"
  have l: "root_lba f j < 0x10000000" by (rule unat_root_lba(2) [OF assms(6,9)])
  have sec: "length ?sec = 512" by (rule sector_law [OF assms(1)])
  obtain d1 where d1: "block_read hw (root_lba f j) 1 (dev s) = (Some ?sec, d1)" "ok d1" "disk_of d1 = ?D"
    using read_law [OF assms(1) l] by blast
  have k: "?k < 16" by simp
  have w16: "fat16_write_le16 ?sec (root_offset j + 0x1A) (start_cluster file) =
      Some (set_le16 ?sec (32 * ?k + 26) (start_cluster file))"
    using write_le16_nat [of "32 * ?k + 26" ?sec] sec k by (simp add: root_offset_def)
  have w32: "fat16_write_le32 (set_le16 ?sec (32 * ?k + 26) (start_cluster file)) (root_offset j + 0x1C) (file_size file) =
      Some (stamp ?sec ?k (start_cluster file) (file_size file))"
    using write_le32_nat [of "32 * ?k + 28" "set_le16 ?sec (32 * ?k + 26) (start_cluster file)"] sec k
    by (simp add: root_offset_def stamp_def)
  have "length (stamp ?sec ?k (start_cluster file) (file_size file)) = 512" using sec by simp
  from write_law [OF d1(2) l this] obtain d2 where
    "block_write hw (root_lba f j) (stamp ?sec ?k (start_cluster file) (file_size file)) 1 d1 = (0, d2)" "ok d2"
    "disk_of d2 = root_update f j (start_cluster file) (file_size file) ?D"
    using d1(3) by (auto simp: root_update_def)
  with d1 w16 w32 assms(2-5,7,8) show ?thesis
    by (intro exI [of _ d2]) (simp add: fat16_close_def fd_index_of fat16_update_root_entry_def Let_def)
qed

lemma read_file:
  assumes "ok (dev s)" "i < 16" "file = fat16_files s ! i" "active file" "file_fs file \<noteq> 0"
    and "fs_store s (file_fs file) = f" "fs_ok f" "chain f (disk_of (dev s)) cs" "current_cluster file = hd cs"
    and "position file = 0" "file_size file = of_nat n" "0 < n" "n < 2147483648"
    and "n \<le> length cs * cluster_bytes f" "length out = n"
  shows "\<exists>file' d'. fat16_read hw (int i + FAT16_FD_BASE) (Some out) (of_nat n) s =
      Some (int n, Some (map (fbyte f (disk_of (dev s)) cs) [0..<n]),
        s\<lparr>fat16_files := (fat16_files s)[i := file'], dev := d'\<rparr>) \<and> ok d' \<and> disk_of d' = disk_of (dev s)"
proof -
  let ?D = "disk_of (dev s)"
  have cs: "hd cs = cs ! (0 div cluster_bytes f)" using assms(8) by (simp add: chain_def hd_conv_nth)
  obtain file' d' where r: "read_loop hw f file out (of_nat n) (of_nat 0) (dev s) =
      Some (int (0 + n), file', overwrite out 0 (map (fbyte f ?D cs) [0..<0 + n]), d')" "ok d'" "disk_of d' = ?D"
    using read_loop_correct [OF assms(7,8,14) _ assms(1) refl assms(11), of 0 n 0 out] assms(9,10,12,13,15) cs
    by auto
  have nz: "(of_nat n :: u32) \<noteq> 0" using assms(12,13) of_nat_u32_eq_0 [of n] by simp
  then have "\<not> (0 :: u32) \<ge> of_nat n" by (simp add: word_le_nat_alt unat_eq_0)
  moreover have "overwrite out 0 (map (fbyte f ?D cs) [0..<n]) = map (fbyte f ?D cs) [0..<n]"
    using assms(15) by (simp add: overwrite_def)
  ultimately show ?thesis
    using r nz assms(2,4-6,10,11)
    by (intro exI [of _ file'] exI [of _ d']) (simp add: fat16_read_def fd_index_of assms(3) [symmetric])
qed

text \<open>The life of a file: created, opened, written, closed, opened again and read.\<close>

lemma file_life:
  assumes "ok (dev s)" "use_fs fs s = u" "u \<noteq> 0" "fs_store s u = f" "fs_ok f"
    and "fat16_normalize_short_name (Some path) = Some name" "name ! 0 \<noteq> 0" "name ! 0 \<noteq> 0xE5"
    and "root_result f (disk_of (dev s)) (root_lookup f (disk_of (dev s)) name) = RootAbsent"
    and "root_free f (disk_of (dev s)) \<noteq> None" "length (fat16_files s) = 16" "free_slot s \<noteq> None"
    and "0 < length buf" "length buf < 2147483648" "length out = length buf"
    and "(length buf - 1) div cluster_bytes f + 1 \<le> card (free_clusters f (disk_of (dev s)))"
  shows "\<exists>s1 fd s2 s3 s4 s5 s6.
    fat16_create hw fs (Some path) s = Some (0, s1) \<and>
    fat16_open hw fs (Some path) s1 = Some (fd, s2) \<and> 3 \<le> fd \<and>
    fat16_write hw fd (Some buf) (of_nat (length buf)) s2 = Some (int (length buf), s3) \<and>
    fat16_close hw fd s3 = Some (0, s4) \<and>
    fat16_open hw fs (Some path) s4 = Some (fd, s5) \<and>
    fat16_read hw fd (Some out) (of_nat (length buf)) s5 = Some (int (length buf), Some buf, s6) \<and> ok (dev s6) \<and>
    (\<forall>c. valid_cluster f c \<and> c \<notin> free_clusters f (disk_of (dev s)) \<longrightarrow>
       fat_entry f (disk_of (dev s6)) c = fat_entry f (disk_of (dev s)) c \<and>
       (\<forall>i < cluster_bytes f. cbyte f (disk_of (dev s6)) c i = cbyte f (disk_of (dev s)) c i))"
proof -
  let ?D = "disk_of (dev s)" and ?n = "length buf"
  obtain j where j: "root_free f ?D = Some j" using assms(10) by blast
  then have jr: "j < root_size f" by (auto simp: root_free_def find_index_Some_iff)
  obtain i where i: "free_slot s = Some i" using assms(12) by blast
  then have i16: "i < 16" using free_slot_Some by blast
  have sec: "\<And>lba. length (?D lba) = 512" by (rule sector_law [OF assms(1)])
  obtain d1 where d1: "fat16_create hw fs (Some path) s = Some (0, s\<lparr>dev := d1\<rparr>)" "ok d1"
    "disk_of d1 = root_create f j name ?D"
    using create_file [OF assms(1-9) j] by blast
  let ?D1 = "disk_of d1"
  note look = root_create_lookup [where D = ?D, OF assms(5) sec normalized_length [OF assms(6)] assms(7,8) j assms(9), folded d1(3)]
  have h1: "has_file f ?D1 name j" using look(1,4) by (simp add: has_file_def)
  have k1: "fat_entry f ?D1 c = fat_entry f ?D c" "x < cluster_bytes f \<Longrightarrow> cbyte f ?D1 c x = cbyte f ?D c x"
    if "valid_cluster f c" for c x
    unfolding d1(3) root_create_def using root_change_keeps [OF assms(5) jr that] by auto
  then have fr1: "free_clusters f ?D1 = free_clusters f ?D" by (auto simp: free_clusters_def)
  let ?s1 = "s\<lparr>dev := d1\<rparr>" and ?file = "opened u f ?D1 j"
  obtain d2 where d2: "fat16_open hw fs (Some path) ?s1 = Some (int i + FAT16_FD_BASE,
      ?s1\<lparr>dev := d2, fat16_files := (fat16_files s)[i := ?file]\<rparr>)" "ok d2" "disk_of d2 = ?D1"
    using open_file [of ?s1 fs u f path name j i] d1(2) assms(2-6) h1 look(3) i
    by (auto simp: free_slot_def)
  let ?s2 = "s\<lparr>dev := d2, fat16_files := (fat16_files s)[i := ?file]\<rparr>"
  have f2: "fat16_files ?s2 ! i = ?file" using i16 assms(11) by simp
  obtain cs d3 where w: "cs \<noteq> []" "fat16_write hw (int i + FAT16_FD_BASE) (Some buf) (of_nat ?n) ?s2 =
      Some (int ?n, ?s2\<lparr>fat16_files := (fat16_files ?s2)[i := ?file\<lparr>start_cluster := hd cs,
        position := of_nat ?n, file_size := of_nat ?n, current_cluster := last cs, modified := True\<rparr>], dev := d3\<rparr>)"
    "ok d3" "chain f (disk_of d3) cs" "length cs = (?n - 1) div cluster_bytes f + 1"
    "\<And>x. x < ?n \<Longrightarrow> fbyte f (disk_of d3) cs x = buf ! x" "others_same f [] ?D1 (disk_of d3)"
    using write_new_file [of ?s2 i ?file f buf] d2(2,3) i16 assms(3,4,5,11,13,14,16) f2 look fr1
    by (auto simp: opened_def)
  let ?D3 = "disk_of d3"
  let ?file3 = "?file\<lparr>start_cluster := hd cs, position := of_nat ?n, file_size := of_nat ?n,
      current_cluster := last cs, modified := True\<rparr>"
  let ?s3 = "?s2\<lparr>fat16_files := (fat16_files ?s2)[i := ?file3], dev := d3\<rparr>"
  have f3: "?file3 = fat16_files ?s3 ! i" using i16 assms(11) by simp
  have root3: "?D3 (root_lba f x) = ?D1 (root_lba f x)" if "x < root_size f" for x
    using w(7) unat_root_lba(3,4) [OF assms(5) that] by (simp add: others_same_def)
  note h3 = has_file_cong [OF h1 root3]
  obtain d4 where d4: "fat16_close hw (int i + FAT16_FD_BASE) ?s3 =
      Some (0, ?s3\<lparr>fat16_files := (fat16_files ?s3)[i := fat16_file_zero], dev := d4\<rparr>)" "ok d4"
    "disk_of d4 = root_update f j (hd cs) (of_nat ?n) ?D3"
    using close_file [of ?s3 i ?file3 f j] w(3) i16 f3 assms(5) jr by (auto simp: opened_def)
  let ?D4 = "disk_of d4" and ?s4 = "?s3\<lparr>fat16_files := (fat16_files ?s3)[i := fat16_file_zero], dev := d4\<rparr>"
  have sec3: "\<And>lba. length (?D3 lba) = 512" by (rule sector_law [OF w(3)])
  note upd = root_update_lookup [where D = ?D3 and f = f and j = j and c = "hd cs" and sz = "of_nat ?n",
      OF sec3, folded d4(3)]
  have h4: "has_file f ?D4 name j" using h3(1) upd(1,4) by (simp add: has_file_def)
  have ch4: "chain f ?D4 cs" "\<And>x. x div cluster_bytes f < length cs \<Longrightarrow> fbyte f ?D4 cs x = fbyte f ?D3 cs x"
    unfolding d4(3) root_update_def using root_change_chain [OF assms(5) jr w(4)] by auto
  have "valid_cluster f (hd cs)" using w(1,4) by (simp add: chain_def)
  then have hd: "hd cs \<ge> FAT16_CLUSTER_MIN"
    by (simp add: valid_cluster_def FAT16_CLUSTER_MIN_def word_le_nat_alt)
  have i4: "free_slot ?s4 = Some i"
    using i i16 assms(11) by (auto simp: free_slot_def find_index_Some_iff FAT16_MAX_OPEN_FILES_def
        fat16_file_zero_def nth_list_update)
  obtain d5 where d5: "fat16_open hw fs (Some path) ?s4 = Some (int i + FAT16_FD_BASE,
      ?s4\<lparr>dev := d5, fat16_files := (fat16_files ?s4)[i := opened u f ?D4 j]\<rparr>)" "ok d5" "disk_of d5 = ?D4"
    using open_file [of ?s4 fs u f path name j i] d4(2) assms(2-6) h4 upd(2) hd i4
    by auto
  let ?s5 = "?s4\<lparr>dev := d5, fat16_files := (fat16_files ?s4)[i := opened u f ?D4 j]\<rparr>"
  have f5: "opened u f ?D4 j = fat16_files ?s5 ! i" using i16 assms(11) by simp
  have C: "0 < cluster_bytes f" by (rule cluster_bytes_pos [OF assms(5)])
  have "?n - 1 < ((?n - 1) div cluster_bytes f + 1) * cluster_bytes f"
    using C dividend_less_div_times [of "cluster_bytes f" "?n - 1"] by (simp add: add.commute)
  then have cap: "?n \<le> length cs * cluster_bytes f" unfolding w(5) using assms(13) by linarith
  obtain file6 d6 where r: "fat16_read hw (int i + FAT16_FD_BASE) (Some out) (of_nat ?n) ?s5 =
      Some (int ?n, Some (map (fbyte f ?D4 cs) [0..<?n]),
        ?s5\<lparr>fat16_files := (fat16_files ?s5)[i := file6], dev := d6\<rparr>)" "ok d6" "disk_of d6 = ?D4"
    using read_file [of ?s5 i "opened u f ?D4 j" f cs ?n out] d5(2,3) i16 f5 assms(3,4,5,13,14,15) ch4(1) cap upd(2,3)
    by (auto simp: opened_def)
  let ?s6 = "?s5\<lparr>fat16_files := (fat16_files ?s5)[i := file6], dev := d6\<rparr>"
  have "map (fbyte f ?D4 cs) [0..<?n] = buf"
  proof (rule nth_equalityI)
    fix x
    assume "x < length (map (fbyte f ?D4 cs) [0..<?n])"
    then have x: "x < ?n" by simp
    then have "x div cluster_bytes f < length cs" using cap C by (simp add: div_less_iff_less_mult)
    then show "map (fbyte f ?D4 cs) [0..<?n] ! x = buf ! x" using x ch4(2) w(6) by simp
  qed simp
  with r(1) have r': "fat16_read hw (int i + FAT16_FD_BASE) (Some out) (of_nat ?n) ?s5 = Some (int ?n, Some buf, ?s6)"
    by simp
  have "fat_entry f ?D4 c = fat_entry f ?D c \<and> (\<forall>x < cluster_bytes f. cbyte f ?D4 c x = cbyte f ?D c x)"
    if "valid_cluster f c" "c \<notin> free_clusters f ?D" for c
    unfolding d4(3) root_update_def
    using root_change_keeps [OF assms(5) jr that(1)] w(7) that k1 [OF that(1)] fr1 by (auto simp: others_same_def)
  then have keep: "\<forall>c. valid_cluster f c \<and> c \<notin> free_clusters f ?D \<longrightarrow>
      fat_entry f (disk_of (dev ?s6)) c = fat_entry f ?D c \<and>
      (\<forall>x < cluster_bytes f. cbyte f (disk_of (dev ?s6)) c x = cbyte f ?D c x)"
    using r(3) by simp
  have d2': "fat16_open hw fs (Some path) ?s1 = Some (int i + FAT16_FD_BASE, ?s2)" using d2(1) by simp
  have fd: "3 \<le> int i + FAT16_FD_BASE" by (simp add: FAT16_FD_BASE_def)
  have ok6: "ok (dev ?s6)" using r(2) by simp
  show ?thesis
    by (rule exI [of _ ?s1], rule exI [of _ "int i + FAT16_FD_BASE"], rule exI [of _ ?s2], rule exI [of _ ?s3],
        rule exI [of _ ?s4], rule exI [of _ ?s5], rule exI [of _ ?s6])
      (intro conjI d1(1) d2' fd w(2) d4(1) d5(1) r' ok6 keep)
qed

end

section \<open>A volume\<close>

text \<open>
  A volume of 16 sectors on the PIO disk: boot sector, two FATs of one sector, one sector of root
  directory and twelve clusters of one sector, all empty.
\<close>

definition demo_boot :: "u8 list" where
  "demo_boot = overwrite (overwrite (replicate 512 0) 0x0B
     [0, 2, 1, 1, 0, 2, 16, 0, 16, 0, 0xF8, 1, 0]) 510 [0x55, 0xAA]"

definition demo_disk :: pio where
  "demo_disk = \<lparr>r_low = 0, r_mid = 0, r_high = 0, r_head = 0, xfer = Idle,
     sectors = (\<lambda>lba. if lba = 0 then demo_boot else replicate 512 0)\<rparr>"

definition demo_bpb :: fat16_fs where
  "demo_bpb = fat16_fs_zero\<lparr>bytes_per_sector := 512, sectors_per_cluster := 1,
     reserved_sector_count := 1, num_fats := 2, root_entry_count := 16, total_sectors_16 := 16,
     sectors_per_fat := 1, boot_signature := 0xAA55, oem_name := replicate 9 0\<rparr>"

definition demo_fs :: fat16_fs where
  "demo_fs = demo_bpb\<lparr>total_sectors := 16, root_dir_sectors := 1, fat_start_lba := 1,
     root_dir_start_lba := 3, data_start_lba := 4, cluster_count := 12\<rparr>"

definition demo_fat :: "pio fat_state" where
  "demo_fat = \<lparr>fat16_files = replicate 16 fat16_file_zero, fs_store = (\<lambda>_. demo_fs),
     fat16_current_fs = 1, dev = demo_disk\<rparr>"

lemma demo_disk_ok [simp]: "pio_ok demo_disk"
  by (simp add: pio_ok_def demo_disk_def demo_boot_def)

lemma demo_sectors: "sectors demo_disk lba = (if lba = 0 then demo_boot else replicate 512 0)"
  by (simp add: demo_disk_def)

lemma demo_fs_simps [simp]:
  "bytes_per_sector demo_fs = 512" "sectors_per_cluster demo_fs = 1" "num_fats demo_fs = 2"
  "sectors_per_fat demo_fs = 1" "fat_start_lba demo_fs = 1" "root_dir_start_lba demo_fs = 3"
  "root_dir_sectors demo_fs = 1" "data_start_lba demo_fs = 4" "cluster_count demo_fs = 12"
  by (simp_all add: demo_fs_def demo_bpb_def fat16_fs_zero_def)

lemma demo_fs_ok [simp]: "fs_ok demo_fs"
  by (simp add: fs_ok_def)

lemma demo_parse: "parse_bpb 0 demo_boot = Some demo_bpb" "get_le16 demo_boot 510 = 0xAA55"
  by code_simp+

lemma demo_geometry: "geometry_ok demo_bpb"
  by (simp add: geometry_ok_def demo_bpb_def fat16_fs_zero_def bpb_corrupt_def bpb_total_def overhead_def)

lemma demo_free: "fs_ok demo_fs \<and> c \<in> free_clusters demo_fs (sectors demo_disk) \<longleftrightarrow> valid_cluster demo_fs c"
proof -
  have "fat_lba demo_fs 0 (fat_sec c) \<noteq> 0" if "valid_cluster demo_fs c"
    using unat_fat_lba(1) [OF demo_fs_ok, of 0 "fat_sec c"] fat_sec_less [OF demo_fs_ok that] by auto
  moreover have "fat_off c < 512" "Suc (fat_off c) < 512" using fat_off_less(1) [of c] by simp_all
  ultimately show ?thesis
    by (auto simp: free_clusters_def fat_entry_lba demo_sectors get_le16_def word_of_def)
qed

theorem fat16_mount_correct_witness:
  "\<exists>s'. fat16_mount pio_ports 2 0 demo_fat = Some (0, s') \<and> fs_ok (fs_store s' MOUNTED_FS) \<and>
     unat (data_start_lba (fs_store s' MOUNTED_FS)) = 4"
proof -
  have "\<exists>s'. fat16_mount pio_ports 2 0 demo_fat = Some (0, s') \<and> pio_ok (dev s') \<and>
    sectors (dev s') = sectors (dev demo_fat) \<and> fat16_files s' = fat16_files demo_fat \<and>
    fat16_current_fs s' = MOUNTED_FS \<and> fs_store s' 2 = fs_store s' MOUNTED_FS \<and>
    fs_ok (fs_store s' MOUNTED_FS) \<and>
    unat (fat_start_lba (fs_store s' MOUNTED_FS)) = unat (0 :: u32) + unat (reserved_sector_count demo_bpb) \<and>
    unat (data_start_lba (fs_store s' MOUNTED_FS)) = unat (0 :: u32) + overhead demo_bpb \<and>
    unat (data_start_lba (fs_store s' MOUNTED_FS)) + unat (cluster_count (fs_store s' MOUNTED_FS)) *
      unat (sectors_per_cluster (fs_store s' MOUNTED_FS)) \<le> unat (0 :: u32) + unat (bpb_total demo_bpb)"
    by (rule fat16_mount_correct [where disk_of = sectors and ok = pio_ok])
      (simp_all add: pio_disk.block_device_axioms demo_fat_def demo_parse demo_geometry demo_sectors)
  moreover have "overhead demo_bpb = 4" by (simp add: overhead_def demo_bpb_def fat16_fs_zero_def)
  ultimately show ?thesis by auto
qed

section \<open>Guarantees for files\<close>

text \<open>
  C4: the contents of a file survive. On a mounted volume with a free directory entry, a free
  descriptor and enough free clusters, creating a file, opening it, writing any non-empty buffer
  below 2 GiB, closing it, opening it again and reading it returns exactly the bytes written, each
  call with the documented result, whatever the size of the buffer relative to sectors and
  clusters; the allocation entries and the bytes of all clusters in use before are unchanged.
\<close>

theorem fat16_file_roundtrip:
  assumes "block_device hw disk_of ok" "ok (dev s)" "use_fs fs s = u" "u \<noteq> 0" "fs_store s u = f" "fs_ok f"
    and "fat16_normalize_short_name (Some path) = Some name" "name ! 0 \<noteq> 0" "name ! 0 \<noteq> 0xE5"
    and "root_result f (disk_of (dev s)) (root_lookup f (disk_of (dev s)) name) = RootAbsent"
    and "root_free f (disk_of (dev s)) \<noteq> None" "length (fat16_files s) = 16" "free_slot s \<noteq> None"
    and "0 < length buf" "length buf < 2147483648" "length out = length buf"
    and "(length buf - 1) div cluster_bytes f + 1 \<le> card (free_clusters f (disk_of (dev s)))"
  shows "\<exists>s1 fd s2 s3 s4 s5 s6.
    fat16_create hw fs (Some path) s = Some (0, s1) \<and>
    fat16_open hw fs (Some path) s1 = Some (fd, s2) \<and> 3 \<le> fd \<and>
    fat16_write hw fd (Some buf) (of_nat (length buf)) s2 = Some (int (length buf), s3) \<and>
    fat16_close hw fd s3 = Some (0, s4) \<and>
    fat16_open hw fs (Some path) s4 = Some (fd, s5) \<and>
    fat16_read hw fd (Some out) (of_nat (length buf)) s5 = Some (int (length buf), Some buf, s6) \<and> ok (dev s6) \<and>
    (\<forall>c. valid_cluster f c \<and> c \<notin> free_clusters f (disk_of (dev s)) \<longrightarrow>
       fat_entry f (disk_of (dev s6)) c = fat_entry f (disk_of (dev s)) c \<and>
       (\<forall>i < cluster_bytes f. cbyte f (disk_of (dev s6)) c i = cbyte f (disk_of (dev s)) c i))"
  by (rule block_device.file_life [OF assms])

lemma demo_root: "root_lookup demo_fs (sectors demo_disk) name = Some 0" "root_free demo_fs (sectors demo_disk) = Some 0"
  "root_result demo_fs (sectors demo_disk) (Some 0) = RootAbsent"
proof -
  have "root_lba demo_fs 0 = 3" by (simp add: root_lba_def)
  then have fb: "first_byte (root_sec demo_fs (sectors demo_disk) 0) 0 = 0" by (simp add: demo_sectors first_byte_def)
  have size: "root_size demo_fs = 16" by (simp add: root_size_def)
  show "root_lookup demo_fs (sectors demo_disk) name = Some 0" "root_free demo_fs (sectors demo_disk) = Some 0"
    "root_result demo_fs (sectors demo_disk) (Some 0) = RootAbsent"
    using fb size by (auto simp: root_lookup_def root_free_def root_result_def find_index_Some_iff stops_def)
qed

theorem fat16_file_roundtrip_witness:
  "\<exists>s1 fd s2 s3 s4 s5 s6.
    fat16_create pio_ports 0 (Some [97]) demo_fat = Some (0, s1) \<and>
    fat16_open pio_ports 0 (Some [97]) s1 = Some (fd, s2) \<and>
    fat16_write pio_ports fd (Some [1, 2, 3]) 3 s2 = Some (3, s3) \<and>
    fat16_close pio_ports fd s3 = Some (0, s4) \<and>
    fat16_open pio_ports 0 (Some [97]) s4 = Some (fd, s5) \<and>
    fat16_read pio_ports fd (Some [0, 0, 0]) 3 s5 = Some (3, Some [1, 2, 3], s6)"
proof -
  have slot: "free_slot demo_fat \<noteq> None"
    by (simp add: free_slot_def demo_fat_def FAT16_MAX_OPEN_FILES_def find_index_None_iff fat16_file_zero_def
        exI [of _ 0])
  have "(2 :: u16) \<in> free_clusters demo_fs (sectors demo_disk)"
    using demo_free [of 2] by (simp add: valid_cluster_def)
  then have card: "0 < card (free_clusters demo_fs (sectors demo_disk))" by (auto simp: card_gt_0_iff)
  have name: "fat16_normalize_short_name (Some [97]) = Some (65 # replicate 10 32)" by code_simp
  show ?thesis
    using fat16_file_roundtrip [where hw = pio_ports and disk_of = sectors and ok = pio_ok and s = demo_fat
        and fs = 0 and u = 1 and f = demo_fs and path = "[97]" and name = "65 # replicate 10 32"
        and buf = "[1, 2, 3]" and out = "[0, 0, 0]"]
      pio_disk.block_device_axioms slot card name demo_root
    by (auto simp: use_fs_def demo_fat_def cluster_bytes_def)
qed



section \<open>Where the driver loses data\<close>


text \<open>A file that fills cluster 2, open as descriptor 3 with its position at the end.\<close>

definition demo_full :: "pio fat_state" where
  "demo_full = demo_fat\<lparr>dev := demo_disk\<lparr>sectors := set_fat demo_fs 2 FAT16_CLUSTER_EOC (sectors demo_disk)\<rparr>,
     fat16_files := (replicate 16 fat16_file_zero)[0 := \<lparr>file_fs = 1, start_cluster = 2, current_cluster = 2,
       file_size = 512, position = 512, dir_entry_lba = 3, dir_entry_offset = 0, modified = True, active = True\<rparr>]\<rparr>"


text \<open>
  Deleting a file leaks its clusters. \<open>fat16_delete\<close> marks the directory entry and nothing else:
  every entry of the allocation table and every data byte stays, so the chain of the deleted file
  remains allocated and none of its clusters becomes free.
\<close>

theorem fat16_delete_leaks:
  assumes "block_device hw disk_of ok" "ok (dev s)" "use_fs fs s = u" "u \<noteq> 0" "fs_store s u = f" "fs_ok f"
    and "fat16_normalize_short_name (Some path) = Some name" "has_file f (disk_of (dev s)) name j"
    and "chain f (disk_of (dev s)) cs" "root_cluster f (disk_of (dev s)) j = hd cs"
  shows "\<exists>s'. fat16_delete hw fs (Some path) s = Some (0, s') \<and> ok (dev s') \<and>
    first_byte (root_sec f (disk_of (dev s')) j) (j mod 16) = 0xE5 \<and>
    chain f (disk_of (dev s')) cs \<and> free_clusters f (disk_of (dev s')) = free_clusters f (disk_of (dev s)) \<and>
    set cs \<inter> free_clusters f (disk_of (dev s')) = {}"
proof -
  let ?D = "disk_of (dev s)" and ?k = "j mod 16"
  let ?sec = "root_sec f ?D j"
  have jr: "j < root_size f" by (rule has_file_index [OF assms(8)])
  obtain d1 where d1: "fat16_find_root_entry hw f name (dev s) =
      Some (root_result f ?D (root_lookup f ?D name), d1)" "ok d1" "disk_of d1 = ?D"
    using block_device.find_root_entry [OF assms(1,6) normalized_length [OF assms(7)] assms(2)] by blast
  have r: "root_result f ?D (root_lookup f ?D name) =
      RootFound (root_cluster f ?D j) (root_length f ?D j) (root_lba f j) (root_offset j)"
    using assms(8) by (simp add: root_result_def has_file_def)
  have l: "root_lba f j < 0x10000000" by (rule unat_root_lba(2) [OF assms(6) jr])
  have sec: "length ?sec = 512" by (rule block_device.sector_law [OF assms(1,2)])
  obtain d2 where d2: "block_read hw (root_lba f j) 1 d1 = (Some ?sec, d2)" "ok d2" "disk_of d2 = ?D"
    using block_device.read_law [OF assms(1) d1(2) l] d1(3) by auto
  have k: "32 * ?k < 512" using mod_less_divisor [of 16 j] by linarith
  then have p8: "put8 ?sec (root_offset j) 0xE5 = Some (?sec[32 * ?k := 0xE5])"
    using put8_nat [of "32 * ?k" ?sec] sec by (simp add: root_offset_def)
  have "length (?sec[32 * ?k := 0xE5]) = 512" using sec by simp
  from block_device.write_law [OF assms(1) d2(2) l this] obtain d3 where d3:
    "block_write hw (root_lba f j) (?sec[32 * ?k := 0xE5]) 1 d2 = (0, d3)" "ok d3"
    "disk_of d3 = ?D(root_lba f j := ?sec[32 * ?k := 0xE5])"
    using d2(3) by auto
  have del: "fat16_delete hw fs (Some path) s = Some (0, s\<lparr>dev := d3\<rparr>)"
    using d1 d2 d3 r p8 assms(3,4,5,7)
    by (simp add: fat16_delete_def fat16_delete_root_entry_def Let_def)
  have ch: "chain f (disk_of d3) cs" unfolding d3(3) by (rule root_change_chain(1) [OF assms(6) jr assms(9)])
  have fr: "free_clusters f (disk_of d3) = free_clusters f ?D"
    unfolding d3(3) using root_change_keeps(1) [OF assms(6) jr] by (auto simp: free_clusters_def)
  have "first_byte (root_sec f (disk_of d3) j) ?k = 0xE5"
    using sec k by (simp add: d3(3) first_byte_def)
  moreover have "set cs \<inter> free_clusters f (disk_of d3) = {}" using free_not_in_chain [OF ch] by blast
  ultimately show ?thesis using del d3(2) ch fr by (intro exI [of _ "s\<lparr>dev := d3\<rparr>"]) simp
qed

text \<open>The volume with a file \<open>A\<close> of 512 bytes in cluster 2.\<close>

definition demo_file_sectors :: disk where
  "demo_file_sectors = set_fat demo_fs 2 FAT16_CLUSTER_EOC
     (root_update demo_fs 0 2 512 (root_create demo_fs 0 (65 # replicate 10 32) (sectors demo_disk)))"

lemma demo_file:
  "length (demo_file_sectors lba) = 512"
  "has_file demo_fs demo_file_sectors (65 # replicate 10 32) 0"
  "chain demo_fs demo_file_sectors [2]" "root_cluster demo_fs demo_file_sectors 0 = 2"
proof -
  let ?name = "65 # replicate 10 32 :: u8 list"
  let ?D1 = "root_create demo_fs 0 ?name (sectors demo_disk)"
  let ?D2 = "root_update demo_fs 0 2 512 ?D1"
  have v2: "valid_cluster demo_fs 2" by (simp add: valid_cluster_def)
  have sec: "length (sectors demo_disk lba) = 512" for lba using demo_disk_ok by (simp add: pio_ok_def)
  then have sec1: "length (?D1 lba) = 512" for lba by (simp add: root_create_def new_entry_def)
  then have sec2: "length (?D2 lba) = 512" for lba by (simp add: root_update_def)
  then show "length (demo_file_sectors lba) = 512" unfolding demo_file_sectors_def by (rule length_set_fat)
  have h1: "root_lookup demo_fs ?D1 ?name = Some 0" "first_byte (root_sec demo_fs ?D1 0) (0 mod 16) \<noteq> 0"
    using root_create_lookup [OF demo_fs_ok, of "sectors demo_disk" ?name 0] sec demo_root by simp_all
  have h2: "has_file demo_fs ?D2 ?name 0" "root_cluster demo_fs ?D2 0 = 2"
    using h1 root_update_lookup [of ?D1 demo_fs 0 2 512] sec1 by (simp_all add: has_file_def)
  have root: "demo_file_sectors (root_lba demo_fs i) = ?D2 (root_lba demo_fs i)" if "i < root_size demo_fs" for i
    unfolding demo_file_sectors_def
    by (rule set_fat_outside [OF demo_fs_ok v2 unat_root_lba(3) [OF demo_fs_ok that]])
  show "has_file demo_fs demo_file_sectors ?name 0" "root_cluster demo_fs demo_file_sectors 0 = 2"
    using has_file_cong [OF h2(1), of demo_file_sectors] root h2(2) by simp_all
  show "chain demo_fs demo_file_sectors [2]"
    using set_fat_entry [OF demo_fs_ok v2 v2, of ?D2 FAT16_CLUSTER_EOC] sec2 v2
    by (simp add: chain_def demo_file_sectors_def)
qed

theorem fat16_delete_leaks_witness:
  "\<exists>s'. fat16_delete pio_ports 0 (Some [97]) (demo_fat\<lparr>dev := demo_disk\<lparr>sectors := demo_file_sectors\<rparr>\<rparr>) = Some (0, s') \<and>
     (2 :: u16) \<notin> free_clusters demo_fs (sectors (dev s'))"
proof -
  let ?s = "demo_fat\<lparr>dev := demo_disk\<lparr>sectors := demo_file_sectors\<rparr>\<rparr>"
  have ok: "pio_ok (dev ?s)" using demo_file(1) demo_disk_ok by (simp add: pio_ok_def)
  have name: "fat16_normalize_short_name (Some [97]) = Some (65 # replicate 10 32)" by code_simp
  show ?thesis
    using fat16_delete_leaks [OF pio_disk.block_device_axioms ok, of 0 1 demo_fs "[97]" _ 0 "[2]", OF _ _ _ _ name]
      demo_file(2-4) by (auto simp: use_fs_def demo_fat_def)
qed

end
