(* ===== verification/Elf.thy ===== *)
theory Elf
  imports AddressSpace
begin

text \<open>
  The ELF loader, kernel/src/kernel/elf_loader.c. The image is the caller's buffer, a list of
  bytes next to the \<open>elf_size\<close> that the caller passes; offsets are added modulo \<open>2 ^ 32\<close> as the
  pointers are, and an access outside the buffer is undefined (\<open>None\<close>). The loaded pages are
  written through the virtual memory of the kernel.
\<close>

section \<open>Reading the image\<close>

definition byte_at :: "u8 list \<Rightarrow> u32 \<Rightarrow> u8 option" where
  "byte_at b off = (if unat off < length b then Some (b ! unat off) else None)"

definition half_at :: "u8 list \<Rightarrow> u32 \<Rightarrow> u16 option" where
  "half_at b off = do {
     b0 \<leftarrow> byte_at b off;
     b1 \<leftarrow> byte_at b (off + 1);
     Some (ucast b0 OR push_bit 8 (ucast b1))
   }"

definition word_at :: "u8 list \<Rightarrow> u32 \<Rightarrow> u32 option" where
  "word_at b off = do {
     b0 \<leftarrow> byte_at b off;
     b1 \<leftarrow> byte_at b (off + 1);
     b2 \<leftarrow> byte_at b (off + 2);
     b3 \<leftarrow> byte_at b (off + 3);
     Some (bytes_to_u32 b0 b1 b2 b3)
   }"

section \<open>The structures of the file format\<close>

record Elf32_Ehdr =
  e_ident :: "u8 list"
  e_type :: u16
  e_machine :: u16
  e_version :: u32
  e_entry :: u32
  e_phoff :: u32
  e_shoff :: u32
  e_flags :: u32
  e_ehsize :: u16
  e_phentsize :: u16
  e_phnum :: u16
  e_shentsize :: u16
  e_shnum :: u16
  e_shstrndx :: u16

record Elf32_Phdr =
  p_type :: u32
  p_offset :: u32
  p_vaddr :: u32
  p_paddr :: u32
  p_filesz :: u32
  p_memsz :: u32
  p_flags :: u32
  p_align :: u32

record Elf32_Shdr =
  sh_name :: u32
  sh_type :: u32
  sh_flags :: u32
  sh_addr :: u32
  sh_offset :: u32
  sh_size :: u32
  sh_link :: u32
  sh_info :: u32
  sh_addralign :: u32
  sh_entsize :: u32

record Elf32_Sym =
  st_name :: u32
  st_value :: u32
  st_size :: u32
  st_info :: u8
  st_other :: u8
  st_shndx :: u16

record Elf32_Rel =
  r_offset :: u32
  r_info :: u32

definition read_ehdr :: "u8 list \<Rightarrow> Elf32_Ehdr option" where
  "read_ehdr b = do {
     ty \<leftarrow> half_at b 16;
     mach \<leftarrow> half_at b 18;
     ver \<leftarrow> word_at b 20;
     ent \<leftarrow> word_at b 24;
     phoff \<leftarrow> word_at b 28;
     shoff \<leftarrow> word_at b 32;
     fl \<leftarrow> word_at b 36;
     ehsize \<leftarrow> half_at b 40;
     phentsize \<leftarrow> half_at b 42;
     phnum \<leftarrow> half_at b 44;
     shentsize \<leftarrow> half_at b 46;
     shnum \<leftarrow> half_at b 48;
     shstrndx \<leftarrow> half_at b 50;
     Some \<lparr>e_ident = take 16 b, e_type = ty, e_machine = mach, e_version = ver, e_entry = ent,
       e_phoff = phoff, e_shoff = shoff, e_flags = fl, e_ehsize = ehsize, e_phentsize = phentsize,
       e_phnum = phnum, e_shentsize = shentsize, e_shnum = shnum, e_shstrndx = shstrndx\<rparr>
   }"

definition read_phdr :: "u8 list \<Rightarrow> u32 \<Rightarrow> Elf32_Phdr option" where
  "read_phdr b off = do {
     ty \<leftarrow> word_at b off;
     poff \<leftarrow> word_at b (off + 4);
     va \<leftarrow> word_at b (off + 8);
     pa \<leftarrow> word_at b (off + 12);
     fsz \<leftarrow> word_at b (off + 16);
     msz \<leftarrow> word_at b (off + 20);
     fl \<leftarrow> word_at b (off + 24);
     al \<leftarrow> word_at b (off + 28);
     Some \<lparr>p_type = ty, p_offset = poff, p_vaddr = va, p_paddr = pa, p_filesz = fsz,
       p_memsz = msz, p_flags = fl, p_align = al\<rparr>
   }"

definition read_shdr :: "u8 list \<Rightarrow> u32 \<Rightarrow> Elf32_Shdr option" where
  "read_shdr b off = do {
     nm \<leftarrow> word_at b off;
     ty \<leftarrow> word_at b (off + 4);
     fl \<leftarrow> word_at b (off + 8);
     ad \<leftarrow> word_at b (off + 12);
     so \<leftarrow> word_at b (off + 16);
     sz \<leftarrow> word_at b (off + 20);
     li \<leftarrow> word_at b (off + 24);
     inf \<leftarrow> word_at b (off + 28);
     al \<leftarrow> word_at b (off + 32);
     es \<leftarrow> word_at b (off + 36);
     Some \<lparr>sh_name = nm, sh_type = ty, sh_flags = fl, sh_addr = ad, sh_offset = so, sh_size = sz,
       sh_link = li, sh_info = inf, sh_addralign = al, sh_entsize = es\<rparr>
   }"

definition read_sym :: "u8 list \<Rightarrow> u32 \<Rightarrow> Elf32_Sym option" where
  "read_sym b off = do {
     nm \<leftarrow> word_at b off;
     v \<leftarrow> word_at b (off + 4);
     sz \<leftarrow> word_at b (off + 8);
     inf \<leftarrow> byte_at b (off + 12);
     oth \<leftarrow> byte_at b (off + 13);
     shx \<leftarrow> half_at b (off + 14);
     Some \<lparr>st_name = nm, st_value = v, st_size = sz, st_info = inf, st_other = oth, st_shndx = shx\<rparr>
   }"

definition read_rel :: "u8 list \<Rightarrow> u32 \<Rightarrow> Elf32_Rel option" where
  "read_rel b off = do {
     ro \<leftarrow> word_at b off;
     inf \<leftarrow> word_at b (off + 4);
     Some \<lparr>r_offset = ro, r_info = inf\<rparr>
   }"

definition elf32_r_sym :: "u32 \<Rightarrow> u32" where
  "elf32_r_sym info = drop_bit 8 info"

definition elf32_r_type :: "u32 \<Rightarrow> u32" where
  "elf32_r_type info = info AND 0xFF"

section \<open>Headers\<close>

definition validate_elf_header :: "Elf32_Ehdr \<Rightarrow> u32 \<Rightarrow> bool" where
  "validate_elf_header ehdr elf_size = (
     if elf_size < 52 then False
     else if take 4 (e_ident ehdr) \<noteq> [0x7F, 0x45, 0x4C, 0x46] then False
     else if e_ident ehdr ! 4 \<noteq> 1 \<or> e_ident ehdr ! 5 \<noteq> 1 \<or> e_version ehdr \<noteq> 1 \<or> e_type ehdr \<noteq> 2
       \<or> e_machine ehdr \<noteq> 3 then False
     else if e_phoff ehdr = 0 \<or> e_phnum ehdr = 0 \<or> e_phentsize ehdr \<noteq> 32 then False
     else if e_phoff ehdr + ucast (e_phnum ehdr) * 32 > elf_size then False
     else if e_shoff ehdr = 0 \<or> e_shnum ehdr = 0 \<or> e_shentsize ehdr \<noteq> 40 then False
     else if e_shoff ehdr + ucast (e_shnum ehdr) * 40 > elf_size then False
     else if e_shstrndx ehdr \<ge> e_shnum ehdr then False
     else True)"

text \<open>NULL is \<open>Some None\<close>; every header that is found is read by the callers.\<close>

definition program_header :: "Elf32_Ehdr \<Rightarrow> u8 list \<Rightarrow> u32 \<Rightarrow> Elf32_Phdr option option" where
  "program_header ehdr elf_bytes index =
     (if index \<ge> ucast (e_phnum ehdr) then Some None
      else map_option Some (read_phdr elf_bytes (e_phoff ehdr + index * 32)))"

definition section_header :: "Elf32_Ehdr \<Rightarrow> u8 list \<Rightarrow> u32 \<Rightarrow> Elf32_Shdr option option" where
  "section_header ehdr elf_bytes index =
     (if index \<ge> ucast (e_shnum ehdr) then Some None
      else map_option Some (read_shdr elf_bytes (e_shoff ehdr + index * 40)))"

text \<open>A name is the offset of its first character in the image.\<close>

definition section_name :: "Elf32_Shdr \<Rightarrow> u32 \<Rightarrow> u32 \<Rightarrow> u32 option" where
  "section_name sh shstrtab shstrtab_size =
     (if sh_name sh \<ge> shstrtab_size then None else Some (shstrtab + sh_name sh))"

definition page_align_down :: "u32 \<Rightarrow> u32" where
  "page_align_down addr = addr AND NOT (PAGE_SIZE - 1)"

definition page_align_up :: "u32 \<Rightarrow> u32" where
  "page_align_up addr = (addr + PAGE_SIZE - 1) AND NOT (PAGE_SIZE - 1)"

text \<open>The second string is a literal of the kernel, with its terminator.\<close>

fun str_equal :: "u8 list \<Rightarrow> u32 \<Rightarrow> u8 list \<Rightarrow> bool option" where
  "str_equal elf_bytes a [] = None"
| "str_equal elf_bytes a (c # cs) = do {
     x \<leftarrow> byte_at elf_bytes a;
     if x \<noteq> 0 \<and> x = c then str_equal elf_bytes (a + 1) cs else Some (x = c)
   }"

definition strtab_literal :: "u8 list" where
  "strtab_literal = [0x2E, 0x73, 0x74, 0x72, 0x74, 0x61, 0x62, 0]"

section \<open>Loaded pages\<close>

record elf_page_mapping =
  map_vaddr :: u32
  map_paddr :: u32

definition get_frame_for_vaddr :: "elf_page_mapping list \<Rightarrow> u32 \<Rightarrow> u32" where
  "get_frame_for_vaddr pages vaddr =
     (case find (\<lambda>p. map_vaddr p = page_align_down vaddr) pages of
        None \<Rightarrow> 0 | Some p \<Rightarrow> map_paddr p)"

definition resolve_symbol_address :: "Elf32_Sym \<Rightarrow> Elf32_Ehdr \<Rightarrow> u8 list \<Rightarrow> u32 option" where
  "resolve_symbol_address symb ehdr elf_bytes = (
     if st_shndx symb = 0 then Some 0
     else if st_shndx symb = 0xFFF1 then Some (st_value symb)
     else if st_shndx symb \<ge> e_shnum ehdr then Some 0
     else do {
       target \<leftarrow> section_header ehdr elf_bytes (ucast (st_shndx symb));
       case target of None \<Rightarrow> Some 0 | Some target_sh \<Rightarrow> Some (sh_addr target_sh + st_value symb)
     })"

definition ELF_TEMP_PAGE :: u32 where [layout]:
  "ELF_TEMP_PAGE = 0xC0800000"

section \<open>Relocation\<close>

text \<open>One entry of a relocation section; the result is the return value of an early exit, if any.\<close>

definition relocate ::
  "Elf32_Ehdr \<Rightarrow> u8 list \<Rightarrow> Elf32_Shdr \<Rightarrow> Elf32_Shdr \<Rightarrow> elf_page_mapping list \<Rightarrow> Elf32_Rel
    \<Rightarrow> 'a pmm_state_scheme \<Rightarrow> (bool \<times> 'a pmm_state_scheme) option" where
  "relocate ehdr elf_bytes symtab_sh target_sh pages rel s = (
     let sym_index = elf32_r_sym (r_info rel);
         rel_type = elf32_r_type (r_info rel);
         sym_count = sh_size symtab_sh div 16 in
     if sym_index \<ge> sym_count then Some (False, s)
     else do {
       symb \<leftarrow> read_sym elf_bytes (sh_offset symtab_sh + sym_index * 16);
       sym_addr \<leftarrow> resolve_symbol_address symb ehdr elf_bytes;
       if sym_addr = 0 then Some (False, s)
       else
         let target_va = sh_addr target_sh + r_offset rel;
             frame_paddr = get_frame_for_vaddr pages target_va in
         if frame_paddr = 0 then Some (False, s)
         else do {
           s1 \<leftarrow> vmm_map_kernel_page ELF_TEMP_PAGE frame_paddr s;
           let page_offset = target_va AND (PAGE_SIZE - 1);
           addend \<leftarrow> vload32 (ELF_TEMP_PAGE + page_offset) s1;
           if rel_type = 1 \<or> rel_type = 2
           then do {
             s2 \<leftarrow> vstore32 (ELF_TEMP_PAGE + page_offset)
               (if rel_type = 1 then sym_addr + addend else sym_addr + addend - target_va) s1;
             s3 \<leftarrow> vmm_unmap_page ELF_TEMP_PAGE s2;
             Some (True, s3)
           }
           else do {
             s3 \<leftarrow> vmm_unmap_page ELF_TEMP_PAGE s1;
             Some (True, s3)
           }
         }
     })"

primrec relocate_loop ::
  "Elf32_Ehdr \<Rightarrow> u8 list \<Rightarrow> Elf32_Shdr \<Rightarrow> Elf32_Shdr \<Rightarrow> Elf32_Shdr \<Rightarrow> elf_page_mapping list \<Rightarrow> nat \<Rightarrow> u32
    \<Rightarrow> 'a pmm_state_scheme \<Rightarrow> (bool \<times> 'a pmm_state_scheme) option" where
  "relocate_loop ehdr elf_bytes symtab_sh rel_sh target_sh pages 0 j s = Some (True, s)"
| "relocate_loop ehdr elf_bytes symtab_sh rel_sh target_sh pages (Suc n) j s = do {
     rel \<leftarrow> read_rel elf_bytes (sh_offset rel_sh + j * 8);
     (ok, s1) \<leftarrow> relocate ehdr elf_bytes symtab_sh target_sh pages rel s;
     if ok then relocate_loop ehdr elf_bytes symtab_sh rel_sh target_sh pages n (j + 1) s1
     else Some (False, s1)
   }"

primrec relocate_sections ::
  "Elf32_Ehdr \<Rightarrow> u8 list \<Rightarrow> u32 \<Rightarrow> Elf32_Shdr \<Rightarrow> elf_page_mapping list \<Rightarrow> nat \<Rightarrow> u32
    \<Rightarrow> 'a pmm_state_scheme \<Rightarrow> (int \<times> 'a pmm_state_scheme) option" where
  "relocate_sections ehdr elf_bytes elf_size symtab_sh pages 0 i s = Some (0, s)"
| "relocate_sections ehdr elf_bytes elf_size symtab_sh pages (Suc n) i s = do {
     sh \<leftarrow> section_header ehdr elf_bytes i;
     case sh of
       None \<Rightarrow> relocate_sections ehdr elf_bytes elf_size symtab_sh pages n (i + 1) s
     | Some rel_sh \<Rightarrow>
         if sh_type rel_sh \<noteq> 9
         then relocate_sections ehdr elf_bytes elf_size symtab_sh pages n (i + 1) s
         else if sh_offset rel_sh + sh_size rel_sh > elf_size then Some (- 1, s)
         else do {
           target \<leftarrow> section_header ehdr elf_bytes (sh_info rel_sh);
           case target of
             None \<Rightarrow> relocate_sections ehdr elf_bytes elf_size symtab_sh pages n (i + 1) s
           | Some target_sh \<Rightarrow>
               if sh_flags target_sh AND 2 = 0
               then relocate_sections ehdr elf_bytes elf_size symtab_sh pages n (i + 1) s
               else do {
                 (ok, s1) \<leftarrow> relocate_loop ehdr elf_bytes symtab_sh rel_sh target_sh pages
                   (unat (sh_size rel_sh div 8)) 0 s;
                 if ok then relocate_sections ehdr elf_bytes elf_size symtab_sh pages n (i + 1) s1
                 else Some (- 1, s1)
               }
         }
   }"

definition process_relocations ::
  "Elf32_Ehdr \<Rightarrow> u8 list \<Rightarrow> u32 \<Rightarrow> Elf32_Shdr option \<Rightarrow> Elf32_Shdr option \<Rightarrow> elf_page_mapping list
    \<Rightarrow> 'a pmm_state_scheme \<Rightarrow> (int \<times> 'a pmm_state_scheme) option" where
  "process_relocations ehdr elf_bytes elf_size symtab_sh strtab_sh pages s =
     (case (symtab_sh, strtab_sh) of
        (Some symtab, Some strtab) \<Rightarrow>
          relocate_sections ehdr elf_bytes elf_size symtab pages (unat (e_shnum ehdr)) 0 s
      | _ \<Rightarrow> Some (0, s))"

section \<open>Loading the segments\<close>

text \<open>The search for the symbol table and \<open>.strtab\<close>.\<close>

primrec find_tables ::
  "Elf32_Ehdr \<Rightarrow> u8 list \<Rightarrow> u32 \<Rightarrow> u32 \<Rightarrow> nat \<Rightarrow> u32 \<Rightarrow> Elf32_Shdr option \<Rightarrow> Elf32_Shdr option
    \<Rightarrow> (Elf32_Shdr option \<times> Elf32_Shdr option) option" where
  "find_tables ehdr elf_bytes shstrtab shstrtab_size 0 i symtab_sh strtab_sh = Some (symtab_sh, strtab_sh)"
| "find_tables ehdr elf_bytes shstrtab shstrtab_size (Suc n) i symtab_sh strtab_sh = do {
     h \<leftarrow> section_header ehdr elf_bytes i;
     case h of
       None \<Rightarrow> find_tables ehdr elf_bytes shstrtab shstrtab_size n (i + 1) symtab_sh strtab_sh
     | Some sh \<Rightarrow>
         (case section_name sh shstrtab shstrtab_size of
            None \<Rightarrow> find_tables ehdr elf_bytes shstrtab shstrtab_size n (i + 1) symtab_sh strtab_sh
          | Some name \<Rightarrow>
              if sh_type sh = 2
              then find_tables ehdr elf_bytes shstrtab shstrtab_size n (i + 1) (Some sh) strtab_sh
              else if sh_type sh = 3
              then do {
                eq \<leftarrow> str_equal elf_bytes name strtab_literal;
                find_tables ehdr elf_bytes shstrtab shstrtab_size n (i + 1) symtab_sh
                  (if eq then Some sh else strtab_sh)
              }
              else find_tables ehdr elf_bytes shstrtab shstrtab_size n (i + 1) symtab_sh strtab_sh)
   }"

primrec copy_in :: "u8 list \<Rightarrow> u32 \<Rightarrow> u32 \<Rightarrow> nat \<Rightarrow> 'a machine_scheme \<Rightarrow> 'a machine_scheme option" where
  "copy_in src_data off dest 0 s = Some s"
| "copy_in src_data off dest (Suc n) s = do {
     b \<leftarrow> byte_at src_data off;
     s1 \<leftarrow> vstore8 dest b s;
     copy_in src_data (off + 1) (dest + 1) n s1
   }"

text \<open>
  The part of a page that comes from the file: offset in the page, offset in the segment and
  length, as the loop computes them for the page at \<open>vaddr\<close>.
\<close>

definition file_part :: "Elf32_Phdr \<Rightarrow> u32 \<Rightarrow> (u32 \<times> u32 \<times> u32) option" where
  "file_part ph vaddr = (
     let segment_start = p_vaddr ph;
         offset_in_segment = (if vaddr < segment_start then segment_start - vaddr else 0) in
     if offset_in_segment < p_filesz ph
     then
       let copy_start = vaddr + offset_in_segment - segment_start;
           copy_len = p_filesz ph - copy_start in
       Some (offset_in_segment, copy_start,
         if copy_len > PAGE_SIZE - offset_in_segment then PAGE_SIZE - offset_in_segment else copy_len)
     else None)"

definition fill_page ::
  "u8 list \<Rightarrow> Elf32_Phdr \<Rightarrow> u32 \<Rightarrow> 'a machine_scheme \<Rightarrow> 'a machine_scheme option" where
  "fill_page elf_bytes ph vaddr s = do {
     s1 \<leftarrow> memset ELF_TEMP_PAGE 0 (unat PAGE_SIZE) s;
     case file_part ph vaddr of
       None \<Rightarrow> Some s1
     | Some (off, copy_start, copy_len) \<Rightarrow>
         copy_in elf_bytes (p_offset ph + copy_start) (ELF_TEMP_PAGE + off) (unat copy_len) s1
   }"

definition load_page ::
  "u8 list \<Rightarrow> u32 \<Rightarrow> Elf32_Phdr \<Rightarrow> u32 \<Rightarrow> 'a pmm_state_scheme \<Rightarrow> (u32 \<times> 'a pmm_state_scheme) option" where
  "load_page elf_bytes user_pdt ph vaddr s = (
     let page_flags = (if p_flags ph AND 2 \<noteq> 0 then PAGE_PRESENT OR PAGE_USER OR PAGE_WRITE
           else PAGE_PRESENT OR PAGE_USER) in do {
       (frame, s1) \<leftarrow> pmm_alloc_frame s;
       if frame = 0 then Some (0, s1)
       else do {
         s2 \<leftarrow> vmm_map_page_for_pdt user_pdt vaddr frame page_flags s1;
         s3 \<leftarrow> vmm_map_kernel_page ELF_TEMP_PAGE frame s2;
         s4 \<leftarrow> fill_page elf_bytes ph vaddr s3;
         s5 \<leftarrow> vmm_unmap_page ELF_TEMP_PAGE s4;
         Some (frame, s5)
       }
     })"

definition MAX_USER_CODE_PAGES :: nat where
  "MAX_USER_CODE_PAGES = 16"

text \<open>
  The pages of one segment. Every turn adds a page and there are at most 16 of them, so the
  loop ends. The result is false when the loader returns -1 from inside the loop.
\<close>

function load_segment ::
  "u8 list \<Rightarrow> u32 \<Rightarrow> Elf32_Phdr \<Rightarrow> u32 \<Rightarrow> u32 \<Rightarrow> elf_page_mapping list \<Rightarrow> 'a pmm_state_scheme
    \<Rightarrow> (bool \<times> elf_page_mapping list \<times> 'a pmm_state_scheme) option" where
  "load_segment elf_bytes user_pdt ph vaddr page_end pages s =
     (if \<not> vaddr < page_end then Some (True, pages, s)
      else if length pages \<ge> MAX_USER_CODE_PAGES then Some (False, pages, s)
      else
        Option.bind (load_page elf_bytes user_pdt ph vaddr s) (\<lambda>(frame, s1).
          if frame = 0 then Some (False, pages, s1)
          else load_segment elf_bytes user_pdt ph (vaddr + PAGE_SIZE) page_end
            (pages @ [\<lparr>map_vaddr = vaddr, map_paddr = frame\<rparr>]) s1))"
  by pat_completeness auto
termination
  by (relation "measure (\<lambda>(elf_bytes, user_pdt, ph, vaddr, page_end, pages, s). 16 - length pages)")
    (auto simp: MAX_USER_CODE_PAGES_def)

declare load_segment.simps [simp del]

primrec load_segments ::
  "Elf32_Ehdr \<Rightarrow> u8 list \<Rightarrow> u32 \<Rightarrow> u32 \<Rightarrow> nat \<Rightarrow> u32 \<Rightarrow> elf_page_mapping list \<Rightarrow> 'a pmm_state_scheme
    \<Rightarrow> (bool \<times> elf_page_mapping list \<times> 'a pmm_state_scheme) option" where
  "load_segments ehdr elf_bytes elf_size user_pdt 0 i pages s = Some (True, pages, s)"
| "load_segments ehdr elf_bytes elf_size user_pdt (Suc n) i pages s = do {
     h \<leftarrow> program_header ehdr elf_bytes i;
     case h of
       None \<Rightarrow> load_segments ehdr elf_bytes elf_size user_pdt n (i + 1) pages s
     | Some ph \<Rightarrow>
         if p_type ph \<noteq> 1 \<or> p_memsz ph = 0
         then load_segments ehdr elf_bytes elf_size user_pdt n (i + 1) pages s
         else if p_offset ph + p_filesz ph > elf_size then Some (False, pages, s)
         else do {
           (ok, pages1, s1) \<leftarrow> load_segment elf_bytes user_pdt ph (page_align_down (p_vaddr ph))
             (page_align_up (p_vaddr ph + p_memsz ph)) pages s;
           if ok then load_segments ehdr elf_bytes elf_size user_pdt n (i + 1) pages1 s1
           else Some (False, pages1, s1)
         }
   }"

primrec free_pages :: "elf_page_mapping list \<Rightarrow> 'a pmm_state_scheme \<Rightarrow> 'a pmm_state_scheme option" where
  "free_pages [] s = Some s"
| "free_pages (p # ps) s = do { s1 \<leftarrow> pmm_free_frame (map_paddr p) s; free_pages ps s1 }"

text \<open>
  \<open>load_elf\<close>: \<open>Some (None, s)\<close> is the return value -1, \<open>Some (Some (entry, frames), s)\<close> success
  with the entry point and the frames. The pointers to the results are never NULL in the callers.
\<close>

definition load_elf ::
  "u8 list option \<Rightarrow> u32 \<Rightarrow> u32 \<Rightarrow> 'a pmm_state_scheme
    \<Rightarrow> ((u32 \<times> u32 list) option \<times> 'a pmm_state_scheme) option" where
  "load_elf elf_data elf_size user_pdt s =
     (case elf_data of
        None \<Rightarrow> Some (None, s)
      | Some elf_bytes \<Rightarrow>
          if elf_size < 52 \<or> user_pdt = 0 then Some (None, s)
          else do {
            ehdr \<leftarrow> read_ehdr elf_bytes;
            if \<not> validate_elf_header ehdr elf_size then Some (None, s)
            else do {
              h \<leftarrow> section_header ehdr elf_bytes (ucast (e_shstrndx ehdr));
              case h of
                None \<Rightarrow> Some (None, s)
              | Some shstr_sh \<Rightarrow>
                  if sh_offset shstr_sh + sh_size shstr_sh > elf_size then Some (None, s)
                  else do {
                    (symtab_sh, strtab_sh) \<leftarrow> find_tables ehdr elf_bytes (sh_offset shstr_sh)
                      (sh_size shstr_sh) (unat (e_shnum ehdr)) 0 None None;
                    if (case strtab_sh of None \<Rightarrow> False | Some sh \<Rightarrow> sh_offset sh + sh_size sh > elf_size)
                    then Some (None, s)
                    else do {
                      (ok, pages, s1) \<leftarrow> load_segments ehdr elf_bytes elf_size user_pdt
                        (unat (e_phnum ehdr)) 0 [] s;
                      if \<not> ok then Some (None, s1)
                      else do {
                        (r, s2) \<leftarrow> process_relocations ehdr elf_bytes elf_size symtab_sh strtab_sh pages s1;
                        if r \<noteq> 0 then do { s3 \<leftarrow> free_pages pages s2; Some (None, s3) }
                        else Some (Some (e_entry ehdr, map map_paddr pages), s2)
                      }
                    }
                  }
            }
          })"

section \<open>Which bytes of the file a page gets\<close>

text \<open>
  C40: For a page of a segment the loader copies exactly the file bytes that belong there, with two
  exceptions: when the segment starts inside the page, at an offset of at least the file size, it
  copies nothing although the page holds the whole file data; and for a page after the file data
  it copies a full page of bytes that follow in the file, where the segment has zeros.
\<close>

theorem elf_file_part:
  assumes "0 < p_filesz ph" "unat (p_vaddr ph) + unat (p_filesz ph) \<le> 2 ^ 32"
    "unat vaddr + 4096 \<le> 2 ^ 32" "unat (p_vaddr ph) < unat vaddr + 4096"
  defines "start \<equiv> unat (p_vaddr ph)" and "n \<equiv> unat (p_filesz ph)" and "v \<equiv> unat vaddr"
  shows "file_part ph vaddr =
    (if v \<ge> start \<and> v - start \<le> n
     then Some (0, of_nat (v - start), of_nat (min (n - (v - start)) 4096))
     else if v < start \<and> start - v < n
     then Some (of_nat (start - v), 0, of_nat (min n (4096 - (start - v))))
     else if v < start then None
     else Some (0, of_nat (v - start), 4096))"
proof (cases "vaddr < p_vaddr ph")
  case True
  then have lt: "v < start" by (simp add: v_def start_def word_less_nat_alt)
  have off: "p_vaddr ph - vaddr = of_nat (start - v)" "unat (p_vaddr ph - vaddr) = start - v"
    using True by (simp_all add: v_def start_def word_unat_eq_iff unat_sub word_le_nat_alt word_less_nat_alt
        unat_of_nat_u32 less_imp_le)
  have sm: "start - v < 4096" using assms(4) lt by (simp add: v_def start_def)
  have c: "p_vaddr ph - vaddr < p_filesz ph \<longleftrightarrow> start - v < n"
    using off(2) by (simp add: word_less_nat_alt n_def)
  have z: "vaddr + (p_vaddr ph - vaddr) - p_vaddr ph = 0" by simp
  have rest: "unat (PAGE_SIZE - of_nat (start - v)) = 4096 - (start - v)"
    using sm by (simp add: PAGE_SIZE_def unat_sub word_le_nat_alt unat_of_nat_u32)
  have "(if PAGE_SIZE - of_nat (start - v) < p_filesz ph then PAGE_SIZE - of_nat (start - v) else p_filesz ph) =
      of_nat (min n (4096 - (start - v)))"
    using rest by (auto simp: n_def word_less_nat_alt min_def) (simp_all add: word_unat_eq_iff unat_of_nat_u32 rest)
  then show ?thesis using True lt c z
    by (simp add: file_part_def Let_def off(1) cong: if_cong del: of_nat_diff)
next
  case False
  then have ge: "start \<le> v" by (simp add: v_def start_def word_less_nat_alt)
  have cs: "vaddr - p_vaddr ph = of_nat (v - start)" "unat (vaddr - p_vaddr ph) = v - start"
    using ge by (simp_all add: v_def start_def word_unat_eq_iff unat_sub word_le_nat_alt unat_of_nat_u32)
  have fp: "file_part ph vaddr = Some (0, of_nat (v - start),
      if PAGE_SIZE < p_filesz ph - of_nat (v - start) then PAGE_SIZE else p_filesz ph - of_nat (v - start))"
    using False assms(1) cs by (simp add: file_part_def Let_def)
  show ?thesis
  proof (cases "v - start \<le> n")
    case True
    then have "unat (p_filesz ph - of_nat (v - start)) = n - (v - start)"
      using cs by (simp add: n_def unat_sub word_le_nat_alt flip: cs(1))
    then show ?thesis using fp ge True
      by (auto simp: PAGE_SIZE_def word_less_nat_alt min_def) (simp_all add: word_unat_eq_iff unat_of_nat_u32 n_def)
  next
    case gt: False
    have "unat (p_filesz ph - (vaddr - p_vaddr ph)) = 2 ^ 32 + n - (v - start)"
      using gt cs(2) unat_lt_2p32 [of "vaddr - p_vaddr ph"] by (simp add: unat_sub_if' n_def word_size)
    moreover have "4096 < 2 ^ 32 + n - (v - start)"
      using assms(1,3) unat_lt_2p32 [of vaddr] by (simp add: v_def n_def word_less_nat_alt)
    ultimately have "PAGE_SIZE < p_filesz ph - of_nat (v - start)"
      by (simp add: PAGE_SIZE_def word_less_nat_alt flip: cs(1))
    then show ?thesis using fp ge gt by (simp add: PAGE_SIZE_def)
  qed
qed

definition demo_phdr :: Elf32_Phdr where
  "demo_phdr = \<lparr>p_type = 1, p_offset = 0x1000, p_vaddr = 0x00400800, p_paddr = 0, p_filesz = 0x100,
     p_memsz = 0x3000, p_flags = 6, p_align = 0x1000\<rparr>"

theorem elf_file_part_witness:
  "file_part demo_phdr 0x00400000 = None \<and> file_part demo_phdr 0x00402000 = Some (0, 0x1800, 4096)"
  using elf_file_part [of demo_phdr "0x00400000"] elf_file_part [of demo_phdr "0x00402000"]
  by (simp add: demo_phdr_def)

end
