(* ===== verification/Task.thy ===== *)
theory Task
  imports Elf
begin

text \<open>
  Tasks and the scheduler, kernel/src/kernel/task.c and task.h, with the tick counter of
  drivers/timer.c and the two fields of the task state segment that the scheduler sets. A
  pointer to a task is its index in \<open>task_table\<close>, NULL is \<open>None\<close>; the links of the ready list
  and of the family tree are fields of the entries, updated one store at a time as in the code.
  Pointers into virtual memory are addresses, read and written through the page tables.
\<close>

section \<open>Data\<close>

datatype task_status = TASK_UNUSED | TASK_READY | TASK_RUNNING | TASK_WAITING | TASK_ZOMBIE

datatype task_kind = TASK_TYPE_KERNEL | TASK_TYPE_USER | TASK_TYPE_USER_PROCESS

record task_context =
  edi :: u32
  esi :: u32
  ebp :: u32
  esp :: u32
  ebx :: u32
  edx :: u32
  ecx :: u32
  eax :: u32
  eip :: u32
  cs_sel :: u32
  ss_sel :: u32
  eflags :: u32

record task =
  pid :: u32
  tstate :: task_status
  ttype :: task_kind
  quantum :: u32
  ticks :: u32
  stack_base :: u32
  stack_top :: u32
  stack_size :: u32
  user_stack_top :: u32
  user_stack_size :: u32
  user_stack_paddr :: u32
  user_code_paddr :: u32
  user_code_frame_count :: u32
  user_code_frames :: "u32 list"
  user_heap_start :: u32
  user_heap_size :: u32
  user_heap_frame_count :: u32
  user_heap_frames :: "u32 list"
  page_directory_phys :: u32
  parent_pid :: u32
  parent :: "nat option"
  first_child :: "nat option"
  next_sibling :: "nat option"
  waiting_for_pid :: u32
  waiting_status :: u32
  wake_tick :: u32
  exit_status :: u32
  ctx :: task_context
  next_task :: "nat option"
  prev_task :: "nat option"

record task_state = vmm_state +
  task_table :: "nat \<Rightarrow> task"
  current_task :: "nat option"
  ready_list_head :: "nat option"
  ready_list_tail :: "nat option"
  next_pid :: u32
  task_stack_slots :: "nat \<Rightarrow> bool"
  pit_ticks :: u32
  tss_esp0 :: u32
  tss_ss0 :: u32

definition TASK_MAX :: nat where
  "TASK_MAX = 16"

definition TASK_QUANTUM_DEFAULT :: u32 where
  "TASK_QUANTUM_DEFAULT = 5"

definition MAX_USER_HEAP_PAGES :: nat where
  "MAX_USER_HEAP_PAGES = 16"

definition KERNEL_CODE_SEG :: u32 where
  "KERNEL_CODE_SEG = 0x08"

definition KERNEL_DATA_SEG :: u32 where
  "KERNEL_DATA_SEG = 0x10"

definition USER_CODE_SEG :: u32 where
  "USER_CODE_SEG = 0x1B"

definition USER_DATA_SEG :: u32 where
  "USER_DATA_SEG = 0x23"

text \<open>A store to fields of one entry of the table.\<close>

definition set_task :: "nat \<Rightarrow> (task \<Rightarrow> task) \<Rightarrow> 'a task_state_scheme \<Rightarrow> 'a task_state_scheme" where
  "set_task t f s = s\<lparr>task_table := (task_table s)(t := f (task_table s t))\<rparr>"

definition frame_at :: "u32 list \<Rightarrow> u32 \<Rightarrow> u32 option" where
  "frame_at fs i = (if unat i < length fs then Some (fs ! unat i) else None)"

definition timer_handle_interrupt :: "'a task_state_scheme \<Rightarrow> 'a task_state_scheme" where
  "timer_handle_interrupt s = s\<lparr>pit_ticks := pit_ticks s + 1\<rparr>"

definition timer_get_ticks :: "'a task_state_scheme \<Rightarrow> u32" where
  "timer_get_ticks s = pit_ticks s"

definition task_update_tss :: "'a task_state_scheme \<Rightarrow> 'a task_state_scheme" where
  "task_update_tss s =
     (case current_task s of
        None \<Rightarrow> s
      | Some t \<Rightarrow> s\<lparr>tss_esp0 := stack_top (task_table s t), tss_ss0 := KERNEL_DATA_SEG\<rparr>)"

definition task_init_user_heap_fields :: "task \<Rightarrow> task" where
  "task_init_user_heap_fields k =
     k\<lparr>user_heap_start := USER_HEAP_START, user_heap_size := 0, user_heap_frame_count := 0,
       user_heap_frames := replicate MAX_USER_HEAP_PAGES 0\<rparr>"

section \<open>Releasing the memory of a task\<close>

definition task_unmap_user_page :: "nat \<Rightarrow> u32 \<Rightarrow> 'a task_state_scheme \<Rightarrow> 'a task_state_scheme option" where
  "task_unmap_user_page t vaddr s =
     (if page_directory_phys (task_table s t) = 0 then Some s
      else vmm_unmap_page_for_pdt (page_directory_phys (task_table s t)) vaddr s)"

primrec release_code_frames :: "nat \<Rightarrow> nat \<Rightarrow> u32 \<Rightarrow> 'a task_state_scheme \<Rightarrow> 'a task_state_scheme option" where
  "release_code_frames t 0 i s = Some s"
| "release_code_frames t (Suc n) i s = do {
     frame \<leftarrow> frame_at (user_code_frames (task_table s t)) i;
     if frame \<noteq> 0
     then do {
       s1 \<leftarrow> task_unmap_user_page t (0x00400000 + i * PAGE_SIZE) s;
       s2 \<leftarrow> pmm_free_frame frame s1;
       release_code_frames t n (i + 1)
         (set_task t (\<lambda>k. k\<lparr>user_code_frames := (user_code_frames k)[unat i := 0]\<rparr>) s2)
     }
     else release_code_frames t n (i + 1) s
   }"

primrec release_heap_frames :: "nat \<Rightarrow> nat \<Rightarrow> u32 \<Rightarrow> 'a task_state_scheme \<Rightarrow> 'a task_state_scheme option" where
  "release_heap_frames t 0 i s = Some s"
| "release_heap_frames t (Suc n) i s = do {
     frame \<leftarrow> frame_at (user_heap_frames (task_table s t)) i;
     if frame \<noteq> 0
     then do {
       s1 \<leftarrow> task_unmap_user_page t (user_heap_start (task_table s t) + i * PAGE_SIZE) s;
       s2 \<leftarrow> pmm_free_frame frame s1;
       release_heap_frames t n (i + 1)
         (set_task t (\<lambda>k. k\<lparr>user_heap_frames := (user_heap_frames k)[unat i := 0]\<rparr>) s2)
     }
     else release_heap_frames t n (i + 1) s
   }"

definition release_stack_frame :: "nat \<Rightarrow> 'a task_state_scheme \<Rightarrow> 'a task_state_scheme option" where
  "release_stack_frame t s = (
     let k = task_table s t in
     if user_stack_paddr k \<noteq> 0 \<and> user_stack_top k \<noteq> 0 \<and> user_stack_size k \<noteq> 0
     then do {
       s1 \<leftarrow> task_unmap_user_page t (user_stack_top k - user_stack_size k + PAGE_SIZE) s;
       s2 \<leftarrow> pmm_free_frame (user_stack_paddr k) s1;
       Some (set_task t (\<lambda>k. k\<lparr>user_stack_paddr := 0\<rparr>) s2)
     }
     else Some s)"

definition task_cleanup_user_resources :: "nat \<Rightarrow> 'a task_state_scheme \<Rightarrow> 'a task_state_scheme option" where
  "task_cleanup_user_resources t s = do {
     s1 \<leftarrow> release_stack_frame t s;
     s2 \<leftarrow> release_code_frames t (unat (user_code_frame_count (task_table s1 t))) 0 s1;
     let s3 = set_task t (\<lambda>k. k\<lparr>user_code_frame_count := 0, user_code_paddr := 0\<rparr>) s2;
     s4 \<leftarrow> release_heap_frames t (unat (user_heap_frame_count (task_table s3 t))) 0 s3;
     Some (set_task t (\<lambda>k. k\<lparr>user_heap_frame_count := 0, user_heap_size := 0\<rparr>) s4)
   }"

section \<open>The ready list\<close>

definition task_enqueue :: "nat \<Rightarrow> 'a task_state_scheme \<Rightarrow> 'a task_state_scheme" where
  "task_enqueue t s = (
     let s1 = set_task t (\<lambda>k. k\<lparr>next_task := None, prev_task := ready_list_tail s\<rparr>) s;
         s2 = (case ready_list_tail s1 of
                 Some last_task \<Rightarrow> set_task last_task (\<lambda>k. k\<lparr>next_task := Some t\<rparr>) s1
               | None \<Rightarrow> s1\<lparr>ready_list_head := Some t\<rparr>) in
     set_task t (\<lambda>k. k\<lparr>tstate := TASK_READY\<rparr>) (s2\<lparr>ready_list_tail := Some t\<rparr>))"

definition task_remove :: "nat \<Rightarrow> 'a task_state_scheme \<Rightarrow> 'a task_state_scheme" where
  "task_remove t s = (
     let s1 = (case prev_task (task_table s t) of
                 Some p \<Rightarrow> set_task p (\<lambda>k. k\<lparr>next_task := next_task (task_table s t)\<rparr>) s
               | None \<Rightarrow> s\<lparr>ready_list_head := next_task (task_table s t)\<rparr>);
         s2 = (case next_task (task_table s1 t) of
                 Some n \<Rightarrow> set_task n (\<lambda>k. k\<lparr>prev_task := prev_task (task_table s1 t)\<rparr>) s1
               | None \<Rightarrow> s1\<lparr>ready_list_tail := prev_task (task_table s1 t)\<rparr>) in
     set_task t (\<lambda>k. k\<lparr>next_task := None, prev_task := None\<rparr>) s2)"

text \<open>The address space of the current task, or the kernel's.\<close>

definition load_task_cr3 :: "'a task_state_scheme \<Rightarrow> 'a task_state_scheme" where
  "load_task_cr3 s =
     (case current_task s of
        Some t \<Rightarrow>
          if page_directory_phys (task_table s t) \<noteq> 0
          then load_cr3 (page_directory_phys (task_table s t)) s
          else load_cr3 (vmm_get_kernel_pdt_phys s) s
      | None \<Rightarrow> load_cr3 (vmm_get_kernel_pdt_phys s) s)"

definition task_select_next :: "'a task_state_scheme \<Rightarrow> nat option \<times> 'a task_state_scheme" where
  "task_select_next s =
     (case ready_list_head s of
        None \<Rightarrow> (None, s)
      | Some n \<Rightarrow>
          let s1 = set_task n (\<lambda>k. k\<lparr>tstate := TASK_RUNNING, ticks := 0\<rparr>) (task_remove n s) in
          (Some n, load_task_cr3 (task_update_tss (s1\<lparr>current_task := Some n\<rparr>))))"

section \<open>Contexts\<close>

definition task_create_context :: "u32 \<Rightarrow> task \<Rightarrow> task" where
  "task_create_context entry_point k = (
     let c = (ctx k)\<lparr>edi := 0, esi := 0, ebp := 0, ebx := 0, edx := 0, ecx := 0, eax := 0,
               eip := entry_point, eflags := 0x202\<rparr> in
     k\<lparr>ctx :=
       if ttype k \<noteq> TASK_TYPE_KERNEL
       then (if esp c = 0 then c\<lparr>esp := user_stack_top k - 32\<rparr> else c)
              \<lparr>cs_sel := USER_CODE_SEG, ss_sel := USER_DATA_SEG\<rparr>
       else c\<lparr>esp := stack_top k - 32, cs_sel := KERNEL_CODE_SEG, ss_sel := KERNEL_DATA_SEG\<rparr>\<rparr>)"

definition task_init_process_fields :: "task \<Rightarrow> task" where
  "task_init_process_fields k =
     k\<lparr>parent_pid := 0, parent := None, first_child := None, next_sibling := None,
       waiting_for_pid := - 1\<rparr>"

section \<open>Parents and children\<close>

definition task_add_child :: "nat option \<Rightarrow> nat option \<Rightarrow> 'a task_state_scheme \<Rightarrow> 'a task_state_scheme" where
  "task_add_child p c s =
     (case (p, c) of
        (Some par, Some child) \<Rightarrow>
          let s1 = set_task child (\<lambda>k. k\<lparr>parent := Some par\<rparr>) s;
              s2 = set_task child (\<lambda>k. k\<lparr>parent_pid := pid (task_table s1 par)\<rparr>) s1;
              s3 = set_task child (\<lambda>k. k\<lparr>next_sibling := first_child (task_table s2 par)\<rparr>) s2 in
          set_task par (\<lambda>k. k\<lparr>first_child := Some child\<rparr>) s3
      | _ \<Rightarrow> s)"

text \<open>The pointer variable of the search loop: the address of one of two kinds of links.\<close>

datatype child_link = FirstChild nat | NextSibling nat

definition link_get :: "child_link \<Rightarrow> 'a task_state_scheme \<Rightarrow> nat option" where
  "link_get l s = (case l of
     FirstChild p \<Rightarrow> first_child (task_table s p)
   | NextSibling c \<Rightarrow> next_sibling (task_table s c))"

definition link_set :: "child_link \<Rightarrow> nat option \<Rightarrow> 'a task_state_scheme \<Rightarrow> 'a task_state_scheme" where
  "link_set l v s = (case l of
     FirstChild p \<Rightarrow> set_task p (\<lambda>k. k\<lparr>first_child := v\<rparr>) s
   | NextSibling c \<Rightarrow> set_task c (\<lambda>k. k\<lparr>next_sibling := v\<rparr>) s)"

partial_function (option) unlink_child ::
  "nat \<Rightarrow> child_link \<Rightarrow> 'a task_state_scheme \<Rightarrow> 'a task_state_scheme option" where
  "unlink_child child current s =
     (case link_get current s of
        None \<Rightarrow> Some s
      | Some c \<Rightarrow>
          if c = child then Some (link_set current (next_sibling (task_table s child)) s)
          else unlink_child child (NextSibling c) s)"

definition task_remove_child :: "nat \<Rightarrow> 'a task_state_scheme \<Rightarrow> 'a task_state_scheme option" where
  "task_remove_child child s =
     (case parent (task_table s child) of
        None \<Rightarrow> Some s
      | Some p \<Rightarrow> do {
          s1 \<leftarrow> unlink_child child (FirstChild p) s;
          Some (set_task child (\<lambda>k. k\<lparr>parent := None, parent_pid := 0, next_sibling := None\<rparr>) s1)
        })"

partial_function (option) find_sibling :: "u32 \<Rightarrow> nat option \<Rightarrow> 'a task_state_scheme \<Rightarrow> nat option option" where
  "find_sibling p c s =
     (case c of
        None \<Rightarrow> Some None
      | Some child \<Rightarrow>
          if pid (task_table s child) = p then Some (Some child)
          else find_sibling p (next_sibling (task_table s child)) s)"

definition task_find_child :: "nat \<Rightarrow> u32 \<Rightarrow> 'a task_state_scheme \<Rightarrow> nat option option" where
  "task_find_child par p s = find_sibling p (first_child (task_table s par)) s"

section \<open>The initial user stack\<close>

text \<open>The counting loop reads the entry before it tests the bound of 16.\<close>

primrec count_ptrs :: "u32 \<Rightarrow> nat \<Rightarrow> u32 \<Rightarrow> 'a machine_scheme \<Rightarrow> u32 option" where
  "count_ptrs argv 0 argc s = do { p \<leftarrow> vload32 (argv + 4 * argc) s; Some argc }"
| "count_ptrs argv (Suc n) argc s = do {
     p \<leftarrow> vload32 (argv + 4 * argc) s;
     if p \<noteq> 0 then count_ptrs argv n (argc + 1) s else Some argc
   }"

definition count_args :: "u32 \<Rightarrow> 'a machine_scheme \<Rightarrow> u32 option" where
  "count_args argv s = (if argv = 0 then Some 0 else count_ptrs argv 16 0 s)"

text \<open>\<open>strlen\<close> of libc/src/string on a string in virtual memory.\<close>

partial_function (option) strlen_from :: "u32 \<Rightarrow> u32 \<Rightarrow> 'a machine_scheme \<Rightarrow> u32 option" where
  "strlen_from str len s = do {
     c \<leftarrow> vload8 (str + len) s;
     if c \<noteq> 0 then strlen_from str (len + 1) s else Some len
   }"

text \<open>One string: the pointer is loaded again for every byte.\<close>

primrec copy_arg :: "u32 \<Rightarrow> u32 \<Rightarrow> u32 \<Rightarrow> nat \<Rightarrow> 'a machine_scheme \<Rightarrow> 'a machine_scheme option" where
  "copy_arg slot dest byte 0 s = Some s"
| "copy_arg slot dest byte (Suc n) s = do {
     p \<leftarrow> vload32 slot s;
     b \<leftarrow> vload8 (p + byte) s;
     s1 \<leftarrow> vstore8 (dest + byte) b s;
     copy_arg slot dest (byte + 1) n s1
   }"

text \<open>
  The strings of one array, from the last to the first; the result is the new offset and the
  user addresses of the strings, or \<open>None\<close> for the early return of -1.
\<close>

primrec push_strings ::
  "u32 \<Rightarrow> u32 \<Rightarrow> nat \<Rightarrow> u32 \<Rightarrow> u32 list \<Rightarrow> 'a machine_scheme
    \<Rightarrow> ((u32 \<times> u32 list) option \<times> 'a machine_scheme) option" where
  "push_strings argv stack_page_vaddr 0 offset ptrs s = Some (Some (offset, ptrs), s)"
| "push_strings argv stack_page_vaddr (Suc i) offset ptrs s = do {
     p \<leftarrow> vload32 (argv + 4 * of_nat i) s;
     n \<leftarrow> strlen_from p 0 s;
     let len = n + 1;
     if len > offset
     then do { s1 \<leftarrow> vmm_unmap_page VMM_TEMP_PAGE s; Some (None, s1) }
     else do {
       s1 \<leftarrow> copy_arg (argv + 4 * of_nat i) (VMM_TEMP_PAGE + (offset - len)) 0 (unat len) s;
       push_strings argv stack_page_vaddr i (offset - len)
         ((stack_page_vaddr + (offset - len)) # ptrs) s1
     }
   }"

primrec push_words :: "u32 list \<Rightarrow> u32 \<Rightarrow> 'a machine_scheme \<Rightarrow> (u32 \<times> 'a machine_scheme) option" where
  "push_words [] offset s = Some (offset, s)"
| "push_words (w # ws) offset s = do {
     s1 \<leftarrow> vstore32 (VMM_TEMP_PAGE + (offset - 4)) w s;
     push_words ws (offset - 4) s1
   }"

definition push_frame ::
  "u32 \<Rightarrow> u32 list \<Rightarrow> u32 list \<Rightarrow> u32 \<Rightarrow> u32 \<Rightarrow> 'a machine_scheme \<Rightarrow> (u32 \<times> 'a machine_scheme) option" where
  "push_frame argc arg_ptrs env_ptrs return_address offset s = do {
     (o1, s1) \<leftarrow> push_words (0 # rev env_ptrs) offset s;
     (o2, s2) \<leftarrow> push_words (0 # rev arg_ptrs) o1 s1;
     (o3, s3) \<leftarrow> push_words [argc] o2 s2;
     if return_address \<noteq> 0 then push_words [return_address] o3 s3 else Some (o3, s3)
   }"

definition stack_image ::
  "u32 \<Rightarrow> u32 \<Rightarrow> u32 \<Rightarrow> u32 \<Rightarrow> 'a machine_scheme \<Rightarrow> (u32 option \<times> 'a machine_scheme) option" where
  "stack_image argv envp return_address stack_page_vaddr s = do {
     argc \<leftarrow> count_args argv s;
     envc \<leftarrow> count_args envp s;
     (r1, s1) \<leftarrow> push_strings envp stack_page_vaddr (unat envc) PAGE_SIZE [] s;
     case r1 of
       None \<Rightarrow> Some (None, s1)
     | Some (off1, env_ptrs) \<Rightarrow> do {
         (r2, s2) \<leftarrow> push_strings argv stack_page_vaddr (unat argc) (off1 AND NOT 3) [] s1;
         case r2 of
           None \<Rightarrow> Some (None, s2)
         | Some (off2, arg_ptrs) \<Rightarrow>
             let offset = off2 AND NOT 3;
                 stack_metadata_size = (envc + 1 + argc + 1) * 4 + 4
                   + (if return_address \<noteq> 0 then 4 else 0) in
             if stack_metadata_size > offset
             then do { s3 \<leftarrow> vmm_unmap_page VMM_TEMP_PAGE s2; Some (None, s3) }
             else do {
               (off3, s3) \<leftarrow> push_frame argc arg_ptrs env_ptrs return_address offset s2;
               s4 \<leftarrow> vmm_unmap_page VMM_TEMP_PAGE s3;
               Some (Some off3, s4)
             }
       }
   }"

definition task_setup_user_stack ::
  "nat \<Rightarrow> u32 \<Rightarrow> u32 \<Rightarrow> u32 \<Rightarrow> 'a task_state_scheme \<Rightarrow> (int \<times> 'a task_state_scheme) option" where
  "task_setup_user_stack t argv envp return_address s = (
     let k = task_table s t in
     if user_stack_top k = 0 \<or> user_stack_size k = 0 then Some (- 1, s)
     else if user_stack_paddr k = 0 then Some (- 1, s)
     else do {
       s1 \<leftarrow> vmm_map_kernel_page VMM_TEMP_PAGE (user_stack_paddr k) s;
       s2 \<leftarrow> memset VMM_TEMP_PAGE 0 (unat PAGE_SIZE) s1;
       (r, s3) \<leftarrow> stack_image argv envp return_address (user_stack_top k - PAGE_SIZE) s2;
       case r of
         None \<Rightarrow> Some (- 1, s3)
       | Some off \<Rightarrow>
           Some (0, set_task t
             (\<lambda>k. k\<lparr>ctx := (ctx k)\<lparr>esp := user_stack_top k - PAGE_SIZE + off\<rparr>\<rparr>) s3)
     })"

section \<open>Saving the interrupted context\<close>

text \<open>The saved registers are the words on the kernel stack that \<open>common_interrupt_handler\<close> leaves.\<close>

definition reg :: "u32 list \<Rightarrow> nat \<Rightarrow> u32 option" where
  "reg saved_regs i = (if i < length saved_regs then Some (saved_regs ! i) else None)"

definition task_save_current_context ::
  "u32 list option \<Rightarrow> 'a task_state_scheme \<Rightarrow> 'a task_state_scheme option" where
  "task_save_current_context cpu_state_ptr s =
     (case (current_task s, cpu_state_ptr) of
        (Some t, Some saved_regs) \<Rightarrow>
          if tstate (task_table s t) \<noteq> TASK_RUNNING then Some s
          else do {
            r0 \<leftarrow> reg saved_regs 0;
            r1 \<leftarrow> reg saved_regs 1;
            r2 \<leftarrow> reg saved_regs 2;
            saved_esp \<leftarrow> reg saved_regs 3;
            r4 \<leftarrow> reg saved_regs 4;
            r5 \<leftarrow> reg saved_regs 5;
            r6 \<leftarrow> reg saved_regs 6;
            r7 \<leftarrow> reg saved_regs 7;
            f0 \<leftarrow> reg saved_regs 10;
            f1 \<leftarrow> reg saved_regs 11;
            f2 \<leftarrow> reg saved_regs 12;
            let s1 = set_task t (\<lambda>k. k\<lparr>ctx := (ctx k)\<lparr>edi := r0, esi := r1, ebp := r2, ebx := r4,
                       edx := r5, ecx := r6, eax := r7\<rparr>\<rparr>) s;
            if ttype (task_table s t) \<noteq> TASK_TYPE_KERNEL
            then do {
              f3 \<leftarrow> reg saved_regs 13;
              f4 \<leftarrow> reg saved_regs 14;
              Some (set_task t (\<lambda>k. k\<lparr>ctx := (ctx k)\<lparr>ss_sel := f0, esp := f1, eflags := f2,
                cs_sel := f3, eip := f4\<rparr>\<rparr>) s1)
            }
            else Some (set_task t (\<lambda>k. k\<lparr>ctx := (ctx k)\<lparr>eip := f0, cs_sel := f1, eflags := f2,
              esp := saved_esp, ss_sel := KERNEL_DATA_SEG\<rparr>\<rparr>) s1)
          }
      | _ \<Rightarrow> Some s)"

section \<open>Waking and ending tasks\<close>

definition task_stack_slot_count :: u32 where
  "task_stack_slot_count = (
     let region_size = KERNEL_STACK_REGION_END - KERNEL_STACK_REGION_START + 1;
         slot_count = region_size div KERNEL_STACK_SIZE in
     if slot_count > of_nat TASK_MAX then of_nat TASK_MAX else slot_count)"

primrec wake_loop :: "u32 \<Rightarrow> nat \<Rightarrow> nat \<Rightarrow> 'a task_state_scheme \<Rightarrow> 'a task_state_scheme" where
  "wake_loop now 0 index s = s"
| "wake_loop now (Suc n) index s = (
     let k = task_table s index in
     if tstate k = TASK_WAITING \<and> wake_tick k \<noteq> 0 \<and> wake_tick k \<le> now
     then wake_loop now n (Suc index)
       (task_enqueue index (set_task index (\<lambda>k. k\<lparr>tstate := TASK_READY, wake_tick := 0\<rparr>) s))
     else wake_loop now n (Suc index) s)"

definition task_wake_waiting_tasks :: "'a task_state_scheme \<Rightarrow> 'a task_state_scheme" where
  "task_wake_waiting_tasks s = wake_loop (timer_get_ticks s) TASK_MAX 0 s"

definition validate_user_pointer :: "u32 \<Rightarrow> 'a machine_scheme \<Rightarrow> bool option" where
  "validate_user_pointer vaddr s =
     (if vaddr \<ge> KERNEL_VIRT_BASE then Some False
      else do { p \<leftarrow> vmm_get_phys_addr vaddr s; Some (p \<noteq> 0) })"

text \<open>The report of the exit status in the parent's address space.\<close>

definition report_status :: "nat \<Rightarrow> u32 \<Rightarrow> 'a task_state_scheme \<Rightarrow> 'a task_state_scheme option" where
  "report_status p status s = (
     let old_cr3 = read_cr3 s;
         s1 = load_cr3 (page_directory_phys (task_table s p)) s;
         w = waiting_status (task_table s p) in do {
       ok \<leftarrow> (if w \<noteq> 0 then validate_user_pointer w s1 else Some False);
       s2 \<leftarrow> (if ok then vstore32 w status s1 else Some s1);
       Some (load_cr3 old_cr3 s2)
     })"

definition task_terminate :: "u32 \<Rightarrow> 'a task_state_scheme \<Rightarrow> 'a task_state_scheme option" where
  "task_terminate status s =
     (case current_task s of
        None \<Rightarrow> Some s
      | Some t \<Rightarrow>
          let s1 = set_task t (\<lambda>k. k\<lparr>exit_status := status, tstate := TASK_ZOMBIE\<rparr>) s in
          (case parent (task_table s1 t) of
             None \<Rightarrow> Some s1
           | Some p \<Rightarrow>
               if tstate (task_table s1 p) = TASK_WAITING \<and>
                 (waiting_for_pid (task_table s1 p) = pid (task_table s1 t) \<or>
                  waiting_for_pid (task_table s1 p) = - 1)
               then do {
                 s2 \<leftarrow> report_status p (exit_status (task_table s1 t)) s1;
                 let s3 = set_task p (\<lambda>k. k\<lparr>ctx := (ctx k)\<lparr>eax := pid (task_table s2 t)\<rparr>,
                            waiting_status := 0, tstate := TASK_READY, waiting_for_pid := 0\<rparr>) s2;
                 Some (task_enqueue p s3)
               }
               else Some s1))"

section \<open>Stacks and slots of the table\<close>

definition task_allocate_stack :: "nat \<Rightarrow> 'a task_state_scheme \<Rightarrow> bool \<times> 'a task_state_scheme" where
  "task_allocate_stack t s =
     (case find (\<lambda>i. \<not> task_stack_slots s i) [0 ..< unat task_stack_slot_count] of
        None \<Rightarrow> (False, s)
      | Some slot \<Rightarrow>
          let base = KERNEL_STACK_REGION_START + of_nat slot * KERNEL_STACK_SIZE in
          (True, set_task t (\<lambda>k. k\<lparr>stack_base := base, stack_top := base + KERNEL_STACK_SIZE,
             stack_size := KERNEL_STACK_SIZE\<rparr>) (s\<lparr>task_stack_slots := (task_stack_slots s)(slot := True)\<rparr>)))"

definition task_free_stack :: "nat \<Rightarrow> 'a task_state_scheme \<Rightarrow> 'a task_state_scheme" where
  "task_free_stack t s =
     (if stack_base (task_table s t) = 0 then s
      else
        let slot = (stack_base (task_table s t) - KERNEL_STACK_REGION_START) div KERNEL_STACK_SIZE;
            s1 = (if slot < task_stack_slot_count
                  then s\<lparr>task_stack_slots := (task_stack_slots s)(unat slot := False)\<rparr> else s) in
        set_task t (\<lambda>k. k\<lparr>stack_base := 0, stack_top := 0, stack_size := 0\<rparr>) s1)"

definition context_zero :: task_context where
  "context_zero = \<lparr>edi = 0, esi = 0, ebp = 0, esp = 0, ebx = 0, edx = 0, ecx = 0, eax = 0,
     eip = 0, cs_sel = 0, ss_sel = 0, eflags = 0\<rparr>"

definition fresh_task :: "u32 \<Rightarrow> u32 \<Rightarrow> task \<Rightarrow> task" where
  "fresh_task new_pid kernel_pdt k =
     (task_init_process_fields (task_init_user_heap_fields
       (k\<lparr>pid := new_pid, tstate := TASK_READY, ttype := TASK_TYPE_KERNEL,
          quantum := TASK_QUANTUM_DEFAULT, ticks := 0, stack_base := 0, stack_top := 0,
          stack_size := 0, user_stack_top := 0, user_stack_size := 0, user_stack_paddr := 0,
          user_code_paddr := 0, user_code_frame_count := 0,
          user_code_frames := replicate MAX_USER_CODE_PAGES 0\<rparr>)))
     \<lparr>wake_tick := 0, exit_status := 0, page_directory_phys := kernel_pdt, ctx := context_zero,
      next_task := None, prev_task := None\<rparr>"

definition task_alloc :: "'a task_state_scheme \<Rightarrow> nat option \<times> 'a task_state_scheme" where
  "task_alloc s =
     (case find (\<lambda>i. tstate (task_table s i) = TASK_UNUSED) [0 ..< TASK_MAX] of
        None \<Rightarrow> (None, s)
      | Some index \<Rightarrow>
          let s1 = set_task index (fresh_task (next_pid s) (vmm_get_kernel_pdt_phys s))
                     (s\<lparr>next_pid := next_pid s + 1\<rparr>);
              (ok, s2) = task_allocate_stack index s1 in
          if ok then (Some index, s2)
          else (None, set_task index (\<lambda>k. k\<lparr>tstate := TASK_UNUSED\<rparr>) s2))"

definition blank_task :: "task \<Rightarrow> task" where
  "blank_task k =
     (task_init_process_fields
       (k\<lparr>pid := 0, tstate := TASK_UNUSED, ttype := TASK_TYPE_KERNEL, quantum := 0, ticks := 0,
          stack_base := 0, stack_top := 0, stack_size := 0, user_stack_top := 0,
          user_stack_size := 0, user_stack_paddr := 0, user_code_paddr := 0,
          user_code_frame_count := 0, user_code_frames := replicate MAX_USER_CODE_PAGES 0,
          user_heap_start := USER_HEAP_START, user_heap_size := 0, user_heap_frame_count := 0,
          user_heap_frames := replicate MAX_USER_HEAP_PAGES 0\<rparr>))
     \<lparr>wake_tick := 0, exit_status := 0, ctx := context_zero, next_task := None, prev_task := None\<rparr>"

primrec init_tasks :: "nat \<Rightarrow> nat \<Rightarrow> 'a task_state_scheme \<Rightarrow> 'a task_state_scheme" where
  "init_tasks 0 index s = s"
| "init_tasks (Suc n) index s = (
     let s1 = set_task index blank_task (task_free_stack index s) in
     init_tasks n (Suc index) (s1\<lparr>task_stack_slots := (task_stack_slots s1)(index := False)\<rparr>))"

definition task_init :: "'a task_state_scheme \<Rightarrow> 'a task_state_scheme" where
  "task_init s = (init_tasks TASK_MAX 0 s)
     \<lparr>current_task := None, ready_list_head := None, ready_list_tail := None, next_pid := 1\<rparr>"

section \<open>Creating tasks\<close>

definition task_create :: "u32 \<Rightarrow> 'a task_state_scheme \<Rightarrow> nat option \<times> 'a task_state_scheme" where
  "task_create entry_point s =
     (case task_alloc s of
        (None, s1) \<Rightarrow> (None, s1)
      | (Some t, s1) \<Rightarrow>
          (Some t, task_enqueue t (set_task t (\<lambda>k. task_create_context entry_point
             (k\<lparr>ttype := TASK_TYPE_KERNEL, tstate := TASK_READY, ticks := 0,
                quantum := TASK_QUANTUM_DEFAULT\<rparr>)) s1)))"

text \<open>The failure exit of the creators: the slot of the table is given back, nothing else.\<close>

definition abandon :: "nat \<Rightarrow> 'a task_state_scheme \<Rightarrow> nat option \<times> 'a task_state_scheme" where
  "abandon t s = (None, set_task t (\<lambda>k. k\<lparr>tstate := TASK_UNUSED\<rparr>) s)"

text \<open>
  The opening that the three user-task creators share: a slot, a directory, the VGA page and
  the fields of the task. The result is the task and its directory, or \<open>None\<close> when the creator
  returns NULL.
\<close>

definition begin_user_task ::
  "task_kind \<Rightarrow> u32 \<Rightarrow> u32 \<Rightarrow> 'a task_state_scheme
    \<Rightarrow> ((nat \<times> u32) option \<times> 'a task_state_scheme) option" where
  "begin_user_task kind ustop ussize s =
     (case task_alloc s of
        (None, s1) \<Rightarrow> Some (None, s1)
      | (Some t, s1) \<Rightarrow> do {
          (user_pdt, s2) \<leftarrow> vmm_clone_kernel_mappings s1;
          if user_pdt = 0 then Some (None, snd (abandon t s2))
          else do {
            s3 \<leftarrow> vmm_map_page_for_pdt user_pdt 0xB8000 0xB8000 (PAGE_PRESENT OR PAGE_WRITE OR PAGE_USER)
              (set_task t (\<lambda>k. k\<lparr>page_directory_phys := user_pdt\<rparr>) s2);
            Some (Some (t, user_pdt), set_task t
              (\<lambda>k. k\<lparr>ttype := kind, user_stack_top := ustop, user_stack_size := ussize,
                 tstate := TASK_READY, ticks := 0, quantum := TASK_QUANTUM_DEFAULT\<rparr>) s3)
          }
        })"

definition task_create_user ::
  "u32 \<Rightarrow> u32 \<Rightarrow> u32 \<Rightarrow> 'a task_state_scheme \<Rightarrow> (nat option \<times> 'a task_state_scheme) option" where
  "task_create_user entry_point ustop ussize s =
     (if ustop = 0 \<or> ussize = 0 then Some (None, s)
      else do {
        (r, s1) \<leftarrow> begin_user_task TASK_TYPE_USER ustop ussize s;
        case r of
          None \<Rightarrow> Some (None, s1)
        | Some (t, user_pdt) \<Rightarrow> do {
            (stack_frame, s2) \<leftarrow> pmm_alloc_frame s1;
            if stack_frame = 0 then Some (abandon t s2)
            else do {
              let s3 = set_task t (\<lambda>k. k\<lparr>user_stack_paddr := stack_frame\<rparr>) s2;
              (code_frame, s4) \<leftarrow> pmm_alloc_frame s3;
              if code_frame = 0 then Some (abandon t s4)
              else do {
                let s5 = set_task t (\<lambda>k. k\<lparr>user_code_paddr := code_frame\<rparr>) s4;
                s6 \<leftarrow> vmm_map_kernel_page 0xC0800000 code_frame s5;
                s7 \<leftarrow> memcpy 0xC0800000 entry_point (unat PAGE_SIZE) s6;
                s8 \<leftarrow> vmm_unmap_page 0xC0800000 s7;
                s9 \<leftarrow> vmm_map_page_for_pdt user_pdt (ustop - PAGE_SIZE) stack_frame
                  (PAGE_PRESENT OR PAGE_WRITE OR PAGE_USER) s8;
                s10 \<leftarrow> vmm_map_page_for_pdt user_pdt 0x00400000 code_frame (PAGE_PRESENT OR PAGE_USER) s9;
                let s11 = set_task t (\<lambda>k. (let k1 = task_create_context entry_point k in
                            k1\<lparr>ctx := (ctx k1)\<lparr>eip := 0x00400000\<rparr>\<rparr>)) s10;
                Some (Some t, task_enqueue t s11)
              }
            }
          }
      })"

text \<open>\<open>user_code_frames[i] = page_frames[i]\<close> for all pages; more than 16 would overrun the array.\<close>

definition put_frames :: "u32 list \<Rightarrow> u32 list \<Rightarrow> u32 list option" where
  "put_frames new old =
     (if length new \<le> length old then Some (new @ drop (length new) old) else None)"

definition set_code_frames :: "nat \<Rightarrow> u32 list \<Rightarrow> u32 \<Rightarrow> 'a task_state_scheme \<Rightarrow> 'a task_state_scheme option" where
  "set_code_frames t frames first s = do {
     fs \<leftarrow> put_frames frames (user_code_frames (task_table s t));
     Some (set_task t (\<lambda>k. k\<lparr>user_code_frame_count := of_nat (length frames),
       user_code_paddr := first, user_code_frames := fs\<rparr>) s)
   }"

primrec free_code_frames :: "nat \<Rightarrow> nat \<Rightarrow> u32 \<Rightarrow> 'a task_state_scheme \<Rightarrow> 'a task_state_scheme option" where
  "free_code_frames t 0 i s = Some s"
| "free_code_frames t (Suc n) i s = do {
     frame \<leftarrow> frame_at (user_code_frames (task_table s t)) i;
     s1 \<leftarrow> (if frame \<noteq> 0 then pmm_free_frame frame s else Some s);
     free_code_frames t n (i + 1)
       (set_task t (\<lambda>k. k\<lparr>user_code_frames := (user_code_frames k)[unat i := 0]\<rparr>) s1)
   }"

definition drop_code_frames :: "nat \<Rightarrow> 'a task_state_scheme \<Rightarrow> 'a task_state_scheme option" where
  "drop_code_frames t s = do {
     s1 \<leftarrow> free_code_frames t (unat (user_code_frame_count (task_table s t))) 0 s;
     Some (set_task t (\<lambda>k. k\<lparr>user_code_frame_count := 0\<rparr>) s1)
   }"

definition drop_stack_frame :: "nat \<Rightarrow> 'a task_state_scheme \<Rightarrow> 'a task_state_scheme option" where
  "drop_stack_frame t s = do {
     s1 \<leftarrow> pmm_free_frame (user_stack_paddr (task_table s t)) s;
     Some (set_task t (\<lambda>k. k\<lparr>user_stack_paddr := 0\<rparr>) s1)
   }"

text \<open>The first frame of the image, for \<open>user_code_paddr\<close>.\<close>

definition first_frame :: "u32 list \<Rightarrow> u32" where
  "first_frame frames = (case frames of [] \<Rightarrow> 0 | f # _ \<Rightarrow> f)"

definition enter_at :: "nat \<Rightarrow> u32 \<Rightarrow> 'a task_state_scheme \<Rightarrow> 'a task_state_scheme" where
  "enter_at t entry_point = set_task t (\<lambda>k. (let k1 = task_create_context entry_point k in
     k1\<lparr>ctx := (ctx k1)\<lparr>eip := entry_point\<rparr>\<rparr>))"

definition task_create_user_from_elf ::
  "u8 list option \<Rightarrow> u32 \<Rightarrow> u32 \<Rightarrow> u32 \<Rightarrow> u32 \<Rightarrow> u32 \<Rightarrow> 'a task_state_scheme
    \<Rightarrow> (nat option \<times> 'a task_state_scheme) option" where
  "task_create_user_from_elf elf_data elf_size ustop ussize argv envp s =
     (if elf_data = None \<or> elf_size = 0 \<or> ustop = 0 \<or> ussize = 0 then Some (None, s)
      else do {
        (r, s1) \<leftarrow> begin_user_task TASK_TYPE_USER_PROCESS ustop ussize s;
        case r of
          None \<Rightarrow> Some (None, s1)
        | Some (t, user_pdt) \<Rightarrow> do {
            (stack_frame, s2) \<leftarrow> pmm_alloc_frame s1;
            if stack_frame = 0 then Some (abandon t s2)
            else do {
              s3 \<leftarrow> vmm_map_page_for_pdt user_pdt (ustop - PAGE_SIZE) stack_frame
                (PAGE_PRESENT OR PAGE_WRITE OR PAGE_USER)
                (set_task t (\<lambda>k. k\<lparr>user_stack_paddr := stack_frame\<rparr>) s2);
              (img, s4) \<leftarrow> load_elf elf_data elf_size user_pdt s3;
              case img of
                None \<Rightarrow> do { s5 \<leftarrow> drop_stack_frame t s4; Some (abandon t s5) }
              | Some (entry_point, frames) \<Rightarrow> do {
                  s5 \<leftarrow> set_code_frames t frames (first_frame frames) s4;
                  (rc, s6) \<leftarrow> task_setup_user_stack t argv envp 0 s5;
                  if rc \<noteq> 0
                  then do {
                    s7 \<leftarrow> (if user_stack_paddr (task_table s6 t) \<noteq> 0 then drop_stack_frame t s6 else Some s6);
                    s8 \<leftarrow> drop_code_frames t s7;
                    Some (abandon t s8)
                  }
                  else Some (Some t, task_enqueue t (enter_at t entry_point s6))
                }
            }
          }
      })"

definition task_replace_process_image ::
  "nat \<Rightarrow> u8 list option \<Rightarrow> u32 \<Rightarrow> u32 \<Rightarrow> u32 \<Rightarrow> 'a task_state_scheme
    \<Rightarrow> (int \<times> 'a task_state_scheme) option" where
  "task_replace_process_image t elf_data elf_size argv envp s =
     (if ttype (task_table s t) \<noteq> TASK_TYPE_USER_PROCESS then Some (- 1, s)
      else do {
        s1 \<leftarrow> task_cleanup_user_resources t s;
        let k = task_table s1 t;
        (stack_frame, s2) \<leftarrow> pmm_alloc_frame s1;
        if stack_frame = 0 then Some (- 1, s2)
        else do {
          s3 \<leftarrow> vmm_map_page_for_pdt (page_directory_phys k)
            (user_stack_top k - user_stack_size k + PAGE_SIZE) stack_frame
            (PAGE_PRESENT OR PAGE_WRITE OR PAGE_USER)
            (set_task t (\<lambda>k. k\<lparr>user_stack_paddr := stack_frame\<rparr>) s2);
          (img, s4) \<leftarrow> load_elf elf_data elf_size (page_directory_phys k) s3;
          case img of
            None \<Rightarrow> do { s5 \<leftarrow> drop_stack_frame t s4; Some (- 1, s5) }
          | Some (entry_point, frames) \<Rightarrow> do {
              s5 \<leftarrow> set_code_frames t frames (first_frame frames) s4;
              (rc, s6) \<leftarrow> task_setup_user_stack t argv envp 0 s5;
              if rc \<noteq> 0
              then do {
                s7 \<leftarrow> drop_code_frames t (set_task t (\<lambda>k. k\<lparr>user_stack_paddr := 0\<rparr>) s6);
                Some (- 1, s7)
              }
              else Some (0, enter_at t entry_point s6)
            }
        }
      })"

section \<open>Flat binaries\<close>

primrec free_frames_list :: "u32 list \<Rightarrow> 'a pmm_state_scheme \<Rightarrow> 'a pmm_state_scheme option" where
  "free_frames_list [] s = Some s"
| "free_frames_list (f # fs) s = do { s1 \<leftarrow> pmm_free_frame f s; free_frames_list fs s1 }"

text \<open>The loop that allocates and maps the pages; false when a frame is missing.\<close>

primrec binary_pages ::
  "u32 \<Rightarrow> nat \<Rightarrow> u32 \<Rightarrow> u32 list \<Rightarrow> 'a pmm_state_scheme
    \<Rightarrow> (bool \<times> u32 list \<times> 'a pmm_state_scheme) option" where
  "binary_pages user_pdt 0 i frames s = Some (True, frames, s)"
| "binary_pages user_pdt (Suc n) i frames s = do {
     (frame, s1) \<leftarrow> pmm_alloc_frame s;
     if frame = 0 then Some (False, frames, s1)
     else do {
       s2 \<leftarrow> vmm_map_page_for_pdt user_pdt (0x00400000 + i * PAGE_SIZE) frame
         (PAGE_PRESENT OR PAGE_WRITE OR PAGE_USER) s1;
       binary_pages user_pdt n (i + 1) (frames @ [frame]) s2
     }
   }"

primrec copy_binary ::
  "u8 list \<Rightarrow> u32 \<Rightarrow> u32 list \<Rightarrow> u32 \<Rightarrow> 'a pmm_state_scheme \<Rightarrow> 'a pmm_state_scheme option" where
  "copy_binary data binary_size [] bytes_copied s = Some s"
| "copy_binary data binary_size (f # fs) bytes_copied s =
     (if bytes_copied < binary_size
      then do {
        s1 \<leftarrow> vmm_map_kernel_page VMM_TEMP_PAGE f s;
        let copy_size = (if bytes_copied + PAGE_SIZE > binary_size then binary_size - bytes_copied else PAGE_SIZE);
        s2 \<leftarrow> copy_in data bytes_copied VMM_TEMP_PAGE (unat copy_size) s1;
        s3 \<leftarrow> vmm_unmap_page VMM_TEMP_PAGE s2;
        copy_binary data binary_size fs (bytes_copied + copy_size) s3
      }
      else Some s)"

primrec store_bytes :: "u32 \<Rightarrow> u8 list \<Rightarrow> 'a machine_scheme \<Rightarrow> 'a machine_scheme option" where
  "store_bytes dest [] s = Some s"
| "store_bytes dest (b # bs) s = do { s1 \<leftarrow> vstore8 dest b s; store_bytes (dest + 1) bs s1 }"

definition exit_stub :: "u8 list" where
  "exit_stub = [0x89, 0xD8, 0xB8, 0x02, 0x00, 0x00, 0x00, 0xCD, 0x80]"

definition abandon_binary :: "nat \<Rightarrow> u32 list \<Rightarrow> 'a task_state_scheme \<Rightarrow> (nat option \<times> 'a task_state_scheme) option" where
  "abandon_binary t frames s = do {
     s1 \<leftarrow> free_frames_list frames s;
     s2 \<leftarrow> drop_stack_frame t s1;
     Some (abandon t s2)
   }"

text \<open>The last part of \<open>task_create_user_from_binary\<close>: the exit stub, the stack, the context.\<close>

definition finish_binary ::
  "nat \<Rightarrow> u32 \<Rightarrow> u32 list \<Rightarrow> u32 \<Rightarrow> u32 \<Rightarrow> 'a task_state_scheme
    \<Rightarrow> (nat option \<times> 'a task_state_scheme) option" where
  "finish_binary t user_pdt frames argv envp s = (
     if length frames + 1 > MAX_USER_CODE_PAGES then abandon_binary t frames s
     else do {
       (stub_frame, s1) \<leftarrow> pmm_alloc_frame s;
       if stub_frame = 0 then abandon_binary t frames s1
       else do {
         let stub_vaddr = 0x00400000 + of_nat (length frames) * PAGE_SIZE;
         s2 \<leftarrow> set_code_frames t (frames @ [stub_frame]) (first_frame frames) s1;
         s3 \<leftarrow> vmm_map_page_for_pdt user_pdt stub_vaddr stub_frame (PAGE_PRESENT OR PAGE_USER) s2;
         s4 \<leftarrow> vmm_map_kernel_page VMM_TEMP_PAGE stub_frame s3;
         s5 \<leftarrow> store_bytes VMM_TEMP_PAGE exit_stub s4;
         s6 \<leftarrow> vmm_unmap_page VMM_TEMP_PAGE s5;
         (rc, s7) \<leftarrow> task_setup_user_stack t argv envp stub_vaddr s6;
         if rc \<noteq> 0
         then do {
           s8 \<leftarrow> (if user_stack_paddr (task_table s7 t) \<noteq> 0 then drop_stack_frame t s7 else Some s7);
           s9 \<leftarrow> drop_code_frames t s8;
           Some (abandon t s9)
         }
         else Some (Some t, task_enqueue t (enter_at t 0x00400000 s7))
       }
     })"

definition task_create_user_from_binary ::
  "u8 list option \<Rightarrow> u32 \<Rightarrow> u32 \<Rightarrow> u32 \<Rightarrow> u32 \<Rightarrow> u32 \<Rightarrow> 'a task_state_scheme
    \<Rightarrow> (nat option \<times> 'a task_state_scheme) option" where
  "task_create_user_from_binary binary_data binary_size ustop ussize argv envp s =
     (case binary_data of
        None \<Rightarrow> Some (None, s)
      | Some data \<Rightarrow>
          if binary_size = 0 \<or> ustop = 0 \<or> ussize = 0 then Some (None, s)
          else do {
            (r, s1) \<leftarrow> begin_user_task TASK_TYPE_USER_PROCESS ustop ussize s;
            case r of
              None \<Rightarrow> Some (None, s1)
            | Some (t, user_pdt) \<Rightarrow> do {
                (stack_frame, s2) \<leftarrow> pmm_alloc_frame s1;
                if stack_frame = 0 then Some (abandon t s2)
                else do {
                  s3 \<leftarrow> vmm_map_page_for_pdt user_pdt (ustop - PAGE_SIZE) stack_frame
                    (PAGE_PRESENT OR PAGE_WRITE OR PAGE_USER)
                    (set_task t (\<lambda>k. k\<lparr>user_stack_paddr := stack_frame\<rparr>) s2);
                  let pages_needed = (binary_size + PAGE_SIZE - 1) div PAGE_SIZE;
                  if pages_needed + 1 > of_nat MAX_USER_CODE_PAGES
                  then do { s4 \<leftarrow> drop_stack_frame t s3; Some (abandon t s4) }
                  else do {
                    (ok, frames, s4) \<leftarrow> binary_pages user_pdt (unat pages_needed) 0 [] s3;
                    if \<not> ok then abandon_binary t frames s4
                    else do {
                      s5 \<leftarrow> copy_binary data binary_size frames 0 s4;
                      finish_binary t user_pdt frames argv envp s5
                    }
                  }
                }
              }
          })"

section \<open>Scheduling\<close>

text \<open>A running task goes to the end of the ready list.\<close>

definition requeue_current :: "'a task_state_scheme \<Rightarrow> 'a task_state_scheme" where
  "requeue_current s =
     (case current_task s of
        Some t \<Rightarrow>
          if tstate (task_table s t) = TASK_RUNNING
          then task_enqueue t (set_task t (\<lambda>k. k\<lparr>tstate := TASK_READY\<rparr>) s)
          else s
      | None \<Rightarrow> s)"

text \<open>The result of the scheduling functions is the task whose context is to be resumed.\<close>

definition task_schedule :: "'a task_state_scheme \<Rightarrow> nat option \<times> 'a task_state_scheme" where
  "task_schedule s = task_select_next (requeue_current s)"

definition task_yield :: "'a task_state_scheme \<Rightarrow> nat option \<times> 'a task_state_scheme" where
  "task_yield s = task_select_next (requeue_current s)"

definition task_exit :: "u32 \<Rightarrow> 'a task_state_scheme \<Rightarrow> 'a task_state_scheme option" where
  "task_exit status s = do { s1 \<leftarrow> task_terminate status s; Some (snd (task_schedule s1)) }"

definition task_tick :: "'a task_state_scheme \<Rightarrow> nat option \<times> 'a task_state_scheme" where
  "task_tick s = (
     let s1 = task_wake_waiting_tasks s in
     case current_task s1 of
       None \<Rightarrow> (None, s1)
     | Some t \<Rightarrow>
         if tstate (task_table s1 t) \<noteq> TASK_RUNNING then (None, s1)
         else
           let s2 = set_task t (\<lambda>k. k\<lparr>ticks := ticks k + 1\<rparr>) s1 in
           if ticks (task_table s2 t) \<ge> quantum (task_table s2 t)
           then task_select_next (task_enqueue t (set_task t (\<lambda>k. k\<lparr>tstate := TASK_READY\<rparr>) s2))
           else (None, s2))"

definition task_get_current :: "'a task_state_scheme \<Rightarrow> nat option" where
  "task_get_current s = current_task s"

definition task_set_current :: "nat option \<Rightarrow> 'a task_state_scheme \<Rightarrow> 'a task_state_scheme" where
  "task_set_current t s =
     (if t = current_task s then s
      else
        let s1 = (case t of
                    Some k \<Rightarrow> if tstate (task_table s k) = TASK_READY then task_remove k s else s
                  | None \<Rightarrow> s);
            s2 = s1\<lparr>current_task := t\<rparr>;
            s3 = (case t of
                    Some k \<Rightarrow> set_task k (\<lambda>k. k\<lparr>tstate := TASK_RUNNING, ticks := 0\<rparr>) s2
                  | None \<Rightarrow> s2) in
        load_task_cr3 (task_update_tss s3))"

definition task_get_at_index :: "u32 \<Rightarrow> nat option" where
  "task_get_at_index index = (if index \<ge> of_nat TASK_MAX then None else Some (unat index))"

end
