(* ===== verification/Footprint.thy ===== *)
theory Footprint
  imports Task
begin

text \<open>
  What the memory operations leave alone: accesses to virtual memory change physical memory and
  CR3 only, the frame allocator changes its bitmap besides. The tables of the scheduler are in
  the rest of the state, so every creator of a task changes them by its own stores only.
\<close>

section \<open>Reads\<close>

lemma post_reads [wp]:
  "(\<And>x. P1 x) \<Longrightarrow> post P1 (vload8 v s)" "(\<And>x. P2 x) \<Longrightarrow> post P2 (vload32 v s)"
  "(\<And>x. P3 x) \<Longrightarrow> post P3 (byte_at b off)" "(\<And>x. P4 x) \<Longrightarrow> post P4 (strlen_from p n s)"
  "(\<And>x. P5 x) \<Longrightarrow> post P5 (count_args p s)" "(\<And>x. P6 x) \<Longrightarrow> post P6 (vmm_get_phys_addr v s)"
  "(\<And>x. P7 x) \<Longrightarrow> post P7 (reg rs m)" "(\<And>x. P8 x) \<Longrightarrow> post P8 (read_ehdr b)"
  by (simp_all add: post_def)

lemma post_header_reads [wp]:
  "(\<And>x. P1 x) \<Longrightarrow> post P1 (program_header e b i)" "(\<And>x. P2 x) \<Longrightarrow> post P2 (section_header e b i)"
  "(\<And>x. P3 x) \<Longrightarrow> post P3 (read_sym b off)" "(\<And>x. P4 x) \<Longrightarrow> post P4 (read_rel b off)"
  "(\<And>x. P5 x) \<Longrightarrow> post P5 (resolve_symbol_address y e b)"
  "(\<And>x. P6 x) \<Longrightarrow> post P6 (find_tables e b o1 o2 n i a c)"
  by (simp_all add: post_def)

section \<open>Writes to memory\<close>

definition keeps :: "'a machine_scheme \<Rightarrow> 'a machine_scheme \<Rightarrow> bool" where
  "keeps s s' \<longleftrightarrow> machine.more s' = machine.more s"

lemma keeps_refl [simp, intro]: "keeps s s"
  by (simp add: keeps_def)

lemma keeps_trans [trans]: "keeps s t \<Longrightarrow> keeps t u \<Longrightarrow> keeps s u"
  by (simp add: keeps_def)

lemma keeps_load_cr3 [simp]: "keeps s (load_cr3 c t) = keeps s t" "keeps (load_cr3 c s) t = keeps s t"
  by (simp_all add: keeps_def load_cr3_def)

lemma post_keeps_trans: "keeps s t \<Longrightarrow> post (keeps t) m \<Longrightarrow> post (keeps s) m"
  by (auto simp: post_def dest: keeps_trans)

lemma post_keeps2_trans:
  "keeps s t \<Longrightarrow> post (\<lambda>(r, u). keeps t u) m \<Longrightarrow> post (\<lambda>(r, u). keeps s u) m"
  by (auto simp: post_def dest: keeps_trans)

lemma post_memory:
  assumes "post (keeps s) m" "\<And>t. keeps s t \<Longrightarrow> P t"
  shows "post P m"
  using assms by (auto simp: post_def)

lemma post_memory2:
  assumes "post (\<lambda>(r, t). keeps s t) m" "\<And>r t. keeps s t \<Longrightarrow> P (r, t)"
  shows "post P m"
  using assms by (auto simp: post_def)

lemma vstore_keeps: "post (keeps s) (vstore8 v b s)" "post (keeps s) (vstore32 v x s)"
  by (auto simp: post_def keeps_def vstore8_def vstore32_def bind_eq_Some_conv)

lemmas vstore_wp [wp] = vstore_keeps [THEN post_memory]

lemma memset_keeps: "post (keeps s) (memset p c n s)"
  by (induction n arbitrary: p s) (auto intro!: wp intro: post_keeps_trans)

lemma memcpy_keeps: "post (keeps s) (memcpy d p n s)"
  by (induction n arbitrary: d p s) (auto intro!: wp intro: post_keeps_trans)

lemma copy_in_keeps: "post (keeps s) (copy_in b off d n s)"
  by (induction n arbitrary: off d s) (auto intro!: wp intro: post_keeps_trans)

lemma store_bytes_keeps: "post (keeps s) (store_bytes d bs s)"
  by (induction bs arbitrary: d s) (auto intro!: wp intro: post_keeps_trans)

lemma vmm_copy_pdes_keeps: "post (keeps s) (vmm_copy_pdes i n s)"
  by (induction n arbitrary: i s) (auto intro!: wp intro: post_keeps_trans)

lemma copy_arg_keeps: "post (keeps s) (copy_arg p d i n s)"
  by (induction n arbitrary: i s) (auto intro!: wp intro: post_keeps_trans)

lemma push_words_keeps: "post (\<lambda>(r, t). keeps s t) (push_words ws off s)"
  by (induction ws arbitrary: off s) (auto intro!: wp intro: post_keeps2_trans)

lemma vmm_unmap_page_keeps: "post (keeps s) (vmm_unmap_page v s)"
  unfolding vmm_unmap_page_def by (intro wp)

lemmas memory_wp [wp] =
  memset_keeps [THEN post_memory] memcpy_keeps [THEN post_memory] copy_in_keeps [THEN post_memory]
  store_bytes_keeps [THEN post_memory] vmm_copy_pdes_keeps [THEN post_memory]
  copy_arg_keeps [THEN post_memory] push_words_keeps [THEN post_memory2]
  vmm_unmap_page_keeps [THEN post_memory]

lemma vmm_unmap_page_for_pdt_keeps: "post (keeps s) (vmm_unmap_page_for_pdt p v s)"
  unfolding vmm_unmap_page_for_pdt_def by (intro wp) simp

lemma fill_page_keeps: "post (keeps s) (fill_page b ph v s)"
  unfolding fill_page_def by (intro wp) (auto dest: keeps_trans)

lemma push_strings_keeps: "post (\<lambda>(r, t). keeps s t) (push_strings p v n off ptrs s)"
  by (induction n arbitrary: off ptrs s) (auto intro!: wp intro: post_keeps2_trans)

lemma push_frame_keeps: "post (\<lambda>(r, t). keeps s t) (push_frame c a e ra off s)"
  unfolding push_frame_def by (intro wp) (auto dest: keeps_trans)

lemmas memory_wp2 [wp] =
  vmm_unmap_page_for_pdt_keeps [THEN post_memory] fill_page_keeps [THEN post_memory]
  push_strings_keeps [THEN post_memory2] push_frame_keeps [THEN post_memory2]

lemma stack_image_keeps: "post (\<lambda>(r, t). keeps s t) (stack_image a e ra v s)"
  unfolding stack_image_def by (intro wp) (auto dest: keeps_trans)

lemmas stack_image_wp [wp] = stack_image_keeps [THEN post_memory2]

section \<open>Operations that use the frame allocator\<close>

definition keeps2 :: "'a pmm_state_scheme \<Rightarrow> 'a pmm_state_scheme \<Rightarrow> bool" where
  "keeps2 s s' \<longleftrightarrow> pmm_state.more s' = pmm_state.more s"

lemma keeps2_refl [simp, intro]: "keeps2 s s"
  by (simp add: keeps2_def)

lemma keeps2_trans [trans]: "keeps2 s t \<Longrightarrow> keeps2 t u \<Longrightarrow> keeps2 s u"
  by (simp add: keeps2_def)

lemma keeps_keeps2: "keeps s t \<Longrightarrow> keeps2 s t"
  by (cases s; cases t) (simp add: keeps_def keeps2_def)

lemma keeps2_load_cr3 [simp]: "keeps2 s (load_cr3 c t) = keeps2 s t" "keeps2 (load_cr3 c s) t = keeps2 s t"
  by (simp_all add: keeps2_def load_cr3_def)

lemma more_load_cr3 [simp]: "pmm_state.more (load_cr3 c s) = pmm_state.more s"
  by (simp add: load_cr3_def)

lemma keeps2_step: "keeps2 s t \<Longrightarrow> keeps t u \<Longrightarrow> keeps2 s u"
  by (blast intro: keeps2_trans keeps_keeps2)

lemma post_alloc:
  assumes "post (keeps2 s) m" "\<And>t. keeps2 s t \<Longrightarrow> P t"
  shows "post P m"
  using assms by (auto simp: post_def)

lemma post_alloc2:
  assumes "post (\<lambda>(r, t). keeps2 s t) m" "\<And>r t. keeps2 s t \<Longrightarrow> P (r, t)"
  shows "post P m"
  using assms by (auto simp: post_def)

lemma post_keeps2I: "keeps2 s t \<Longrightarrow> post (keeps2 t) m \<Longrightarrow> post (keeps2 s) m"
  by (auto simp: post_def dest: keeps2_trans)

lemma post_keeps2I2:
  "keeps2 s t \<Longrightarrow> post (\<lambda>(r, u). keeps2 t u) m \<Longrightarrow> post (\<lambda>(r, u). keeps2 s u) m"
  by (auto simp: post_def dest: keeps2_trans)

lemma pmm_alloc_from_keeps: "post (\<lambda>(r, t). keeps2 s t) (pmm_alloc_from i s)"
proof (induction i s rule: pmm_alloc_from.induct)
  case (1 i s)
  have "post (\<lambda>(r, t). keeps2 s t) (do { s1 \<leftarrow> pmm_set_bit i s; Some (i * PAGE_SIZE, s1) })"
    by (auto simp: post_def pmm_set_bit_def Let_def keeps2_def split: if_splits)
  with 1 show ?case
    by (subst pmm_alloc_from.simps) (auto simp: post_def pmm_test_bit_def Let_def split: if_splits)
qed

lemma pmm_alloc_frame_keeps: "post (\<lambda>(r, t). keeps2 s t) (pmm_alloc_frame s)"
  unfolding pmm_alloc_frame_def by (rule pmm_alloc_from_keeps)

lemma pmm_free_frame_keeps: "post (keeps2 s) (pmm_free_frame a s)"
  by (auto simp: post_def pmm_free_frame_def pmm_clear_bit_def Let_def keeps2_def)

lemmas pmm_wp [wp] = pmm_alloc_frame_keeps [THEN post_alloc2] pmm_free_frame_keeps [THEN post_alloc]

lemma vmm_map_page_footprint: "post (keeps2 s) (vmm_map_page v p f s)"
  unfolding vmm_map_page_def Let_def
  by (intro wp) (auto dest!: keeps_keeps2 simp: keeps2_def)

lemma vmm_clone_keeps: "post (\<lambda>(r, t). keeps2 s t) (vmm_clone_kernel_mappings s)"
  unfolding vmm_clone_kernel_mappings_def
  by (intro wp) (auto dest!: keeps_keeps2 simp: keeps2_def)

lemmas vmm_map_wp [wp] = vmm_map_page_footprint [THEN post_alloc] vmm_clone_keeps [THEN post_alloc2]

lemma vmm_map_kernel_page_keeps: "post (keeps2 s) (vmm_map_kernel_page v p s)"
  unfolding vmm_map_kernel_page_def by (rule vmm_map_page_footprint)

lemma vmm_map_page_for_pdt_keeps: "post (keeps2 s) (vmm_map_page_for_pdt d v p f s)"
  unfolding vmm_map_page_for_pdt_def Let_def by (intro wp) simp

lemma vmm_free_user_tables_keeps: "post (keeps2 s) (vmm_free_user_tables i n s)"
proof (induction n arbitrary: i s)
  case (Suc n)
  show ?case unfolding vmm_free_user_tables.simps
    by (intro wp post_keeps2I [OF _ Suc.IH]) (auto dest!: keeps_keeps2 simp: keeps2_def)
qed (simp add: post_def)

lemmas vmm_wp [wp] = vmm_map_kernel_page_keeps [THEN post_alloc] vmm_map_page_for_pdt_keeps [THEN post_alloc]
  vmm_free_user_tables_keeps [THEN post_alloc]

lemma vmm_free_page_directory_keeps: "post (keeps2 s) (vmm_free_page_directory d s)"
  unfolding vmm_free_page_directory_def Let_def
  by (intro wp) (auto dest!: keeps_keeps2 simp: keeps2_def)

lemmas vmm_free_wp [wp] = vmm_free_page_directory_keeps [THEN post_alloc]

text \<open>The ELF loader.\<close>

lemma load_page_keeps: "post (\<lambda>(r, t). keeps2 s t) (load_page b d ph v s)"
  unfolding load_page_def Let_def by (intro wp) (auto dest!: keeps_keeps2 simp: keeps2_def)

lemma relocate_keeps: "post (\<lambda>(r, t). keeps2 s t) (relocate e b sy ta pages rel s)"
  unfolding relocate_def Let_def by (intro wp) (auto dest!: keeps_keeps2 simp: keeps2_def)

lemmas elf_wp [wp] = load_page_keeps [THEN post_alloc2] relocate_keeps [THEN post_alloc2]

lemma relocate_loop_keeps: "post (\<lambda>(r, t). keeps2 s t) (relocate_loop e b sy rs ta pages n j s)"
proof (induction n arbitrary: j s)
  case (Suc n)
  show ?case unfolding relocate_loop.simps
    by (intro wp post_keeps2I2 [OF _ Suc.IH]) auto
qed (simp add: post_def)

lemmas relocate_loop_wp [wp] = relocate_loop_keeps [THEN post_alloc2]

lemma relocate_sections_keeps: "post (\<lambda>(r, t). keeps2 s t) (relocate_sections e b z sy pages n i s)"
proof (induction n arbitrary: i s)
  case (Suc n)
  show ?case unfolding relocate_sections.simps
    by (intro wp post_keeps2I2 [OF _ Suc.IH]) auto
qed (simp add: post_def)

lemma process_relocations_keeps: "post (\<lambda>(r, t). keeps2 s t) (process_relocations e b z sy st pages s)"
  unfolding process_relocations_def using relocate_sections_keeps
  by (auto split: option.splits simp: post_ret)

lemma load_segment_keeps:
  "load_segment b d ph v pe pages s = Some (ok, pages', t) \<Longrightarrow> length pages \<le> 16 \<Longrightarrow>
   keeps2 s t \<and> length pages' \<le> 16"
proof (induction b d ph v pe pages s rule: load_segment.induct)
  case (1 b d ph v pe pages s)
  show ?case
  proof (cases "v < pe \<and> length pages < MAX_USER_CODE_PAGES")
    case True
    then obtain frame u where u: "load_page b d ph v s = Some (frame, u)"
      using 1(2) by (subst (asm) load_segment.simps) (auto simp: bind_eq_Some_conv)
    have k: "keeps2 s u" using postD [OF load_page_keeps u] by simp
    show ?thesis
    proof (cases "frame = 0")
      case False
      have "load_segment b d ph (v + PAGE_SIZE) pe (pages @ [\<lparr>map_vaddr = v, map_paddr = frame\<rparr>]) u =
          Some (ok, pages', t)"
        using 1(2) True u False by (subst (asm) load_segment.simps) simp
      from 1(1) [OF _ _ u refl False this] show ?thesis
        using True k by (auto simp: MAX_USER_CODE_PAGES_def dest: keeps2_trans)
    qed (use 1(2,3) True u k in \<open>subst (asm) load_segment.simps, auto\<close>)
  qed (use 1(2,3) in \<open>subst (asm) load_segment.simps, auto split: if_splits\<close>)
qed

lemma load_segments_keeps:
  "load_segments e b z d n i pages s = Some (ok, pages', t) \<Longrightarrow> length pages \<le> 16 \<Longrightarrow>
   keeps2 s t \<and> length pages' \<le> 16"
proof (induction n arbitrary: i pages s)
  case (Suc n)
  from Suc.prems(1) obtain h where h: "program_header e b i = Some h" by (auto simp: bind_eq_Some_conv)
  note IH = Suc.IH and P = Suc.prems
  show ?case
  proof (cases h)
    case None
    then show ?thesis using P IH [of "i + 1" pages s] h by simp
  next
    case (Some ph)
    show ?thesis
    proof (cases "p_type ph \<noteq> 1 \<or> p_memsz ph = 0 \<or> p_offset ph + p_filesz ph > z")
      case True
      then show ?thesis using P IH [of "i + 1" pages s] h Some by (auto split: if_splits)
    next
      case False
      then obtain ok1 p1 s1 where s: "load_segment b d ph (page_align_down (p_vaddr ph))
          (page_align_up (p_vaddr ph + p_memsz ph)) pages s = Some (ok1, p1, s1)"
        using P h Some by (auto simp: bind_eq_Some_conv)
      note k = load_segment_keeps [OF s P(2)]
      show ?thesis
      proof (cases ok1)
        case True
        then have "load_segments e b z d n (i + 1) p1 s1 = Some (ok, pages', t)" using P(1) h Some s False by simp
        from IH [OF this] k show ?thesis by (blast intro: keeps2_trans)
      qed (use P(1) h Some s False k in simp)
    qed
  qed
qed simp

lemma free_pages_keeps: "post (keeps2 s) (free_pages ps s)"
  by (induction ps arbitrary: s) (auto intro!: wp intro: post_keeps2I)

lemmas free_pages_wp [wp] = free_pages_keeps [THEN post_alloc]

lemma load_elf_keeps:
  "post (\<lambda>(r, t). keeps2 s t \<and> (\<forall>en fs. r = Some (en, fs) \<longrightarrow> length fs \<le> 16)) (load_elf e z d s)"
proof -
  have segs: "post P (load_segments eh b z d n 0 [] s)"
    if "\<And>ok pages t. keeps2 s t \<Longrightarrow> length pages \<le> 16 \<Longrightarrow> P (ok, pages, t)" for P eh b n
    using that load_segments_keeps [of eh b z d n 0 "[]" s] by (force simp: post_def)
  show ?thesis unfolding load_elf_def
    by (intro wp segs process_relocations_keeps [THEN post_alloc2])
      (auto dest!: keeps_keeps2 simp: keeps2_def split: option.splits)
qed

lemma load_elf_wp [wp]:
  assumes "\<And>r t. keeps2 s t \<Longrightarrow> (\<And>en fs. r = Some (en, fs) \<Longrightarrow> length fs \<le> 16) \<Longrightarrow> P (r, t)"
  shows "post P (load_elf e z d s)"
  using assms load_elf_keeps [of s e z d] by (auto simp: post_def)

end
