(* ===== verification/Scheduler.thy ===== *)
theory Scheduler
  imports Footprint
begin

text \<open>
  Correctness of the scheduler of task.c: the doubly linked ready list refines a list of tasks,
  and the round-robin order gives every ready task its turn.
\<close>

section \<open>Frame lemmas of the table\<close>

lemma set_task_simps [simp]:
  "task_table (set_task t f s) = (task_table s)(t := f (task_table s t))"
  "current_task (set_task t f s) = current_task s"
  "ready_list_head (set_task t f s) = ready_list_head s"
  "ready_list_tail (set_task t f s) = ready_list_tail s"
  "next_pid (set_task t f s) = next_pid s"
  "task_stack_slots (set_task t f s) = task_stack_slots s"
  "pit_ticks (set_task t f s) = pit_ticks s"
  by (simp_all add: set_task_def)

lemma load_cr3_simps [simp]:
  "task_table (load_cr3 c s) = task_table s"
  "current_task (load_cr3 c s) = current_task s"
  "ready_list_head (load_cr3 c s) = ready_list_head s"
  "ready_list_tail (load_cr3 c s) = ready_list_tail s"
  "next_pid (load_cr3 c s) = next_pid s"
  "task_stack_slots (load_cr3 c s) = task_stack_slots s"
  "pit_ticks (load_cr3 c s) = pit_ticks s"
  by (simp_all add: load_cr3_def)

lemma load_task_cr3_simps [simp]:
  "task_table (load_task_cr3 s) = task_table s"
  "current_task (load_task_cr3 s) = current_task s"
  "ready_list_head (load_task_cr3 s) = ready_list_head s"
  "ready_list_tail (load_task_cr3 s) = ready_list_tail s"
  "task_stack_slots (load_task_cr3 s) = task_stack_slots s"
  by (simp_all add: load_task_cr3_def split: option.splits)

lemma task_update_tss_simps [simp]:
  "task_table (task_update_tss s) = task_table s"
  "current_task (task_update_tss s) = current_task s"
  "ready_list_head (task_update_tss s) = ready_list_head s"
  "ready_list_tail (task_update_tss s) = ready_list_tail s"
  "task_stack_slots (task_update_tss s) = task_stack_slots s"
  by (simp_all add: task_update_tss_def split: option.splits)

section \<open>The ready list as a list\<close>

text \<open>The first and last element, or the given value for the empty list.\<close>

definition head_or :: "nat option \<Rightarrow> nat list \<Rightarrow> nat option" where
  "head_or d q = (if q = [] then d else Some (hd q))"

definition last_or :: "nat option \<Rightarrow> nat list \<Rightarrow> nat option" where
  "last_or d q = (if q = [] then d else Some (last q))"

lemma head_or_simps [simp]:
  "head_or d [] = d" "head_or d (x # q) = Some x" "head_or d (q @ r) = head_or (head_or d r) q"
  "last_or d [] = d" "last_or d (x # q) = last_or (Some x) q" "last_or d (q @ r) = last_or (last_or d q) r"
  by (auto simp: head_or_def last_or_def)

lemma head_or_mem: "head_or d q = Some x \<Longrightarrow> d = Some x \<and> q = [] \<or> x \<in> set q"
  by (auto simp: head_or_def split: if_splits)

lemma last_or_mem: "last_or d q = Some x \<Longrightarrow> d = Some x \<and> q = [] \<or> x \<in> set q"
  by (auto simp: last_or_def split: if_splits)

text \<open>
  \<open>linked T p q n\<close>: the tasks of \<open>q\<close> are linked both ways in the table \<open>T\<close>, the predecessor of
  the first is \<open>p\<close> and the successor of the last is \<open>n\<close>.
\<close>

fun linked :: "(nat \<Rightarrow> task) \<Rightarrow> nat option \<Rightarrow> nat list \<Rightarrow> nat option \<Rightarrow> bool" where
  "linked T p [] n \<longleftrightarrow> True"
| "linked T p (x # q) n \<longleftrightarrow> prev_task (T x) = p \<and> next_task (T x) = head_or n q \<and> linked T (Some x) q n"

definition is_ready_list :: "'a task_state_scheme \<Rightarrow> nat list \<Rightarrow> bool" where
  "is_ready_list s q \<longleftrightarrow> distinct q \<and> ready_list_head s = head_or None q
     \<and> ready_list_tail s = last_or None q \<and> linked (task_table s) None q None"

lemma linked_append:
  "linked T p (q @ r) n \<longleftrightarrow> linked T p q (head_or n r) \<and> linked T (last_or p q) r n"
  by (induction T p q n rule: linked.induct) auto

lemma linked_other:
  "(\<And>x. x \<in> set q \<Longrightarrow> next_task (T' x) = next_task (T x) \<and> prev_task (T' x) = prev_task (T x)) \<Longrightarrow>
   linked T' p q n = linked T p q n"
  by (induction T p q n rule: linked.induct) auto

text \<open>A change of the link that leaves the list at its end or at its beginning.\<close>

lemma linked_set_next:
  assumes "linked T p (q @ [x]) n" "x \<notin> set q"
    and "\<And>y. y \<in> set q \<Longrightarrow> next_task (T' y) = next_task (T y) \<and> prev_task (T' y) = prev_task (T y)"
    and "prev_task (T' x) = prev_task (T x)" "next_task (T' x) = n'"
  shows "linked T' p (q @ [x]) n'"
  using assms linked_other [of q T' T] by (auto simp: linked_append)

lemma linked_set_prev:
  assumes "linked T p (x # q) n" "x \<notin> set q"
    and "\<And>y. y \<in> set q \<Longrightarrow> next_task (T' y) = next_task (T y) \<and> prev_task (T' y) = prev_task (T y)"
    and "next_task (T' x) = next_task (T x)" "prev_task (T' x) = p'"
  shows "linked T' p' (x # q) n"
  using assms linked_other [of q T' T] by auto

lemma is_ready_list_unique:
  assumes "is_ready_list s q" "is_ready_list s r"
  shows "q = r"
proof -
  have "linked T p q None \<Longrightarrow> linked T p r None \<Longrightarrow> head_or None q = head_or None r \<Longrightarrow> q = r" for T p
  proof (induction q arbitrary: p r)
    case Nil
    then show ?case by (cases r) auto
  next
    case (Cons x q)
    then obtain r' where r: "r = x # r'" by (cases r) auto
    with Cons show ?case by auto
  qed
  then show ?thesis using assms by (auto simp: is_ready_list_def)
qed

text \<open>\<open>task_enqueue\<close> appends a task that is not in the list.\<close>

lemma task_enqueue_append:
  assumes "is_ready_list s q" "t \<notin> set q"
  shows "is_ready_list (task_enqueue t s) (q @ [t])"
proof (cases q rule: rev_cases)
  case Nil
  then show ?thesis using assms by (auto simp: is_ready_list_def task_enqueue_def Let_def)
next
  case (snoc q' x)
  have x: "x \<noteq> t" "x \<notin> set q'" "t \<notin> set q'" using assms snoc by (auto simp: is_ready_list_def)
  have tl: "ready_list_tail s = Some x" using assms snoc by (simp add: is_ready_list_def)
  have "linked (task_table s) None (q' @ [x]) None" using assms snoc by (simp add: is_ready_list_def)
  then have "linked (task_table (task_enqueue t s)) None (q' @ [x]) (Some t)"
    using x(2) by (rule linked_set_next) (use x in \<open>auto simp: task_enqueue_def Let_def tl\<close>)
  moreover have "next_task (task_table (task_enqueue t s) t) = None"
    "prev_task (task_table (task_enqueue t s) t) = Some x"
    using x by (auto simp: task_enqueue_def Let_def tl)
  moreover have "ready_list_head (task_enqueue t s) = ready_list_head s"
    "ready_list_tail (task_enqueue t s) = Some t" by (auto simp: task_enqueue_def Let_def tl)
  ultimately show ?thesis using assms snoc x
    by (auto simp: is_ready_list_def linked_append)
qed

lemma task_enqueue_table:
  "tstate (task_table (task_enqueue t s) t) = TASK_READY"
  "u \<noteq> t \<Longrightarrow> tstate (task_table (task_enqueue t s) u) = tstate (task_table s u)"
  "current_task (task_enqueue t s) = current_task s"
  by (auto simp: task_enqueue_def Let_def split: option.splits)

text \<open>\<open>task_remove\<close> takes a task out of the list, wherever it stands.\<close>

lemma task_remove_spec:
  assumes "is_ready_list s (q @ t # r)"
  shows "is_ready_list (task_remove t s) (q @ r)"
proof -
  let ?T = "task_table s" and ?T' = "task_table (task_remove t s)"
  have d: "distinct (q @ t # r)" and l: "linked ?T None (q @ t # r) None"
    using assms by (simp_all add: is_ready_list_def)
  have p: "prev_task (?T t) = last_or None q" and n: "next_task (?T t) = head_or None r"
    and lq: "linked ?T None q (Some t)" and lr: "linked ?T (Some t) r None"
    using l by (auto simp: linked_append)
  have mem: "last_or None q \<noteq> Some t" "head_or None r \<noteq> Some t"
    using d last_or_mem [of None q t] head_or_mem [of None r t] by auto
  have links: "next_task (?T' x) = (if Some x = last_or None q then head_or None r else next_task (?T x))"
    "prev_task (?T' x) = (if Some x = head_or None r then last_or None q else prev_task (?T x))"
    if "x \<noteq> t" for x
    using that mem by (auto simp: task_remove_def Let_def p n split: option.splits)
  have "linked ?T' None q (head_or None r)"
  proof (cases q rule: rev_cases)
    case (snoc q' x)
    have other: "y \<noteq> t" "Some y \<noteq> head_or None r" if "y \<in> set q" for y
      using that d head_or_mem [of None r y] by auto
    have same: "next_task (?T' y) = next_task (?T y) \<and> prev_task (?T' y) = prev_task (?T y)"
      if "y \<in> set q'" for y
      using that links [of y] other [of y] d snoc by (auto split: if_splits)
    have x: "x \<notin> set q'" "prev_task (?T' x) = prev_task (?T x)" "next_task (?T' x) = head_or None r"
      using links [of x] other [of x] d snoc by auto
    show ?thesis using linked_set_next [OF lq [unfolded snoc] x(1) same x(2,3)] snoc by simp
  qed simp
  moreover have "linked ?T' (last_or None q) r None"
  proof (cases r)
    case (Cons x r')
    have other: "y \<noteq> t" "Some y \<noteq> last_or None q" if "y \<in> set r" for y
      using that d last_or_mem [of None q y] by auto
    have same: "next_task (?T' y) = next_task (?T y) \<and> prev_task (?T' y) = prev_task (?T y)"
      if "y \<in> set r'" for y
      using that links [of y] other [of y] d Cons by (auto split: if_splits)
    have x: "x \<notin> set r'" "next_task (?T' x) = next_task (?T x)" "prev_task (?T' x) = last_or None q"
      using links [of x] other [of x] d Cons by auto
    show ?thesis using linked_set_prev [OF lr [unfolded Cons] x(1) same x(2,3)] Cons by simp
  qed simp
  moreover have "ready_list_head (task_remove t s) = head_or None (q @ r)"
    "ready_list_tail (task_remove t s) = last_or None (q @ r)"
    using assms mem
    by (auto simp: task_remove_def Let_def p n is_ready_list_def last_or_def head_or_def split: option.splits)
  ultimately show ?thesis using d by (auto simp: is_ready_list_def linked_append)
qed

section \<open>What the list operations leave alone\<close>

text \<open>The part of a task that is not its place in the ready list.\<close>

definition core :: "task \<Rightarrow> task" where
  "core k = k\<lparr>next_task := None, prev_task := None\<rparr>"

lemma core_links [simp]: "core (k\<lparr>next_task := a\<rparr>) = core k" "core (k\<lparr>prev_task := a\<rparr>) = core k"
  by (simp_all add: core_def)

lemma core_eqD:
  assumes "core k = core l"
  shows "tstate k = tstate l" "ttype k = ttype l" "pid k = pid l" "quantum k = quantum l"
    "ticks k = ticks l" "stack_base k = stack_base l" "stack_top k = stack_top l"
    "parent k = parent l" "page_directory_phys k = page_directory_phys l" "wake_tick k = wake_tick l"
    "ctx k = ctx l" "first_child k = first_child l" "next_sibling k = next_sibling l"
  using assms by (cases k; cases l; simp add: core_def)+

lemma core_set_running:
  "core k = core l \<Longrightarrow> core (k\<lparr>tstate := a, ticks := b\<rparr>) = core (l\<lparr>tstate := a, ticks := b\<rparr>)"
  by (cases k; cases l) (simp add: core_def)

lemma task_remove_core: "core (task_table (task_remove t s) u) = core (task_table s u)"
  by (auto simp: task_remove_def Let_def core_def split: option.splits)

lemma task_enqueue_core:
  "core (task_table (task_enqueue t s) u) =
    core (if u = t then (task_table s t)\<lparr>tstate := TASK_READY\<rparr> else task_table s u)"
  by (auto simp: task_enqueue_def Let_def core_def split: option.splits)

lemmas task_remove_fields = core_eqD [OF task_remove_core]
lemmas task_enqueue_fields = core_eqD [OF task_enqueue_core]

lemma list_ops_state [simp]:
  "current_task (task_enqueue t s) = current_task s" "current_task (task_remove t s) = current_task s"
  "task_stack_slots (task_enqueue t s) = task_stack_slots s"
  "task_stack_slots (task_remove t s) = task_stack_slots s"
  "pit_ticks (task_enqueue t s) = pit_ticks s" "pit_ticks (task_remove t s) = pit_ticks s"
  by (auto simp: task_enqueue_def task_remove_def Let_def split: option.splits)

lemma is_ready_list_set_task:
  assumes "t \<in> set q \<Longrightarrow> next_task (f (task_table s t)) = next_task (task_table s t)
      \<and> prev_task (f (task_table s t)) = prev_task (task_table s t)"
  shows "is_ready_list (set_task t f s) q = is_ready_list s q"
proof -
  have "linked (task_table (set_task t f s)) None q None = linked (task_table s) None q None"
    using assms by (intro linked_other) auto
  then show ?thesis by (simp add: is_ready_list_def)
qed

lemma is_ready_list_cong:
  assumes "task_table s' = task_table s" "ready_list_head s' = ready_list_head s"
    "ready_list_tail s' = ready_list_tail s"
  shows "is_ready_list s' q = is_ready_list s q"
  using assms by (simp add: is_ready_list_def)

section \<open>The scheduling invariant\<close>

definition ready_set :: "'a task_state_scheme \<Rightarrow> nat set" where
  "ready_set s = {t. t < TASK_MAX \<and> tstate (task_table s t) = TASK_READY}"

text \<open>
  The ready list holds exactly the tasks in state READY, a task in state RUNNING is the current
  one. The tasks in \<open>X\<close> are being created: they are in state READY and not yet in the list.
\<close>

definition sched :: "nat set \<Rightarrow> 'a task_state_scheme \<Rightarrow> nat list \<Rightarrow> bool" where
  "sched X s q \<longleftrightarrow> is_ready_list s q \<and> set q = ready_set s - X
     \<and> (\<forall>t < TASK_MAX. tstate (task_table s t) = TASK_RUNNING \<longrightarrow> current_task s = Some t)
     \<and> (\<forall>t. current_task s = Some t \<longrightarrow> t < TASK_MAX)"

definition idle :: "'a task_state_scheme \<Rightarrow> bool" where
  "idle s \<longleftrightarrow> (\<forall>t < TASK_MAX. tstate (task_table s t) \<noteq> TASK_RUNNING)"

lemma schedD:
  assumes "sched X s q"
  shows "is_ready_list s q" "set q = ready_set s - X" "distinct q"
    "\<And>t. t < TASK_MAX \<Longrightarrow> tstate (task_table s t) = TASK_RUNNING \<Longrightarrow> current_task s = Some t"
    "\<And>t. current_task s = Some t \<Longrightarrow> t < TASK_MAX"
    "\<And>t. t \<in> set q \<Longrightarrow> t < TASK_MAX \<and> tstate (task_table s t) = TASK_READY"
proof -
  show l: "is_ready_list s q" and q: "set q = ready_set s - X" using assms by (simp_all add: sched_def)
  show "distinct q" using l by (simp add: is_ready_list_def)
  show "\<And>t. t < TASK_MAX \<Longrightarrow> tstate (task_table s t) = TASK_RUNNING \<Longrightarrow> current_task s = Some t"
    "\<And>t. current_task s = Some t \<Longrightarrow> t < TASK_MAX" using assms unfolding sched_def by blast+
  show "\<And>t. t \<in> set q \<Longrightarrow> t < TASK_MAX \<and> tstate (task_table s t) = TASK_READY"
    unfolding q ready_set_def by blast
qed

lemma schedI:
  assumes "is_ready_list s q" "set q = ready_set s - X"
    "\<And>t. t < TASK_MAX \<Longrightarrow> tstate (task_table s t) = TASK_RUNNING \<Longrightarrow> current_task s = Some t"
    "\<And>t. current_task s = Some t \<Longrightarrow> t < TASK_MAX"
  shows "sched X s q"
  using assms unfolding sched_def by blast

lemma sched_cong:
  assumes "task_table s' = task_table s" "ready_list_head s' = ready_list_head s"
    "ready_list_tail s' = ready_list_tail s" "current_task s' = current_task s"
  shows "sched X s' q = sched X s q"
  using assms is_ready_list_cong [of s' s q] by (simp add: sched_def ready_set_def)

text \<open>A task outside the list changes to a state that is neither READY nor RUNNING.\<close>

lemma sched_park:
  assumes "sched X s q" "t \<notin> set q" "tstate (f (task_table s t)) \<noteq> TASK_READY"
    "tstate (f (task_table s t)) \<noteq> TASK_RUNNING"
  shows "sched (X - {t}) (set_task t f s) q"
proof -
  have r: "ready_set (set_task t f s) = ready_set s - {t}" using assms(3) by (auto simp: ready_set_def)
  show ?thesis
  proof (rule schedI)
    show "is_ready_list (set_task t f s) q"
      using assms(2) schedD(1) [OF assms(1)] is_ready_list_set_task [of t q f s] by simp
    show "set q = ready_set (set_task t f s) - (X - {t})"
      using r schedD(2) [OF assms(1)] assms(2) by blast
    show "current_task (set_task t f s) = Some u"
      if "u < TASK_MAX" "tstate (task_table (set_task t f s) u) = TASK_RUNNING" for u
      using that assms(4) schedD(4) [OF assms(1), of u] by (simp split: if_splits)
  qed (auto dest: schedD(5) [OF assms(1)])
qed

text \<open>A change of other fields of a task.\<close>

lemma sched_set_field:
  assumes "sched X s q" "tstate (f (task_table s t)) = tstate (task_table s t)"
    "next_task (f (task_table s t)) = next_task (task_table s t)"
    "prev_task (f (task_table s t)) = prev_task (task_table s t)"
  shows "sched X (set_task t f s) q"
proof -
  have r: "ready_set (set_task t f s) = ready_set s" using assms(2) by (auto simp: ready_set_def)
  show ?thesis
  proof (rule schedI)
    show "is_ready_list (set_task t f s) q"
      using assms(3,4) schedD(1) [OF assms(1)] by (simp add: is_ready_list_set_task)
    show "set q = ready_set (set_task t f s) - X" using r schedD(2) [OF assms(1)] by simp
    show "current_task (set_task t f s) = Some u"
      if "u < TASK_MAX" "tstate (task_table (set_task t f s) u) = TASK_RUNNING" for u
      using that assms(2) schedD(4) [OF assms(1), of u] by (simp split: if_splits)
  qed (auto dest: schedD(5) [OF assms(1)])
qed

text \<open>A task outside the list is made READY and appended.\<close>

lemma sched_enqueue:
  assumes "sched X s q" "t \<notin> set q" "t < TASK_MAX"
  shows "sched (X - {t}) (task_enqueue t (set_task t f s)) (q @ [t])"
proof -
  let ?s = "task_enqueue t (set_task t f s)"
  have st: "tstate (task_table ?s u) = (if u = t then TASK_READY else tstate (task_table s u))" for u
    by (simp add: task_enqueue_fields)
  have "is_ready_list ?s (q @ [t])"
    using assms(2) schedD(1) [OF assms(1)] is_ready_list_set_task [of t q f s]
    by (intro task_enqueue_append) simp_all
  moreover have "ready_set ?s = insert t (ready_set s)" using assms(3) by (auto simp: ready_set_def st)
  then have "set (q @ [t]) = ready_set ?s - (X - {t})" using schedD(2) [OF assms(1)] by auto
  moreover have "current_task ?s = Some u" if "u < TASK_MAX" "tstate (task_table ?s u) = TASK_RUNNING" for u
    using that schedD(4) [OF assms(1), of u] by (simp add: st split: if_splits)
  ultimately show ?thesis by (rule schedI) (auto dest: schedD(5) [OF assms(1)])
qed

lemma sched_enqueue_idle:
  assumes "idle s \<or> current_task s = Some t \<and> sched X s q"
  shows "idle (task_enqueue t (set_task t f s))"
  using assms by (auto simp: idle_def task_enqueue_fields dest: schedD(4))

lemma task_select_next_None: "ready_list_head s = None \<Longrightarrow> task_select_next s = (None, s)"
  by (simp add: task_select_next_def)

lemma task_select_next_sched:
  assumes "sched X s (n # q)" "idle s"
  shows "fst (task_select_next s) = Some n" "sched X (snd (task_select_next s)) q"
    "current_task (snd (task_select_next s)) = Some n"
    "core (task_table (snd (task_select_next s)) u) =
      core (if u = n then (task_table s n)\<lparr>tstate := TASK_RUNNING, ticks := 0\<rparr> else task_table s u)"
proof -
  let ?s = "snd (task_select_next s)"
  have h: "ready_list_head s = Some n" using schedD(1) [OF assms(1)] by (simp add: is_ready_list_def)
  then show "fst (task_select_next s) = Some n" and c: "current_task ?s = Some n"
    by (simp_all add: task_select_next_def Let_def)
  have T: "task_table ?s = (task_table (task_remove n s))
      (n := (task_table (task_remove n s) n)\<lparr>tstate := TASK_RUNNING, ticks := 0\<rparr>)"
    using h by (simp add: task_select_next_def Let_def)
  show k: "core (task_table ?s u) =
      core (if u = n then (task_table s n)\<lparr>tstate := TASK_RUNNING, ticks := 0\<rparr> else task_table s u)" for u
    by (simp add: T core_set_running [OF task_remove_core] task_remove_core)
  have l: "is_ready_list (task_remove n s) q"
    using task_remove_spec [of s "[]" n q] schedD(1) [OF assms(1)] by simp
  have n: "n \<notin> set q" "n < TASK_MAX" using schedD(3,6) [OF assms(1)] by auto
  have "is_ready_list ?s q = is_ready_list
      (set_task n (\<lambda>k. k\<lparr>tstate := TASK_RUNNING, ticks := 0\<rparr>) (task_remove n s)) q"
    by (rule is_ready_list_cong) (use h in \<open>simp_all add: task_select_next_def Let_def\<close>)
  also have "\<dots>" using l by (simp add: is_ready_list_set_task)
  finally have rl: "is_ready_list ?s q" .
  have st: "tstate (task_table ?s u) = (if u = n then TASK_RUNNING else tstate (task_table s u))" for u
    using core_eqD(1) [OF k] by simp
  have "ready_set ?s = ready_set s - {n}" by (auto simp: ready_set_def st)
  then have rs: "set q = ready_set ?s - X" using schedD(2) [OF assms(1)] n(1) by auto
  have "current_task ?s = Some u" if "u < TASK_MAX" "tstate (task_table ?s u) = TASK_RUNNING" for u
    using that assms(2) c by (simp add: idle_def st split: if_splits)
  with rl rs show "sched X ?s q" by (rule schedI) (use c n in simp_all)
qed

section \<open>The scheduling functions\<close>

text \<open>The task that \<open>requeue_current\<close> appends.\<close>

definition running_list :: "'a task_state_scheme \<Rightarrow> nat list" where
  "running_list s =
     (case current_task s of
        Some t \<Rightarrow> if tstate (task_table s t) = TASK_RUNNING then [t] else []
      | None \<Rightarrow> [])"

lemma requeue_sched:
  assumes "sched {} s q"
  shows "sched {} (requeue_current s) (q @ running_list s)" "idle (requeue_current s)"
    "core (task_table (requeue_current s) u) =
      core (if u \<in> set (running_list s) then (task_table s u)\<lparr>tstate := TASK_READY\<rparr> else task_table s u)"
proof (atomize (full), cases "running_list s")
  case Nil
  then have "requeue_current s = s" by (auto simp: running_list_def requeue_current_def split: option.splits if_splits)
  moreover have "idle s" using Nil schedD(4) [OF assms] by (fastforce simp: running_list_def idle_def)
  ultimately show "sched {} (requeue_current s) (q @ running_list s) \<and> idle (requeue_current s) \<and>
    core (task_table (requeue_current s) u) =
      core (if u \<in> set (running_list s) then (task_table s u)\<lparr>tstate := TASK_READY\<rparr> else task_table s u)"
    using assms Nil by simp
next
  case (Cons t r)
  then have t: "current_task s = Some t" "tstate (task_table s t) = TASK_RUNNING" "r = []"
    by (auto simp: running_list_def split: option.splits if_splits)
  let ?s = "task_enqueue t (set_task t (\<lambda>k. k\<lparr>tstate := TASK_READY\<rparr>) s)"
  have "requeue_current s = ?s" using t by (simp add: requeue_current_def)
  moreover have "t \<notin> set q" using schedD(6) [OF assms, of t] t by auto
  moreover have "idle ?s" using assms t by (intro sched_enqueue_idle) blast
  ultimately show "sched {} (requeue_current s) (q @ running_list s) \<and> idle (requeue_current s) \<and>
    core (task_table (requeue_current s) u) =
      core (if u \<in> set (running_list s) then (task_table s u)\<lparr>tstate := TASK_READY\<rparr> else task_table s u)"
    using sched_enqueue [OF assms, of t] schedD(5) [OF assms t(1)] t Cons by (simp add: task_enqueue_core)
qed

lemma schedule_sched:
  assumes "sched {} s q"
  shows "(case q @ running_list s of
            [] \<Rightarrow> task_schedule s = (None, requeue_current s) \<and> sched {} (snd (task_schedule s)) []
          | n # r \<Rightarrow> fst (task_schedule s) = Some n \<and> sched {} (snd (task_schedule s)) r
              \<and> current_task (snd (task_schedule s)) = Some n
              \<and> tstate (task_table (snd (task_schedule s)) n) = TASK_RUNNING)"
proof (cases "q @ running_list s")
  case Nil
  then show ?thesis using requeue_sched [OF assms] schedD(1) [of "{}" "requeue_current s" "[]"]
    by (simp add: task_schedule_def task_select_next_None is_ready_list_def)
next
  case (Cons n r)
  note sel = task_select_next_sched [of "{}" "requeue_current s" n r]
  show ?thesis using requeue_sched(1,2) [OF assms] sel core_eqD(1) [OF sel(4)] unfolding Cons
    by (simp add: task_schedule_def)
qed

lemma task_yield_eq: "task_yield s = task_schedule s"
  by (simp add: task_yield_def task_schedule_def)

text \<open>Waking: the tasks whose time has come join the list, in the order of the table.\<close>

definition due :: "u32 \<Rightarrow> task \<Rightarrow> bool" where
  "due now k \<longleftrightarrow> tstate k = TASK_WAITING \<and> wake_tick k \<noteq> 0 \<and> wake_tick k \<le> now"

definition awake :: "u32 \<Rightarrow> task \<Rightarrow> task" where
  "awake now k = (if due now k then k\<lparr>wake_tick := 0, tstate := TASK_READY\<rparr> else k)"

lemma awake_idem [simp]: "\<not> due now (awake now k)" "awake now (awake now k) = awake now k"
  by (auto simp: awake_def due_def)

lemma core_awake: "core k = core l \<Longrightarrow> core (awake now k) = core (awake now l)"
  by (cases k; cases l) (simp add: core_def awake_def due_def)

lemma due_core: "core k = core l \<Longrightarrow> due now k = due now l"
  by (simp add: due_def core_eqD(1,10) [of k l])

text \<open>One turn of the loop.\<close>

definition wake_one :: "u32 \<Rightarrow> nat \<Rightarrow> 'a task_state_scheme \<Rightarrow> 'a task_state_scheme" where
  "wake_one now i s =
     (if due now (task_table s i)
      then task_enqueue i (set_task i (\<lambda>k. k\<lparr>tstate := TASK_READY, wake_tick := 0\<rparr>) s) else s)"

lemma wake_loop_Suc: "wake_loop now (Suc n) i s = wake_loop now n (Suc i) (wake_one now i s)"
  by (simp add: wake_one_def due_def Let_def)

lemma wake_one_core:
  "core (task_table (wake_one now i s) u) = core (if u = i then awake now (task_table s u) else task_table s u)"
  by (simp add: wake_one_def task_enqueue_core awake_def)

lemma wake_one_sched:
  assumes "sched {} s q" "i < TASK_MAX"
  shows "sched {} (wake_one now i s) (q @ (if due now (task_table s i) then [i] else []))"
proof (cases "due now (task_table s i)")
  case True
  have "i \<notin> set q" using schedD(6) [OF assms(1), of i] True by (auto simp: due_def)
  then show ?thesis using sched_enqueue [OF assms(1), of i] assms(2) True by (simp add: wake_one_def)
qed (use assms in \<open>simp add: wake_one_def\<close>)

lemma wake_one_state [simp]:
  "current_task (wake_one now i s) = current_task s" "pit_ticks (wake_one now i s) = pit_ticks s"
  by (simp_all add: wake_one_def)

lemma wake_one_due: "u \<noteq> i \<Longrightarrow> due now (task_table (wake_one now i s) u) = due now (task_table s u)"
  using due_core [OF wake_one_core, of now now i s u] by simp

lemma wake_loop_state [simp]:
  "current_task (wake_loop now n i s) = current_task s" "pit_ticks (wake_loop now n i s) = pit_ticks s"
  by (induction n arbitrary: i s) (simp_all add: wake_loop_Suc del: wake_loop.simps(2))

lemma wake_loop_core:
  "core (task_table (wake_loop now n i s) u) =
    core (if i \<le> u \<and> u < i + n then awake now (task_table s u) else task_table s u)"
proof (induction n arbitrary: i s)
  case (Suc n)
  note ih = Suc.IH [of "Suc i" "wake_one now i s", folded wake_loop_Suc]
  show ?case
  proof (cases "u = i")
    case True
    then show ?thesis using ih wake_one_core [of now i s u] by simp
  next
    case False
    then have "Suc i \<le> u \<and> u < Suc i + n \<longleftrightarrow> i \<le> u \<and> u < i + Suc n" by arith
    then show ?thesis using False ih wake_one_core [of now i s u] core_awake [OF wake_one_core, of now now i s u]
      by (simp del: wake_loop.simps)
  qed
qed auto

lemma wake_loop_sched:
  assumes "sched {} s q" "i + n \<le> TASK_MAX"
  shows "sched {} (wake_loop now n i s) (q @ filter (\<lambda>t. due now (task_table s t)) [i ..< i + n])"
  using assms
proof (induction n arbitrary: i s q)
  case (Suc n)
  let ?t = "wake_one now i s"
  have up: "[i ..< i + Suc n] = i # [Suc i ..< Suc i + n]" by (simp add: upt_rec)
  have "sched {} ?t (q @ (if due now (task_table s i) then [i] else []))"
    using Suc.prems by (intro wake_one_sched) simp_all
  note ih = Suc.IH [OF this, of "Suc i", folded wake_loop_Suc]
  have "filter (\<lambda>t. due now (task_table ?t t)) [Suc i ..< Suc i + n] =
      filter (\<lambda>t. due now (task_table s t)) [Suc i ..< Suc i + n]"
    by (intro filter_cong) (auto simp: wake_one_due)
  then show ?case using ih Suc.prems(2) unfolding up by (simp del: wake_loop.simps split: if_splits)
qed simp

lemma task_wake_sched:
  assumes "sched {} s q"
  obtains w where "sched {} (task_wake_waiting_tasks s) (q @ w)"
    "current_task (task_wake_waiting_tasks s) = current_task s"
    "\<And>u. u < TASK_MAX \<Longrightarrow> core (task_table (task_wake_waiting_tasks s) u) =
      core (awake (pit_ticks s) (task_table s u))"
    "w = filter (\<lambda>t. due (pit_ticks s) (task_table s t)) [0 ..< TASK_MAX]"
  using wake_loop_sched [OF assms, of 0 TASK_MAX "pit_ticks s"] wake_loop_core [of "pit_ticks s" TASK_MAX 0 s] that
  by (simp add: task_wake_waiting_tasks_def timer_get_ticks_def)

section \<open>Round robin\<close>

text \<open>
  The contract of a preemptive round-robin scheduler with quantum \<open>Q\<close>: \<open>runs s t m q\<close> says that
  task \<open>t\<close> runs, has used \<open>m\<close> ticks of its turn, and \<open>q\<close> waits. A tick may add tasks at the end;
  at the end of the turn the task goes behind all of them.
\<close>

locale preemptive =
  fixes runs :: "'s \<Rightarrow> 't \<Rightarrow> nat \<Rightarrow> 't list \<Rightarrow> bool"
    and tick :: "'s \<Rightarrow> 's"
    and Q :: nat
  assumes stay: "runs s t m q \<Longrightarrow> Suc m < Q \<Longrightarrow> \<exists>w. runs (tick s) t (Suc m) (q @ w)"
    and switch: "runs s t m q \<Longrightarrow> Suc m = Q \<Longrightarrow>
      \<exists>w. runs (tick s) (hd (q @ w @ [t])) 0 (tl (q @ w @ [t]))"
begin

lemma turn_ends:
  assumes "runs s t m q" "m + n < Q"
  shows "\<exists>w. runs ((tick ^^ n) s) t (m + n) (q @ w)"
  using assms(2)
proof (induction n)
  case 0
  then show ?case using assms(1) by (auto intro: exI [of _ "[]"])
next
  case (Suc n)
  then obtain w where "runs ((tick ^^ n) s) t (m + n) (q @ w)" by auto
  from stay [OF this] Suc.prems show ?case by auto
qed

lemma next_turn:
  assumes "runs s t m q" "m < Q"
  shows "\<exists>w. runs ((tick ^^ (Q - m)) s) (hd (q @ w @ [t])) 0 (tl (q @ w @ [t]))"
proof -
  obtain w where "runs ((tick ^^ (Q - m - 1)) s) t (m + (Q - m - 1)) (q @ w)"
    using turn_ends [OF assms(1), of "Q - m - 1"] assms(2) by auto
  moreover have "Suc (m + (Q - m - 1)) = Q" "Suc (Q - m - 1) = Q - m" using assms(2) by auto
  ultimately obtain v where "runs (tick ((tick ^^ (Q - m - 1)) s))
      (hd ((q @ w) @ v @ [t])) 0 (tl ((q @ w) @ v @ [t]))"
    using switch by blast
  then show ?thesis using \<open>Suc (Q - m - 1) = Q - m\<close>
    by (intro exI [of _ "w @ v"]) (metis append.assoc comp_apply funpow.simps(2))
qed

text \<open>The task at position \<open>i\<close> of the list runs after \<open>i\<close> full turns and the rest of this one.\<close>

theorem gets_its_turn:
  assumes "runs s t m q" "m < Q" "i < length q"
  shows "\<exists>r. runs ((tick ^^ (Q - m + i * Q)) s) (q ! i) 0 r"
  using assms
proof (induction i arbitrary: s t m q)
  case 0
  then obtain w where "runs ((tick ^^ (Q - m)) s) (hd (q @ w @ [t])) 0 (tl (q @ w @ [t]))"
    using next_turn by blast
  then show ?case using 0(3) by (auto simp: hd_conv_nth nth_append)
next
  case (Suc i)
  then obtain w where w: "runs ((tick ^^ (Q - m)) s) (hd (q @ w @ [t])) 0 (tl (q @ w @ [t]))"
    using next_turn by blast
  have n: "tl (q @ w @ [t]) ! i = q ! Suc i" "i < length (tl (q @ w @ [t]))"
    using Suc.prems(3) by (auto simp: nth_tl nth_append)
  have "\<exists>r. runs ((tick ^^ (Q - 0 + i * Q)) ((tick ^^ (Q - m)) s)) (tl (q @ w @ [t]) ! i) 0 r"
    using w n(2) Suc.prems(2) by (intro Suc.IH [OF w]) auto
  moreover have "(tick ^^ (Q - 0 + i * Q)) ((tick ^^ (Q - m)) s) = (tick ^^ (Q - m + Suc i * Q)) s"
    by (simp add: funpow_add [symmetric, THEN fun_cong, unfolded comp_apply] add.commute)
  ultimately show ?case unfolding n(1) by simp
qed

end

text \<open>One timer interrupt, as far as the scheduler is concerned.\<close>

definition clock_tick :: "'a task_state_scheme \<Rightarrow> 'a task_state_scheme" where
  "clock_tick s = snd (task_tick (timer_handle_interrupt s))"

definition runs :: "'a task_state_scheme \<Rightarrow> nat \<Rightarrow> nat \<Rightarrow> nat list \<Rightarrow> bool" where
  "runs s t m q \<longleftrightarrow> sched {} s q \<and> current_task s = Some t \<and> tstate (task_table s t) = TASK_RUNNING
     \<and> unat (ticks (task_table s t)) = m
     \<and> (\<forall>u < TASK_MAX. tstate (task_table s u) \<noteq> TASK_UNUSED \<longrightarrow>
          quantum (task_table s u) = TASK_QUANTUM_DEFAULT)"

lemma runs_tick:
  assumes "runs s t m q"
  defines "u \<equiv> timer_handle_interrupt s"
  obtains w where "sched {} (task_wake_waiting_tasks u) (q @ w)"
    "current_task (task_wake_waiting_tasks u) = Some t"
    "core (task_table (task_wake_waiting_tasks u) t) = core (task_table s t)"
    "\<And>v. v < TASK_MAX \<Longrightarrow> tstate (task_table (task_wake_waiting_tasks u) v) \<noteq> TASK_UNUSED \<Longrightarrow>
      quantum (task_table (task_wake_waiting_tasks u) v) = TASK_QUANTUM_DEFAULT"
proof -
  have u: "task_table u = task_table s" "current_task u = current_task s" "sched {} u q"
    using assms sched_cong [of u s "{}" q] by (simp_all add: runs_def timer_handle_interrupt_def)
  have r: "current_task s = Some t" "tstate (task_table s t) = TASK_RUNNING" "t < TASK_MAX"
    "\<And>v. v < TASK_MAX \<Longrightarrow> tstate (task_table s v) \<noteq> TASK_UNUSED \<Longrightarrow> quantum (task_table s v) = TASK_QUANTUM_DEFAULT"
    using assms(1) schedD(5) by (auto simp: runs_def)
  from task_wake_sched [OF u(3)] obtain w where w: "sched {} (task_wake_waiting_tasks u) (q @ w)"
    "current_task (task_wake_waiting_tasks u) = current_task u"
    "\<And>v. v < TASK_MAX \<Longrightarrow> core (task_table (task_wake_waiting_tasks u) v) =
      core (awake (pit_ticks u) (task_table u v))" by blast
  show thesis
  proof (rule that [OF w(1)])
    show "current_task (task_wake_waiting_tasks u) = Some t" using w(2) u(2) r(1) by simp
    show "core (task_table (task_wake_waiting_tasks u) t) = core (task_table s t)"
      using w(3) [OF r(3)] r(2) u(1) by (simp add: awake_def due_def)
    show "quantum (task_table (task_wake_waiting_tasks u) v) = TASK_QUANTUM_DEFAULT"
      if "v < TASK_MAX" "tstate (task_table (task_wake_waiting_tasks u) v) \<noteq> TASK_UNUSED" for v
      using core_eqD(1,4) [OF w(3) [OF that(1)]] that r(4) [OF that(1)] u(1)
      by (auto simp: awake_def due_def split: if_splits)
  qed
qed

interpretation rr: preemptive runs clock_tick "unat TASK_QUANTUM_DEFAULT"
proof
  fix s :: "'a task_state_scheme" and t m q
  assume r: "runs s t m q"
  let ?u = "task_wake_waiting_tasks (timer_handle_interrupt s)"
  let ?s2 = "set_task t (\<lambda>k. k\<lparr>ticks := ticks k + 1\<rparr>) ?u"
  obtain w where w: "sched {} ?u (q @ w)" "current_task ?u = Some t"
    "core (task_table ?u t) = core (task_table s t)"
    "\<And>v. v < TASK_MAX \<Longrightarrow> tstate (task_table ?u v) \<noteq> TASK_UNUSED \<Longrightarrow>
      quantum (task_table ?u v) = TASK_QUANTUM_DEFAULT"
    using runs_tick [OF r] by blast
  have k: "tstate (task_table ?u t) = TASK_RUNNING" "unat (ticks (task_table ?u t)) = m" "t < TASK_MAX"
    using core_eqD(1,5) [OF w(3)] r schedD(5) [OF w(1,2)] by (simp_all add: runs_def)
  have qt: "quantum (task_table ?u t) = 5" using w(4) [OF k(3)] k(1) by (simp add: TASK_QUANTUM_DEFAULT_def)
  have s2: "sched {} ?s2 (q @ w)" using w(1) by (rule sched_set_field) simp_all
  have tk: "unat (ticks (task_table ?u t) + 1) = Suc m" if "m < 5"
    using that k(2) unat_add_no_wrap [of "ticks (task_table ?u t)" 1] by simp
  {
    assume m: "Suc m < unat TASK_QUANTUM_DEFAULT"
    then have "\<not> quantum (task_table ?u t) \<le> ticks (task_table ?u t) + 1"
      using tk qt by (simp add: TASK_QUANTUM_DEFAULT_def word_le_nat_alt)
    then have c: "clock_tick s = ?s2" using w(2) k(1) by (simp add: clock_tick_def task_tick_def Let_def)
    have "runs (clock_tick s) t (Suc m) (q @ w)"
      unfolding c runs_def using s2 w(2,4) k tk m by (auto simp: TASK_QUANTUM_DEFAULT_def)
    then show "\<exists>w. runs (clock_tick s) t (Suc m) (q @ w)" by blast
  next
    assume m: "Suc m = unat TASK_QUANTUM_DEFAULT"
    let ?s3 = "task_enqueue t (set_task t (\<lambda>k. k\<lparr>tstate := TASK_READY\<rparr>) ?s2)"
    have "quantum (task_table ?u t) \<le> ticks (task_table ?u t) + 1"
      using tk qt m by (simp add: TASK_QUANTUM_DEFAULT_def word_le_nat_alt)
    then have c: "clock_tick s = snd (task_select_next ?s3)"
      using w(2) k(1) by (simp add: clock_tick_def task_tick_def Let_def)
    have "t \<notin> set (q @ w)" using schedD(6) [OF w(1), of t] k(1) by auto
    then have s3: "sched {} ?s3 ((q @ w) @ [t])" using sched_enqueue [OF s2, of t] k(3) by simp
    have i3: "idle ?s3" using s2 w(2) by (intro sched_enqueue_idle [of ?s2 t "{}" "q @ w"]) simp
    obtain n z where nz: "q @ w @ [t] = n # z" by (cases "q @ w @ [t]") auto
    note sel = task_select_next_sched [OF s3 [unfolded append_assoc nz] i3]
    have "quantum (task_table (snd (task_select_next ?s3)) v) = TASK_QUANTUM_DEFAULT"
      if "v < TASK_MAX" "tstate (task_table (snd (task_select_next ?s3)) v) \<noteq> TASK_UNUSED" for v
    proof -
      have "quantum (task_table ?s3 v) = quantum (task_table ?u v)"
        "tstate (task_table ?s3 v) = TASK_UNUSED \<longleftrightarrow> tstate (task_table ?u v) = TASK_UNUSED"
        using k(1) by (auto simp: task_enqueue_fields)
      moreover have "tstate (task_table ?s3 n) = TASK_READY" using schedD(6) [OF s3, of n] nz by simp
      ultimately show ?thesis using that(2) w(4) [OF that(1)] core_eqD(1,4) [OF sel(4), of v]
        by (auto split: if_splits)
    qed
    then have "runs (clock_tick s) n 0 z"
      unfolding c runs_def using sel core_eqD(1,5) [OF sel(4), of n] by auto
    then show "\<exists>w. runs (clock_tick s) (hd (q @ w @ [t])) 0 (tl (q @ w @ [t]))" using nz by (metis list.sel(1,3))
  }
qed

section \<open>Taking the first task\<close>

lemma task_select_next_list:
  assumes "is_ready_list s q"
  shows "fst (task_select_next s) = head_or None q" "is_ready_list (snd (task_select_next s)) (tl q)"
proof -
  have h: "ready_list_head s = head_or None q" using assms by (simp add: is_ready_list_def)
  show "fst (task_select_next s) = head_or None q" using h by (cases q) (simp_all add: task_select_next_def Let_def)
  show "is_ready_list (snd (task_select_next s)) (tl q)"
  proof (cases q)
    case (Cons n r)
    have "is_ready_list (task_remove n s) r" using task_remove_spec [of s "[]" n r] assms Cons by simp
    moreover have "is_ready_list (snd (task_select_next s)) r = is_ready_list
        (set_task n (\<lambda>k. k\<lparr>tstate := TASK_RUNNING, ticks := 0\<rparr>) (task_remove n s)) r"
      by (rule is_ready_list_cong) (use h Cons in \<open>simp_all add: task_select_next_def Let_def\<close>)
    ultimately show ?thesis using Cons by (simp add: is_ready_list_set_task)
  qed (use assms h in \<open>simp add: task_select_next_None\<close>)
qed

end
