(* ===== verification/TaskInv.thy ===== *)
theory TaskInv
  imports Scheduler
begin

text \<open>
  The invariant of the task table and its preservation by every operation of task.c: the ready
  list holds the READY tasks, kernel stacks of different tasks are in different slots, the frame
  arrays have their declared length and the counters stay inside them.
\<close>

section \<open>Kernel stacks\<close>

definition slot_base :: "nat \<Rightarrow> u32" where
  "slot_base i = KERNEL_STACK_REGION_START + of_nat i * KERNEL_STACK_SIZE"

lemma slot_count: "task_stack_slot_count = 16"
  by (simp add: task_stack_slot_count_def layout TASK_MAX_def)

lemma unat_slot_base: "i < 16 \<Longrightarrow> unat (slot_base i) = 0xC0200000 + i * 0x4000"
proof -
  assume i: "i < 16"
  have "unat (of_nat i * KERNEL_STACK_SIZE) = i * 0x4000"
    using i unat_mult_no_wrap [of "of_nat i" KERNEL_STACK_SIZE] by (simp add: layout unat_of_nat_u32)
  then show ?thesis
    using i unat_add_no_wrap [of KERNEL_STACK_REGION_START "of_nat i * KERNEL_STACK_SIZE"]
    by (simp add: slot_base_def layout)
qed

lemma slot_base_inject: "i < 16 \<Longrightarrow> j < 16 \<Longrightarrow> slot_base i = slot_base j \<longleftrightarrow> i = j"
  by (auto dest: arg_cong [of _ _ unat] simp: unat_slot_base)

lemma slot_base_nonzero: "i < 16 \<Longrightarrow> slot_base i \<noteq> 0"
  using unat_slot_base [of i] by auto

lemma slot_of_base: "i < 16 \<Longrightarrow> (slot_base i - KERNEL_STACK_REGION_START) div KERNEL_STACK_SIZE = of_nat i"
proof -
  assume i: "i < 16"
  have "unat (of_nat i * KERNEL_STACK_SIZE) = i * 0x4000"
    using i unat_mult_no_wrap [of "of_nat i" KERNEL_STACK_SIZE] by (simp add: layout unat_of_nat_u32)
  then show ?thesis using i
    by (simp add: slot_base_def word_unat_eq_iff unat_div layout unat_of_nat_u32)
qed

definition stack_inv :: "'a task_state_scheme \<Rightarrow> bool" where
  "stack_inv s \<longleftrightarrow>
     (\<forall>t < TASK_MAX. stack_base (task_table s t) \<noteq> 0 \<longrightarrow>
        (\<exists>i < 16. stack_base (task_table s t) = slot_base i \<and> task_stack_slots s i)
        \<and> stack_top (task_table s t) = stack_base (task_table s t) + KERNEL_STACK_SIZE)
     \<and> (\<forall>t < TASK_MAX. \<forall>u < TASK_MAX. t \<noteq> u \<longrightarrow> stack_base (task_table s t) \<noteq> 0 \<longrightarrow>
          stack_base (task_table s t) \<noteq> stack_base (task_table s u))"

lemma stack_invI:
  assumes "\<And>t. t < TASK_MAX \<Longrightarrow> stack_base (task_table s t) \<noteq> 0 \<Longrightarrow>
      (\<exists>i < 16. stack_base (task_table s t) = slot_base i \<and> task_stack_slots s i)
      \<and> stack_top (task_table s t) = stack_base (task_table s t) + KERNEL_STACK_SIZE"
    and "\<And>t u. t < TASK_MAX \<Longrightarrow> u < TASK_MAX \<Longrightarrow> t \<noteq> u \<Longrightarrow> stack_base (task_table s t) \<noteq> 0 \<Longrightarrow>
      stack_base (task_table s t) \<noteq> stack_base (task_table s u)"
  shows "stack_inv s"
  using assms unfolding stack_inv_def by blast

lemma stack_invD:
  assumes "stack_inv s" "t < TASK_MAX" "stack_base (task_table s t) \<noteq> 0"
  shows "\<exists>i < 16. stack_base (task_table s t) = slot_base i \<and> task_stack_slots s i"
    "stack_top (task_table s t) = stack_base (task_table s t) + KERNEL_STACK_SIZE"
    "u < TASK_MAX \<Longrightarrow> t \<noteq> u \<Longrightarrow> stack_base (task_table s t) \<noteq> stack_base (task_table s u)"
  using assms unfolding stack_inv_def by blast+

lemma stack_inv_cong:
  assumes "\<And>t. t < TASK_MAX \<Longrightarrow> stack_base (task_table s' t) = stack_base (task_table s t)
      \<and> stack_top (task_table s' t) = stack_top (task_table s t)"
    "task_stack_slots s' = task_stack_slots s"
  shows "stack_inv s' = stack_inv s"
  unfolding stack_inv_def using assms by simp

text \<open>A task gives its slot back, or forgets it.\<close>

lemma stack_inv_drop:
  assumes "stack_inv s" "stack_base (f (task_table s t)) = 0"
  shows "stack_inv (set_task t f s)"
  by (rule stack_invI) (use assms stack_invD [OF assms(1)] in \<open>auto split: if_splits\<close>)

lemma task_free_stack_inv:
  assumes "stack_inv s" "t < TASK_MAX"
  shows "stack_inv (task_free_stack t s)"
proof (cases "stack_base (task_table s t) = 0")
  case False
  then obtain i where i: "i < 16" "stack_base (task_table s t) = slot_base i"
    using stack_invD(1) [OF assms] by blast
  then have T: "task_free_stack t s = set_task t (\<lambda>k. k\<lparr>stack_base := 0, stack_top := 0, stack_size := 0\<rparr>)
      (s\<lparr>task_stack_slots := (task_stack_slots s)(i := False)\<rparr>)"
    using False by (simp add: task_free_stack_def slot_of_base slot_count word_less_nat_alt unat_of_nat_u32)
  let ?s = "task_free_stack t s"
  have u: "stack_base (task_table ?s u) = (if u = t then 0 else stack_base (task_table s u))"
    "u \<noteq> t \<Longrightarrow> stack_top (task_table ?s u) = stack_top (task_table s u)"
    "task_stack_slots ?s = (task_stack_slots s)(i := False)" for u by (simp_all add: T)
  show ?thesis
  proof (rule stack_invI)
    fix u assume ub: "u < TASK_MAX" "stack_base (task_table ?s u) \<noteq> 0"
    then have ut: "u \<noteq> t" "stack_base (task_table s u) \<noteq> 0" by (auto simp: u split: if_splits)
    obtain j where j: "j < 16" "stack_base (task_table s u) = slot_base j" "task_stack_slots s j"
      using stack_invD(1) [OF assms(1) ub(1) ut(2)] by blast
    have "j \<noteq> i" using stack_invD(3) [OF assms(1) ub(1) ut(2) assms(2) ut(1)] i(2) j(2) by auto
    then show "(\<exists>i < 16. stack_base (task_table ?s u) = slot_base i \<and> task_stack_slots ?s i) \<and>
        stack_top (task_table ?s u) = stack_base (task_table ?s u) + KERNEL_STACK_SIZE"
      using j ut stack_invD(2) [OF assms(1) ub(1) ut(2)] by (auto simp: u)
  qed (use stack_invD(3) [OF assms(1)] in \<open>auto simp: u split: if_splits\<close>)
qed (use assms in \<open>simp add: task_free_stack_def\<close>)

text \<open>A task without a stack takes a free slot.\<close>

lemma task_allocate_stack_inv:
  assumes "stack_inv s" "t < TASK_MAX" "stack_base (task_table s t) = 0" "task_allocate_stack t s = (ok, s')"
  shows "stack_inv s'" "ok \<longleftrightarrow> (\<exists>i < 16. \<not> task_stack_slots s i)" "\<not> ok \<Longrightarrow> s' = s"
    "ok \<Longrightarrow> stack_base (task_table s' t) \<noteq> 0"
proof -
  let ?f = "find (\<lambda>i. \<not> task_stack_slots s i) [0 ..< 16]"
  have d: "task_allocate_stack t s = (case ?f of None \<Rightarrow> (False, s)
      | Some i \<Rightarrow> (True, set_task t (\<lambda>k. k\<lparr>stack_base := slot_base i, stack_top := slot_base i + KERNEL_STACK_SIZE,
             stack_size := KERNEL_STACK_SIZE\<rparr>) (s\<lparr>task_stack_slots := (task_stack_slots s)(i := True)\<rparr>)))"
    by (simp add: task_allocate_stack_def slot_count slot_base_def Let_def split: option.splits)
  show "ok \<longleftrightarrow> (\<exists>i < 16. \<not> task_stack_slots s i)" "\<not> ok \<Longrightarrow> s' = s"
    using assms(4) unfolding d by (auto split: option.splits simp: find_None_iff find_Some_iff)
  show "stack_inv s'"
  proof (cases ?f)
    case (Some i)
    then have i: "i < 16" "\<not> task_stack_slots s i" by (auto simp: find_Some_iff)
    have s': "s' = set_task t (\<lambda>k. k\<lparr>stack_base := slot_base i, stack_top := slot_base i + KERNEL_STACK_SIZE,
             stack_size := KERNEL_STACK_SIZE\<rparr>) (s\<lparr>task_stack_slots := (task_stack_slots s)(i := True)\<rparr>)"
      using assms(4) Some unfolding d by simp
    have other: "stack_base (task_table s u) \<noteq> slot_base i" if "u < TASK_MAX" for u
      using stack_invD(1) [OF assms(1) that] i slot_base_inject slot_base_nonzero [OF i(1)] by metis
    have b: "stack_base (task_table s' u) = (if u = t then slot_base i else stack_base (task_table s u))"
      "stack_top (task_table s' u) = (if u = t then slot_base i + KERNEL_STACK_SIZE else stack_top (task_table s u))"
      "task_stack_slots s' j \<longleftrightarrow> j = i \<or> task_stack_slots s j" for u j by (simp_all add: s')
    show ?thesis
    proof (rule stack_invI)
      show "(\<exists>j < 16. stack_base (task_table s' u) = slot_base j \<and> task_stack_slots s' j) \<and>
          stack_top (task_table s' u) = stack_base (task_table s' u) + KERNEL_STACK_SIZE"
        if "u < TASK_MAX" "stack_base (task_table s' u) \<noteq> 0" for u
        using that i stack_invD(1,2) [OF assms(1) that(1)] by (cases "u = t") (auto simp: b)
      show "stack_base (task_table s' u) \<noteq> stack_base (task_table s' v)"
        if "u < TASK_MAX" "v < TASK_MAX" "u \<noteq> v" "stack_base (task_table s' u) \<noteq> 0" for u v
        using that other [OF that(1)] other [OF that(2)] stack_invD(3) [OF assms(1) that(1) _ that(2,3)]
        by (auto simp: b split: if_splits)
    qed
  qed (use assms d in auto)
  show "ok \<Longrightarrow> stack_base (task_table s' t) \<noteq> 0"
    using assms(4) slot_base_nonzero unfolding d by (auto split: option.splits simp: find_Some_iff)
qed

section \<open>The invariant\<close>

definition task_ok :: "task \<Rightarrow> bool" where
  "task_ok k \<longleftrightarrow> length (user_code_frames k) = MAX_USER_CODE_PAGES
     \<and> length (user_heap_frames k) = MAX_USER_HEAP_PAGES
     \<and> unat (user_code_frame_count k) \<le> MAX_USER_CODE_PAGES
     \<and> unat (user_heap_frame_count k) \<le> MAX_USER_HEAP_PAGES
     \<and> (\<forall>p. parent k = Some p \<or> first_child k = Some p \<or> next_sibling k = Some p \<longrightarrow> p < TASK_MAX)
     \<and> (tstate k \<noteq> TASK_UNUSED \<longrightarrow> quantum k = TASK_QUANTUM_DEFAULT)"

definition task_inv :: "nat set \<Rightarrow> 'a task_state_scheme \<Rightarrow> bool" where
  "task_inv X s \<longleftrightarrow> (\<exists>q. sched X s q) \<and> stack_inv s \<and> (\<forall>t < TASK_MAX. task_ok (task_table s t))"

lemma task_okD:
  assumes "task_ok k"
  shows "length (user_code_frames k) = 16" "length (user_heap_frames k) = 16"
    "unat (user_code_frame_count k) \<le> 16" "unat (user_heap_frame_count k) \<le> 16"
    "parent k = Some p \<Longrightarrow> p < TASK_MAX" "first_child k = Some p \<Longrightarrow> p < TASK_MAX"
    "next_sibling k = Some p \<Longrightarrow> p < TASK_MAX"
  using assms by (auto simp: task_ok_def MAX_USER_CODE_PAGES_def MAX_USER_HEAP_PAGES_def)

text \<open>Fields that do not matter, and the ones that do.\<close>

lemma task_ok_fields [simp]:
  "task_ok (k\<lparr>ttype := a0\<rparr>) = task_ok k"
  "task_ok (k\<lparr>ticks := a1\<rparr>) = task_ok k"
  "task_ok (k\<lparr>pid := a2\<rparr>) = task_ok k"
  "task_ok (k\<lparr>stack_base := a3\<rparr>) = task_ok k"
  "task_ok (k\<lparr>stack_top := a4\<rparr>) = task_ok k"
  "task_ok (k\<lparr>stack_size := a5\<rparr>) = task_ok k"
  "task_ok (k\<lparr>user_stack_top := a6\<rparr>) = task_ok k"
  "task_ok (k\<lparr>user_stack_size := a7\<rparr>) = task_ok k"
  "task_ok (k\<lparr>user_stack_paddr := a8\<rparr>) = task_ok k"
  "task_ok (k\<lparr>user_code_paddr := a9\<rparr>) = task_ok k"
  "task_ok (k\<lparr>user_heap_start := a10\<rparr>) = task_ok k"
  "task_ok (k\<lparr>user_heap_size := a11\<rparr>) = task_ok k"
  "task_ok (k\<lparr>page_directory_phys := a12\<rparr>) = task_ok k"
  "task_ok (k\<lparr>parent_pid := a13\<rparr>) = task_ok k"
  "task_ok (k\<lparr>waiting_for_pid := a14\<rparr>) = task_ok k"
  "task_ok (k\<lparr>waiting_status := a15\<rparr>) = task_ok k"
  "task_ok (k\<lparr>wake_tick := a16\<rparr>) = task_ok k"
  "task_ok (k\<lparr>exit_status := a17\<rparr>) = task_ok k"
  "task_ok (k\<lparr>ctx := a18\<rparr>) = task_ok k"
  "task_ok (k\<lparr>next_task := a19\<rparr>) = task_ok k"
  "task_ok (k\<lparr>prev_task := a20\<rparr>) = task_ok k"
  by (simp_all add: task_ok_def)

lemma task_ok_updates:
  "task_ok k \<Longrightarrow> task_ok (k\<lparr>tstate := TASK_UNUSED\<rparr>)"
  "task_ok k \<Longrightarrow> tstate k \<noteq> TASK_UNUSED \<Longrightarrow> task_ok (k\<lparr>tstate := st\<rparr>)"
  "task_ok k \<Longrightarrow> task_ok (k\<lparr>quantum := TASK_QUANTUM_DEFAULT\<rparr>)"
  "task_ok k \<Longrightarrow> length fs = MAX_USER_CODE_PAGES \<Longrightarrow> task_ok (k\<lparr>user_code_frames := fs\<rparr>)"
  "task_ok k \<Longrightarrow> length fs = MAX_USER_HEAP_PAGES \<Longrightarrow> task_ok (k\<lparr>user_heap_frames := fs\<rparr>)"
  "task_ok k \<Longrightarrow> unat n \<le> MAX_USER_CODE_PAGES \<Longrightarrow> task_ok (k\<lparr>user_code_frame_count := n\<rparr>)"
  "task_ok k \<Longrightarrow> unat n \<le> MAX_USER_HEAP_PAGES \<Longrightarrow> task_ok (k\<lparr>user_heap_frame_count := n\<rparr>)"
  "task_ok k \<Longrightarrow> (\<And>c. p = Some c \<Longrightarrow> c < TASK_MAX) \<Longrightarrow> task_ok (k\<lparr>parent := p\<rparr>)"
  "task_ok k \<Longrightarrow> (\<And>c. p = Some c \<Longrightarrow> c < TASK_MAX) \<Longrightarrow> task_ok (k\<lparr>first_child := p\<rparr>)"
  "task_ok k \<Longrightarrow> (\<And>c. p = Some c \<Longrightarrow> c < TASK_MAX) \<Longrightarrow> task_ok (k\<lparr>next_sibling := p\<rparr>)"
  by (auto simp: task_ok_def)

lemma task_ok_core: "core k = core l \<Longrightarrow> task_ok k = task_ok l"
  by (cases k; cases l) (auto simp: core_def task_ok_def)

lemma keeps2_tasks:
  assumes "keeps2 s t"
  shows "task_table t = task_table s" "current_task t = current_task s" "ready_list_head t = ready_list_head s"
    "ready_list_tail t = ready_list_tail s" "task_stack_slots t = task_stack_slots s" "next_pid t = next_pid s"
    "pit_ticks t = pit_ticks s" "kernel_pdt_phys t = kernel_pdt_phys s"
  using assms by (cases s; cases t; simp add: keeps2_def)+

lemma task_inv_cong:
  assumes "task_table s' = task_table s" "current_task s' = current_task s"
    "ready_list_head s' = ready_list_head s" "ready_list_tail s' = ready_list_tail s"
    "task_stack_slots s' = task_stack_slots s"
  shows "task_inv X s' = task_inv X s"
  using assms sched_cong [of s' s X] stack_inv_cong [of s' s] by (simp add: task_inv_def)

lemma task_inv_keeps2: "keeps2 s t \<Longrightarrow> task_inv X t = task_inv X s"
  using keeps2_tasks [of s t] by (intro task_inv_cong)

lemma task_inv_keeps: "keeps s t \<Longrightarrow> task_inv X t = task_inv X s"
  by (rule task_inv_keeps2 [OF keeps_keeps2])

lemma task_inv_load_cr3 [simp]: "task_inv X (load_cr3 c s) = task_inv X s"
  by (rule task_inv_cong) simp_all

text \<open>Stores to fields that the scheduler and the stack allocator do not use.\<close>

lemma task_inv_set:
  assumes "task_inv X s" "tstate (f (task_table s t)) = tstate (task_table s t)"
    "next_task (f (task_table s t)) = next_task (task_table s t)"
    "prev_task (f (task_table s t)) = prev_task (task_table s t)"
    "stack_base (f (task_table s t)) = stack_base (task_table s t)"
    "stack_top (f (task_table s t)) = stack_top (task_table s t)"
    "t < TASK_MAX \<Longrightarrow> task_ok (task_table s t) \<Longrightarrow> task_ok (f (task_table s t))"
  shows "task_inv X (set_task t f s)"
proof -
  obtain q where "sched X s q" using assms(1) by (auto simp: task_inv_def)
  then have "sched X (set_task t f s) q" using assms(2-4) by (rule sched_set_field)
  moreover have "stack_inv (set_task t f s) = stack_inv s"
    using assms(5,6) by (intro stack_inv_cong) auto
  ultimately show ?thesis using assms(1,7) by (auto simp: task_inv_def)
qed

text \<open>A task that is not READY in the list stops.\<close>

lemma task_inv_park:
  assumes "task_inv X s" "tstate (task_table s t) \<noteq> TASK_READY \<or> t \<in> X"
    "tstate (f (task_table s t)) \<notin> {TASK_READY, TASK_RUNNING}"
    "stack_base (f (task_table s t)) = stack_base (task_table s t)"
    "stack_top (f (task_table s t)) = stack_top (task_table s t)"
    "t < TASK_MAX \<Longrightarrow> task_ok (task_table s t) \<Longrightarrow> task_ok (f (task_table s t))"
  shows "task_inv (X - {t}) (set_task t f s)"
proof -
  obtain q where q: "sched X s q" using assms(1) by (auto simp: task_inv_def)
  have "t \<notin> set q" using schedD(2,6) [OF q] assms(2) by auto
  with q have "sched (X - {t}) (set_task t f s) q" using assms(3) by (intro sched_park) auto
  moreover have "stack_inv (set_task t f s) = stack_inv s"
    using assms(4,5) by (intro stack_inv_cong) auto
  ultimately show ?thesis using assms(1,6) by (auto simp: task_inv_def)
qed

lemma task_inv_enqueue:
  assumes "task_inv X s" "t < TASK_MAX" "tstate (task_table s t) \<noteq> TASK_READY \<or> t \<in> X"
    "stack_base (f (task_table s t)) = stack_base (task_table s t)"
    "stack_top (f (task_table s t)) = stack_top (task_table s t)"
    "task_ok (task_table s t) \<Longrightarrow> task_ok ((f (task_table s t))\<lparr>tstate := TASK_READY\<rparr>)"
  shows "task_inv (X - {t}) (task_enqueue t (set_task t f s))"
proof -
  let ?s = "task_enqueue t (set_task t f s)"
  obtain q where q: "sched X s q" using assms(1) by (auto simp: task_inv_def)
  have "t \<notin> set q" using schedD(2,6) [OF q] assms(3) by auto
  with q have "sched (X - {t}) ?s (q @ [t])" using assms(2) by (intro sched_enqueue)
  moreover have "stack_inv ?s = stack_inv s"
    using assms(4,5) by (intro stack_inv_cong) (auto simp: task_enqueue_fields)
  moreover have "task_ok (task_table ?s u)" if "u < TASK_MAX" for u
    using that assms(1,6) task_ok_core [OF task_enqueue_core, of t "set_task t f s" u] by (auto simp: task_inv_def)
  ultimately show ?thesis using assms(1) by (auto simp: task_inv_def)
qed

lemma task_inv_current: "task_inv X s \<Longrightarrow> current_task s = Some t \<Longrightarrow> t < TASK_MAX"
  using schedD(5) by (auto simp: task_inv_def)

lemma task_inv_ok: "task_inv X s \<Longrightarrow> t < TASK_MAX \<Longrightarrow> task_ok (task_table s t)"
  by (simp add: task_inv_def)

lemma task_inv_enqueue':
  assumes "task_inv X s" "t < TASK_MAX" "tstate (task_table s t) \<noteq> TASK_READY \<or> t \<in> X"
    "task_ok ((task_table s t)\<lparr>tstate := TASK_READY\<rparr>)"
  shows "task_inv (X - {t}) (task_enqueue t s)"
proof -
  have "set_task t (\<lambda>k. k) s = s" by (simp add: set_task_def)
  then show ?thesis using task_inv_enqueue [OF assms(1-3), of "\<lambda>k. k"] assms(4) by simp
qed

section \<open>Allocation of a slot of the table\<close>

lemma task_ok_fresh [simp]: "task_ok (fresh_task p d k)"
  by (simp add: task_ok_def fresh_task_def task_init_process_fields_def task_init_user_heap_fields_def)

lemma fresh_task_fields [simp]:
  "tstate (fresh_task p d k) = TASK_READY" "stack_base (fresh_task p d k) = 0"
  by (simp_all add: fresh_task_def task_init_process_fields_def task_init_user_heap_fields_def)

lemma sched_fresh:
  assumes "sched X s q" "t \<notin> set q" "tstate (f (task_table s t)) = TASK_READY"
  shows "sched (insert t X) (set_task t f s) q"
proof (rule schedI)
  show "is_ready_list (set_task t f s) q"
    using assms(2) schedD(1) [OF assms(1)] is_ready_list_set_task [of t q f s] by simp
  show "set q = ready_set (set_task t f s) - insert t X"
    using assms(2) schedD(2) [OF assms(1)] by (auto simp: ready_set_def)
  show "current_task (set_task t f s) = Some u"
    if "u < TASK_MAX" "tstate (task_table (set_task t f s) u) = TASK_RUNNING" for u
    using that assms(3) schedD(4) [OF assms(1), of u] by (simp split: if_splits)
qed (auto dest: schedD(5) [OF assms(1)])

lemma task_allocate_stack_fields:
  assumes "task_allocate_stack t s = (ok, s')"
  shows "sched X s q \<Longrightarrow> sched X s' q" "tstate (task_table s' u) = tstate (task_table s u)"
    "task_ok (task_table s u) \<Longrightarrow> task_ok (task_table s' u)"
proof -
  have "(\<exists>i. s' = set_task t (\<lambda>k. k\<lparr>stack_base := slot_base i, stack_top := slot_base i + KERNEL_STACK_SIZE,
      stack_size := KERNEL_STACK_SIZE\<rparr>) (s\<lparr>task_stack_slots := (task_stack_slots s)(i := True)\<rparr>)) \<or> s' = s"
    using assms by (auto simp: task_allocate_stack_def slot_base_def Let_def split: option.splits)
  moreover have "sched X (s\<lparr>task_stack_slots := a\<rparr>) q" if "sched X s q" for a
    using that sched_cong [of "s\<lparr>task_stack_slots := a\<rparr>" s X q] by simp
  ultimately show "sched X s q \<Longrightarrow> sched X s' q" "tstate (task_table s' u) = tstate (task_table s u)"
    "task_ok (task_table s u) \<Longrightarrow> task_ok (task_table s' u)"
    by (auto intro!: sched_set_field)
qed

lemma task_alloc_inv:
  assumes "task_inv {} s" "task_alloc s = (r, s')"
  shows "case r of None \<Rightarrow> task_inv {} s'
    | Some t \<Rightarrow> task_inv {t} s' \<and> t < TASK_MAX \<and> tstate (task_table s t) = TASK_UNUSED
        \<and> tstate (task_table s' t) = TASK_READY \<and> stack_base (task_table s' t) \<noteq> 0"
proof (cases "find (\<lambda>i. tstate (task_table s i) = TASK_UNUSED) [0 ..< TASK_MAX]")
  case None
  then show ?thesis using assms by (auto simp: task_alloc_def)
next
  case (Some t)
  then have t: "t < TASK_MAX" "tstate (task_table s t) = TASK_UNUSED"
    by (auto simp: find_Some_iff)
  let ?f = "fresh_task (next_pid s) (vmm_get_kernel_pdt_phys s)"
  let ?s1 = "set_task t ?f (s\<lparr>next_pid := next_pid s + 1\<rparr>)"
  obtain q where q: "sched {} s q" using assms(1) by (auto simp: task_inv_def)
  then have q1: "sched {} (s\<lparr>next_pid := next_pid s + 1\<rparr>) q"
    using sched_cong [of "s\<lparr>next_pid := next_pid s + 1\<rparr>" s "{}" q] by simp
  have "t \<notin> set q" using schedD(6) [OF q] t by auto
  then have "sched {t} ?s1 q" using sched_fresh [OF q1, of t ?f] by simp
  moreover have "stack_inv ?s1"
    using assms(1) stack_inv_cong [of "s\<lparr>next_pid := next_pid s + 1\<rparr>" s]
    by (intro stack_inv_drop) (auto simp: task_inv_def)
  ultimately have i1: "task_inv {t} ?s1" using assms(1) by (auto simp: task_inv_def)
  obtain ok s2 where a: "task_allocate_stack t ?s1 = (ok, s2)" by (cases "task_allocate_stack t ?s1")
  have st: "stack_inv s2" "\<not> ok \<Longrightarrow> s2 = ?s1" "ok \<Longrightarrow> stack_base (task_table s2 t) \<noteq> 0"
    using task_allocate_stack_inv [OF _ t(1) _ a] i1 by (simp_all add: task_inv_def)
  note fl = task_allocate_stack_fields [OF a]
  have i2: "task_inv {t} s2" using i1 st(1) fl by (auto simp: task_inv_def)
  have r2: "tstate (task_table s2 t) = TASK_READY" using fl(2) by simp
  have al: "task_alloc s = (if ok then (Some t, s2) else (None, set_task t (\<lambda>k. k\<lparr>tstate := TASK_UNUSED\<rparr>) s2))"
    using Some a by (simp add: task_alloc_def Let_def)
  have "task_inv ({t} - {t}) (set_task t (\<lambda>k. k\<lparr>tstate := TASK_UNUSED\<rparr>) s2)"
    using i2 by (rule task_inv_park) (auto simp: task_ok_def)
  then show ?thesis using assms(2) al i2 r2 st(3) t by (auto split: if_splits)
qed

section \<open>A task under construction\<close>

definition limbo :: "nat \<Rightarrow> 'a task_state_scheme \<Rightarrow> bool" where
  "limbo t s \<longleftrightarrow> task_inv {t} s \<and> t < TASK_MAX \<and> tstate (task_table s t) = TASK_READY"

lemma limbo_keeps2: "keeps2 s u \<Longrightarrow> limbo t s \<Longrightarrow> limbo t u"
  using keeps2_tasks(1) [of s u] by (simp add: limbo_def task_inv_keeps2)

lemma limbo_keeps: "keeps s u \<Longrightarrow> limbo t s \<Longrightarrow> limbo t u"
  by (rule limbo_keeps2 [OF keeps_keeps2])

lemma limbo_set:
  assumes "limbo t s" "tstate (task_table s t) = TASK_READY \<Longrightarrow> tstate (f (task_table s t)) = TASK_READY"
    "next_task (f (task_table s t)) = next_task (task_table s t)"
    "prev_task (f (task_table s t)) = prev_task (task_table s t)"
    "stack_base (f (task_table s t)) = stack_base (task_table s t)"
    "stack_top (f (task_table s t)) = stack_top (task_table s t)"
    "task_ok (task_table s t) \<Longrightarrow> tstate (task_table s t) = TASK_READY \<Longrightarrow> task_ok (f (task_table s t))"
  shows "limbo t (set_task t f s)"
  using assms by (auto simp: limbo_def intro!: task_inv_set)

lemma limbo_abandon: "limbo t s \<Longrightarrow> task_inv {} (set_task t (\<lambda>k. k\<lparr>tstate := TASK_UNUSED\<rparr>) s)"
  using task_inv_park [of "{t}" s t "\<lambda>k. k\<lparr>tstate := TASK_UNUSED\<rparr>"] by (auto simp: limbo_def task_ok_def)

lemma limbo_enqueue: "limbo t s \<Longrightarrow> task_inv {} (task_enqueue t s)"
  using task_inv_enqueue' [of "{t}" s t] task_inv_ok [of "{t}" s t] by (simp add: limbo_def task_ok_updates)

lemma limbo_alloc:
  "task_inv {} s \<Longrightarrow> task_alloc s = (None, s') \<Longrightarrow> task_inv {} s'"
  "task_inv {} s \<Longrightarrow> task_alloc s = (Some t, s') \<Longrightarrow> limbo t s'"
  using task_alloc_inv [of s _ s'] by (auto simp: limbo_def)

lemma task_ok_create_context [simp]: "task_ok (task_create_context e k) = task_ok k"
  by (simp add: task_create_context_def Let_def task_ok_def)

lemma create_context_fields [simp]:
  "tstate (task_create_context e k) = tstate k" "next_task (task_create_context e k) = next_task k"
  "prev_task (task_create_context e k) = prev_task k" "stack_base (task_create_context e k) = stack_base k"
  "stack_top (task_create_context e k) = stack_top k"
  by (simp_all add: task_create_context_def Let_def)

lemma task_create_inv:
  assumes "task_inv {} s"
  shows "task_inv {} (snd (task_create e s))"
proof (cases "task_alloc s")
  case (Pair r s1)
  show ?thesis
  proof (cases r)
    case (Some t)
    then have l: "limbo t s1" using limbo_alloc(2) assms Pair by blast
    have "limbo t (set_task t (\<lambda>k. task_create_context e (k\<lparr>ttype := TASK_TYPE_KERNEL,
        tstate := TASK_READY, ticks := 0, quantum := TASK_QUANTUM_DEFAULT\<rparr>)) s1)"
      using l by (rule limbo_set) (use l in \<open>auto simp: limbo_def intro!: task_ok_updates\<close>)
    then show ?thesis using Pair Some by (simp add: task_create_def limbo_enqueue)
  qed (use Pair limbo_alloc(1) [OF assms] in \<open>simp add: task_create_def\<close>)
qed

lemma begin_user_task_inv:
  assumes "task_inv {} s"
  shows "post (\<lambda>(r, u). case r of None \<Rightarrow> task_inv {} u | Some (t, d) \<Rightarrow> limbo t u)
    (begin_user_task kind ustop z s)"
proof -
  have n: "task_inv {} s'" if "task_alloc s = (None, s')" for s' using limbo_alloc(1) [OF assms that] .
  have l: "limbo t s'" if "task_alloc s = (Some t, s')" for t s' using limbo_alloc(2) [OF assms that] .
  show ?thesis unfolding begin_user_task_def abandon_def
    by (intro wp) (auto dest!: n l intro: limbo_keeps2 limbo_abandon
        intro!: limbo_set task_ok_updates)
qed

section \<open>Operations that only change the memory of a task\<close>

definition stays :: "'a task_state_scheme \<Rightarrow> 'a task_state_scheme \<Rightarrow> bool" where
  "stays s u \<longleftrightarrow> (\<forall>X. task_inv X s \<longrightarrow> task_inv X u) \<and> current_task u = current_task s
     \<and> (\<forall>v. let k = task_table s v; l = task_table u v in
          tstate l = tstate k \<and> ttype l = ttype k \<and> pid l = pid k \<and> parent l = parent k
          \<and> first_child l = first_child k \<and> next_sibling l = next_sibling k)"

lemma stays_refl [simp, intro]: "stays s s"
  by (simp add: stays_def)

lemma stays_trans [trans]: "stays s t \<Longrightarrow> stays t u \<Longrightarrow> stays s u"
  by (simp add: stays_def Let_def)

lemma staysD:
  assumes "stays s u"
  shows "task_inv X s \<Longrightarrow> task_inv X u" "current_task u = current_task s"
    "tstate (task_table u v) = tstate (task_table s v)" "ttype (task_table u v) = ttype (task_table s v)"
    "pid (task_table u v) = pid (task_table s v)" "parent (task_table u v) = parent (task_table s v)"
    "first_child (task_table u v) = first_child (task_table s v)"
    "next_sibling (task_table u v) = next_sibling (task_table s v)"
  using assms by (simp_all add: stays_def Let_def)

lemma keeps2_stays: "keeps2 s t \<Longrightarrow> stays s t"
  by (simp add: stays_def task_inv_keeps2 keeps2_tasks)

lemma keeps_stays: "keeps s t \<Longrightarrow> stays s t"
  by (rule keeps2_stays [OF keeps_keeps2])

lemma limbo_stays: "stays s u \<Longrightarrow> limbo t s \<Longrightarrow> limbo t u"
  by (simp add: limbo_def staysD)

lemma stays_set:
  assumes "tstate (f (task_table s t)) = tstate (task_table s t)" "ttype (f (task_table s t)) = ttype (task_table s t)"
    "pid (f (task_table s t)) = pid (task_table s t)" "parent (f (task_table s t)) = parent (task_table s t)"
    "first_child (f (task_table s t)) = first_child (task_table s t)"
    "next_sibling (f (task_table s t)) = next_sibling (task_table s t)"
    "next_task (f (task_table s t)) = next_task (task_table s t)"
    "prev_task (f (task_table s t)) = prev_task (task_table s t)"
    "stack_base (f (task_table s t)) = stack_base (task_table s t)"
    "stack_top (f (task_table s t)) = stack_top (task_table s t)"
    "task_ok (task_table s t) \<Longrightarrow> task_ok (f (task_table s t))"
  shows "stays s (set_task t f s)"
  using assms by (auto simp: stays_def intro!: task_inv_set)

lemma post_stays:
  assumes "post (stays s) m" "\<And>t. stays s t \<Longrightarrow> P t"
  shows "post P m"
  using assms by (auto simp: post_def)

lemma post_stays2:
  assumes "post (\<lambda>(r, t). stays s t) m" "\<And>r t. stays s t \<Longrightarrow> P (r, t)"
  shows "post P m"
  using assms by (auto simp: post_def)

lemma post_staysI: "stays s t \<Longrightarrow> post (stays t) m \<Longrightarrow> post (stays s) m"
  by (auto simp: post_def dest: stays_trans)

lemma frame_at_wp [wp]: "(\<And>x. unat i < length fs \<Longrightarrow> P x) \<Longrightarrow> post P (frame_at fs i)"
  by (simp add: post_def frame_at_def)

lemma put_frames_wp [wp]:
  "(\<And>x. length new \<le> length old \<Longrightarrow> length x = length old \<Longrightarrow> P x) \<Longrightarrow> post P (put_frames new old)"
  by (simp add: post_def put_frames_def)

lemma task_unmap_user_page_keeps: "post (keeps s) (task_unmap_user_page t v s)"
  unfolding task_unmap_user_page_def by (intro wp) auto

lemmas task_unmap_user_page_wp [wp] = task_unmap_user_page_keeps [THEN post_memory]

lemmas stays_setI = stays_trans [OF _ stays_set]
lemmas to_stays = keeps_stays keeps2_stays

lemma task_ok_lengths:
  "task_ok k \<Longrightarrow> length (user_code_frames k) = MAX_USER_CODE_PAGES"
  "task_ok k \<Longrightarrow> length (user_heap_frames k) = MAX_USER_HEAP_PAGES"
  by (simp_all add: task_ok_def)

lemma release_code_frames_stays: "post (stays s) (release_code_frames t n i s)"
proof (induction n arbitrary: i s)
  case (Suc n)
  show ?case unfolding release_code_frames.simps
    by (intro wp post_staysI [OF _ Suc.IH]) (auto dest!: to_stays intro!: stays_setI task_ok_updates task_ok_lengths intro: stays_trans)
qed (simp add: post_def)

lemma release_heap_frames_stays: "post (stays s) (release_heap_frames t n i s)"
proof (induction n arbitrary: i s)
  case (Suc n)
  show ?case unfolding release_heap_frames.simps
    by (intro wp post_staysI [OF _ Suc.IH]) (auto dest!: to_stays intro!: stays_setI task_ok_updates task_ok_lengths intro: stays_trans)
qed (simp add: post_def)

lemma free_code_frames_stays: "post (stays s) (free_code_frames t n i s)"
proof (induction n arbitrary: i s)
  case (Suc n)
  show ?case unfolding free_code_frames.simps
    by (intro wp post_staysI [OF _ Suc.IH]) (auto dest!: to_stays intro!: stays_setI task_ok_updates task_ok_lengths intro: stays_trans)
qed (simp add: post_def)

lemma release_stack_frame_stays: "post (stays s) (release_stack_frame t s)"
  unfolding release_stack_frame_def Let_def
  by (intro wp) (auto dest!: to_stays intro!: stays_setI task_ok_updates task_ok_lengths intro: stays_trans)

lemma drop_stack_frame_stays: "post (stays s) (drop_stack_frame t s)"
  unfolding drop_stack_frame_def by (intro wp) (auto dest!: to_stays intro!: stays_setI task_ok_updates task_ok_lengths intro: stays_trans)

lemmas release_wp [wp] =
  release_code_frames_stays [THEN post_stays] release_heap_frames_stays [THEN post_stays]
  free_code_frames_stays [THEN post_stays] release_stack_frame_stays [THEN post_stays]
  drop_stack_frame_stays [THEN post_stays]

lemma drop_code_frames_stays: "post (stays s) (drop_code_frames t s)"
  unfolding drop_code_frames_def
  by (intro wp) (auto dest!: to_stays intro!: stays_setI task_ok_updates task_ok_lengths intro: stays_trans)

lemma task_cleanup_stays: "post (stays s) (task_cleanup_user_resources t s)"
proof -
  have reset: "stays u v"
    if "stays (set_task t (\<lambda>k. k\<lparr>user_code_frame_count := 0, user_code_paddr := 0\<rparr>) u) v" for u v
    using that by (rule stays_trans [rotated]) (auto intro!: stays_set task_ok_updates)
  show ?thesis unfolding task_cleanup_user_resources_def Let_def
    by (intro wp) (auto dest!: reset intro!: stays_setI task_ok_updates intro: stays_trans)
qed

lemma task_setup_user_stack_stays: "post (\<lambda>(r, u). stays s u) (task_setup_user_stack t a e ra s)"
  unfolding task_setup_user_stack_def Let_def
  by (intro wp) (auto dest!: to_stays intro!: stays_setI task_ok_updates task_ok_lengths intro: stays_trans)

lemma set_code_frames_stays:
  assumes "length fs \<le> 16"
  shows "post (stays s) (set_code_frames t fs z s)"
  unfolding set_code_frames_def
  by (insert assms, intro wp) (auto intro!: stays_set simp: task_ok_def MAX_USER_CODE_PAGES_def unat_of_nat_u32)

lemmas task_wp [wp] =
  drop_code_frames_stays [THEN post_stays] task_cleanup_stays [THEN post_stays]
  task_setup_user_stack_stays [THEN post_stays2] set_code_frames_stays [THEN post_stays]

section \<open>The creators of user tasks\<close>

lemma begin_user_task_wp [wp]:
  assumes "task_inv {} s" "\<And>u. task_inv {} u \<Longrightarrow> P (None, u)" "\<And>t d u. limbo t u \<Longrightarrow> P (Some (t, d), u)"
  shows "post P (begin_user_task kind ustop z s)"
proof (rule post_mono [OF begin_user_task_inv [OF assms(1), of kind ustop z]])
  show "P x" if "case x of (r, u) \<Rightarrow> case r of None \<Rightarrow> task_inv {} u | Some (t, d) \<Rightarrow> limbo t u" for x
    using that assms(2,3) by (cases x; cases "fst x") auto
qed

lemma limbo_set_stack: "limbo t s \<Longrightarrow> limbo t (set_task t (\<lambda>k. k\<lparr>user_stack_paddr := f\<rparr>) s)"
  by (rule limbo_set) simp_all

lemma limbo_enter_at: "limbo t s \<Longrightarrow> limbo t (enter_at t e s)"
  unfolding enter_at_def Let_def by (rule limbo_set) simp_all

lemmas limbo_moves = limbo_stays limbo_keeps limbo_keeps2

lemma limbo_set_code: "limbo t s \<Longrightarrow> limbo t (set_task t (\<lambda>k. k\<lparr>user_code_paddr := f\<rparr>) s)"
  by (rule limbo_set) simp_all

lemma limbo_set_context:
  "limbo t s \<Longrightarrow> limbo t (set_task t (\<lambda>k. (task_create_context e k)\<lparr>ctx := c k\<rparr>) s)"
  by (rule limbo_set) simp_all

lemmas limbo_back = limbo_stays limbo_keeps limbo_keeps2
lemmas limbo_stores = limbo_set_stack limbo_set_code limbo_set_context limbo_enter_at

lemma task_create_user_inv:
  assumes "task_inv {} s"
  shows "post (\<lambda>(r, u). task_inv {} u) (task_create_user e ustop z s)"
  unfolding task_create_user_def abandon_def Let_def
  by (insert assms, intro wp; clarsimp?; (rule limbo_abandon limbo_enqueue)?;
      (erule limbo_back | rule limbo_stores | assumption)+)

lemma task_create_user_from_elf_inv:
  assumes "task_inv {} s"
  shows "post (\<lambda>(r, u). task_inv {} u) (task_create_user_from_elf d n ustop z argv envp s)"
  unfolding task_create_user_from_elf_def abandon_def Let_def
  by (insert assms, intro wp; clarsimp?; (rule limbo_abandon limbo_enqueue)?;
      (erule limbo_back | rule limbo_stores | assumption)+)

text \<open>Flat binaries.\<close>

lemma free_frames_list_keeps: "post (keeps2 s) (free_frames_list fs s)"
  by (induction fs arbitrary: s) (auto intro!: wp intro: post_keeps2I)

lemmas free_frames_list_wp [wp] = free_frames_list_keeps [THEN post_alloc]

lemma binary_pages_keeps: "post (\<lambda>(ok, fs, t). keeps2 s t) (binary_pages d n i frames s)"
proof (induction n arbitrary: i frames s)
  case (Suc n)
  have chain: "keeps2 s u \<Longrightarrow> post (\<lambda>(ok, fs, t). keeps2 s t) (binary_pages d n i frames u)" for u i frames
    using Suc.IH [of u i frames] by (auto simp: post_def dest: keeps2_trans)
  show ?case unfolding binary_pages.simps
    by (intro wp chain; clarsimp?; blast intro: keeps2_trans)
qed (simp add: post_def)

lemma binary_pages_wp [wp]: "(\<And>ok fs t. keeps2 s t \<Longrightarrow> P (ok, fs, t)) \<Longrightarrow> post P (binary_pages d n i frames s)"
  using binary_pages_keeps [of s d n i frames] by (auto simp: post_def)

lemma copy_binary_keeps: "post (keeps2 s) (copy_binary data z fs n s)"
proof (induction fs arbitrary: n s)
  case (Cons f fs)
  show ?case unfolding copy_binary.simps Let_def
    by (intro wp post_keeps2I [OF _ Cons.IH]) (auto dest!: keeps_keeps2 simp: keeps2_def)
qed (simp add: post_def)

lemmas copy_binary_wp [wp] = copy_binary_keeps [THEN post_alloc]

lemma abandon_binary_inv: "limbo t s \<Longrightarrow> post (\<lambda>(r, u). task_inv {} u) (abandon_binary t fs s)"
  unfolding abandon_binary_def abandon_def
  by (intro wp; clarsimp?; (rule limbo_abandon limbo_enqueue)?;
      (erule limbo_back | rule limbo_stores | assumption)+)

lemma finish_binary_inv: "limbo t s \<Longrightarrow> post (\<lambda>(r, u). task_inv {} u) (finish_binary t d fs a e s)"
  unfolding finish_binary_def abandon_def Let_def
  by (intro wp abandon_binary_inv; (clarsimp simp: MAX_USER_CODE_PAGES_def)?; (rule limbo_abandon limbo_enqueue)?;
      (erule limbo_back | rule limbo_stores | assumption)+)

lemma task_create_user_from_binary_inv:
  assumes "task_inv {} s"
  shows "post (\<lambda>(r, u). task_inv {} u) (task_create_user_from_binary d n ustop z argv envp s)"
  unfolding task_create_user_from_binary_def abandon_def Let_def
  by (insert assms, intro wp abandon_binary_inv finish_binary_inv; clarsimp?; (rule limbo_abandon limbo_enqueue)?;
      (erule limbo_back | rule limbo_stores | assumption)+)

text \<open>Going back from the last state to the first.\<close>

lemma stays_back:
  "stays t u \<Longrightarrow> stays s t \<Longrightarrow> stays s u" "keeps t u \<Longrightarrow> stays s t \<Longrightarrow> stays s u"
  "keeps2 t u \<Longrightarrow> stays s t \<Longrightarrow> stays s u"
  using stays_trans to_stays by blast+

lemma stays_set_stack: "stays s u \<Longrightarrow> stays s (set_task t (\<lambda>k. k\<lparr>user_stack_paddr := f\<rparr>) u)"
  by (rule stays_setI) simp_all

lemma stays_enter_at: "stays s u \<Longrightarrow> stays s (enter_at t e u)"
  unfolding enter_at_def Let_def by (rule stays_setI) (simp_all add: task_create_context_def Let_def)

lemmas stays_stores = stays_set_stack stays_enter_at stays_refl

lemma task_replace_process_image_stays:
  "post (\<lambda>(r, u). stays s u) (task_replace_process_image t d n argv envp s)"
  unfolding task_replace_process_image_def Let_def
  by (intro wp; clarsimp?; (erule stays_back | rule stays_stores)+)

section \<open>Scheduling and termination\<close>

lemma task_inv_select:
  assumes "task_inv {} s" "idle s"
  shows "task_inv {} (snd (task_select_next s))"
proof -
  obtain q where q: "sched {} s q" using assms(1) by (auto simp: task_inv_def)
  show ?thesis
  proof (cases q)
    case Nil
    then show ?thesis using assms(1) schedD(1) [OF q] by (simp add: is_ready_list_def task_select_next_None)
  next
    case (Cons n r)
    note sel = task_select_next_sched [OF q [unfolded Cons] assms(2)]
    have "task_ok (task_table (snd (task_select_next s)) u)" if "u < TASK_MAX" for u
      using task_ok_core [OF sel(4), of u] task_inv_ok [OF assms(1) that] schedD(6) [OF q, of n] Cons
      by (auto intro!: task_ok_updates)
    moreover have "stack_inv (snd (task_select_next s)) = stack_inv s"
      using core_eqD(6,7) [OF sel(4)]
      by (intro stack_inv_cong) (auto simp: task_select_next_def Let_def split: option.splits)
    ultimately show ?thesis using sel(2) assms(1) by (auto simp: task_inv_def)
  qed
qed

lemma requeue_inv:
  assumes "task_inv {} s"
  shows "task_inv {} (requeue_current s)" "idle (requeue_current s)"
proof -
  obtain q where q: "sched {} s q" using assms by (auto simp: task_inv_def)
  show "idle (requeue_current s)" by (rule requeue_sched(2) [OF q])
  have "task_inv ({} - {t}) (task_enqueue t (set_task t (\<lambda>k. k\<lparr>tstate := TASK_READY\<rparr>) s))"
    if "current_task s = Some t" "tstate (task_table s t) = TASK_RUNNING" for t
    using that by (intro task_inv_enqueue [OF assms task_inv_current [OF assms that(1)]]) (auto intro!: task_ok_updates)
  then show "task_inv {} (requeue_current s)" using assms by (auto simp: requeue_current_def split: option.splits)
qed

lemma task_schedule_inv: "task_inv {} s \<Longrightarrow> task_inv {} (snd (task_schedule s))"
  using requeue_inv [of s] by (simp add: task_schedule_def task_inv_select)

lemma task_yield_inv: "task_inv {} s \<Longrightarrow> task_inv {} (snd (task_yield s))"
  by (simp add: task_yield_eq task_schedule_inv)

lemma task_wake_inv:
  assumes "task_inv {} s"
  shows "task_inv {} (task_wake_waiting_tasks s)"
proof -
  obtain q where q: "sched {} s q" using assms by (auto simp: task_inv_def)
  from task_wake_sched [OF q] obtain w where w: "sched {} (task_wake_waiting_tasks s) (q @ w)" by blast
  have c: "core (task_table (task_wake_waiting_tasks s) u) = core (awake (pit_ticks s) (task_table s u))"
    if "u < TASK_MAX" for u
    using that wake_loop_core [of "pit_ticks s" TASK_MAX 0 s u]
    by (simp add: task_wake_waiting_tasks_def timer_get_ticks_def)
  have "task_ok (task_table (task_wake_waiting_tasks s) u)" if "u < TASK_MAX" for u
    using task_ok_core [OF c [OF that]] task_inv_ok [OF assms that]
    by (auto simp: awake_def due_def intro!: task_ok_updates)
  moreover have "task_stack_slots (wake_loop now n i s) = task_stack_slots s" for now n i
    by (induction n arbitrary: i s) (simp_all add: Let_def)
  then have "stack_inv (task_wake_waiting_tasks s) = stack_inv s"
    using core_eqD(6,7) [OF c]
    by (intro stack_inv_cong) (auto simp: awake_def task_wake_waiting_tasks_def)
  ultimately show ?thesis using w assms by (auto simp: task_inv_def)
qed

lemma task_inv_clock: "task_inv X (timer_handle_interrupt s) = task_inv X s"
  by (rule task_inv_cong) (simp_all add: timer_handle_interrupt_def)

lemma task_tick_inv:
  assumes "task_inv {} s"
  shows "task_inv {} (snd (task_tick s))"
proof -
  let ?s1 = "task_wake_waiting_tasks s"
  have i1: "task_inv {} ?s1" by (rule task_wake_inv [OF assms])
  {
    fix t assume t: "current_task ?s1 = Some t" "tstate (task_table ?s1 t) = TASK_RUNNING"
    let ?s2 = "set_task t (\<lambda>k. k\<lparr>ticks := ticks k + 1\<rparr>) ?s1"
    have i2: "task_inv {} ?s2" using i1 by (rule task_inv_set) simp_all
    have c2: "current_task ?s2 = Some t" "tstate (task_table ?s2 t) = TASK_RUNNING" using t by simp_all
    let ?s3 = "task_enqueue t (set_task t (\<lambda>k. k\<lparr>tstate := TASK_READY\<rparr>) ?s2)"
    have "?s3 = requeue_current ?s2" using c2 by (simp add: requeue_current_def)
    then have "task_inv {} ?s3" "idle ?s3" using requeue_inv [OF i2] by simp_all
    note i2 task_inv_select [OF this]
  }
  then show ?thesis using i1 by (auto simp: task_tick_def Let_def split: option.splits)
qed

lemma validate_user_pointer_wp [wp]: "(\<And>x. P x) \<Longrightarrow> post P (validate_user_pointer v s)"
  by (simp add: post_def)

lemma report_status_keeps: "post (keeps s) (report_status p st s)"
  unfolding report_status_def Let_def by (intro wp; clarsimp?)

lemmas report_status_wp [wp] = report_status_keeps [THEN post_memory]

lemma task_terminate_inv:
  assumes "task_inv {} s" "\<And>t. current_task s = Some t \<Longrightarrow> tstate (task_table s t) \<notin> {TASK_READY, TASK_UNUSED}"
  shows "post (task_inv {}) (task_terminate st s)"
proof (cases "current_task s")
  case (Some t)
  let ?s1 = "set_task t (\<lambda>k. k\<lparr>exit_status := st, tstate := TASK_ZOMBIE\<rparr>) s"
  have "task_inv ({} - {t}) ?s1" using assms Some by (intro task_inv_park) (auto intro!: task_ok_updates)
  then have i1: "task_inv {} ?s1" by simp
  have wake: "task_inv {} (task_enqueue p (set_task p (\<lambda>k. k\<lparr>ctx := c k, waiting_status := 0,
      tstate := TASK_READY, waiting_for_pid := 0\<rparr>) s2))"
    if "keeps ?s1 s2" "parent (task_table ?s1 t) = Some p" "tstate (task_table ?s1 p) = TASK_WAITING" for s2 p c
  proof -
    have T: "task_table s2 = task_table ?s1" and i2: "task_inv {} s2"
      using keeps2_tasks(1) [OF keeps_keeps2 [OF that(1)]] i1 task_inv_keeps [OF that(1)] by simp_all
    have "t < TASK_MAX" using task_inv_current [OF assms(1) Some] .
    from task_okD(5) [OF task_inv_ok [OF i1 this] that(2)] have p: "p < TASK_MAX" .
    have "task_inv ({} - {p}) (task_enqueue p (set_task p (\<lambda>k. k\<lparr>ctx := c k, waiting_status := 0,
      tstate := TASK_READY, waiting_for_pid := 0\<rparr>) s2))"
      using i2 p by (rule task_inv_enqueue) (use that(3) T in \<open>auto intro!: task_ok_updates\<close>)
    then show ?thesis by simp
  qed
  show ?thesis unfolding task_terminate_def Let_def using Some i1 wake
    by (intro wp; clarsimp?)
qed (use assms in \<open>simp add: task_terminate_def post_ret\<close>)

lemma task_exit_inv:
  assumes "task_inv {} s" "\<And>t. current_task s = Some t \<Longrightarrow> tstate (task_table s t) \<notin> {TASK_READY, TASK_UNUSED}"
  shows "post (task_inv {}) (task_exit st s)"
  unfolding task_exit_def
  by (intro wp post_mono [OF task_terminate_inv [OF assms]]) (simp_all add: task_schedule_inv)

lemma task_save_current_context_stays: "post (stays s) (task_save_current_context r s)"
proof -
  have st: "stays u (set_task t (\<lambda>k. k\<lparr>ctx := c k\<rparr>) u)" for u t c by (rule stays_set) simp_all
  have tt: "post P (case (a, b) of (None, y) \<Rightarrow> x | (Some t, None) \<Rightarrow> x | (Some t, Some rs) \<Rightarrow> f t rs)"
    if "post P x" "\<And>t rs. a = Some t \<Longrightarrow> b = Some rs \<Longrightarrow> post P (f t rs)" for P x f and a :: "nat option" and b :: "u32 list option"
    using that by (cases a; cases b) simp_all
  show ?thesis unfolding task_save_current_context_def Let_def
    by (rule tt; (intro wp)?; (rule stays_trans [OF st st])?) auto
qed

lemma task_free_stack_stays:
  assumes "task_inv X s" "t < TASK_MAX"
  shows "task_inv X (task_free_stack t s)" "tstate (task_table (task_free_stack t s) u) = tstate (task_table s u)"
proof -
  obtain q where q: "sched X s q" using assms(1) by (auto simp: task_inv_def)
  have s: "sched X (s\<lparr>task_stack_slots := a\<rparr>) q" for a
    using q sched_cong [of "s\<lparr>task_stack_slots := a\<rparr>" s X q] by simp
  have "sched X (task_free_stack t s) q"
    using q s by (auto simp: task_free_stack_def Let_def intro!: sched_set_field)
  moreover have "stack_inv (task_free_stack t s)" using assms by (simp add: task_free_stack_inv task_inv_def)
  moreover have "task_ok (task_table (task_free_stack t s) u)" if "u < TASK_MAX" for u
    using task_inv_ok [OF assms(1) that] by (auto simp: task_free_stack_def Let_def)
  ultimately show "task_inv X (task_free_stack t s)" by (auto simp: task_inv_def)
  show "tstate (task_table (task_free_stack t s) u) = tstate (task_table s u)"
    by (simp add: task_free_stack_def Let_def)
qed

section \<open>Family links\<close>

lemma task_add_child_inv:
  assumes "task_inv X s" "\<And>p. par = Some p \<Longrightarrow> p < TASK_MAX" "\<And>c. ch = Some c \<Longrightarrow> c < TASK_MAX"
  shows "task_inv X (task_add_child par ch s)"
proof (cases "par = None \<or> ch = None")
  case False
  then obtain p c where pc: "par = Some p" "ch = Some c" by auto
  have f: "first_child (task_table s p) = Some x \<Longrightarrow> x < TASK_MAX" for x
    using task_okD(6) [OF task_inv_ok [OF assms(1)]] assms(2) pc by blast
  let ?s1 = "set_task c (\<lambda>k. k\<lparr>parent := Some p\<rparr>) s"
  let ?s2 = "set_task c (\<lambda>k. k\<lparr>parent_pid := pid (task_table ?s1 p)\<rparr>) ?s1"
  let ?s3 = "set_task c (\<lambda>k. k\<lparr>next_sibling := first_child (task_table ?s2 p)\<rparr>) ?s2"
  have "task_inv X ?s1" using assms(1) by (rule task_inv_set) (use assms(2) pc in \<open>auto intro!: task_ok_updates\<close>)
  then have "task_inv X ?s2" by (rule task_inv_set) auto
  then have "task_inv X ?s3" by (rule task_inv_set) (use f in \<open>auto intro!: task_ok_updates\<close>)
  then have "task_inv X (set_task p (\<lambda>k. k\<lparr>first_child := Some c\<rparr>) ?s3)"
    by (rule task_inv_set) (use assms(3) pc in \<open>auto intro!: task_ok_updates(9)\<close>)
  then show ?thesis unfolding task_add_child_def pc Let_def prod.case option.case .
qed (use assms in \<open>auto simp: task_add_child_def split: option.splits\<close>)

lemma unlink_child_inv:
  assumes "unlink_child c l s = Some s'" "task_inv X s" "c < TASK_MAX"
  shows "task_inv X s' \<and> (\<forall>v. tstate (task_table s' v) = tstate (task_table s v))"
proof -
  let ?P = "\<lambda>c l s s'. task_inv X s \<longrightarrow> c < TASK_MAX \<longrightarrow>
    task_inv X s' \<and> (\<forall>v. tstate (task_table s' v) = tstate (task_table s v))"
  have "?P c l s s'"
  proof (rule unlink_child.raw_induct [where P = ?P, OF _ assms(1)], intro impI)
    fix f :: "nat \<Rightarrow> child_link \<Rightarrow> 'a task_state_scheme \<Rightarrow> 'a task_state_scheme option"
      and c l and s r :: "'a task_state_scheme"
    assume ih: "\<And>c l s s'. f c l s = Some s' \<Longrightarrow> ?P c l s s'"
      and r: "(case link_get l s of None \<Rightarrow> Some s
        | Some d \<Rightarrow> if d = c then Some (link_set l (next_sibling (task_table s c)) s)
            else f c (NextSibling d) s) = Some r"
      and i: "task_inv X s" "c < TASK_MAX"
    have n: "next_sibling (task_table s c) = Some x \<Longrightarrow> x < TASK_MAX" for x
      using task_okD(7) [OF task_inv_ok [OF i]] by blast
    have "task_inv X (link_set l (next_sibling (task_table s c)) s)"
      using i(1) n by (auto simp: link_set_def split: child_link.splits intro!: task_inv_set task_ok_updates)
    moreover have "tstate (task_table (link_set l x s) v) = tstate (task_table s v)" for x v
      by (auto simp: link_set_def split: child_link.splits)
    ultimately show "task_inv X r \<and> (\<forall>v. tstate (task_table r v) = tstate (task_table s v))"
      using r i ih by (auto split: option.splits if_splits)
  qed
  then show ?thesis using assms(2,3) by blast
qed

lemma task_remove_child_inv:
  assumes "task_inv X s" "c < TASK_MAX"
  shows "post (\<lambda>u. task_inv X u \<and> (\<forall>v. tstate (task_table u v) = tstate (task_table s v))) (task_remove_child c s)"
proof -
  have "task_inv X (set_task c (\<lambda>k. k\<lparr>parent := None, parent_pid := 0, next_sibling := None\<rparr>) u)" if "task_inv X u" for u
    using that by (rule task_inv_set) (auto intro!: task_ok_updates)
  then show ?thesis using assms unlink_child_inv [where X = X and c = c and s = s]
    by (auto simp: post_def task_remove_child_def bind_eq_Some_conv split: option.splits)
qed

section \<open>Start-up\<close>

lemma free_stack_other: "u \<noteq> t \<Longrightarrow> task_table (task_free_stack t s) u = task_table s u"
  by (simp add: task_free_stack_def Let_def)

lemma init_tasks_other: "u < i \<Longrightarrow> task_table (init_tasks n i s) u = task_table s u"
  by (induction n arbitrary: i s) (simp_all add: Let_def free_stack_other)

lemma init_tasks_blank: "i \<le> u \<Longrightarrow> u < i + n \<Longrightarrow> \<exists>k. task_table (init_tasks n i s) u = blank_task k"
proof (induction n arbitrary: i s)
  case (Suc n)
  then show ?case by (cases "u = i") (auto simp: Let_def init_tasks_other)
qed simp

lemma task_init_inv: "task_inv {} (task_init s)"
proof -
  have b: "\<exists>k. task_table (task_init s) t = blank_task k" if "t < TASK_MAX" for t
    using init_tasks_blank [of 0 t TASK_MAX s] that by (simp add: task_init_def)
  have f: "tstate (blank_task k) = TASK_UNUSED" "stack_base (blank_task k) = 0" "task_ok (blank_task k)" for k
    by (simp_all add: blank_task_def task_init_process_fields_def task_ok_def)
  have u: "tstate (task_table (task_init s) t) = TASK_UNUSED" "stack_base (task_table (task_init s) t) = 0"
    "task_ok (task_table (task_init s) t)" if "t < TASK_MAX" for t
    using b [OF that] f by auto
  have e: "ready_set (task_init s) = {}" using u(1) by (auto simp: ready_set_def)
  have h: "ready_list_head (task_init s) = None" "ready_list_tail (task_init s) = None" "current_task (task_init s) = None"
    by (simp_all add: task_init_def)
  then have "is_ready_list (task_init s) []" by (simp add: is_ready_list_def)
  then have "sched {} (task_init s) []" by (rule schedI) (use e u(1) h in auto)
  moreover have "stack_inv (task_init s)" by (rule stack_invI) (use u(2) in auto)
  ultimately show ?thesis using u(3) by (auto simp: task_inv_def)
qed

text \<open>The boot code makes the first task current.\<close>

lemma task_set_current_inv:
  assumes "task_inv {} s" "idle s" "t < TASK_MAX" "tstate (task_table s t) = TASK_READY" "current_task s \<noteq> Some t"
  shows "task_inv {} (task_set_current (Some t) s)"
    "current_task (task_set_current (Some t) s) = Some t"
    "tstate (task_table (task_set_current (Some t) s) t) = TASK_RUNNING"
proof -
  let ?s = "task_set_current (Some t) s"
  obtain q where q: "sched {} s q" using assms(1) by (auto simp: task_inv_def)
  have "t \<in> set q" using schedD(2) [OF q] assms(3,4) by (auto simp: ready_set_def)
  then obtain a b where ab: "q = a @ t # b" by (auto simp: in_set_conv_decomp)
  have d: "distinct q" by (rule schedD(3) [OF q])
  show c: "current_task ?s = Some t" using assms(5) by (simp add: task_set_current_def Let_def assms(4))
  have T: "task_table ?s = (task_table (task_remove t s))
      (t := (task_table (task_remove t s) t)\<lparr>tstate := TASK_RUNNING, ticks := 0\<rparr>)"
    using assms(4,5) by (simp add: task_set_current_def Let_def)
  have k: "core (task_table ?s u) =
      core (if u = t then (task_table s t)\<lparr>tstate := TASK_RUNNING, ticks := 0\<rparr> else task_table s u)" for u
    by (simp add: T core_set_running [OF task_remove_core] task_remove_core)
  have st: "tstate (task_table ?s u) = (if u = t then TASK_RUNNING else tstate (task_table s u))" for u
    using core_eqD(1) [OF k] by simp
  then show "tstate (task_table ?s t) = TASK_RUNNING" by simp
  have "is_ready_list (task_remove t s) (a @ b)"
    using task_remove_spec [of s a t b] schedD(1) [OF q] ab by simp
  moreover have "is_ready_list ?s (a @ b) = is_ready_list
      (set_task t (\<lambda>k. k\<lparr>tstate := TASK_RUNNING, ticks := 0\<rparr>) (task_remove t s)) (a @ b)"
    by (rule is_ready_list_cong) (use assms(4,5) in \<open>simp_all add: task_set_current_def Let_def\<close>)
  ultimately have l: "is_ready_list ?s (a @ b)" by (simp add: is_ready_list_set_task)
  have "ready_set ?s = ready_set s - {t}" by (auto simp: ready_set_def st)
  then have r: "set (a @ b) = ready_set ?s - {}" using schedD(2) [OF q] d ab by auto
  have "current_task ?s = Some u" if "u < TASK_MAX" "tstate (task_table ?s u) = TASK_RUNNING" for u
    using that assms(2) c by (simp add: idle_def st split: if_splits)
  with l r have "sched {} ?s (a @ b)" by (rule schedI) (use c assms(3) in simp_all)
  moreover have "stack_inv ?s = stack_inv s"
    using core_eqD(6,7) [OF k] assms(4,5)
    by (intro stack_inv_cong) (auto simp: task_set_current_def Let_def)
  moreover have "task_ok (task_table ?s u)" if "u < TASK_MAX" for u
    using task_ok_core [OF k, of u] task_inv_ok [OF assms(1) that] assms(4) by (auto intro!: task_ok_updates)
  ultimately show "task_inv {} ?s" using assms(1) by (auto simp: task_inv_def)
qed

section \<open>Scheduling\<close>

text \<open>A machine with three tasks: task 0 runs, tasks 1 and 2 are ready.\<close>

definition demo_task :: "nat \<Rightarrow> task" where
  "demo_task i = \<lparr>pid = of_nat i + 1,
     tstate = (if i = 0 then TASK_RUNNING else if i < 3 then TASK_READY else TASK_UNUSED),
     ttype = TASK_TYPE_USER_PROCESS, quantum = TASK_QUANTUM_DEFAULT, ticks = 0, stack_base = 0, stack_top = 0,
     stack_size = 0, user_stack_top = 0, user_stack_size = 0, user_stack_paddr = 0, user_code_paddr = 0,
     user_code_frame_count = 0, user_code_frames = replicate 16 0, user_heap_start = USER_HEAP_START,
     user_heap_size = 0, user_heap_frame_count = 0, user_heap_frames = replicate 16 0,
     page_directory_phys = 0x180000, parent_pid = 0, parent = None, first_child = None, next_sibling = None,
     waiting_for_pid = - 1, waiting_status = 0, wake_tick = 0, exit_status = 0, ctx = context_zero,
     next_task = (if i = 1 then Some 2 else None), prev_task = (if i = 2 then Some 1 else None)\<rparr>"

definition demo_tasks :: "'a \<Rightarrow> 'a task_state_scheme" where
  "demo_tasks x = \<lparr>phys = phys demo_vmm, cr3 = cr3 demo_vmm, cr0_pg = True, pmm_bitmap = pmm_bitmap demo_vmm,
     pmm_regions = [], total_frames = 600, current_pdt_phys = 0x180000, kernel_pdt_phys = 0x180000,
     task_table = demo_task, current_task = Some 0, ready_list_head = Some 1, ready_list_tail = Some 2,
     next_pid = 4, task_stack_slots = (\<lambda>_. False), pit_ticks = 0, tss_esp0 = 0, tss_ss0 = 0, \<dots> = x\<rparr>"

lemma demo_tasks_simps [simp]:
  "task_table (demo_tasks x) = demo_task" "current_task (demo_tasks x) = Some 0"
  "tstate (demo_task i) = (if i = 0 then TASK_RUNNING else if i < 3 then TASK_READY else TASK_UNUSED)"
  "quantum (demo_task i) = TASK_QUANTUM_DEFAULT" "ticks (demo_task i) = 0"
  by (simp_all add: demo_tasks_def demo_task_def)

lemma demo_list: "is_ready_list (demo_tasks x) [1, 2]"
  by (simp add: is_ready_list_def demo_tasks_def demo_task_def)

lemma demo_sched: "sched {} (demo_tasks x) [1, 2]"
  using demo_list by (rule schedI) (auto simp: ready_set_def TASK_MAX_def split: if_splits)

lemma demo_task_inv: "task_inv {} (demo_tasks x)"
proof -
  have "stack_inv (demo_tasks x)" by (rule stack_invI) (simp_all add: demo_task_def)
  moreover have "task_ok (demo_task t)" for t
    by (simp add: demo_task_def task_ok_def MAX_USER_CODE_PAGES_def MAX_USER_HEAP_PAGES_def)
  ultimately show ?thesis unfolding task_inv_def using demo_sched [of x] by (simp del: One_nat_def) blast
qed

text \<open>
  C8: The doubly linked ready list is a list of tasks: \<open>task_enqueue\<close> appends a task that is not
  in it, \<open>task_remove\<close> takes a task out wherever it stands, and \<open>task_select_next\<close> returns and
  removes the first one.
\<close>

theorem ready_list_refines:
  assumes "is_ready_list s q"
  shows "(t \<notin> set q \<longrightarrow> is_ready_list (task_enqueue t s) (q @ [t]))
    \<and> (t \<in> set q \<longrightarrow> is_ready_list (task_remove t s) (remove1 t q))
    \<and> fst (task_select_next s) = (if q = [] then None else Some (hd q))
    \<and> is_ready_list (snd (task_select_next s)) (tl q)"
proof -
  have "is_ready_list (task_remove t s) (remove1 t q)" if t: "t \<in> set q"
  proof -
    obtain a b where ab: "q = a @ t # b" using t by (auto simp: in_set_conv_decomp)
    then have "remove1 t q = a @ b" using assms by (auto simp: is_ready_list_def remove1_append)
    then show ?thesis using task_remove_spec [of s a t b] assms ab by simp
  qed
  then show ?thesis
    using task_enqueue_append [OF assms, of t] task_select_next_list [OF assms] by (auto simp: head_or_def)
qed

theorem ready_list_refines_witness:
  "is_ready_list (task_enqueue 5 (demo_tasks ())) [1, 2, 5] \<and> fst (task_select_next (demo_tasks ())) = Some 1"
  using ready_list_refines [OF demo_list, of 5 "()"] by simp

text \<open>
  C9: Round robin: when a task has used \<open>m\<close> of the 5 ticks of its turn, the task at position \<open>i\<close>
  of the ready list is the running one after \<open>5 - m + 5 * i\<close> further timer interrupts, whatever
  tasks wake up meanwhile.
\<close>

theorem round_robin:
  assumes "runs s t m q" "m < 5" "i < length q"
  shows "\<exists>r. runs ((clock_tick ^^ (5 - m + i * 5)) s) (q ! i) 0 r"
  using rr.gets_its_turn [of s t m q i] assms by (simp add: TASK_QUANTUM_DEFAULT_def)

theorem round_robin_witness: "\<exists>r. runs ((clock_tick ^^ 10) (demo_tasks ())) 2 0 r"
proof -
  have "runs (demo_tasks ()) 0 0 [1, 2]" using demo_sched [of "()"] by (simp add: runs_def)
  from round_robin [OF this, of 1] show ?thesis by simp
qed

end
