(* ===== verification/Module.thy ===== *)
theory Module
  imports TaskInv
begin

text \<open>
  Kernel modules, kernel/src/kernel/module.c and module_loader.c: the table of exported kernel
  symbols, the table of modules, and the loader of relocatable ELF objects. The image is the
  caller's buffer as it is when the call is made, a list of bytes as in \<open>Elf\<close>; the names of the
  exported symbols are literals of the kernel; the name of a loaded module is a pointer into the
  memory of the module. The code of a module is not part of the sources: calling a pointer into
  it is the argument \<open>call\<close> of the two operations that do so. Log output is left out.
\<close>

section \<open>Data\<close>

datatype module_status =
  MODULE_STATE_UNUSED | MODULE_STATE_LOADED | MODULE_STATE_UNLOADED | MODULE_STATE_FAILED

record kmodule =
  mod_name :: u32
  mod_version :: u32
  mod_init :: u32
  mod_exit :: u32
  mod_data :: u32
  load_base_vaddr :: u32
  load_size :: u32
  page_count :: u32
  mod_frames :: "u32 list"
  mod_state :: module_status

record module_state = task_state +
  kernel_symbols :: "(u8 list \<times> u32) list"
  loaded_modules :: "nat \<Rightarrow> kmodule"
  loaded_module_count :: nat

definition MAX_KERNEL_SYMBOLS :: nat where
  "MAX_KERNEL_SYMBOLS = 64"

definition MAX_LOADED_MODULES :: nat where
  "MAX_LOADED_MODULES = 16"

definition MAX_MODULE_PAGES :: u32 where
  "MAX_MODULE_PAGES = 16"

definition MODULE_LOAD_BASE :: u32 where [layout]:
  "MODULE_LOAD_BASE = 0xC0900000"

definition set_module ::
  "nat \<Rightarrow> (kmodule \<Rightarrow> kmodule) \<Rightarrow> 'a module_state_scheme \<Rightarrow> 'a module_state_scheme" where
  "set_module m f s = s\<lparr>loaded_modules := (loaded_modules s)(m := f (loaded_modules s m))\<rparr>"

section \<open>Strings\<close>

text \<open>A string is the function that reads its bytes: in memory, in the image, or a literal.\<close>

type_synonym cstr = "u32 \<Rightarrow> u8 option"

definition in_memory :: "'a machine_scheme \<Rightarrow> u32 \<Rightarrow> cstr" where
  "in_memory s p i = vload8 (p + i) s"

definition in_image :: "u8 list \<Rightarrow> u32 \<Rightarrow> cstr" where
  "in_image b p i = byte_at b (p + i)"

partial_function (option) kstrcmp_from :: "cstr \<Rightarrow> cstr \<Rightarrow> u32 \<Rightarrow> int option" where
  "kstrcmp_from a b i = do {
     x \<leftarrow> a i;
     y \<leftarrow> b i;
     if x \<noteq> 0 \<and> x = y then kstrcmp_from a b (i + 1) else Some (uint x - uint y)
   }"

definition kstrcmp :: "cstr \<Rightarrow> cstr \<Rightarrow> int option" where
  "kstrcmp a b = kstrcmp_from a b 0"

section \<open>Kernel symbols\<close>

definition module_register_symbol ::
  "u8 list option \<Rightarrow> u32 \<Rightarrow> 'a module_state_scheme \<Rightarrow> int \<times> 'a module_state_scheme" where
  "module_register_symbol name address s =
     (case name of
        None \<Rightarrow> (- 1, s)
      | Some nm \<Rightarrow>
          if address = 0 then (- 1, s)
          else if length (kernel_symbols s) \<ge> MAX_KERNEL_SYMBOLS then (- 1, s)
          else (0, s\<lparr>kernel_symbols := kernel_symbols s @ [(nm, address)]\<rparr>))"

primrec get_symbol_loop :: "cstr \<Rightarrow> (u8 list \<times> u32) list \<Rightarrow> u32 option" where
  "get_symbol_loop name [] = Some 0"
| "get_symbol_loop name (k # ks) = do {
     c \<leftarrow> kstrcmp (byte_at (fst k)) name;
     if c = 0 then Some (snd k) else get_symbol_loop name ks
   }"

definition module_get_symbol :: "cstr option \<Rightarrow> 'a module_state_scheme \<Rightarrow> u32 option" where
  "module_get_symbol name s =
     (case name of None \<Rightarrow> Some 0 | Some nm \<Rightarrow> get_symbol_loop nm (kernel_symbols s))"

text \<open>The first of the \<open>n\<close> modules from \<open>i\<close> on that has a name and the given one.\<close>

primrec find_module_from :: "cstr \<Rightarrow> nat \<Rightarrow> nat \<Rightarrow> 'a module_state_scheme \<Rightarrow> nat option option" where
  "find_module_from name 0 i s = Some None"
| "find_module_from name (Suc n) i s =
     (if mod_name (loaded_modules s i) \<noteq> 0
      then do {
        c \<leftarrow> kstrcmp (in_memory s (mod_name (loaded_modules s i))) name;
        if c = 0 then Some (Some i) else find_module_from name n (Suc i) s
      }
      else find_module_from name n (Suc i) s)"

definition module_find :: "cstr option \<Rightarrow> 'a module_state_scheme \<Rightarrow> nat option option" where
  "module_find name s =
     (case name of None \<Rightarrow> Some None | Some nm \<Rightarrow> find_module_from nm (loaded_module_count s) 0 s)"

section \<open>The loader of relocatable objects\<close>

definition strtab_string :: "u32 \<Rightarrow> u32 \<Rightarrow> u32 \<Rightarrow> u32 option" where
  "strtab_string strtab strtab_size offset = (if offset \<ge> strtab_size then None else Some (strtab + offset))"

definition symtab_literal :: "u8 list" where
  "symtab_literal = [0x2E, 0x73, 0x79, 0x6D, 0x74, 0x61, 0x62, 0]"

definition validate_rel_header :: "Elf32_Ehdr \<Rightarrow> u32 \<Rightarrow> bool" where
  "validate_rel_header ehdr elf_size = (
     if elf_size < 52 then False
     else if take 4 (e_ident ehdr) \<noteq> [0x7F, 0x45, 0x4C, 0x46] then False
     else if e_ident ehdr ! 4 \<noteq> 1 \<or> e_ident ehdr ! 5 \<noteq> 1 \<or> e_version ehdr \<noteq> 1 \<or> e_type ehdr \<noteq> 1
       \<or> e_machine ehdr \<noteq> 3 then False
     else if e_shoff ehdr = 0 \<or> e_shnum ehdr = 0 \<or> e_shentsize ehdr \<noteq> 40 then False
     else if e_shoff ehdr + ucast (e_shnum ehdr) * 40 > elf_size then False
     else if e_shstrndx ehdr \<ge> e_shnum ehdr then False
     else True)"

record section_mapping =
  section_index :: u32
  section_base_vaddr :: u32

definition mapped_base :: "section_mapping list \<Rightarrow> u32 \<Rightarrow> u32 option" where
  "mapped_base mappings index =
     map_option section_base_vaddr (find (\<lambda>m. section_index m = index) mappings)"

primrec allocate_module_frames ::
  "nat \<Rightarrow> nat \<Rightarrow> 'a module_state_scheme \<Rightarrow> (bool \<times> 'a module_state_scheme) option" where
  "allocate_module_frames m 0 s = Some (True, s)"
| "allocate_module_frames m (Suc n) s =
     (if page_count (loaded_modules s m) \<ge> MAX_MODULE_PAGES then Some (False, s)
      else do {
        (frame, s1) \<leftarrow> pmm_alloc_frame s;
        if frame = 0 then Some (False, s1)
        else allocate_module_frames m n (set_module m (\<lambda>k. k
          \<lparr>mod_frames := (mod_frames k)[unat (page_count k) := frame], page_count := page_count k + 1\<rparr>) s1)
      })"

text \<open>The loop that gives pages and frames back, as three places of the code write it.\<close>

primrec release_module_pages ::
  "nat \<Rightarrow> nat \<Rightarrow> u32 \<Rightarrow> 'a module_state_scheme \<Rightarrow> 'a module_state_scheme option" where
  "release_module_pages m 0 i s = Some s"
| "release_module_pages m (Suc n) i s = do {
     frame \<leftarrow> frame_at (mod_frames (loaded_modules s m)) i;
     s1 \<leftarrow> vmm_unmap_page (load_base_vaddr (loaded_modules s m) + i * PAGE_SIZE) s;
     s2 \<leftarrow> pmm_free_frame frame s1;
     release_module_pages m n (i + 1) s2
   }"

definition cleanup_module_frames :: "nat \<Rightarrow> 'a module_state_scheme \<Rightarrow> 'a module_state_scheme option" where
  "cleanup_module_frames m s = do {
     s1 \<leftarrow> release_module_pages m (unat (page_count (loaded_modules s m))) 0 s;
     Some (set_module m (\<lambda>k. k\<lparr>page_count := 0, load_size := 0, load_base_vaddr := 0\<rparr>) s1)
   }"

text \<open>The search of \<open>lookup_module_symbol\<close> for its tables: type and name must agree.\<close>

primrec find_symbol_tables ::
  "Elf32_Ehdr \<Rightarrow> u8 list \<Rightarrow> nat \<Rightarrow> u32 \<Rightarrow> Elf32_Shdr option \<Rightarrow> Elf32_Shdr option
    \<Rightarrow> (Elf32_Shdr option \<times> Elf32_Shdr option) option" where
  "find_symbol_tables ehdr b 0 i symtab_sh strtab_sh = Some (symtab_sh, strtab_sh)"
| "find_symbol_tables ehdr b (Suc n) i symtab_sh strtab_sh = do {
     sh \<leftarrow> read_shdr b (e_shoff ehdr + i * 40);
     shstr \<leftarrow> read_shdr b (e_shoff ehdr + ucast (e_shstrndx ehdr) * 40);
     case section_name sh (sh_offset shstr) (sh_size shstr) of
       None \<Rightarrow> find_symbol_tables ehdr b n (i + 1) symtab_sh strtab_sh
     | Some name \<Rightarrow> do {
         is_symtab \<leftarrow> (if sh_type sh = 2 then str_equal b name symtab_literal else Some False);
         is_strtab \<leftarrow> (if \<not> is_symtab \<and> sh_type sh = 3 then str_equal b name strtab_literal else Some False);
         find_symbol_tables ehdr b n (i + 1) (if is_symtab then Some sh else symtab_sh)
           (if is_strtab then Some sh else strtab_sh)
       }
   }"

primrec lookup_symbol_from ::
  "u8 list \<Rightarrow> u8 list \<Rightarrow> Elf32_Shdr \<Rightarrow> Elf32_Shdr \<Rightarrow> section_mapping list \<Rightarrow> nat \<Rightarrow> u32 \<Rightarrow> u32 option" where
  "lookup_symbol_from symbol_name b symtab_sh strtab_sh mappings 0 i = Some 0"
| "lookup_symbol_from symbol_name b symtab_sh strtab_sh mappings (Suc n) i = do {
     symb \<leftarrow> read_sym b (sh_offset symtab_sh + i * 16);
     case strtab_string (sh_offset strtab_sh) (sh_size strtab_sh) (st_name symb) of
       None \<Rightarrow> lookup_symbol_from symbol_name b symtab_sh strtab_sh mappings n (i + 1)
     | Some name \<Rightarrow> do {
         eq \<leftarrow> str_equal b name symbol_name;
         if \<not> eq then lookup_symbol_from symbol_name b symtab_sh strtab_sh mappings n (i + 1)
         else Some (case mapped_base mappings (ucast (st_shndx symb)) of
                      None \<Rightarrow> 0 | Some base \<Rightarrow> base + st_value symb)
       }
   }"

definition lookup_module_symbol ::
  "u8 list \<Rightarrow> Elf32_Ehdr \<Rightarrow> u8 list \<Rightarrow> u32 \<Rightarrow> section_mapping list \<Rightarrow> u32 option" where
  "lookup_module_symbol symbol_name ehdr b elf_size mappings = do {
     (symtab_sh, strtab_sh) \<leftarrow> find_symbol_tables ehdr b (unat (e_shnum ehdr)) 0 None None;
     case (symtab_sh, strtab_sh) of
       (Some symtab, Some strtab) \<Rightarrow>
         if sh_offset symtab + sh_size symtab > elf_size \<or> sh_offset strtab + sh_size strtab > elf_size
         then Some 0
         else lookup_symbol_from symbol_name b symtab strtab mappings (unat (sh_size symtab div 16)) 0
     | _ \<Rightarrow> Some 0
   }"

definition resolve_symbol_value ::
  "u8 list \<Rightarrow> Elf32_Sym \<Rightarrow> section_mapping list \<Rightarrow> u32 \<Rightarrow> u32 \<Rightarrow> 'a module_state_scheme \<Rightarrow> u32 option" where
  "resolve_symbol_value b symb mappings strtab strtab_size s =
     (if st_shndx symb = 0
      then (case strtab_string strtab strtab_size (st_name symb) of
              None \<Rightarrow> Some 0
            | Some name \<Rightarrow> module_get_symbol (Some (in_image b name)) s)
      else Some (case mapped_base mappings (ucast (st_shndx symb)) of
                   None \<Rightarrow> 0 | Some base \<Rightarrow> base + st_value symb))"

text \<open>The tables of \<open>process_relocations\<close>: the last symbol table, and \<open>.strtab\<close>.\<close>

primrec find_reloc_tables ::
  "Elf32_Ehdr \<Rightarrow> u8 list \<Rightarrow> u32 \<Rightarrow> u32 \<Rightarrow> nat \<Rightarrow> u32 \<Rightarrow> Elf32_Shdr option \<Rightarrow> Elf32_Shdr option
    \<Rightarrow> (Elf32_Shdr option \<times> Elf32_Shdr option) option" where
  "find_reloc_tables ehdr b shstrtab shstrtab_size 0 i symtab_sh strtab_sh = Some (symtab_sh, strtab_sh)"
| "find_reloc_tables ehdr b shstrtab shstrtab_size (Suc n) i symtab_sh strtab_sh = do {
     h \<leftarrow> section_header ehdr b i;
     case h of
       None \<Rightarrow> find_reloc_tables ehdr b shstrtab shstrtab_size n (i + 1) symtab_sh strtab_sh
     | Some sh \<Rightarrow>
         if sh_type sh = 2
         then find_reloc_tables ehdr b shstrtab shstrtab_size n (i + 1) (Some sh) strtab_sh
         else if sh_type sh = 3
         then do {
           eq \<leftarrow> (case section_name sh shstrtab shstrtab_size of
                    None \<Rightarrow> Some False | Some name \<Rightarrow> str_equal b name strtab_literal);
           find_reloc_tables ehdr b shstrtab shstrtab_size n (i + 1) symtab_sh
             (if eq then Some sh else strtab_sh)
         }
         else find_reloc_tables ehdr b shstrtab shstrtab_size n (i + 1) symtab_sh strtab_sh
   }"

text \<open>One relocation, applied in place; false stands for the return value -1.\<close>

definition apply_relocation ::
  "u8 list \<Rightarrow> Elf32_Shdr \<Rightarrow> u32 \<Rightarrow> u32 \<Rightarrow> section_mapping list \<Rightarrow> u32 \<Rightarrow> Elf32_Rel
    \<Rightarrow> 'a module_state_scheme \<Rightarrow> (bool \<times> 'a module_state_scheme) option" where
  "apply_relocation b symtab_sh strtab strtab_size mappings target_base_vaddr rel s = (
     let sym_index = elf32_r_sym (r_info rel);
         rel_type = elf32_r_type (r_info rel) in
     if rel_type \<noteq> 1 \<and> rel_type \<noteq> 2 \<and> rel_type \<noteq> 4 then Some (True, s)
     else if sym_index \<ge> sh_size symtab_sh div 16 then Some (False, s)
     else do {
       symb \<leftarrow> read_sym b (sh_offset symtab_sh + sym_index * 16);
       sym_value \<leftarrow> resolve_symbol_value b symb mappings strtab strtab_size s;
       if sym_value = 0 \<and> st_shndx symb = 0 then Some (False, s)
       else do {
         let reloc_target_va = target_base_vaddr + r_offset rel;
         addend \<leftarrow> vload32 reloc_target_va s;
         s1 \<leftarrow> vstore32 reloc_target_va
           (if rel_type = 1 then sym_value + addend else sym_value + addend - reloc_target_va) s;
         Some (True, s1)
       }
     })"

primrec apply_relocations ::
  "u8 list \<Rightarrow> Elf32_Shdr \<Rightarrow> u32 \<Rightarrow> u32 \<Rightarrow> section_mapping list \<Rightarrow> u32 \<Rightarrow> u32 \<Rightarrow> nat \<Rightarrow> u32
    \<Rightarrow> 'a module_state_scheme \<Rightarrow> (bool \<times> 'a module_state_scheme) option" where
  "apply_relocations b symtab_sh strtab strtab_size mappings base rel_offset 0 j s = Some (True, s)"
| "apply_relocations b symtab_sh strtab strtab_size mappings base rel_offset (Suc n) j s = do {
     rel \<leftarrow> read_rel b (rel_offset + j * 8);
     (ok, s1) \<leftarrow> apply_relocation b symtab_sh strtab strtab_size mappings base rel s;
     if ok then apply_relocations b symtab_sh strtab strtab_size mappings base rel_offset n (j + 1) s1
     else Some (False, s1)
   }"

primrec reloc_sections ::
  "Elf32_Ehdr \<Rightarrow> u8 list \<Rightarrow> Elf32_Shdr option \<Rightarrow> u32 \<Rightarrow> u32 \<Rightarrow> section_mapping list \<Rightarrow> nat \<Rightarrow> u32
    \<Rightarrow> 'a module_state_scheme \<Rightarrow> (int \<times> 'a module_state_scheme) option" where
  "reloc_sections ehdr b symtab strtab strtab_size mappings 0 i s = Some (0, s)"
| "reloc_sections ehdr b symtab strtab strtab_size mappings (Suc n) i s = do {
     h \<leftarrow> section_header ehdr b i;
     case (h, symtab) of
       (Some rel_sh, Some symtab_sh) \<Rightarrow>
         if sh_type rel_sh \<noteq> 9 \<or> sh_info rel_sh \<ge> ucast (e_shnum ehdr)
         then reloc_sections ehdr b symtab strtab strtab_size mappings n (i + 1) s
         else (case mapped_base mappings (sh_info rel_sh) of
                 None \<Rightarrow> reloc_sections ehdr b symtab strtab strtab_size mappings n (i + 1) s
               | Some base \<Rightarrow>
                   if base = 0
                   then reloc_sections ehdr b symtab strtab strtab_size mappings n (i + 1) s
                   else do {
                     (ok, s1) \<leftarrow> apply_relocations b symtab_sh strtab strtab_size mappings base
                       (sh_offset rel_sh) (unat (sh_size rel_sh div 8)) 0 s;
                     if ok then reloc_sections ehdr b symtab strtab strtab_size mappings n (i + 1) s1
                     else Some (- 1, s1)
                   })
     | _ \<Rightarrow> reloc_sections ehdr b symtab strtab strtab_size mappings n (i + 1) s
   }"

definition out_of_range :: "u32 \<Rightarrow> Elf32_Shdr option \<Rightarrow> bool" where
  "out_of_range elf_size h = (case h of None \<Rightarrow> False | Some sh \<Rightarrow> sh_offset sh + sh_size sh > elf_size)"

definition module_relocations ::
  "Elf32_Ehdr \<Rightarrow> u8 list \<Rightarrow> u32 \<Rightarrow> section_mapping list \<Rightarrow> 'a module_state_scheme
    \<Rightarrow> (int \<times> 'a module_state_scheme) option" where
  "module_relocations ehdr b elf_size mappings s = do {
     h \<leftarrow> section_header ehdr b (ucast (e_shstrndx ehdr));
     case h of
       None \<Rightarrow> Some (- 1, s)
     | Some shstr_sh \<Rightarrow>
         if out_of_range elf_size h then Some (- 1, s)
         else do {
           (symtab_sh, strtab_sh) \<leftarrow> find_reloc_tables ehdr b (sh_offset shstr_sh) (sh_size shstr_sh)
             (unat (e_shnum ehdr)) 0 None None;
           if out_of_range elf_size symtab_sh then Some (- 1, s)
           else if out_of_range elf_size strtab_sh then Some (- 1, s)
           else
             let (strtab, strtab_size) = (case strtab_sh of
                   None \<Rightarrow> (0, 0) | Some sh \<Rightarrow> (sh_offset sh, sh_size sh)) in
             reloc_sections ehdr b symtab_sh strtab strtab_size mappings (unat (e_shnum ehdr)) 0 s
         }
   }"

section \<open>Placing the sections\<close>

definition section_align :: "Elf32_Shdr \<Rightarrow> u32" where
  "section_align sh = (
     let align = (if sh_addralign sh \<noteq> 0 then sh_addralign sh else PAGE_SIZE) in
     if align < PAGE_SIZE then PAGE_SIZE else align)"

definition section_pages :: "Elf32_Shdr \<Rightarrow> u32" where
  "section_pages sh = (sh_size sh + PAGE_SIZE - 1) div PAGE_SIZE"

definition aligned_offset :: "u32 \<Rightarrow> Elf32_Shdr \<Rightarrow> u32" where
  "aligned_offset current_offset sh = (current_offset + section_align sh - 1) AND NOT (section_align sh - 1)"

primrec map_module_pages ::
  "nat \<Rightarrow> u32 \<Rightarrow> u32 \<Rightarrow> nat \<Rightarrow> u32 \<Rightarrow> 'a module_state_scheme \<Rightarrow> 'a module_state_scheme option" where
  "map_module_pages m section_base first_frame_index 0 page s = Some s"
| "map_module_pages m section_base first_frame_index (Suc n) page s = do {
     frame \<leftarrow> frame_at (mod_frames (loaded_modules s m)) (first_frame_index + page);
     s1 \<leftarrow> vmm_map_kernel_page (section_base + page * PAGE_SIZE) frame s;
     map_module_pages m section_base first_frame_index n (page + 1) s1
   }"

definition module_fails :: "nat \<Rightarrow> 'a module_state_scheme \<Rightarrow> 'a module_state_scheme option" where
  "module_fails m s = do {
     s1 \<leftarrow> cleanup_module_frames m s;
     Some (set_module m (\<lambda>k. k\<lparr>mod_state := MODULE_STATE_FAILED\<rparr>) s1)
   }"

text \<open>
  One allocated section: frames, mappings, contents. The result is its base, or \<open>None\<close> when the
  loader has given up.
\<close>

definition place_section ::
  "nat \<Rightarrow> u8 list \<Rightarrow> u32 \<Rightarrow> u32 \<Rightarrow> Elf32_Shdr \<Rightarrow> 'a module_state_scheme
    \<Rightarrow> (u32 option \<times> 'a module_state_scheme) option" where
  "place_section m b elf_size current_offset sh s = (
     let section_base = load_base_vaddr (loaded_modules s m) + aligned_offset current_offset sh;
         pages = section_pages sh in
     if page_count (loaded_modules s m) + pages > MAX_MODULE_PAGES
     then do { s1 \<leftarrow> module_fails m s; Some (None, s1) }
     else do {
       let first_frame_index = page_count (loaded_modules s m);
       (ok, s1) \<leftarrow> allocate_module_frames m (unat pages) s;
       if \<not> ok then do { s2 \<leftarrow> module_fails m s1; Some (None, s2) }
       else do {
         s2 \<leftarrow> map_module_pages m section_base first_frame_index (unat pages) 0 s1;
         if sh_type sh = 8
         then do {
           s3 \<leftarrow> memset section_base 0 (unat (pages * PAGE_SIZE)) s2;
           Some (Some section_base, s3)
         }
         else if sh_offset sh + sh_size sh > elf_size
         then do { s3 \<leftarrow> module_fails m s2; Some (None, s3) }
         else do {
           s3 \<leftarrow> copy_in b (sh_offset sh) section_base (unat (sh_size sh)) s2;
           s4 \<leftarrow> (if sh_size sh < pages * PAGE_SIZE
                 then memset (section_base + sh_size sh) 0 (unat (pages * PAGE_SIZE - sh_size sh)) s3
                 else Some s3);
           Some (Some section_base, s4)
         }
       }
     })"

primrec place_sections ::
  "nat \<Rightarrow> Elf32_Ehdr \<Rightarrow> u8 list \<Rightarrow> u32 \<Rightarrow> nat \<Rightarrow> u32 \<Rightarrow> u32 \<Rightarrow> section_mapping list
    \<Rightarrow> 'a module_state_scheme \<Rightarrow> ((u32 \<times> section_mapping list) option \<times> 'a module_state_scheme) option" where
  "place_sections m ehdr b elf_size 0 i current_offset mappings s = Some (Some (current_offset, mappings), s)"
| "place_sections m ehdr b elf_size (Suc n) i current_offset mappings s = do {
     h \<leftarrow> section_header ehdr b i;
     case h of
       None \<Rightarrow> place_sections m ehdr b elf_size n (i + 1) current_offset mappings s
     | Some sh \<Rightarrow>
         if sh_flags sh AND 2 = 0 \<or> sh_size sh = 0
         then place_sections m ehdr b elf_size n (i + 1) current_offset mappings s
         else do {
           (r, s1) \<leftarrow> place_section m b elf_size current_offset sh s;
           case r of
             None \<Rightarrow> Some (None, s1)
           | Some section_base \<Rightarrow>
               place_sections m ehdr b elf_size n (i + 1)
                 (aligned_offset current_offset sh + section_pages sh * PAGE_SIZE)
                 (if length mappings < 64
                  then mappings @ [\<lparr>section_index = i, section_base_vaddr = section_base\<rparr>]
                  else mappings) s1
         }
   }"

text \<open>The search by name at the beginning of the loader; only a warning depends on its result.\<close>

primrec find_named_tables ::
  "Elf32_Ehdr \<Rightarrow> u8 list \<Rightarrow> u32 \<Rightarrow> u32 \<Rightarrow> nat \<Rightarrow> u32 \<Rightarrow> bool \<Rightarrow> bool \<Rightarrow> (bool \<times> bool) option" where
  "find_named_tables ehdr b shstrtab shstrtab_size 0 i strtab symtab = Some (strtab, symtab)"
| "find_named_tables ehdr b shstrtab shstrtab_size (Suc n) i strtab symtab = do {
     sh \<leftarrow> read_shdr b (e_shoff ehdr + i * 40);
     case section_name sh shstrtab shstrtab_size of
       None \<Rightarrow> find_named_tables ehdr b shstrtab shstrtab_size n (i + 1) strtab symtab
     | Some name \<Rightarrow> do {
         is_strtab \<leftarrow> str_equal b name strtab_literal;
         is_symtab \<leftarrow> (if is_strtab then Some False else str_equal b name symtab_literal);
         find_named_tables ehdr b shstrtab shstrtab_size n (i + 1) (strtab \<or> is_strtab) (symtab \<or> is_symtab)
       }
   }"

text \<open>The literals \<open>module_init_fn\<close>, \<open>module_exit_fn\<close>, \<open>module_name_str\<close>, \<open>module_version_str\<close>.\<close>

definition c_literal :: "string \<Rightarrow> u8 list" where
  "c_literal str = map of_char str @ [0]"

text \<open>A pointer variable of the module: the word at the symbol, or what was there before.\<close>

definition entry_point ::
  "string \<Rightarrow> Elf32_Ehdr \<Rightarrow> u8 list \<Rightarrow> u32 \<Rightarrow> section_mapping list \<Rightarrow> u32 \<Rightarrow> 'a machine_scheme \<Rightarrow> u32 option" where
  "entry_point symbol_name ehdr b elf_size mappings old s = do {
     addr \<leftarrow> lookup_module_symbol (c_literal symbol_name) ehdr b elf_size mappings;
     if addr \<noteq> 0 then vload32 addr s else Some old
   }"

definition discover_entry_points ::
  "nat \<Rightarrow> Elf32_Ehdr \<Rightarrow> u8 list \<Rightarrow> u32 \<Rightarrow> section_mapping list \<Rightarrow> 'a module_state_scheme
    \<Rightarrow> 'a module_state_scheme option" where
  "discover_entry_points m ehdr b elf_size mappings s = do {
     let k = loaded_modules s m;
     ini \<leftarrow> entry_point ''module_init_fn'' ehdr b elf_size mappings (mod_init k) s;
     ext \<leftarrow> entry_point ''module_exit_fn'' ehdr b elf_size mappings (mod_exit k) s;
     nam \<leftarrow> entry_point ''module_name_str'' ehdr b elf_size mappings (mod_name k) s;
     ver \<leftarrow> entry_point ''module_version_str'' ehdr b elf_size mappings (mod_version k) s;
     Some (set_module m (\<lambda>k. k\<lparr>mod_init := ini, mod_exit := ext, mod_name := nam, mod_version := ver,
       mod_state := MODULE_STATE_LOADED\<rparr>) s)
   }"

definition module_loader_load ::
  "nat \<Rightarrow> u8 list option \<Rightarrow> u32 \<Rightarrow> 'a module_state_scheme \<Rightarrow> (int \<times> 'a module_state_scheme) option" where
  "module_loader_load m elf_data elf_size s =
     (case elf_data of
        None \<Rightarrow> Some (- 1, s)
      | Some b \<Rightarrow>
          if elf_size < 52 then Some (- 1, s)
          else do {
            ehdr \<leftarrow> read_ehdr b;
            if \<not> validate_rel_header ehdr elf_size then Some (- 1, s)
            else do {
              h \<leftarrow> section_header ehdr b (ucast (e_shstrndx ehdr));
              case h of
                None \<Rightarrow> Some (- 1, s)
              | Some shstr_sh \<Rightarrow>
                  if out_of_range elf_size h then Some (- 1, s)
                  else do {
                    warn \<leftarrow> find_named_tables ehdr b (sh_offset shstr_sh) (sh_size shstr_sh)
                      (unat (e_shnum ehdr)) 0 False False;
                    (r, s1) \<leftarrow> place_sections m ehdr b elf_size (unat (e_shnum ehdr)) 0 0 []
                      (set_module m (\<lambda>k. k\<lparr>page_count := 0, load_base_vaddr := MODULE_LOAD_BASE,
                        load_size := 0\<rparr>) s);
                    case r of
                      None \<Rightarrow> Some (- 1, s1)
                    | Some (current_offset, mappings) \<Rightarrow> do {
                        (rc, s2) \<leftarrow> module_relocations ehdr b elf_size mappings
                          (set_module m (\<lambda>k. k\<lparr>load_size := current_offset\<rparr>) s1);
                        if rc \<noteq> 0
                        then do { s3 \<leftarrow> module_fails m s2; Some (- 1, s3) }
                        else do {
                          s3 \<leftarrow> discover_entry_points m ehdr b elf_size mappings s2;
                          Some (0, s3)
                        }
                      }
                  }
            }
          })"

section \<open>Loading and unloading\<close>

type_synonym 's module_code = "u32 \<Rightarrow> 's \<Rightarrow> (u32 \<times> 's) option"

definition drop_module ::
  "nat \<Rightarrow> module_status \<Rightarrow> 'a module_state_scheme \<Rightarrow> (int \<times> 'a module_state_scheme) option" where
  "drop_module m st s = do {
     s1 \<leftarrow> release_module_pages m (unat (page_count (loaded_modules s m))) 0 s;
     Some (- 1, set_module m (\<lambda>k. k\<lparr>page_count := 0, mod_state := st\<rparr>) s1)
   }"

definition module_load ::
  "'a module_state_scheme module_code \<Rightarrow> u8 list option \<Rightarrow> u32 \<Rightarrow> 'a module_state_scheme
    \<Rightarrow> (int \<times> 'a module_state_scheme) option" where
  "module_load call elf_data elf_size s =
     (if elf_data = None \<or> elf_size = 0 then Some (- 1, s)
      else if loaded_module_count s \<ge> MAX_LOADED_MODULES then Some (- 1, s)
      else do {
        let m = loaded_module_count s;
        (rc, s1) \<leftarrow> module_loader_load m elf_data elf_size
          (set_module m (\<lambda>k. k\<lparr>mod_name := 0, mod_version := 0, mod_init := 0, mod_exit := 0, mod_data := 0,
             load_base_vaddr := 0, load_size := 0, page_count := 0, mod_state := MODULE_STATE_UNUSED\<rparr>) s);
        if rc \<noteq> 0
        then Some (- 1, set_module m (\<lambda>k. k\<lparr>mod_state := MODULE_STATE_UNUSED\<rparr>) s1)
        else do {
          dup \<leftarrow> (if mod_name (loaded_modules s1 m) \<noteq> 0
                 then find_module_from (in_memory s1 (mod_name (loaded_modules s1 m))) m 0 s1
                 else Some None);
          if dup \<noteq> None then drop_module m MODULE_STATE_UNUSED s1
          else do {
            (init_result, s2) \<leftarrow> (if mod_init (loaded_modules s1 m) \<noteq> 0
                                 then call (mod_init (loaded_modules s1 m)) s1 else Some (0, s1));
            if init_result \<noteq> 0 then drop_module m MODULE_STATE_FAILED s2
            else Some (0, s2\<lparr>loaded_module_count := loaded_module_count s2 + 1\<rparr>)
          }
        }
      })"

definition module_unload ::
  "'a module_state_scheme module_code \<Rightarrow> cstr option \<Rightarrow> 'a module_state_scheme
    \<Rightarrow> (int \<times> 'a module_state_scheme) option" where
  "module_unload call name s = do {
     r \<leftarrow> module_find name s;
     case r of
       None \<Rightarrow> Some (- 1, s)
     | Some m \<Rightarrow>
         if mod_state (loaded_modules s m) \<noteq> MODULE_STATE_LOADED then Some (- 1, s)
         else do {
           (x, s1) \<leftarrow> (if mod_exit (loaded_modules s m) \<noteq> 0
                      then call (mod_exit (loaded_modules s m)) s else Some (0, s));
           Some (0, set_module m (\<lambda>k. k\<lparr>mod_state := MODULE_STATE_UNLOADED\<rparr>) s1)
         }
   }"

section \<open>What loading a module changes\<close>

definition frames_ok :: "kmodule \<Rightarrow> bool" where
  "frames_ok k \<longleftrightarrow> length (mod_frames k) = 16 \<and> unat (page_count k) \<le> 16"

text \<open>Only memory, frames and the entry \<open>m\<close> of the table of modules.\<close>

definition loads :: "nat \<Rightarrow> 'a module_state_scheme \<Rightarrow> 'a module_state_scheme \<Rightarrow> bool" where
  "loads m s u \<longleftrightarrow> stays s u \<and> kernel_symbols u = kernel_symbols s
     \<and> loaded_module_count u = loaded_module_count s
     \<and> (\<forall>k. k \<noteq> m \<longrightarrow> loaded_modules u k = loaded_modules s k)
     \<and> (frames_ok (loaded_modules s m) \<longrightarrow> frames_ok (loaded_modules u m))"

definition based :: "nat \<Rightarrow> 'a module_state_scheme \<Rightarrow> 'a module_state_scheme \<Rightarrow> bool" where
  "based m s u \<longleftrightarrow> load_base_vaddr (loaded_modules u m) = load_base_vaddr (loaded_modules s m)"

lemma set_module_simps [simp]:
  "loaded_modules (set_module m f s) = (loaded_modules s)(m := f (loaded_modules s m))"
  "kernel_symbols (set_module m f s) = kernel_symbols s"
  "loaded_module_count (set_module m f s) = loaded_module_count s"
  by (simp_all add: set_module_def)

lemma module_update_stays:
  "stays s (s\<lparr>loaded_modules := a\<rparr>)" "stays s (s\<lparr>loaded_module_count := n\<rparr>)" "stays s (set_module m f s)"
  using task_inv_cong [of "s\<lparr>loaded_modules := a\<rparr>" s] task_inv_cong [of "s\<lparr>loaded_module_count := n\<rparr>" s]
    task_inv_cong [of "set_module m f s" s]
  by (simp_all add: stays_def set_module_def)

lemma keeps2_modules:
  assumes "keeps2 s t"
  shows "kernel_symbols t = kernel_symbols s" "loaded_modules t = loaded_modules s"
    "loaded_module_count t = loaded_module_count s"
  using assms by (cases s; cases t; simp add: keeps2_def)+

lemma loads_refl [simp, intro]: "loads m s s"
  by (simp add: loads_def)

lemma loads_trans [trans]: "loads m s t \<Longrightarrow> loads m t u \<Longrightarrow> loads m s u"
  by (auto simp: loads_def intro: stays_trans)

lemma keeps2_loads: "keeps2 s t \<Longrightarrow> loads m s t"
  by (simp add: loads_def keeps2_stays keeps2_modules)

lemma keeps_loads: "keeps s t \<Longrightarrow> loads m s t"
  by (rule keeps2_loads [OF keeps_keeps2])

lemma loads_set:
  "(frames_ok (loaded_modules s m) \<Longrightarrow> frames_ok (f (loaded_modules s m))) \<Longrightarrow> loads m s (set_module m f s)"
  by (simp add: loads_def module_update_stays)

lemma based_refl [simp, intro]: "based m s s"
  by (simp add: based_def)

lemma based_keeps2: "keeps2 s t \<Longrightarrow> based m s t"
  by (simp add: based_def keeps2_modules)

lemma loads_back:
  "loads m t u \<Longrightarrow> loads m s t \<Longrightarrow> loads m s u" "keeps t u \<Longrightarrow> loads m s t \<Longrightarrow> loads m s u"
  "keeps2 t u \<Longrightarrow> loads m s t \<Longrightarrow> loads m s u"
  using loads_trans keeps_loads keeps2_loads by blast+

lemma based_back:
  "based m t u \<Longrightarrow> based m s t \<Longrightarrow> based m s u" "keeps t u \<Longrightarrow> based m s t \<Longrightarrow> based m s u"
  "keeps2 t u \<Longrightarrow> based m s t \<Longrightarrow> based m s u"
  by (auto simp: based_def dest!: keeps_keeps2 keeps2_modules(2))

lemma post_loads:
  assumes "post (loads m s) c" "\<And>t. loads m s t \<Longrightarrow> P t"
  shows "post P c"
  using assms by (auto simp: post_def)

lemma post_loads2:
  assumes "post (\<lambda>(r, t). loads m s t) c" "\<And>r t. loads m s t \<Longrightarrow> P (r, t)"
  shows "post P c"
  using assms by (auto simp: post_def)

lemma post_based2:
  assumes "post (\<lambda>(r, t). loads m s t \<and> based m s t) c" "\<And>r t. loads m s t \<Longrightarrow> based m s t \<Longrightarrow> P (r, t)"
  shows "post P c"
  using assms by (auto simp: post_def)

lemma module_reads [wp]:
  "(\<And>x. P1 x) \<Longrightarrow> post P1 (read_shdr b off)" "(\<And>x. P2 x) \<Longrightarrow> post P2 (str_equal b a l)"
  "(\<And>x. P3 x) \<Longrightarrow> post P3 (find_reloc_tables e b o1 z n i a2 a3)"
  "(\<And>x. P4 x) \<Longrightarrow> post P4 (find_named_tables e b o1 z n i a4 a5)"
  "(\<And>x. P5 x) \<Longrightarrow> post P5 (resolve_symbol_value b y ms o2 z2 s)"
  "(\<And>x. P6 x) \<Longrightarrow> post P6 (entry_point l2 e b z3 ms old t)"
  "(\<And>x. P7 x) \<Longrightarrow> post P7 (find_module_from nm n2 i2 s)"
  "(\<And>x. P8 x) \<Longrightarrow> post P8 (module_find nm2 s)"
  by (simp_all add: post_def)

lemma allocate_module_frames_loads:
  "post (\<lambda>(ok, u). loads m s u \<and> based m s u) (allocate_module_frames m n s)"
proof (induction n arbitrary: s)
  case (Suc n)
  have one: "loads m t (set_module m (\<lambda>k. k\<lparr>mod_frames := (mod_frames k)[unat (page_count k) := frame],
      page_count := page_count k + 1\<rparr>) t)"
    if "\<not> page_count (loaded_modules t m) \<ge> MAX_MODULE_PAGES" for t :: "'a module_state_scheme" and frame
    using that unat_add_no_wrap [of "page_count (loaded_modules t m)" 1]
    by (intro loads_set) (auto simp: frames_ok_def MAX_MODULE_PAGES_def not_le word_less_nat_alt)
  have step: "post (\<lambda>(ok, u). loads m s u \<and> based m s u) (allocate_module_frames m n
      (set_module m (\<lambda>k. k\<lparr>mod_frames := (mod_frames k)[unat (page_count k) := frame],
        page_count := page_count k + 1\<rparr>) t))"
    if "keeps2 s t" "\<not> page_count (loaded_modules s m) \<ge> MAX_MODULE_PAGES" for t frame
    using Suc.IH [of "set_module m (\<lambda>k. k\<lparr>mod_frames := (mod_frames k)[unat (page_count k) := frame],
        page_count := page_count k + 1\<rparr>) t"] one [of t frame] that keeps2_modules [OF that(1)]
      keeps2_loads [OF that(1), of m]
    by (auto simp: post_def based_def dest: loads_trans)
  show ?case unfolding allocate_module_frames.simps
    by (intro wp step) (auto intro: keeps2_loads based_keeps2)
qed (simp add: post_def based_def)

lemma release_module_pages_keeps: "post (keeps2 s) (release_module_pages m n i s)"
proof (induction n arbitrary: i s)
  case (Suc n)
  show ?case unfolding release_module_pages.simps
    by (intro wp post_keeps2I [OF _ Suc.IH]) (auto dest!: keeps_keeps2 simp: keeps2_def)
qed (simp add: post_def)

lemma map_module_pages_keeps: "post (keeps2 s) (map_module_pages m a f n i s)"
proof (induction n arbitrary: i s)
  case (Suc n)
  show ?case unfolding map_module_pages.simps
    by (intro wp post_keeps2I [OF _ Suc.IH]) auto
qed (simp add: post_def)

lemmas module_pages_wp [wp] = release_module_pages_keeps [THEN post_alloc] map_module_pages_keeps [THEN post_alloc]
  allocate_module_frames_loads [THEN post_based2]

lemma module_fails_loads: "post (loads m s) (module_fails m s)"
  unfolding module_fails_def cleanup_module_frames_def
  by (intro wp; (rule loads_trans [OF loads_trans [OF keeps2_loads]], assumption)?; (rule loads_set)?)
    (auto simp: frames_ok_def)

lemma drop_module_loads: "post (\<lambda>(r, u). loads m s u) (drop_module m st s)"
  unfolding drop_module_def
  by (intro wp; clarsimp?; (rule loads_trans [OF keeps2_loads], assumption)?; (rule loads_set)?)
    (auto simp: frames_ok_def)

lemmas module_fails_wp [wp] = module_fails_loads [THEN post_loads]

lemma place_section_loads:
  "post (\<lambda>(r, u). loads m s u \<and> (r \<noteq> None \<longrightarrow> based m s u)) (place_section m b z off sh s)"
  unfolding place_section_def Let_def
  by (intro wp; clarsimp?; (intro conjI)?; (erule loads_back based_back | rule loads_refl based_refl | assumption)+)

lemmas place_section_wp = place_section_loads [THEN post_mono]

lemma place_sections_loads:
  "post (\<lambda>(r, u). loads m s u \<and> (r \<noteq> None \<longrightarrow> based m s u)) (place_sections m e b z n i off ms s)"
proof (induction n arbitrary: i off ms s)
  case (Suc n)
  have chain: "post (\<lambda>(r, u). loads m s u \<and> (r \<noteq> None \<longrightarrow> based m s u)) (place_sections m e b z n i off ms t)"
    if "loads m s t" "based m s t" for i off ms t
    using that Suc.IH [where s = t and i = i and off = off and ms = ms]
    by (auto simp: post_def dest: loads_trans based_back(1))
  have one: "post P (place_section m b z off sh s)"
    if "\<And>r t. loads m s t \<Longrightarrow> (r \<noteq> None \<Longrightarrow> based m s t) \<Longrightarrow> P (r, t)" for P off sh
    using that place_section_loads [of m s b z off sh] by (fastforce simp: post_def)
  show ?case unfolding place_sections.simps
    by (intro wp one Suc.IH chain) auto
qed (simp add: post_def)

lemma apply_relocation_keeps: "post (\<lambda>(r, u). keeps s u) (apply_relocation b sy st z ms base rel s)"
  unfolding apply_relocation_def Let_def by (intro wp) auto

lemma apply_relocations_keeps: "post (\<lambda>(r, u). keeps s u) (apply_relocations b sy st z ms base off n j s)"
proof (induction n arbitrary: j s)
  case (Suc n)
  show ?case unfolding apply_relocations.simps
    by (intro wp apply_relocation_keeps [THEN post_memory2] post_keeps2_trans [OF _ Suc.IH]) auto
qed (simp add: post_def)

lemma reloc_sections_keeps: "post (\<lambda>(r, u). keeps s u) (reloc_sections e b sy st z ms n i s)"
proof (induction n arbitrary: i s)
  case (Suc n)
  have two: "post P (case (h, y) of (None, w) \<Rightarrow> c | (Some x, None) \<Rightarrow> c | (Some x, Some v) \<Rightarrow> f x v)"
    if "post P c" "\<And>x v. post P (f x v)" for P c f and h y :: "Elf32_Shdr option"
    using that by (cases h; cases y) simp_all
  show ?case unfolding reloc_sections.simps
    by (intro wp two apply_relocations_keeps [THEN post_memory2] Suc.IH post_keeps2_trans [OF _ Suc.IH]) auto
qed (simp add: post_def)

lemma module_relocations_keeps: "post (\<lambda>(r, u). keeps s u) (module_relocations e b z ms s)"
  unfolding module_relocations_def Let_def
  by (intro wp reloc_sections_keeps [THEN post_memory2]) auto

text \<open>A successful load leaves the module LOADED at the fixed base.\<close>

definition placed :: "nat \<Rightarrow> 'a module_state_scheme \<Rightarrow> bool" where
  "placed m s \<longleftrightarrow> load_base_vaddr (loaded_modules s m) = MODULE_LOAD_BASE
     \<and> mod_state (loaded_modules s m) = MODULE_STATE_LOADED"

lemma discover_spec:
  assumes "load_base_vaddr (loaded_modules s m) = MODULE_LOAD_BASE"
  shows "post (\<lambda>u. loads m s u \<and> placed m u) (discover_entry_points m e b z ms s)"
  unfolding discover_entry_points_def Let_def
  by (insert assms, intro wp conjI loads_set) (simp_all add: placed_def frames_ok_def)

lemma relocated_spec:
  assumes "loads m s t" "load_base_vaddr (loaded_modules t m) = MODULE_LOAD_BASE"
  shows "post (\<lambda>(r, u). loads m s u \<and> load_base_vaddr (loaded_modules u m) = MODULE_LOAD_BASE)
    (module_relocations e b z ms (set_module m (\<lambda>k. k\<lparr>load_size := n\<rparr>) t))"
proof (rule post_memory2 [OF module_relocations_keeps])
  fix r u assume k: "keeps (set_module m (\<lambda>k. k\<lparr>load_size := n\<rparr>) t) u"
  have "loads m s (set_module m (\<lambda>k. k\<lparr>load_size := n\<rparr>) t)"
    using assms(1) by (rule loads_trans) (rule loads_set, simp add: frames_ok_def)
  then show "case (r, u) of (r, u) \<Rightarrow> loads m s u \<and> load_base_vaddr (loaded_modules u m) = MODULE_LOAD_BASE"
    using k keeps2_modules(2) [OF keeps_keeps2 [OF k]] assms(2) by (auto intro: loads_back)
qed

lemma module_loader_load_spec:
  "post (\<lambda>(r, u). loads m s u \<and> (r = 0 \<longrightarrow> placed m u) \<and> r \<in> {0, - 1}) (module_loader_load m d z s)"
proof -
  let ?s0 = "set_module m (\<lambda>k. k\<lparr>page_count := 0, load_base_vaddr := MODULE_LOAD_BASE, load_size := 0\<rparr>) s"
  have place: "post P (place_sections m e b z n 0 0 [] ?s0)"
    if "\<And>r t. loads m s t \<Longrightarrow> (r \<noteq> None \<Longrightarrow> load_base_vaddr (loaded_modules t m) = MODULE_LOAD_BASE) \<Longrightarrow> P (r, t)"
    for P e b n
  proof -
    have s0: "loads m s ?s0" by (rule loads_set) (simp add: frames_ok_def)
    have "P (r, t)" if "loads m ?s0 t \<and> (r \<noteq> None \<longrightarrow> based m ?s0 t)" for r t
      using \<open>\<And>r t. loads m s t \<Longrightarrow> (r \<noteq> None \<Longrightarrow> load_base_vaddr (loaded_modules t m) = MODULE_LOAD_BASE) \<Longrightarrow> P (r, t)\<close> [of t r]
        loads_trans [OF s0] that by (simp add: based_def)
    then show ?thesis by (intro post_mono [OF place_sections_loads [of m ?s0 e b z n 0 0 "[]"]]) auto
  qed
  have rel: "post P (module_relocations e b z ms (set_module m (\<lambda>k. k\<lparr>load_size := n\<rparr>) t))"
    if "loads m s t" "load_base_vaddr (loaded_modules t m) = MODULE_LOAD_BASE"
      "\<And>r u. loads m s u \<Longrightarrow> load_base_vaddr (loaded_modules u m) = MODULE_LOAD_BASE \<Longrightarrow> P (r, u)"
    for P e b ms n t
    using relocated_spec [OF that(1,2), of e b z ms n] that(3) by (auto simp: post_def)
  have disc: "post P (discover_entry_points m e b z ms u)"
    if "loads m s u" "load_base_vaddr (loaded_modules u m) = MODULE_LOAD_BASE"
      "\<And>v. loads m s v \<Longrightarrow> placed m v \<Longrightarrow> P v" for P e b ms u
    using discover_spec [OF that(2), of e b z ms] that(1,3) by (auto simp: post_def dest: loads_trans)
  show ?thesis unfolding module_loader_load_def
    by (intro wp place rel disc) (auto dest: loads_trans)
qed

section \<open>The table of modules\<close>

definition mod_inv :: "'a module_state_scheme \<Rightarrow> bool" where
  "mod_inv s \<longleftrightarrow> length (kernel_symbols s) \<le> MAX_KERNEL_SYMBOLS
     \<and> loaded_module_count s \<le> MAX_LOADED_MODULES
     \<and> (\<forall>m < MAX_LOADED_MODULES. frames_ok (loaded_modules s m))"

lemma mod_inv_loads: "mod_inv s \<Longrightarrow> loads m s u \<Longrightarrow> mod_inv u"
  by (auto simp: mod_inv_def loads_def)

text \<open>
  What the code of a module may do: it uses the exported functions of the kernel, so it may change
  memory and frames, and leaves the tables of tasks and modules alone.
\<close>

definition well_behaved :: "'a module_state_scheme module_code \<Rightarrow> bool" where
  "well_behaved call \<longleftrightarrow> (\<forall>a s r u. call a s = Some (r, u) \<longrightarrow> stays s u
     \<and> kernel_symbols u = kernel_symbols s \<and> loaded_modules u = loaded_modules s
     \<and> loaded_module_count u = loaded_module_count s)"

lemma well_behaved_loads: "well_behaved call \<Longrightarrow> post (\<lambda>(r, u). loads m s u \<and> loaded_modules u = loaded_modules s) (call a s)"
  by (auto simp: well_behaved_def post_def loads_def)

definition module_loaded ::
  "'a module_state_scheme \<Rightarrow> int \<Rightarrow> 'a module_state_scheme \<Rightarrow> bool" where
  "module_loaded s r u \<longleftrightarrow>
     (\<forall>m. m \<noteq> loaded_module_count s \<longrightarrow> loaded_modules u m = loaded_modules s m)
     \<and> (if r = 0
        then loaded_module_count u = loaded_module_count s + 1 \<and> placed (loaded_module_count s) u
        else r = - 1 \<and> loaded_module_count u = loaded_module_count s)"

lemma module_load_stays:
  assumes "well_behaved call"
  shows "post (\<lambda>(r, u). stays s u \<and> (mod_inv s \<longrightarrow> mod_inv u) \<and> module_loaded s r u) (module_load call d z s)"
proof -
  let ?m = "loaded_module_count s"
  let ?f = "\<lambda>k. k\<lparr>mod_name := 0, mod_version := 0, mod_init := 0, mod_exit := 0, mod_data := 0,
             load_base_vaddr := 0, load_size := 0, page_count := 0, mod_state := MODULE_STATE_UNUSED\<rparr>"
  let ?s0 = "set_module ?m ?f s"
  have s0: "loads ?m s ?s0" by (rule loads_set) (simp add: frames_ok_def)
  have load: "post P (module_loader_load ?m d z ?s0)"
    if "\<And>r t. loads ?m s t \<Longrightarrow> (r = 0 \<Longrightarrow> placed ?m t) \<Longrightarrow> r = 0 \<or> r = - 1 \<Longrightarrow> P (r, t)" for P
    using that by (intro post_mono [OF module_loader_load_spec]) (use loads_trans [OF s0] in auto)
  have fin: "stays s u \<and> (mod_inv s \<longrightarrow> mod_inv u) \<and> module_loaded s (- 1) u" if "loads ?m s u" for u
    using that mod_inv_loads [OF _ that] by (simp add: loads_def module_loaded_def)
  have set: "loads ?m s (set_module ?m (\<lambda>k. k\<lparr>mod_state := MODULE_STATE_UNUSED\<rparr>) t)" if "loads ?m s t" for t
    using that by (rule loads_trans) (rule loads_set, simp add: frames_ok_def)
  have ok: "stays s (u\<lparr>loaded_module_count := Suc (loaded_module_count u)\<rparr>)
      \<and> (mod_inv s \<longrightarrow> mod_inv (u\<lparr>loaded_module_count := Suc (loaded_module_count u)\<rparr>))
      \<and> module_loaded s 0 (u\<lparr>loaded_module_count := Suc (loaded_module_count u)\<rparr>)"
    if "loads ?m s u" "placed ?m u" "?m < MAX_LOADED_MODULES" for u
    using that mod_inv_loads [OF _ that(1)] module_update_stays(2) [of u]
    by (auto simp: loads_def module_loaded_def mod_inv_def placed_def intro: stays_trans)
  have init: "post P (call a t)"
    if "loads ?m s t" "\<And>r u. loads ?m s u \<Longrightarrow> loaded_modules u = loaded_modules t \<Longrightarrow> P (r, u)" for P a t
    using that by (intro post_mono [OF well_behaved_loads [OF assms, of ?m t a]]) (auto dest: loads_trans)
  have drop: "post (\<lambda>(r, u). stays s u \<and> (mod_inv s \<longrightarrow> mod_inv u) \<and> module_loaded s r u) (drop_module ?m st t)"
    if "loads ?m s t" for st t
  proof -
    have "fst x = - 1" if "drop_module ?m st t = Some x" for x
      using that by (auto simp: drop_module_def bind_eq_Some_conv)
    then show ?thesis using drop_module_loads [of ?m t st] fin loads_trans [OF that]
      by (fastforce simp: post_def)
  qed
  show ?thesis unfolding module_load_def Let_def
    by (intro wp load init drop; (clarsimp simp: module_loaded_def; fail)?; clarsimp)
      (rule fin ok set | assumption | simp add: placed_def)+
qed

lemma module_unload_stays:
  assumes "well_behaved call"
  shows "post (\<lambda>(r, u). stays s u \<and> (mod_inv s \<longrightarrow> mod_inv u)) (module_unload call name s)"
proof -
  have exit: "post P (if mod_exit (loaded_modules s m) \<noteq> 0
                      then call (mod_exit (loaded_modules s m)) s else Some (0, s))"
    if "\<And>r u. loads m s u \<Longrightarrow> P (r, u)" for P m
    using that by (intro wp post_mono [OF well_behaved_loads [OF assms, of m s]]) auto
  have fin: "stays s u \<and> (mod_inv s \<longrightarrow> mod_inv u)" if "loads m s u" for m u
    using that mod_inv_loads [OF _ that] by (simp add: loads_def)
  have set: "loads m s (set_module m (\<lambda>k. k\<lparr>mod_state := MODULE_STATE_UNLOADED\<rparr>) t)" if "loads m s t" for m t
    using that by (rule loads_trans) (rule loads_set, simp add: frames_ok_def)
  show ?thesis unfolding module_unload_def
    by (intro wp exit; clarsimp) (rule fin, rule set, assumption)
qed

section \<open>Symbols\<close>

lemma kstrcmp_step:
  "a i = Some x \<Longrightarrow> b i = Some y \<Longrightarrow>
   kstrcmp_from a b i = (if x \<noteq> 0 \<and> x = y then kstrcmp_from a b (i + 1) else Some (uint x - uint y))"
  by (subst kstrcmp_from.simps) simp

text \<open>A terminated string, without the terminator.\<close>

definition names :: "cstr \<Rightarrow> u8 list \<Rightarrow> bool" where
  "names a w \<longleftrightarrow> 0 \<notin> set w \<and> length w < 2 ^ 32 - 1
     \<and> (\<forall>i \<le> length w. a (of_nat i) = Some ((w @ [0]) ! i))"

lemma kstrcmp_from_iff:
  assumes "names a v" "names b w" "i \<le> length v" "take i v = take i w" "i \<le> length w"
  shows "\<exists>c. kstrcmp_from a b (of_nat i) = Some c \<and> (c = 0 \<longleftrightarrow> v = w)"
  using assms(3-5)
proof (induction "length v - i" arbitrary: i rule: less_induct)
  case less
  have ab: "a (of_nat i) = Some ((v @ [0]) ! i)" "b (of_nat i) = Some ((w @ [0]) ! i)"
    using assms(1,2) less.prems by (auto simp: names_def)
  have nz: "i < length v \<Longrightarrow> v ! i \<noteq> 0" "i < length w \<Longrightarrow> w ! i \<noteq> 0"
    using assms(1,2) nth_mem by (fastforce simp: names_def)+
  note st = kstrcmp_step [where a = a and b = b and i = "of_nat i", OF ab]
  show ?case
  proof (cases "i < length v \<and> i < length w \<and> v ! i = w ! i")
    case True
    then have "kstrcmp_from a b (of_nat i) = kstrcmp_from a b (of_nat (Suc i))"
      using st nz by (simp add: nth_append add.commute)
    moreover have "take (Suc i) v = take (Suc i) w" using True less.prems by (simp add: take_Suc_conv_app_nth)
    ultimately show ?thesis using less.hyps [of "Suc i"] True less.prems by auto
  next
    case False
    have vw: "(v @ [0]) ! i = (if i < length v then v ! i else 0)" "(w @ [0]) ! i = (if i < length w then w ! i else 0)"
      using less.prems by (simp_all add: nth_append)
    have eq: "(v @ [0]) ! i = (w @ [0]) ! i \<longleftrightarrow> i = length v \<and> i = length w"
    proof (cases "i < length v")
      case True
      then show ?thesis using False nz(1) by (cases "i < length w") (simp_all add: vw)
    next
      case False
      then show ?thesis using not_sym [OF nz(2)] less.prems(1,3)
        by (cases "i < length w") (simp_all add: nth_append)
    qed
    have "v = w" if "i = length v" "i = length w" using that less.prems(2) by simp
    moreover have "i = length v \<and> i = length w" if "v = w" using that False less.prems by (auto simp: nat_less_le)
    ultimately have end_iff: "i = length v \<and> i = length w \<longleftrightarrow> v = w" by blast
    have "\<not> ((v @ [0]) ! i \<noteq> 0 \<and> (v @ [0]) ! i = (w @ [0]) ! i)" using eq unfolding vw by auto
    then have "kstrcmp_from a b (of_nat i) = Some (uint ((v @ [0]) ! i) - uint ((w @ [0]) ! i))" using st by (simp only: if_False)
    then show ?thesis using eq end_iff by (simp add: word_uint_eq_iff [symmetric])
  qed
qed

lemma kstrcmp_iff: "names a v \<Longrightarrow> names b w \<Longrightarrow> \<exists>c. kstrcmp a b = Some c \<and> (c = 0 \<longleftrightarrow> v = w)"
  using kstrcmp_from_iff [of a v b w 0] by (simp add: kstrcmp_def)

text \<open>The table is a map from names to addresses in which the first entry counts.\<close>

definition symbol_map :: "(u8 list \<times> u32) list \<Rightarrow> u8 list \<rightharpoonup> u32" where
  "symbol_map ks = map_of (map (\<lambda>(n, a). (butlast n, a)) ks)"

definition symbols_ok :: "(u8 list \<times> u32) list \<Rightarrow> bool" where
  "symbols_ok ks \<longleftrightarrow> (\<forall>k \<in> set ks. names (byte_at (fst k)) (butlast (fst k)))"

lemma get_symbol_loop_map:
  "symbols_ok ks \<Longrightarrow> names nm w \<Longrightarrow>
   get_symbol_loop nm ks = Some (case symbol_map ks w of None \<Rightarrow> 0 | Some a \<Rightarrow> a)"
proof (induction ks)
  case (Cons k ks)
  have "names (byte_at (fst k)) (butlast (fst k))" using Cons.prems(1) by (simp add: symbols_ok_def)
  then obtain c where c: "kstrcmp (byte_at (fst k)) nm = Some c" "c = 0 \<longleftrightarrow> butlast (fst k) = w"
    using kstrcmp_iff Cons.prems(2) by blast
  have "symbols_ok ks" using Cons.prems(1) by (simp add: symbols_ok_def)
  with c Cons show ?case by (cases k) (auto simp: symbol_map_def)
qed (simp add: symbol_map_def)

lemma names_literal: "0 \<notin> set w \<Longrightarrow> length w < 2 ^ 32 - 1 \<Longrightarrow> names (byte_at (w @ [0])) w"
  by (auto simp: names_def byte_at_def unat_of_nat_u32)

section \<open>Properties\<close>

definition kmodule_zero :: kmodule where
  "kmodule_zero = \<lparr>mod_name = 0, mod_version = 0, mod_init = 0, mod_exit = 0, mod_data = 0,
     load_base_vaddr = 0, load_size = 0, page_count = 0, mod_frames = replicate 16 0,
     mod_state = MODULE_STATE_UNUSED\<rparr>"

definition demo_modules :: module_state where
  "demo_modules = demo_tasks (module_state_ext [] (\<lambda>_. kmodule_zero) 0 ())"

text \<open>A relocatable object with one empty section.\<close>

definition demo_object :: "u8 list" where
  "demo_object = [0x7F, 0x45, 0x4C, 0x46, 1, 1, 1, 0, 0, 0, 0, 0, 0, 0, 0, 0, 1, 0, 3, 0, 1, 0, 0, 0,
     0, 0, 0, 0, 0, 0, 0, 0, 52, 0, 0, 0, 0, 0, 0, 0, 52, 0, 0, 0, 0, 0, 40, 0, 1, 0, 0, 0] @ replicate 40 0"

lemma demo_modules_simps [simp]:
  "kernel_symbols demo_modules = []" "loaded_modules demo_modules = (\<lambda>_. kmodule_zero)"
  "loaded_module_count demo_modules = 0"
  by (simp_all add: demo_modules_def demo_tasks_def)

lemma demo_ehdr:
  "read_ehdr demo_object = Some \<lparr>e_ident = [0x7F, 0x45, 0x4C, 0x46, 1, 1, 1, 0, 0, 0, 0, 0, 0, 0, 0, 0],
     e_type = 1, e_machine = 3, e_version = 1, e_entry = 0, e_phoff = 0, e_shoff = 52, e_flags = 0,
     e_ehsize = 52, e_phentsize = 0, e_phnum = 0, e_shentsize = 40, e_shnum = 1, e_shstrndx = 0\<rparr>"
  by code_simp

lemma demo_shdr:
  "read_shdr demo_object 52 = Some \<lparr>sh_name = 0, sh_type = 0, sh_flags = 0, sh_addr = 0, sh_offset = 0,
     sh_size = 0, sh_link = 0, sh_info = 0, sh_addralign = 0, sh_entsize = 0\<rparr>"
  by code_simp



end
