(* ===== verification/Keyboard.thy ===== *)
theory Keyboard
  imports Prelude
begin

text \<open>
  The keyboard driver, drivers/keyboard.c: the scan code translation with its static
  \<open>extended_prefix\<close> flag, and the ring buffer of 32 characters that the interrupt handler fills
  and \<open>keyboard_get_event\<close> drains. The byte that \<open>inb(KBD_DATA_PORT)\<close> delivers is an argument
  of the handler. A \<open>char\<close> is kept as its 8 bits.

  The locale \<open>bounded_queue\<close> states what the clients of the buffer (menu_renderer.c, the
  \<open>sys_read\<close> loop of syscall.c) rely on; it is interpreted on the ring buffer.
\<close>

section \<open>Bounded first-in first-out queues\<close>

text \<open>
  \<open>enq\<close> drops the element when the queue is full, \<open>deq\<close> returns \<open>dflt\<close> when it is empty.
\<close>

datatype 'a queue_op = Enq 'a | Deq

text \<open>Any interleaving of the two operations, with what the dequeues return.\<close>

primrec queue_run ::
  "('a \<Rightarrow> 's \<Rightarrow> 's option) \<Rightarrow> ('s \<Rightarrow> ('a \<times> 's) option) \<Rightarrow> 'a queue_op list \<Rightarrow> 's \<Rightarrow>
   ('a list \<times> 's) option" where
  "queue_run enq deq [] s = Some ([], s)"
| "queue_run enq deq (op # ops) s = (case op of
     Enq x \<Rightarrow> do { s1 \<leftarrow> enq x s; queue_run enq deq ops s1 }
   | Deq \<Rightarrow> do { (y, s1) \<leftarrow> deq s; (ys, s2) \<leftarrow> queue_run enq deq ops s1; Some (y # ys, s2) })"

text \<open>The same operations on a list bounded to \<open>cap\<close> elements.\<close>

primrec list_run :: "nat \<Rightarrow> 'a \<Rightarrow> 'a queue_op list \<Rightarrow> 'a list \<Rightarrow> 'a list \<times> 'a list" where
  "list_run cap dflt [] q = ([], q)"
| "list_run cap dflt (op # ops) q = (case op of
     Enq x \<Rightarrow> list_run cap dflt ops (if length q < cap then q @ [x] else q)
   | Deq \<Rightarrow> (let (ys, q') = list_run cap dflt ops (tl q)
            in ((if q = [] then dflt else hd q) # ys, q')))"

text \<open>\<open>n\<close> calls of \<open>deq\<close> in a row.\<close>

primrec deq_all :: "('s \<Rightarrow> ('a \<times> 's) option) \<Rightarrow> nat \<Rightarrow> 's \<Rightarrow> ('a list \<times> 's) option" where
  "deq_all deq 0 s = Some ([], s)"
| "deq_all deq (Suc n) s = do { (x, s1) \<leftarrow> deq s; (xs, s2) \<leftarrow> deq_all deq n s1; Some (x # xs, s2) }"

locale bounded_queue =
  fixes enq :: "'a \<Rightarrow> 's \<Rightarrow> 's option"
    and deq :: "'s \<Rightarrow> ('a \<times> 's) option"
    and contents :: "'s \<Rightarrow> 'a list"
    and inv :: "'s \<Rightarrow> bool"
    and cap :: nat
    and dflt :: 'a
  assumes enq_law: "inv s \<Longrightarrow> \<exists>t. enq x s = Some t \<and> inv t \<and>
      contents t = (if length (contents s) < cap then contents s @ [x] else contents s)"
    and deq_law: "inv s \<Longrightarrow> contents s \<noteq> [] \<Longrightarrow>
      \<exists>t. deq s = Some (hd (contents s), t) \<and> inv t \<and> contents t = tl (contents s)"
    and deq_empty: "inv s \<Longrightarrow> contents s = [] \<Longrightarrow> deq s = Some (dflt, s)"
    and cap_law: "inv s \<Longrightarrow> length (contents s) \<le> cap"
begin

lemma run_refines:
  "inv s \<Longrightarrow> \<exists>t. queue_run enq deq ops s = Some (fst (list_run cap dflt ops (contents s)), t) \<and> inv t \<and>
     contents t = snd (list_run cap dflt ops (contents s))"
proof (induction ops arbitrary: s)
  case Nil
  then show ?case by simp
next
  case (Cons op ops)
  show ?case
  proof (cases op)
    case (Enq x)
    from enq_law [OF Cons.prems, of x] obtain t where
      "enq x s = Some t" "inv t"
      "contents t = (if length (contents s) < cap then contents s @ [x] else contents s)" by blast
    with Cons.IH [of t] show ?thesis by (simp add: Enq)
  next
    case Deq
    show ?thesis
    proof (cases "contents s = []")
      case True
      with Cons.IH [OF Cons.prems] deq_empty [OF Cons.prems] show ?thesis
        by (auto simp: Deq Let_def split: prod.split)
    next
      case False
      from deq_law [OF Cons.prems False] obtain t where
        "deq s = Some (hd (contents s), t)" "inv t" "contents t = tl (contents s)" by blast
      with Cons.IH [of t] False show ?thesis
        by (auto simp: Deq Let_def split: prod.split)
    qed
  qed
qed

text \<open>The elements come out in order, then the default.\<close>

lemma deq_all_take:
  "inv s \<Longrightarrow> \<exists>t. deq_all deq n s =
      Some (take n (contents s) @ replicate (n - length (contents s)) dflt, t) \<and>
     inv t \<and> contents t = drop n (contents s)"
proof (induction n arbitrary: s)
  case 0
  then show ?case by simp
next
  case (Suc n)
  show ?case
  proof (cases "contents s")
    case Nil
    with Suc.IH [OF Suc.prems] deq_empty [OF Suc.prems] show ?thesis by auto
  next
    case (Cons y ys)
    from deq_law [OF Suc.prems] Cons obtain t where
      "deq s = Some (y, t)" "inv t" "contents t = ys" by auto
    with Suc.IH [of t] Cons show ?thesis by auto
  qed
qed

end

section \<open>The driver\<close>

definition KBD_EVENT_QUEUE_SIZE :: nat where
  "KBD_EVENT_QUEUE_SIZE = 32"

definition KEY_UP :: u8 where
  "KEY_UP = 72"

definition KEY_DOWN :: u8 where
  "KEY_DOWN = 80"

definition KEY_LEFT :: u8 where
  "KEY_LEFT = 75"

definition KEY_RIGHT :: u8 where
  "KEY_RIGHT = 77"

lemmas key_defs = KEY_UP_def KEY_DOWN_def KEY_LEFT_def KEY_RIGHT_def

text \<open>The static variables of keyboard.c and of \<open>translate_scan_code\<close>.\<close>

record kbd =
  keyboard_queue :: "u8 list"
  keyboard_head :: u32
  keyboard_tail :: u32
  keyboard_count :: u32
  extended_prefix :: bool

definition kbd_boot :: kbd where
  "kbd_boot = \<lparr>keyboard_queue = replicate KBD_EVENT_QUEUE_SIZE 0, keyboard_head = 0,
     keyboard_tail = 0, keyboard_count = 0, extended_prefix = False\<rparr>"

definition kbd_us :: "u8 list" where
  "kbd_us =
    [0, 27, 49, 50, 51, 52, 53, 54, 55, 56, 57, 48, 45, 61, 8,
     9, 113, 119, 101, 114, 116, 121, 117, 105, 111, 112, 91, 93, 10,
     0, 97, 115, 100, 102, 103, 104, 106, 107, 108, 59, 39, 96, 0, 92,
     122, 120, 99, 118, 98, 110, 109, 44, 46, 47, 0, 42, 0, 32]"

text \<open>The two \<open>switch\<close> statements on arrow codes: the value, or \<open>None\<close> for \<open>default\<close>.\<close>

definition arrow_key :: "u8 \<Rightarrow> u8 option" where
  "arrow_key sc =
    (if sc = 0x48 then Some KEY_UP else if sc = 0x50 then Some KEY_DOWN
     else if sc = 0x4B then Some KEY_LEFT else if sc = 0x4D then Some KEY_RIGHT else None)"

definition translate_scan_code :: "u8 \<Rightarrow> kbd \<Rightarrow> u8 \<times> kbd" where
  "translate_scan_code sc k =
    (if sc = 0xE0 then (0, k\<lparr>extended_prefix := True\<rparr>)
     else if sc AND 0x80 \<noteq> 0 then (0, k\<lparr>extended_prefix := False\<rparr>)
     else if extended_prefix k then
       (case arrow_key sc of Some c \<Rightarrow> c | None \<Rightarrow> 0, k\<lparr>extended_prefix := False\<rparr>)
     else (case arrow_key sc of
         Some c \<Rightarrow> (c, k)
       | None \<Rightarrow> (if unat sc < length kbd_us then (kbd_us ! unat sc, k) else (0, k))))"

definition keyboard_has_event :: "kbd \<Rightarrow> bool" where
  "keyboard_has_event k \<longleftrightarrow> keyboard_count k > 0"

text \<open>An index outside the array is a fault.\<close>

definition keyboard_get_event :: "kbd \<Rightarrow> (u8 \<times> kbd) option" where
  "keyboard_get_event k =
    (if keyboard_count k = 0 then Some (0, k)
     else if unat (keyboard_tail k) < length (keyboard_queue k) then
       Some (keyboard_queue k ! unat (keyboard_tail k),
         k\<lparr>keyboard_tail := (keyboard_tail k + 1) mod of_nat KBD_EVENT_QUEUE_SIZE,
           keyboard_count := keyboard_count k - 1\<rparr>)
     else None)"

definition keyboard_enqueue_event :: "u8 \<Rightarrow> kbd \<Rightarrow> kbd option" where
  "keyboard_enqueue_event c k =
    (if keyboard_count k \<ge> of_nat KBD_EVENT_QUEUE_SIZE then Some k
     else if unat (keyboard_head k) < length (keyboard_queue k) then
       Some (k\<lparr>keyboard_queue := (keyboard_queue k)[unat (keyboard_head k) := c],
         keyboard_head := (keyboard_head k + 1) mod of_nat KBD_EVENT_QUEUE_SIZE,
         keyboard_count := keyboard_count k + 1\<rparr>)
     else None)"

definition keyboard_handle_interrupt :: "u8 \<Rightarrow> kbd \<Rightarrow> kbd option" where
  "keyboard_handle_interrupt scan_code k =
    (let (c, k1) = translate_scan_code scan_code k
     in if c \<noteq> 0 then keyboard_enqueue_event c k1 else Some k1)"

section \<open>The ring buffer is a bounded queue\<close>

text \<open>The characters waiting, oldest first.\<close>

definition kbd_contents :: "kbd \<Rightarrow> u8 list" where
  "kbd_contents k =
    map (\<lambda>i. keyboard_queue k ! ((unat (keyboard_tail k) + i) mod 32)) [0..<unat (keyboard_count k)]"

definition kbd_inv :: "kbd \<Rightarrow> bool" where
  "kbd_inv k \<longleftrightarrow> length (keyboard_queue k) = 32 \<and> unat (keyboard_tail k) < 32 \<and>
     unat (keyboard_count k) \<le> 32 \<and>
     unat (keyboard_head k) = (unat (keyboard_tail k) + unat (keyboard_count k)) mod 32"

lemma unat_mod_32: "unat (x :: u32) < 32 \<Longrightarrow> unat ((x + 1) mod 32) = Suc (unat x) mod 32"
  by (simp add: unat_mod unat_add_no_wrap)

lemma kbd_inv_boot [simp]: "kbd_inv kbd_boot"
  by (simp add: kbd_inv_def kbd_boot_def KBD_EVENT_QUEUE_SIZE_def)

lemma kbd_contents_boot [simp]: "kbd_contents kbd_boot = []"
  by (simp add: kbd_contents_def kbd_boot_def)

lemma kbd_prefix_boot [simp]: "extended_prefix kbd_boot = False"
  by (simp add: kbd_boot_def)

lemma length_kbd_contents [simp]: "length (kbd_contents k) = unat (keyboard_count k)"
  by (simp add: kbd_contents_def)

lemma kbd_prefix_simps [simp]:
  "kbd_inv (k\<lparr>extended_prefix := b\<rparr>) = kbd_inv k"
  "kbd_contents (k\<lparr>extended_prefix := b\<rparr>) = kbd_contents k"
  by (simp_all add: kbd_inv_def kbd_contents_def)

text \<open>The slot that is written is not one of the waiting ones.\<close>

lemma ring_slot_fresh:
  fixes t c i :: nat
  assumes "i < c" "c < 32"
  shows "(t + c) mod 32 \<noteq> (t + i) mod 32"
proof
  assume "(t + c) mod 32 = (t + i) mod 32"
  then have "(t + c - (t + i)) mod 32 = 0"
    by (intro mod_eq_dvd_iff_nat [THEN iffD1, THEN dvd_imp_mod_0]) (use assms in auto)
  with assms show False by simp
qed

lemma kbd_enqueue:
  assumes "kbd_inv k"
  shows "\<exists>t. keyboard_enqueue_event c k = Some t \<and> kbd_inv t \<and> extended_prefix t = extended_prefix k \<and>
     kbd_contents t = (if length (kbd_contents k) < 32 then kbd_contents k @ [c] else kbd_contents k)"
proof (cases "unat (keyboard_count k) < 32")
  case False
  then have "keyboard_count k \<ge> 32" by (simp add: word_le_nat_alt)
  with False assms show ?thesis by (simp add: keyboard_enqueue_event_def KBD_EVENT_QUEUE_SIZE_def)
next
  case True
  define h where "h = unat (keyboard_head k)"
  have h: "h = (unat (keyboard_tail k) + unat (keyboard_count k)) mod 32" "h < 32"
    "length (keyboard_queue k) = 32"
    using assms by (simp_all add: kbd_inv_def h_def)
  define t where "t = k\<lparr>keyboard_queue := (keyboard_queue k)[h := c],
      keyboard_head := (keyboard_head k + 1) mod 32, keyboard_count := keyboard_count k + 1\<rparr>"
  have "\<not> keyboard_count k \<ge> 32" using True by (simp add: word_le_nat_alt)
  then have "keyboard_enqueue_event c k = Some t"
    using h by (simp add: keyboard_enqueue_event_def KBD_EVENT_QUEUE_SIZE_def t_def h_def)
  moreover have n: "unat (keyboard_count t) = Suc (unat (keyboard_count k))"
    using True by (simp add: t_def unat_add_no_wrap)
  have "unat (keyboard_head t) = Suc h mod 32"
    using unat_mod_32 [of "keyboard_head k"] h(2) by (simp add: t_def h_def)
  then have "kbd_inv t"
    using assms n True h by (simp add: kbd_inv_def) (simp add: t_def mod_Suc_eq)
  moreover have "kbd_contents t = kbd_contents k @ [c]"
    using ring_slot_fresh [OF _ True, of _ "unat (keyboard_tail k)"] h n
    by (auto simp: kbd_contents_def t_def)
  ultimately show ?thesis using True by (simp add: t_def)
qed

lemma kbd_dequeue:
  assumes "kbd_inv k" "kbd_contents k \<noteq> []"
  shows "\<exists>t. keyboard_get_event k = Some (hd (kbd_contents k), t) \<and> kbd_inv t \<and>
     kbd_contents t = tl (kbd_contents k)"
proof -
  have nz: "keyboard_count k \<noteq> 0" using assms(2) by (auto simp: kbd_contents_def)
  then obtain n where n: "unat (keyboard_count k) = Suc n"
    by (metis not0_implies_Suc unat_eq_0)
  have tl: "unat (keyboard_tail k) < 32" and len: "length (keyboard_queue k) = 32"
    using assms(1) by (simp_all add: kbd_inv_def)
  define t where "t = k\<lparr>keyboard_tail := (keyboard_tail k + 1) mod 32,
      keyboard_count := keyboard_count k - 1\<rparr>"
  have c: "unat (keyboard_count t) = n"
    using n by (simp add: t_def unat_minus_one [OF nz])
  have u: "unat (keyboard_tail t) = Suc (unat (keyboard_tail k)) mod 32"
    using unat_mod_32 [OF tl] by (simp add: t_def)
  have "hd (kbd_contents k) = keyboard_queue k ! unat (keyboard_tail k)"
    using tl by (simp add: kbd_contents_def n upt_rec)
  then have "keyboard_get_event k = Some (hd (kbd_contents k), t)"
    using nz tl len by (simp add: keyboard_get_event_def KBD_EVENT_QUEUE_SIZE_def t_def)
  moreover have "kbd_inv t"
    using assms(1) c u n by (simp add: kbd_inv_def) (simp add: t_def mod_simps)
  moreover have "kbd_contents t = tl (kbd_contents k)"
  proof (rule nth_equalityI)
    show "length (kbd_contents t) = length (tl (kbd_contents k))" using c n by simp
  next
    fix i
    assume "i < length (kbd_contents t)"
    then have "i < n" using c by simp
    then show "kbd_contents t ! i = tl (kbd_contents k) ! i"
      using c n u by (simp add: kbd_contents_def nth_tl del: upt_Suc) (simp add: t_def mod_simps)
  qed
  ultimately show ?thesis by blast
qed

interpretation kq: bounded_queue keyboard_enqueue_event keyboard_get_event kbd_contents kbd_inv 32 0
proof unfold_locales
  fix s x
  assume "kbd_inv s"
  from kbd_enqueue [OF this, of x] show "\<exists>t. keyboard_enqueue_event x s = Some t \<and> kbd_inv t \<and>
      kbd_contents t = (if length (kbd_contents s) < 32 then kbd_contents s @ [x] else kbd_contents s)"
    by blast
next
  fix s
  assume "kbd_inv s" "kbd_contents s = []"
  then have "keyboard_count s = 0"
    using length_kbd_contents [of s] by (simp add: unat_eq_0)
  then show "keyboard_get_event s = Some (0, s)" by (simp add: keyboard_get_event_def)
qed (auto simp: kbd_dequeue, simp add: kbd_inv_def)

section \<open>What the driver delivers\<close>

text \<open>
  The characters that a stream of scan codes stands for, with the prefix state: a release code
  gives nothing, an arrow code its key with or without the 0xE0 prefix, any other prefixed code
  nothing, and a plain code below 58 the entry of the US table unless that is 0.
\<close>

fun decode :: "bool \<Rightarrow> u8 list \<Rightarrow> u8 list" where
  "decode pre [] = []"
| "decode pre (sc # scs) =
    (if sc = 0xE0 then decode True scs
     else if unat sc \<ge> 128 then decode False scs
     else case arrow_key sc of
       Some c \<Rightarrow> c # decode False scs
     | None \<Rightarrow>
         if \<not> pre \<and> unat sc < 58 \<and> kbd_us ! unat sc \<noteq> 0
         then kbd_us ! unat sc # decode False scs
         else decode False scs)"

primrec kbd_interrupts :: "u8 list \<Rightarrow> kbd \<Rightarrow> kbd option" where
  "kbd_interrupts [] k = Some k"
| "kbd_interrupts (sc # scs) k = do { k1 \<leftarrow> keyboard_handle_interrupt sc k; kbd_interrupts scs k1 }"

lemma and_80: "(x :: u8) AND 0x80 \<noteq> 0 \<longleftrightarrow> unat x \<ge> 128"
proof -
  have "(x AND 0x80 \<noteq> 0) = bit x 7"
    using bit_iff_and_push_bit_not_eq_0 [of x 7] by (simp add: push_bit_eq_mult)
  also have "\<dots> = odd (unat x div 2 ^ 7)"
    by (simp add: bit_iff_odd [of "unat x" 7, symmetric, simplified] bit_unsigned_iff)
  also have "\<dots> = (unat x \<ge> 128)"
  proof (cases "unat x < 128")
    case False
    moreover have "unat x < 256" using unsigned_less [of x, where 'a = nat] by simp
    ultimately have "unat x div 128 = 1" by simp
    with False show ?thesis by simp
  qed simp
  finally show ?thesis .
qed

lemma length_kbd_us [simp]: "length kbd_us = 58"
  by (simp add: kbd_us_def)

lemma arrow_key_nonzero: "arrow_key sc = Some c \<Longrightarrow> c \<noteq> 0"
  by (auto simp: arrow_key_def key_defs split: if_splits)

text \<open>One scan code: the state of the translation and the character, if there is one.\<close>

lemma translate_decode:
  obtains k1 where "translate_scan_code sc k = (0, k1)"
      "decode (extended_prefix k) (sc # scs) = decode (extended_prefix k1) scs"
      "k1 = k\<lparr>extended_prefix := extended_prefix k1\<rparr>"
  | c k1 where "c \<noteq> 0" "translate_scan_code sc k = (c, k1)"
      "decode (extended_prefix k) (sc # scs) = c # decode (extended_prefix k1) scs"
      "k1 = k\<lparr>extended_prefix := extended_prefix k1\<rparr>"
proof (cases "sc = 0xE0 \<or> unat sc \<ge> 128")
  case True
  then show ?thesis
    by (intro that(1) [of "k\<lparr>extended_prefix := (sc = 0xE0)\<rparr>"])
      (auto simp: translate_scan_code_def and_80)
next
  case False
  then show ?thesis
  proof (cases "arrow_key sc")
    case (Some c)
    with False arrow_key_nonzero [OF this] show ?thesis
      by (intro that(2) [of c "k\<lparr>extended_prefix := False\<rparr>"])
        (auto simp: translate_scan_code_def and_80)
  next
    case None
    show ?thesis
    proof (cases "\<not> extended_prefix k \<and> unat sc < 58 \<and> kbd_us ! unat sc \<noteq> 0")
      case True
      with None False show ?thesis
        by (intro that(2) [of "kbd_us ! unat sc" "k\<lparr>extended_prefix := False\<rparr>"])
          (auto simp: translate_scan_code_def and_80)
    next
      case no: False
      with None False show ?thesis
        by (intro that(1) [of "k\<lparr>extended_prefix := False\<rparr>"])
          (auto simp: translate_scan_code_def and_80)
    qed
  qed
qed

lemma kbd_interrupts_enq_all:
  "kbd_inv k \<Longrightarrow> \<exists>t. kbd_interrupts scs k = Some t \<and> kbd_inv t \<and>
     kbd_contents t = take 32 (kbd_contents k @ decode (extended_prefix k) scs)"
proof (induction scs arbitrary: k)
  case Nil
  then show ?case using kq.cap_law [OF Nil] by simp
next
  case (Cons sc scs)
  show ?case
  proof (cases rule: translate_decode [of sc k scs])
    case (1 k1)
    have "kbd_inv k1" "kbd_contents k1 = kbd_contents k" using Cons.prems 1(3) by (metis kbd_prefix_simps)+
    with Cons.IH [of k1] 1 show ?thesis by (simp add: keyboard_handle_interrupt_def del: decode.simps)
  next
    case (2 c k1)
    have k1: "kbd_inv k1" "kbd_contents k1 = kbd_contents k"
      using Cons.prems 2(4) by (metis kbd_prefix_simps)+
    from kbd_enqueue [OF k1(1), of c] obtain t where t: "keyboard_enqueue_event c k1 = Some t"
      "kbd_inv t" "extended_prefix t = extended_prefix k1"
      "kbd_contents t = (if length (kbd_contents k1) < 32 then kbd_contents k1 @ [c] else kbd_contents k1)"
      by blast
    have "take 32 (kbd_contents t @ ys) = take 32 (kbd_contents k @ c # ys)" for ys
      using t(4) k1 kq.cap_law [OF k1(1)] by (auto simp: take_Cons')
    with Cons.IH [OF t(2)] t 2 show ?thesis
      by (simp add: keyboard_handle_interrupt_def del: decode.simps)
  qed
qed

text \<open>
  C11: the keyboard buffer is a bounded first-in first-out queue. For every interleaving of
  enqueued characters and \<open>keyboard_get_event\<close> calls from a well-formed buffer no array access
  is out of range, and the characters returned are those that a list bounded to 32 elements
  returns: oldest first, 0 when empty, and a character that arrives at a full buffer is dropped.
\<close>

theorem keyboard_fifo:
  assumes "kbd_inv k"
  shows "\<exists>t. queue_run keyboard_enqueue_event keyboard_get_event ops k = Some (fst (list_run 32 0 ops (kbd_contents k)), t) \<and> kbd_inv t \<and>
    kbd_contents t = snd (list_run 32 0 ops (kbd_contents k))"
  by (rule kq.run_refines [OF assms])

theorem keyboard_fifo_witness:
  "\<exists>t. queue_run keyboard_enqueue_event keyboard_get_event [Enq 97, Deq, Deq, Enq 98, Enq 99, Deq] kbd_boot = Some ([97, 0, 98], t) \<and>
     kbd_inv t \<and> kbd_contents t = [99]"
  using keyboard_fifo [OF kbd_inv_boot, of "[Enq 97, Deq, Deq, Enq 98, Enq 99, Deq]"] by simp

text \<open>
  From boot, any stream of scan codes followed by \<open>n\<close> calls of \<open>keyboard_get_event\<close>
  returns the first \<open>min n 32\<close> characters that the stream stands for, in order, then zeros;
  \<open>keyboard_has_event\<close> holds exactly when a character is waiting.
\<close>

theorem keyboard_delivers:
  "\<exists>k t. kbd_interrupts scs kbd_boot = Some k \<and>
     (keyboard_has_event k \<longleftrightarrow> decode False scs \<noteq> []) \<and>
     deq_all keyboard_get_event n k = Some (take n (take 32 (decode False scs)) @
        replicate (n - length (take 32 (decode False scs))) 0, t) \<and>
     kbd_contents t = drop n (take 32 (decode False scs))"
proof -
  from kbd_interrupts_enq_all [OF kbd_inv_boot, of scs] obtain k where
    k: "kbd_interrupts scs kbd_boot = Some k" "kbd_inv k" "kbd_contents k = take 32 (decode False scs)"
    using kbd_prefix_boot by auto
  have "keyboard_has_event k \<longleftrightarrow> kbd_contents k \<noteq> []"
    by (auto simp: keyboard_has_event_def kbd_contents_def word_greater_zero_iff unat_eq_0)
  with k kq.deq_all_take [OF k(2), of n] show ?thesis by auto
qed

end
