(* ===== verification/Libc.thy ===== *)
theory Libc
  imports Prelude "HOL-Library.Signed_Division"
begin

text \<open>
  The string routines of the kernel's libc: \<open>itoa\<close> and \<open>uitoa\<close> of stdlib/itoa.c with their digit
  loop and the reversal in place, \<open>strlen\<close>, and the formatter \<open>vsprintf\<close> of stdio/vsprintf.c.

  A C buffer is the list of its characters; writing outside it is \<open>None\<close>. The format string is
  the list of its characters before the terminating NUL: reading at its end gives NUL, reading
  past it is \<open>None\<close>. Signed overflow, undefined in C, is \<open>None\<close> too.
\<close>

section \<open>Buffers\<close>

abbreviation NUL :: char where
  "NUL \<equiv> CHR 0x00"

text \<open>A buffer with the position of the pointer that walks over it; \<open>emit\<close> is \<open>*ptr++ = c\<close>.\<close>

type_synonym outbuf = "string \<times> nat"

definition emit :: "char \<Rightarrow> outbuf \<Rightarrow> outbuf option" where
  "emit c ob = (let (b, p) = ob in if p < length b then Some (b[p := c], Suc p) else None)"

primrec emit_all :: "string \<Rightarrow> outbuf \<Rightarrow> outbuf option" where
  "emit_all [] ob = Some ob"
| "emit_all (c # cs) ob = do { ob1 \<leftarrow> emit c ob; emit_all cs ob1 }"

lemma emit_all_append:
  "emit_all (xs @ ys) ob = do { ob1 \<leftarrow> emit_all xs ob; emit_all ys ob1 }"
  by (induction xs arbitrary: ob) (auto split: bind_split)

lemma emit_all_eq:
  "p \<le> length b \<Longrightarrow> emit_all xs (b, p) =
     (if p + length xs \<le> length b then Some (overwrite b p xs, p + length xs) else None)"
proof (induction xs arbitrary: b p)
  case (Cons c xs)
  show ?case
  proof (cases "p < length b")
    case True
    with Cons.IH [of "Suc p" "b[p := c]"] show ?thesis by (simp add: emit_def overwrite_Cons)
  qed (simp add: emit_def)
qed simp

section \<open>Digits\<close>

definition DIGITS :: string where
  "DIGITS = ''0123456789abcdefghijklmnopqrstuvwxyz''"

text \<open>The loops of \<open>itoa\<close> and \<open>uitoa\<close> that write the digits, least significant first.\<close>

partial_function (option) itoa_digits :: "int \<Rightarrow> int \<Rightarrow> outbuf \<Rightarrow> outbuf option" where
  "itoa_digits tmp_value base ob = do {
     let remainder = tmp_value smod base;
     ob1 \<leftarrow> emit (DIGITS ! nat (if remainder < 0 then - remainder else remainder)) ob;
     if tmp_value sdiv base \<noteq> 0 then itoa_digits (tmp_value sdiv base) base ob1 else Some ob1
   }"

partial_function (option) uitoa_digits :: "u32 \<Rightarrow> u32 \<Rightarrow> outbuf \<Rightarrow> outbuf option" where
  "uitoa_digits tmp_value base ob = do {
     let remainder = tmp_value mod base;
     ob1 \<leftarrow> emit (DIGITS ! unat remainder) ob;
     if tmp_value div base \<noteq> 0 then uitoa_digits (tmp_value div base) base ob1 else Some ob1
   }"

text \<open>The reversal in place between \<open>ptr1\<close> and \<open>ptr\<close>.\<close>

fun reverse_loop :: "string \<Rightarrow> nat \<Rightarrow> nat \<Rightarrow> string option" where
  "reverse_loop b ptr1 ptr =
    (if ptr1 < ptr then
       if ptr < length b
       then reverse_loop (b[ptr := b ! ptr1, ptr1 := b ! ptr]) (Suc ptr1) (ptr - 1)
       else None
     else Some b)"

declare reverse_loop.simps [simp del]

text \<open>Terminate the digits and reverse them.\<close>

definition finish_digits :: "nat \<Rightarrow> outbuf \<Rightarrow> string option" where
  "finish_digits ptr1 ob = do {
     (b, p) \<leftarrow> emit NUL ob;
     reverse_loop b ptr1 (p - 2)
   }"

definition itoa :: "int \<Rightarrow> string \<Rightarrow> int \<Rightarrow> string option" where
  "itoa value str base =
    (if base < 2 \<or> base > 36 then do { (b, _) \<leftarrow> emit NUL (str, 0); Some b }
     else if value < 0 \<and> base = 10 then
       if value = - (2 ^ 31) then None
       else do {
         ob \<leftarrow> emit (CHR ''-'') (str, 0);
         ob1 \<leftarrow> itoa_digits (- value) base ob;
         finish_digits 1 ob1
       }
     else do {
       ob1 \<leftarrow> itoa_digits value base (str, 0);
       finish_digits 0 ob1
     })"

definition uitoa :: "u32 \<Rightarrow> string \<Rightarrow> int \<Rightarrow> string option" where
  "uitoa value str base =
    (if base < 2 \<or> base > 36 then do { (b, _) \<leftarrow> emit NUL (str, 0); Some b }
     else do {
       ob1 \<leftarrow> uitoa_digits value (of_int base) (str, 0);
       finish_digits 0 ob1
     })"

fun strlen :: "string \<Rightarrow> nat option" where
  "strlen [] = None"
| "strlen (c # cs) = (if c = NUL then Some 0 else map_option Suc (strlen cs))"

section \<open>The numeral of a number\<close>

text \<open>The digits of \<open>n\<close> in base \<open>b\<close>, most significant first, and the value a numeral stands for.\<close>

fun numeral_of :: "nat \<Rightarrow> nat \<Rightarrow> string" where
  "numeral_of b n =
    (if b < 2 then [] else if n < b then [DIGITS ! n]
     else numeral_of b (n div b) @ [DIGITS ! (n mod b)])"

declare numeral_of.simps [simp del]

definition digit_value :: "char \<Rightarrow> nat" where
  "digit_value c = (if of_char c < (58 :: nat) then of_char c - 48 else of_char c - 87)"

definition value_of :: "nat \<Rightarrow> string \<Rightarrow> nat" where
  "value_of b = foldl (\<lambda>v c. v * b + digit_value c) 0"

lemma all_below_36: "(\<forall>d < (36 :: nat). P d) \<longleftrightarrow> list_all P [0..<36]"
  by (auto simp: list_all_iff)

lemma digit_value_DIGITS: "d < 36 \<Longrightarrow> digit_value (DIGITS ! d) = d"
proof -
  have "\<forall>d < 36. digit_value (DIGITS ! d) = d"
    unfolding all_below_36 by (simp add: digit_value_def DIGITS_def upt_conv_Cons)
  then show "d < 36 \<Longrightarrow> digit_value (DIGITS ! d) = d" by blast
qed

lemma DIGITS_not: "d < 36 \<Longrightarrow> DIGITS ! d \<noteq> NUL \<and> DIGITS ! d \<noteq> CHR ''-''"
proof -
  have "\<forall>d < 36. DIGITS ! d \<noteq> NUL \<and> DIGITS ! d \<noteq> CHR ''-''"
    unfolding all_below_36 by (simp add: DIGITS_def upt_conv_Cons)
  then show "d < 36 \<Longrightarrow> DIGITS ! d \<noteq> NUL \<and> DIGITS ! d \<noteq> CHR ''-''" by blast
qed

lemma value_of_numeral_of:
  assumes "2 \<le> b" "b \<le> 36"
  shows "value_of b (numeral_of b n) = n"
  using assms
proof (induction b n rule: numeral_of.induct)
  case (1 b n)
  have "n mod b < 36" using 1(2,3) by (metis mod_less_divisor order_less_le_trans zero_less_numeral)
  then show ?case using 1
    by (subst numeral_of.simps) (auto simp: value_of_def digit_value_DIGITS)
qed

lemma set_numeral_of:
  assumes "2 \<le> b" "b \<le> 36"
  shows "NUL \<notin> set (numeral_of b n) \<and> CHR ''-'' \<notin> set (numeral_of b n)"
  using assms
proof (induction b n rule: numeral_of.induct)
  case (1 b n)
  have "DIGITS ! (n mod b) \<noteq> NUL \<and> DIGITS ! (n mod b) \<noteq> CHR ''-''"
    using 1(2,3) by (intro DIGITS_not) (metis mod_less_divisor order_less_le_trans zero_less_numeral)
  moreover have "DIGITS ! n \<noteq> NUL \<and> DIGITS ! n \<noteq> CHR ''-''" if "n < b"
    using 1(3) that by (intro DIGITS_not) simp
  ultimately show ?case using 1 by (subst (1 2) numeral_of.simps) auto
qed

lemma numeral_of_nonempty: "2 \<le> b \<Longrightarrow> numeral_of b n \<noteq> []"
  by (subst numeral_of.simps) auto

lemma length_numeral_of:
  assumes "2 \<le> b" "n < 2 ^ k" "0 < k"
  shows "length (numeral_of b n) \<le> k"
  using assms
proof (induction k arbitrary: n)
  case (Suc k)
  show ?case
  proof (cases "n < b")
    case True
    then show ?thesis using Suc.prems by (subst numeral_of.simps) simp
  next
    case False
    then have "n \<ge> 2" using Suc.prems(1) by simp
    then have k: "0 < k" using Suc.prems(2) by (cases k) auto
    have "n div b \<le> n div 2" using Suc.prems(1) by (intro div_le_mono2) auto
    then have "n div b < 2 ^ k" using Suc.prems(2) by auto
    with Suc.IH [OF Suc.prems(1) _ k] False Suc.prems(1) show ?thesis
      by (subst numeral_of.simps) simp
  qed
qed simp

section \<open>The loops write the numeral\<close>

lemma nat_less_mod_36: "2 \<le> b \<Longrightarrow> b \<le> 36 \<Longrightarrow> (n :: nat) mod b < 36"
  by (metis mod_less_divisor order_less_le_trans zero_less_numeral)

lemma sdiv_smod_abs:
  assumes "2 \<le> (base :: int)"
  shows "nat \<bar>v sdiv base\<bar> = nat \<bar>v\<bar> div nat base"
    and "nat (if v smod base < 0 then - (v smod base) else v smod base) = nat \<bar>v\<bar> mod nat base"
    and "v sdiv base = 0 \<longleftrightarrow> nat \<bar>v\<bar> < nat base"
proof -
  have "\<bar>v sdiv base\<bar> = \<bar>v\<bar> div base"
    using assms by (auto simp: signed_divide_int_def abs_mult abs_sgn_eq pos_imp_zdiv_nonneg_iff)
  then show d: "nat \<bar>v sdiv base\<bar> = nat \<bar>v\<bar> div nat base"
    using assms by (simp add: nat_div_distrib)
  have "(if v smod base < 0 then - (v smod base) else v smod base) = \<bar>v smod base\<bar>" by simp
  also have "\<dots> = \<bar>v\<bar> mod base"
    using assms by (auto simp: signed_modulo_int_def abs_mult abs_sgn_eq)
  finally show "nat (if v smod base < 0 then - (v smod base) else v smod base) = nat \<bar>v\<bar> mod nat base"
    using assms by (simp add: nat_mod_distrib)
  have "v sdiv base = 0 \<longleftrightarrow> nat \<bar>v sdiv base\<bar> = 0" by simp
  then show "v sdiv base = 0 \<longleftrightarrow> nat \<bar>v\<bar> < nat base"
    using assms by (simp add: d div_eq_0_iff)
qed

lemma itoa_digits_eq:
  assumes "2 \<le> base"
  shows "itoa_digits v base ob = emit_all (rev (numeral_of (nat base) (nat \<bar>v\<bar>))) ob"
proof (induction "nat \<bar>v\<bar>" arbitrary: v ob rule: less_induct)
  case less
  note a = sdiv_smod_abs [OF assms, of v]
  show ?case
  proof (cases "v sdiv base = 0")
    case True
    then have s: "nat \<bar>v\<bar> < nat base" using a(3) by simp
    have "numeral_of (nat base) (nat \<bar>v\<bar>) = [DIGITS ! nat \<bar>v\<bar>]"
      using assms s by (subst numeral_of.simps) simp
    with s show ?thesis
      by (subst itoa_digits.simps) (simp add: a True)
  next
    case False
    then have s: "\<not> nat \<bar>v\<bar> < nat base" using a(3) by simp
    then have "nat \<bar>v sdiv base\<bar> < nat \<bar>v\<bar>" using assms by (simp add: a(1))
    note IH = less [OF this]
    have "numeral_of (nat base) (nat \<bar>v\<bar>) =
        numeral_of (nat base) (nat \<bar>v\<bar> div nat base) @ [DIGITS ! (nat \<bar>v\<bar> mod nat base)]"
      using assms s by (subst numeral_of.simps) simp
    then show ?thesis
      by (subst itoa_digits.simps) (simp add: IH a(1,2) False)
  qed
qed

lemma uitoa_digits_eq:
  assumes "2 \<le> base"
  shows "uitoa_digits v base ob = emit_all (rev (numeral_of (unat base) (unat v))) ob"
proof (induction "unat v" arbitrary: v ob rule: less_induct)
  case less
  have b: "2 \<le> unat base" using assms by (simp add: word_le_nat_alt)
  have q: "v div base = 0 \<longleftrightarrow> unat v < unat base"
    using b by (simp add: unat_div div_eq_0_iff flip: unat_eq_0)
  show ?case
  proof (cases "unat v < unat base")
    case True
    then have "numeral_of (unat base) (unat v) = [DIGITS ! unat v]"
      using b by (subst numeral_of.simps) simp
    with True q show ?thesis by (subst uitoa_digits.simps) (simp add: unat_mod)
  next
    case False
    then have "unat (v div base) < unat v" using b by (simp add: unat_div)
    note IH = less [OF this]
    have "numeral_of (unat base) (unat v) =
        numeral_of (unat base) (unat v div unat base) @ [DIGITS ! (unat v mod unat base)]"
      using b False by (subst numeral_of.simps) simp
    then show ?thesis using False q
      by (subst uitoa_digits.simps) (simp add: IH unat_mod unat_div)
  qed
qed

lemma reverse_loop_nth:
  "ptr < length b \<Longrightarrow> \<exists>c. reverse_loop b ptr1 ptr = Some c \<and> length c = length b \<and>
     (\<forall>i < length b. c ! i = (if ptr1 \<le> i \<and> i \<le> ptr then b ! (ptr1 + ptr - i) else b ! i))"
proof (induction b ptr1 ptr rule: reverse_loop.induct)
  case (1 b ptr1 ptr)
  show ?case
  proof (cases "ptr1 < ptr")
    case True
    let ?b = "b[ptr := b ! ptr1, ptr1 := b ! ptr]"
    from 1 True obtain c where c: "reverse_loop ?b (Suc ptr1) (ptr - 1) = Some c"
      "length c = length b"
      "\<And>i. i < length b \<Longrightarrow>
         c ! i = (if Suc ptr1 \<le> i \<and> i \<le> ptr - 1 then ?b ! (Suc ptr1 + (ptr - 1) - i) else ?b ! i)"
      by (metis length_list_update less_imp_diff_less)
    have "reverse_loop b ptr1 ptr = Some c"
      using c(1) True 1(2) by (subst reverse_loop.simps) simp
    moreover have "c ! i = (if ptr1 \<le> i \<and> i \<le> ptr then b ! (ptr1 + ptr - i) else b ! i)"
      if "i < length b" for i
      using c(3) [OF that] that True 1(2) by (auto simp: nth_list_update)
    ultimately show ?thesis using c(2) by blast
  next
    case False
    then show ?thesis by (subst reverse_loop.simps) (auto intro!: arg_cong [where f = "nth b"])
  qed
qed

text \<open>Reversing the stretch of the buffer that holds \<open>rev ds\<close> leaves \<open>ds\<close> there.\<close>

lemma reverse_loop_overwrite:
  assumes "ds \<noteq> []" "p + length ds + length ys \<le> length b"
  shows "reverse_loop (overwrite b p (rev ds @ ys)) p (p + length ds - 1) = Some (overwrite b p (ds @ ys))"
proof -
  let ?b = "overwrite b p (rev ds @ ys)"
  have lt: "p + length ds - 1 < length ?b" using assms by (cases ds) auto
  from reverse_loop_nth [OF this, of p] obtain c where c:
    "reverse_loop ?b p (p + length ds - 1) = Some c" "length c = length ?b"
    "\<And>i. i < length ?b \<Longrightarrow> c ! i =
       (if p \<le> i \<and> i \<le> p + length ds - 1 then ?b ! (p + (p + length ds - 1) - i) else ?b ! i)"
    by blast
  have "c = overwrite b p (ds @ ys)"
  proof (rule nth_equalityI)
    show "length c = length (overwrite b p (ds @ ys))" using c(2) assms by simp
  next
    fix i
    assume "i < length c"
    then have i: "i < length b" using c(2) assms by simp
    consider "i < p" | "p \<le> i" "i < p + length ds" | "p + length ds \<le> i" by linarith
    then show "c ! i = overwrite b p (ds @ ys) ! i"
    proof cases
      case 2
      then obtain k where k: "i = p + k" "k < length ds" by (metis add_less_cancel_left le_Suc_ex)
      then have "p + (p + length ds - 1) - i = p + (length ds - Suc k)"
        and "p \<le> i \<and> i \<le> p + length ds - 1" by simp_all
      then have "c ! i = ?b ! (p + (length ds - Suc k))" using c(3) [of i] i assms by simp
      moreover have "?b ! (p + (length ds - Suc k)) = ds ! k"
        using assms k(2) by (simp add: overwrite_def nth_append rev_nth del: add_diff_assoc)
      moreover have "overwrite b p (ds @ ys) ! i = ds ! k"
        using assms k by (simp add: overwrite_def nth_append)
      ultimately show ?thesis by simp
    next
      case 3
      moreover have "0 < length ds" using assms(1) by simp
      ultimately have "\<not> i \<le> p + length ds - 1" "\<not> i - p < length ds" by linarith+
      with 3 c(3) [of i] i assms show ?thesis by (simp add: overwrite_def nth_append)
    qed (use c(3) [of i] i assms in \<open>simp add: overwrite_def nth_append\<close>)
  qed
  with c(1) show ?thesis by simp
qed

lemma finish_digits_eq:
  assumes "ds \<noteq> []" "p + length ds < length b"
  shows "finish_digits p (overwrite b p (rev ds), p + length ds) = Some (overwrite b p (ds @ [NUL]))"
proof -
  have "emit NUL (overwrite b p (rev ds), p + length ds) =
      Some (overwrite b p (rev ds @ [NUL]), Suc (p + length ds))"
    using emit_all_eq [of "p + length ds" "overwrite b p (rev ds)" "[NUL]"] assms
      overwrite_overwrite [of p "rev ds" "[NUL]" b] by simp
  with reverse_loop_overwrite [of ds p "[NUL]" b] assms show ?thesis
    by (simp add: finish_digits_def)
qed

lemma itoa_spec:
  assumes "2 \<le> base" "base \<le> 36" "- (2 ^ 31) < value \<or> base \<noteq> 10"
    and "sg = (if value < 0 \<and> base = 10 then ''-'' else [])"
    and "length sg + length (numeral_of (nat base) (nat \<bar>value\<bar>)) < length str"
  shows "itoa value str base =
    Some (overwrite str 0 (sg @ numeral_of (nat base) (nat \<bar>value\<bar>) @ [NUL]))"
proof -
  let ?ds = "numeral_of (nat base) (nat \<bar>value\<bar>)"
  have ne: "?ds \<noteq> []" using assms(1) by (intro numeral_of_nonempty) simp
  show ?thesis
  proof (cases "value < 0 \<and> base = 10")
    case True
    let ?b = "str[0 := CHR ''-'']"
    have sp: "overwrite ?b 1 (?ds @ [NUL]) = overwrite str 0 (''-'' @ ?ds @ [NUL])"
      using overwrite_Cons [of 0 str "CHR ''-''" "?ds @ [NUL]"] assms(5) by (cases str) auto
    have "itoa_digits (- value) base (?b, 1) = Some (overwrite ?b 1 (rev ?ds), 1 + length ?ds)"
      using assms(4,5) True by (simp add: itoa_digits_eq emit_all_eq)
    moreover have "0 < length str" using assms(5) by linarith
    ultimately show ?thesis
      using finish_digits_eq [OF ne, of 1 ?b] assms True sp by (simp add: itoa_def emit_def)
  next
    case False
    have "itoa_digits value base (str, 0) = Some (overwrite str 0 (rev ?ds), length ?ds)"
      using assms(4,5) False by (simp add: itoa_digits_eq [OF assms(1)] emit_all_eq)
    with finish_digits_eq [OF ne, of 0 str] assms False show ?thesis
      by (auto simp: itoa_def)
  qed
qed

lemma uitoa_spec:
  assumes "2 \<le> base" "base \<le> 36"
    and "length (numeral_of (nat base) (unat value)) < length str"
  shows "uitoa value str base = Some (overwrite str 0 (numeral_of (nat base) (unat value) @ [NUL]))"
proof -
  let ?ds = "numeral_of (nat base) (unat value)"
  have "of_int base = (of_nat (nat base) :: u32)" using assms(1) by simp
  then have b: "unat (of_int base :: u32) = nat base"
    using assms(1,2) by (simp only: unat_of_nat_u32)
  then have "2 \<le> (of_int base :: u32)" using assms(1) by (simp add: word_le_nat_alt)
  note eq = uitoa_digits_eq [OF this, unfolded b]
  have ne: "?ds \<noteq> []" using assms(1) by (intro numeral_of_nonempty) simp
  have "uitoa_digits value (of_int base) (str, 0) = Some (overwrite str 0 (rev ?ds), length ?ds)"
    using assms(3) by (simp add: eq emit_all_eq)
  with finish_digits_eq [OF ne, of 0 str] assms show ?thesis
    by (simp add: uitoa_def)
qed

section \<open>vsprintf\<close>

text \<open>A variadic argument: a 32-bit value (int, unsigned, pointer) or a \<open>char *\<close>.\<close>

datatype varg = VInt u32 | VStr "string option"

text \<open>\<open>*f\<close> and \<open>f++\<close> on the format: past the terminator there is nothing to read.\<close>

definition peek :: "string \<Rightarrow> char" where
  "peek f = (case f of [] \<Rightarrow> NUL | c # _ \<Rightarrow> c)"

definition advance :: "string \<Rightarrow> string option" where
  "advance f = (case f of [] \<Rightarrow> None | _ # r \<Rightarrow> Some r)"

definition is_digit :: "char \<Rightarrow> bool" where
  "is_digit c \<longleftrightarrow> (48 :: int) \<le> of_char c \<and> of_char c \<le> (57 :: int)"

text \<open>The loop that parses the width; \<open>None\<close> when the \<open>int\<close> overflows.\<close>

fun parse_width :: "string \<Rightarrow> int \<Rightarrow> (string \<times> int) option" where
  "parse_width [] width = Some ([], width)"
| "parse_width (c # f) width =
    (if is_digit c then
       let w = width * 10 + (of_char c - 48)
       in if w < 2 ^ 31 then parse_width f w else None
     else Some (c # f, width))"

text \<open>The padding loop of the numeric conversions, and the copy of a NUL-terminated buffer.\<close>

definition pad_zeros :: "bool \<Rightarrow> int \<Rightarrow> int \<Rightarrow> outbuf \<Rightarrow> outbuf option" where
  "pad_zeros zero_pad width len ob =
    (if zero_pad \<and> width > len then emit_all (replicate (nat (width - len)) CHR ''0'') ob else Some ob)"

fun copy_cstring :: "string \<Rightarrow> outbuf \<Rightarrow> outbuf option" where
  "copy_cstring [] ob = None"
| "copy_cstring (c # cs) ob =
    (if c = NUL then Some ob else do { ob1 \<leftarrow> emit c ob; copy_cstring cs ob1 })"

definition va_int :: "varg list \<Rightarrow> (u32 \<times> varg list) option" where
  "va_int args = (case args of VInt w # r \<Rightarrow> Some (w, r) | _ \<Rightarrow> None)"

definition va_str :: "varg list \<Rightarrow> (string option \<times> varg list) option" where
  "va_str args = (case args of VStr s # r \<Rightarrow> Some (s, r) | _ \<Rightarrow> None)"

text \<open>\<open>char tmp_buf[34]\<close>; its first contents are never read.\<close>

definition tmp_buf0 :: string where
  "tmp_buf0 = replicate 34 (CHR 0xFF)"

text \<open>
  The \<open>switch\<close> on the conversion character. A \<open>char *\<close> argument is the characters before its
  terminator.
\<close>

definition vsprintf_conv ::
  "char \<Rightarrow> bool \<Rightarrow> int \<Rightarrow> varg list \<Rightarrow> outbuf \<Rightarrow> (varg list \<times> outbuf) option" where
  "vsprintf_conv c zero_pad width args ob =
    (if c = CHR ''c'' then do {
       (w, args1) \<leftarrow> va_int args;
       ob1 \<leftarrow> emit (char_of (unat w)) ob;
       Some (args1, ob1)
     }
     else if c = CHR ''s'' then do {
       (s, args1) \<leftarrow> va_str args;
       ob1 \<leftarrow> emit_all (case s of None \<Rightarrow> ''(null)'' | Some cs \<Rightarrow> cs) ob;
       Some (args1, ob1)
     }
     else if c = CHR ''d'' then do {
       (w, args1) \<leftarrow> va_int args;
       tmp_buf \<leftarrow> itoa (sint w) tmp_buf0 10;
       len \<leftarrow> strlen tmp_buf;
       ob1 \<leftarrow> pad_zeros zero_pad width (int len) ob;
       ob2 \<leftarrow> copy_cstring tmp_buf ob1;
       Some (args1, ob2)
     }
     else if c = CHR ''u'' then do {
       (value, args1) \<leftarrow> va_int args;
       tmp_buf \<leftarrow> uitoa value tmp_buf0 10;
       len \<leftarrow> strlen tmp_buf;
       ob1 \<leftarrow> pad_zeros zero_pad width (int len) ob;
       ob2 \<leftarrow> copy_cstring tmp_buf ob1;
       Some (args1, ob2)
     }
     else if c = CHR ''x'' \<or> c = CHR ''b'' then do {
       (value, args1) \<leftarrow> va_int args;
       tmp_buf \<leftarrow> uitoa value tmp_buf0 (if c = CHR ''x'' then 16 else 2);
       len \<leftarrow> strlen tmp_buf;
       ob1 \<leftarrow> pad_zeros zero_pad width (int len) ob;
       ob2 \<leftarrow> copy_cstring tmp_buf ob1;
       Some (args1, ob2)
     }
     else if c = CHR ''p'' then do {
       (value, args1) \<leftarrow> va_int args;
       ob0 \<leftarrow> emit_all ''0x'' ob;
       tmp_buf \<leftarrow> uitoa value tmp_buf0 16;
       len \<leftarrow> strlen tmp_buf;
       ob1 \<leftarrow> pad_zeros zero_pad width (int len + 2) ob0;
       ob2 \<leftarrow> copy_cstring tmp_buf ob1;
       Some (args1, ob2)
     }
     else if c = CHR ''%'' then do { ob1 \<leftarrow> emit (CHR ''%'') ob; Some (args, ob1) }
     else do { ob1 \<leftarrow> emit c ob; Some (args, ob1) })"

lemma parse_width_length: "parse_width f w = Some (g, v) \<Longrightarrow> length g \<le> length f"
  by (induction f w rule: parse_width.induct) (auto simp: Let_def split: if_splits)

text \<open>
  One iteration per character or conversion. After a conversion \<open>f++\<close> may step past the
  terminator; the next test of \<open>*f\<close> then reads outside the string.
\<close>

function vsprintf_loop :: "string \<Rightarrow> varg list \<Rightarrow> outbuf \<Rightarrow> outbuf option" where
  "vsprintf_loop [] args ob = Some ob"
| "vsprintf_loop (c # f) args ob =
    (if c \<noteq> CHR ''%'' then do { ob1 \<leftarrow> emit c ob; vsprintf_loop f args ob1 }
     else let zero_pad = (peek f = CHR ''0'');
              f1 = (if zero_pad then tl f else f)
       in case parse_width f1 0 of
            None \<Rightarrow> None
          | Some (f2, width) \<Rightarrow>
              (case vsprintf_conv (peek f2) zero_pad width args ob of
                 None \<Rightarrow> None
               | Some (args1, ob1) \<Rightarrow>
                   (case advance f2 of None \<Rightarrow> None | Some f3 \<Rightarrow> vsprintf_loop f3 args1 ob1)))"
  by pat_completeness auto
termination
proof (relation "measure (\<lambda>(f, _). length f)", goal_cases)
  case (3 c f args ob zp f1 fw f2 width ao args1 ob1 f3)
  then have "length f3 < length f2" by (auto simp: advance_def split: list.splits)
  moreover have "length f2 \<le> length f1" using 3 parse_width_length by (metis)
  moreover have "length f1 \<le> length f" using 3 by auto
  ultimately show ?case by simp
qed auto

definition vsprintf :: "string \<Rightarrow> string \<Rightarrow> varg list \<Rightarrow> (int \<times> string) option" where
  "vsprintf buf fmt args = do {
     (b, p) \<leftarrow> vsprintf_loop fmt args (buf, 0);
     (b1, _) \<leftarrow> emit NUL (b, p);
     Some (int p, b1)
   }"

definition sprintf :: "string \<Rightarrow> string \<Rightarrow> varg list \<Rightarrow> (int \<times> string) option" where
  "sprintf buf fmt args = vsprintf buf fmt args"

section \<open>The formatter against a reference\<close>

text \<open>
  A format is parsed into literal characters and conversions (zero flag, width, conversion
  character), the items are rendered one by one, and the text is stored if it fits.
\<close>

datatype fmt_item = Lit char | Conv bool nat char

function parse_format :: "string \<Rightarrow> fmt_item list option" where
  "parse_format [] = Some []"
| "parse_format (c # f) =
    (if c \<noteq> CHR ''%'' then map_option ((#) (Lit c)) (parse_format f)
     else let z = (f \<noteq> [] \<and> hd f = CHR ''0'')
       in case parse_width (if z then tl f else f) 0 of
            Some (k # g, w) \<Rightarrow> map_option ((#) (Conv z (nat w) k)) (parse_format g)
          | _ \<Rightarrow> None)"
  by pat_completeness auto
termination
proof (relation "measure length", goal_cases)
  case (3 c f z fw f2 w k g)
  then have "length (k # g) \<le> length (if z then tl f else f)" using parse_width_length by metis
  then show ?case by (auto split: if_splits)
qed auto

definition zero_fill :: "bool \<Rightarrow> nat \<Rightarrow> string \<Rightarrow> string" where
  "zero_fill z w ds = (if z then replicate (w - length ds) CHR ''0'' @ ds else ds)"

definition signed_numeral :: "int \<Rightarrow> string" where
  "signed_numeral v = (if v < 0 then CHR ''-'' # numeral_of 10 (nat (- v)) else numeral_of 10 (nat v))"

definition render_int :: "bool \<Rightarrow> nat \<Rightarrow> char \<Rightarrow> u32 \<Rightarrow> string option" where
  "render_int z w k v =
    (if k = CHR ''c'' then Some [char_of (unat v)]
     else if k = CHR ''d'' then
       (if sint v = - (2 ^ 31) then None else Some (zero_fill z w (signed_numeral (sint v))))
     else if k = CHR ''u'' then Some (zero_fill z w (numeral_of 10 (unat v)))
     else if k = CHR ''x'' then Some (zero_fill z w (numeral_of 16 (unat v)))
     else if k = CHR ''b'' then Some (zero_fill z w (numeral_of 2 (unat v)))
     else Some (''0x'' @ zero_fill z (w - 2) (numeral_of 16 (unat v))))"

definition render_conv :: "bool \<Rightarrow> nat \<Rightarrow> char \<Rightarrow> varg list \<Rightarrow> (string \<times> varg list) option" where
  "render_conv z w k args =
    (if k \<in> set ''cduxbp'' then
       (case args of VInt v # r \<Rightarrow> map_option (\<lambda>out. (out, r)) (render_int z w k v) | _ \<Rightarrow> None)
     else if k = CHR ''s'' then
       (case args of VStr s # r \<Rightarrow> Some (case s of None \<Rightarrow> ''(null)'' | Some cs \<Rightarrow> cs, r) | _ \<Rightarrow> None)
     else Some ([k], args))"

fun render :: "fmt_item list \<Rightarrow> varg list \<Rightarrow> string option" where
  "render [] args = Some []"
| "render (Lit c # items) args = map_option ((#) c) (render items args)"
| "render (Conv z w k # items) args =
    do { (out, args1) \<leftarrow> render_conv z w k args; rest \<leftarrow> render items args1; Some (out @ rest) }"

subsection \<open>The conversions\<close>

lemma overwrite_0_cstring: "overwrite b 0 (ds @ [NUL]) = ds @ NUL # drop (Suc (length ds)) b"
  by (simp add: overwrite_def)

lemma strlen_cstring: "NUL \<notin> set ds \<Longrightarrow> strlen (ds @ NUL # r) = Some (length ds)"
  by (induction ds) auto

lemma copy_cstring_eq: "NUL \<notin> set ds \<Longrightarrow> copy_cstring (ds @ NUL # r) ob = emit_all ds ob"
  by (induction ds arbitrary: ob) (auto intro!: bind_option_cong)

lemma length_numeral_u32: "2 \<le> b \<Longrightarrow> length (numeral_of b (unat (v :: u32))) \<le> 32"
  using unat_lt_2p32 [of v] by (intro length_numeral_of) auto

lemma pad_copy:
  assumes "NUL \<notin> set ds" "0 \<le> width"
  shows "do { len \<leftarrow> strlen (overwrite b 0 (ds @ [NUL])); ob1 \<leftarrow> pad_zeros z width (int len) ob;
        ob2 \<leftarrow> copy_cstring (overwrite b 0 (ds @ [NUL])) ob1; Some (args, ob2) } =
      do { ob2 \<leftarrow> emit_all (zero_fill z (nat width) ds) ob; Some (args, ob2) }"
    and "do { len \<leftarrow> strlen (overwrite b 0 (ds @ [NUL])); ob1 \<leftarrow> pad_zeros z width (int len + 2) ob;
        ob2 \<leftarrow> copy_cstring (overwrite b 0 (ds @ [NUL])) ob1; Some (args, ob2) } =
      do { ob2 \<leftarrow> emit_all (zero_fill z (nat width - 2) ds) ob; Some (args, ob2) }"
proof -
  have "nat (width - int (length ds)) = nat width - length ds"
    and "nat (width - (int (length ds) + 2)) = nat width - 2 - length ds" by simp_all
  then show "do { len \<leftarrow> strlen (overwrite b 0 (ds @ [NUL])); ob1 \<leftarrow> pad_zeros z width (int len) ob;
        ob2 \<leftarrow> copy_cstring (overwrite b 0 (ds @ [NUL])) ob1; Some (args, ob2) } =
      do { ob2 \<leftarrow> emit_all (zero_fill z (nat width) ds) ob; Some (args, ob2) }"
    and "do { len \<leftarrow> strlen (overwrite b 0 (ds @ [NUL])); ob1 \<leftarrow> pad_zeros z width (int len + 2) ob;
        ob2 \<leftarrow> copy_cstring (overwrite b 0 (ds @ [NUL])) ob1; Some (args, ob2) } =
      do { ob2 \<leftarrow> emit_all (zero_fill z (nat width - 2) ds) ob; Some (args, ob2) }"
    using assms by (auto simp: overwrite_0_cstring strlen_cstring copy_cstring_eq pad_zeros_def zero_fill_def
        emit_all_append)
qed

lemma uitoa_tmp:
  assumes "2 \<le> base" "base \<le> 36"
  shows "uitoa v tmp_buf0 base = Some (overwrite tmp_buf0 0 (numeral_of (nat base) (unat v) @ [NUL]))"
proof (rule uitoa_spec [OF assms])
  have "length (numeral_of (nat base) (unat v)) \<le> 32"
    using assms(1) by (intro length_numeral_u32) simp
  then show "length (numeral_of (nat base) (unat v)) < length tmp_buf0" by (simp add: tmp_buf0_def)
qed

lemma itoa_tmp:
  "itoa (sint (v :: u32)) tmp_buf0 10 =
     (if sint v = - (2 ^ 31) then None
      else Some (overwrite tmp_buf0 0 (signed_numeral (sint v) @ [NUL])))"
proof (cases "sint v = - (2 ^ 31)")
  case True
  then show ?thesis by (simp add: itoa_def)
next
  case False
  have r: "- (2 ^ 31) \<le> sint v" "sint v < 2 ^ 31"
    using sint_greater_eq [of v] sint_less [of v] by simp_all
  then have "length (numeral_of 10 (nat \<bar>sint v\<bar>)) \<le> 32"
    by (intro length_numeral_of) auto
  with False r itoa_spec [of 10 "sint v" "if sint v < 0 then ''-'' else []" tmp_buf0] show ?thesis
    by (auto simp: signed_numeral_def tmp_buf0_def)
qed

lemma NUL_numerals:
  "2 \<le> b \<Longrightarrow> b \<le> 36 \<Longrightarrow> NUL \<notin> set (numeral_of b n)" "NUL \<notin> set (signed_numeral v)"
  using set_numeral_of by (auto simp: signed_numeral_def)

lemma vsprintf_conv_eq:
  assumes "0 \<le> width"
  shows "vsprintf_conv k z width args ob =
    (case render_conv z (nat width) k args of
       None \<Rightarrow> None
     | Some (out, args1) \<Rightarrow> do { ob1 \<leftarrow> emit_all out ob; Some (args1, ob1) })"
proof (cases "k \<in> set ''cduxbp''")
  case True
  show ?thesis
  proof (cases "\<exists>v r. args = VInt v # r")
    case ex: True
    then obtain v r where "args = VInt v # r" by blast
    then show ?thesis
      using True assms
      by (auto simp: vsprintf_conv_def render_conv_def render_int_def va_int_def
          uitoa_tmp itoa_tmp pad_copy NUL_numerals)
  next
    case False
    then have "va_int args = None" by (auto simp: va_int_def split: list.splits varg.splits)
    with True False show ?thesis
      by (auto simp: vsprintf_conv_def render_conv_def split: list.splits varg.splits)
  qed
next
  case False
  then show ?thesis
    by (auto simp: vsprintf_conv_def render_conv_def va_str_def split: list.splits varg.splits)
qed

lemma parse_width_nonneg: "parse_width f w = Some (g, v) \<Longrightarrow> 0 \<le> w \<Longrightarrow> 0 \<le> v"
  by (induction f w rule: parse_width.induct)
    (auto simp: Let_def is_digit_def split: if_splits)

lemma vsprintf_loop_eq:
  "vsprintf_loop fmt args ob =
    do { items \<leftarrow> parse_format fmt; out \<leftarrow> render items args; emit_all out ob }"
proof (induction fmt args ob rule: vsprintf_loop.induct)
  case (1 args ob)
  then show ?case by simp
next
  case (2 c f args ob)
  show ?case
  proof (cases "c = CHR ''%''")
    case False
    have "emit c ob \<bind> (\<lambda>ob1. vsprintf_loop f args ob1) =
        emit c ob \<bind> (\<lambda>ob1. do { items \<leftarrow> parse_format f; out \<leftarrow> render items args; emit_all out ob1 })"
      using 2(1) [OF False] by (intro bind_option_cong) auto
    with False show ?thesis
      by (cases "parse_format f"; cases "render (the (parse_format f)) args") auto
  next
    case True
    define z where "z \<longleftrightarrow> peek f = CHR ''0''"
    define f1 where "f1 = (if z then tl f else f)"
    have z: "z \<longleftrightarrow> f \<noteq> [] \<and> hd f = CHR ''0''" by (cases f) (simp_all add: z_def peek_def)
    show ?thesis
    proof (cases "parse_width f1 0")
      case None
      with True z z_def f1_def show ?thesis by (simp add: Let_def)
    next
      case (Some fw)
      obtain f2 w where fw: "fw = (f2, w)" by (cases fw)
      have w: "0 \<le> w" using parse_width_nonneg [of f1 0 f2 w] Some fw by simp
      show ?thesis
      proof (cases f2)
        case Nil
        with True Some fw z z_def f1_def show ?thesis
          by (simp add: Let_def advance_def split: option.split)
      next
        case (Cons k g)
        have conv: "vsprintf_loop (c # f) args ob =
            (case vsprintf_conv k z w args ob of
               None \<Rightarrow> None | Some (args1, ob1) \<Rightarrow> vsprintf_loop g args1 ob1)"
          using True Some fw Cons z_def f1_def
          by (simp add: Let_def advance_def peek_def split: option.split)
        have IH: "vsprintf_loop g args1 ob1 =
            do { items \<leftarrow> parse_format g; out \<leftarrow> render items args1; emit_all out ob1 }"
          if "vsprintf_conv k z w args ob = Some (args1, ob1)" for args1 ob1
          using 2(2) [of z f1 "(f2, w)" f2 w "(args1, ob1)" args1 ob1 g] that True Some fw Cons
          by (simp add: z_def f1_def advance_def peek_def)
        have pf: "parse_format (c # f) = map_option ((#) (Conv z (nat w) k)) (parse_format g)"
          using True Some fw Cons z f1_def by (simp add: Let_def)
        show ?thesis
          unfolding conv pf using IH
          by (auto simp: vsprintf_conv_eq [OF w] emit_all_append split: option.splits bind_splits elim!: bind_SomeE)
      qed
    qed
  qed
qed

section \<open>What the routines guarantee\<close>

definition cstring :: "string \<Rightarrow> string" where
  "cstring b = takeWhile (\<lambda>c. c \<noteq> NUL) b"

definition int_value :: "string \<Rightarrow> int" where
  "int_value s = (if s \<noteq> [] \<and> hd s = CHR ''-'' then - int (value_of 10 (tl s)) else int (value_of 10 s))"

lemma cstring_overwrite: "NUL \<notin> set ds \<Longrightarrow> cstring (overwrite b 0 (ds @ [NUL])) = ds"
  unfolding cstring_def overwrite_0_cstring by (subst takeWhile_append2) auto

lemma int_value_signed_numeral: "int_value (signed_numeral v) = v"
proof (cases "v < 0")
  case True
  then show ?thesis by (simp add: int_value_def signed_numeral_def value_of_numeral_of)
next
  case False
  have "numeral_of 10 (nat v) \<noteq> []" by (rule numeral_of_nonempty) simp
  then have "hd (numeral_of 10 (nat v)) \<noteq> CHR ''-''"
    using set_numeral_of [of 10 "nat v"] hd_in_set [of "numeral_of 10 (nat v)"] by fastforce
  with False show ?thesis by (simp add: int_value_def signed_numeral_def value_of_numeral_of)
qed



lemma vsprintf_reference:
  "vsprintf buf fmt args =
    do { items \<leftarrow> parse_format fmt;
         out \<leftarrow> render items args;
         if length out < length buf
         then Some (int (length out), overwrite buf 0 (out @ [NUL])) else None }"
proof -
  have "do { (b, p) \<leftarrow> emit_all out (buf, 0); (b1, _) \<leftarrow> emit NUL (b, p); Some (int p, b1) } =
      (if length out < length buf
       then Some (int (length out), overwrite buf 0 (out @ [NUL])) else None)" for out
  proof (cases "length out \<le> length buf")
    case True
    with overwrite_overwrite [of 0 out "[NUL]" buf] emit_all_eq [of "length out" "overwrite buf 0 out" "[NUL]"]
    show ?thesis by (auto simp: emit_all_eq emit_def split: if_splits)
  qed (simp add: emit_all_eq)
  then show ?thesis
    by (simp add: vsprintf_def vsprintf_loop_eq)
qed


text \<open>
  A field width without the zero flag has no effect, though the comment above \<open>vsprintf\<close>
  promises a minimum field width for numeric output such as \<open>%4u\<close>: for every width from 1 to 9
  the output is the bare numeral. With the zero flag a negative number gets its zeros in front
  of the sign.
\<close>

theorem vsprintf_width:
  assumes "d \<in> set ''123456789''" "34 \<le> length buf"
  shows "map_option (\<lambda>(n, b). (n, cstring b)) (vsprintf buf [CHR ''%'', d, CHR ''u''] [VInt u]) =
      Some (int (length (numeral_of 10 (unat u))), numeral_of 10 (unat u)) \<and>
    map_option (\<lambda>(n, b). (n, cstring b)) (vsprintf buf ''%05d'' [VInt (- 42)]) = Some (5, ''00-42'')"
proof -
  have p: "parse_format [CHR ''%'', d, CHR ''u''] = Some [Conv False (nat (of_char d - 48)) CHR ''u'']"
    using assms(1) by (auto simp: is_digit_def)
  have "length (numeral_of 10 (unat u)) \<le> 32" by (rule length_numeral_u32) simp
  then have u: "map_option (\<lambda>(n, b). (n, cstring b)) (vsprintf buf [CHR ''%'', d, CHR ''u''] [VInt u]) =
      Some (int (length (numeral_of 10 (unat u))), numeral_of 10 (unat u))"
    using p assms(2)
    by (simp add: vsprintf_reference render_conv_def render_int_def zero_fill_def cstring_overwrite NUL_numerals)
  have r: "render [Conv True 5 CHR ''d''] [VInt (- 42)] = Some ''00-42''"
    by (simp add: render_conv_def render_int_def signed_numeral_def zero_fill_def numeral_of.simps DIGITS_def
        numeral_2_eq_2)
  have "parse_format ''%05d'' = Some [Conv True 5 CHR ''d'']"
    by (simp add: is_digit_def)
  with u r assms(2) cstring_overwrite [of "''00-42''" buf] show ?thesis
    by (simp add: vsprintf_reference)
qed

theorem vsprintf_width_witness:
  "map_option (\<lambda>(n, b). (n, cstring b)) (vsprintf (replicate 64 NUL) ''%4u'' [VInt 7]) = Some (1, ''7'')"
  using vsprintf_width [of "CHR ''4''" "replicate 64 NUL" 7]
  by (simp add: numeral_of.simps DIGITS_def)

end
