(* ===== verification/Console.thy ===== *)
theory Console
  imports Libc
begin

text \<open>
  The text terminal of arch/i386/tty.c with the cell encoding of vga.h, \<open>putchar\<close> and \<open>printf\<close> of
  libc/src/stdio, and the loop of drivers/serial.c that sends a string. The VGA text buffer is a
  list of 2000 cells; the bytes sent to COM1 are kept in the order they are sent. The busy wait
  for the transmitter and the port writes themselves are hardware and not part of the state.
\<close>

record console =
  terminal_row :: u32
  terminal_column :: u32
  terminal_color :: u8
  terminal_buffer :: "u16 list"
  serial_sent :: string

definition VGA_WIDTH :: u32 where
  "VGA_WIDTH = 80"

definition VGA_HEIGHT :: u32 where
  "VGA_HEIGHT = 25"

definition vga_entry_color :: "u8 \<Rightarrow> u8 \<Rightarrow> u8" where
  "vga_entry_color fg bg = fg OR push_bit 4 bg"

definition vga_entry :: "u8 \<Rightarrow> u8 \<Rightarrow> u16" where
  "vga_entry uc color = ucast uc OR push_bit 8 (ucast color)"

text \<open>\<open>serial_write\<close>: everything up to the terminator goes out, in order.\<close>

definition serial_write :: "string \<Rightarrow> console \<Rightarrow> console" where
  "serial_write str s = s\<lparr>serial_sent := serial_sent s @ takeWhile (\<lambda>c. c \<noteq> NUL) str\<rparr>"

text \<open>A cell outside the text buffer is a fault.\<close>

definition set_cell :: "u32 \<Rightarrow> u16 \<Rightarrow> console \<Rightarrow> console option" where
  "set_cell index v s =
    (if unat index < length (terminal_buffer s)
     then Some (s\<lparr>terminal_buffer := (terminal_buffer s)[unat index := v]\<rparr>) else None)"

primrec terminal_clear_row :: "nat \<Rightarrow> u32 \<Rightarrow> u32 \<Rightarrow> console \<Rightarrow> console option" where
  "terminal_clear_row 0 y x s = Some s"
| "terminal_clear_row (Suc n) y x s = do {
     s1 \<leftarrow> set_cell (y * VGA_WIDTH + x) (vga_entry 32 (terminal_color s)) s;
     terminal_clear_row n y (x + 1) s1
   }"

primrec terminal_clear :: "nat \<Rightarrow> u32 \<Rightarrow> console \<Rightarrow> console option" where
  "terminal_clear 0 y s = Some s"
| "terminal_clear (Suc n) y s = do {
     s1 \<leftarrow> terminal_clear_row 80 y 0 s;
     terminal_clear n (y + 1) s1
   }"

definition terminal_init :: "console \<Rightarrow> console option" where
  "terminal_init s =
    terminal_clear 25 0
      (s\<lparr>terminal_row := 0, terminal_column := 0, terminal_color := vga_entry_color 7 0\<rparr>)"

definition terminal_setcolor :: "u8 \<Rightarrow> console \<Rightarrow> console" where
  "terminal_setcolor color s = s\<lparr>terminal_color := color\<rparr>"

definition terminal_setcursor :: "u32 \<Rightarrow> u32 \<Rightarrow> console \<Rightarrow> console" where
  "terminal_setcursor column row s =
    (if column < VGA_WIDTH \<and> row < VGA_HEIGHT
     then s\<lparr>terminal_column := column, terminal_row := row\<rparr> else s)"

definition terminal_putentryat :: "u8 \<Rightarrow> u8 \<Rightarrow> u32 \<Rightarrow> u32 \<Rightarrow> console \<Rightarrow> console option" where
  "terminal_putentryat c color x y s = set_cell (y * VGA_WIDTH + x) (vga_entry c color) s"

text \<open>\<open>if (++terminal_row == VGA_HEIGHT) terminal_row = 0;\<close>\<close>

definition next_row :: "console \<Rightarrow> console" where
  "next_row s =
    (if terminal_row s + 1 = VGA_HEIGHT then s\<lparr>terminal_row := 0\<rparr>
     else s\<lparr>terminal_row := terminal_row s + 1\<rparr>)"

definition terminal_putchar :: "char \<Rightarrow> console \<Rightarrow> console" where
  "terminal_putchar c s =
    (if c = CHR 0x0A then next_row (s\<lparr>terminal_column := 0\<rparr>)
     else if c = CHR 0x0D then s\<lparr>terminal_column := 0\<rparr>
     else
       let s1 = (if terminal_column s + 1 = VGA_WIDTH then next_row (s\<lparr>terminal_column := 0\<rparr>)
                 else s\<lparr>terminal_column := terminal_column s + 1\<rparr>)
       in serial_write [c, NUL] s1)"

primrec terminal_write :: "string \<Rightarrow> console \<Rightarrow> console" where
  "terminal_write [] s = s"
| "terminal_write (c # data) s = terminal_write data (terminal_putchar c s)"

definition terminal_writestring :: "string \<Rightarrow> console \<Rightarrow> console option" where
  "terminal_writestring data s = do {
     n \<leftarrow> strlen data;
     Some (terminal_write (take n data) s)
   }"

definition putchar :: "char \<Rightarrow> console \<Rightarrow> console" where
  "putchar c s = terminal_write [c] s"

text \<open>\<open>printf\<close>: format into \<open>buf[1024]\<close>, then \<open>putchar\<close> for each character.\<close>

definition printf :: "string \<Rightarrow> varg list \<Rightarrow> console \<Rightarrow> (int \<times> console) option" where
  "printf fmt args s = do {
     (len, buf) \<leftarrow> vsprintf (replicate 1024 (CHR 0xFF)) fmt args;
     Some (len, fold putchar (take (nat len) buf) s)
   }"

section \<open>The cursor\<close>

definition console_inv :: "console \<Rightarrow> bool" where
  "console_inv s \<longleftrightarrow> terminal_row s < VGA_HEIGHT \<and> terminal_column s < VGA_WIDTH \<and>
     length (terminal_buffer s) = 2000"

text \<open>The cursor as a cell number: a printed character moves it one cell on, cyclically.\<close>

definition cursor :: "console \<Rightarrow> nat" where
  "cursor s = unat (terminal_row s) * 80 + unat (terminal_column s)"

definition move_cursor :: "char \<Rightarrow> nat \<Rightarrow> nat" where
  "move_cursor c k =
    (if c = CHR 0x0A then (k div 80 + 1) * 80 mod 2000
     else if c = CHR 0x0D then k div 80 * 80 else (k + 1) mod 2000)"

definition printable :: "char \<Rightarrow> bool" where
  "printable c \<longleftrightarrow> c \<noteq> CHR 0x0A \<and> c \<noteq> CHR 0x0D \<and> c \<noteq> NUL"

lemma console_inv_nat:
  "console_inv s \<longleftrightarrow> unat (terminal_row s) < 25 \<and> unat (terminal_column s) < 80 \<and>
     length (terminal_buffer s) = 2000"
  by (simp add: console_inv_def VGA_HEIGHT_def VGA_WIDTH_def word_less_nat_alt)

lemma unat_Suc_eq: "unat (x :: u32) < 100 \<Longrightarrow> n < 200 \<Longrightarrow> x + 1 = of_nat n \<longleftrightarrow> unat x + 1 = n"
  by (simp add: word_unat_eq_iff unat_add_no_wrap unat_of_nat_u32)

lemma next_row_eq:
  assumes "unat (terminal_row s) < 25"
  shows "unat (terminal_row (next_row s)) = (unat (terminal_row s) + 1) mod 25"
    and "next_row s = s\<lparr>terminal_row := terminal_row (next_row s)\<rparr>"
  using assms unat_Suc_eq [of "terminal_row s" 25] unat_add_no_wrap [of "terminal_row s" 1]
  by (auto simp: next_row_def VGA_HEIGHT_def)

lemma putchar_step:
  assumes "console_inv s"
  shows "console_inv (putchar c s) \<and> cursor (putchar c s) = move_cursor c (cursor s) \<and>
    terminal_buffer (putchar c s) = terminal_buffer s \<and> terminal_color (putchar c s) = terminal_color s \<and>
    serial_sent (putchar c s) = serial_sent s @ filter printable [c]"
proof -
  have b: "unat (terminal_row s) < 25" "unat (terminal_column s) < 80" "length (terminal_buffer s) = 2000"
    using assms by (simp_all add: console_inv_nat)
  have col: "unat (terminal_column s + 1) = unat (terminal_column s) + 1"
    using b(2) by (simp add: unat_add_no_wrap)
  have w: "terminal_column s + 1 = VGA_WIDTH \<longleftrightarrow> unat (terminal_column s) + 1 = 80"
    using unat_Suc_eq [of "terminal_column s" 80] b(2) by (simp add: VGA_WIDTH_def)
  let ?s0 = "s\<lparr>terminal_column := 0\<rparr>"
  have r: "unat (terminal_row (next_row ?s0)) = (unat (terminal_row s) + 1) mod 25"
    "next_row ?s0 = ?s0\<lparr>terminal_row := terminal_row (next_row ?s0)\<rparr>"
    using next_row_eq [of ?s0] b(1) by simp_all
  have f: "terminal_column (next_row ?s0) = 0" "terminal_buffer (next_row ?s0) = terminal_buffer s"
    "terminal_color (next_row ?s0) = terminal_color s" "serial_sent (next_row ?s0) = serial_sent s"
    by (subst r(2), simp)+
  have d: "cursor s div 80 = unat (terminal_row s)" using b(2) by (simp add: cursor_def)
  have m: "(x mod 25) * 80 = (x * 80) mod 2000" for x :: nat
    using mod_mult_mult2 [of x 80 25] by simp
  consider "c = CHR 0x0A" | "c = CHR 0x0D" | "c \<noteq> CHR 0x0A" "c \<noteq> CHR 0x0D" by blast
  then show ?thesis
  proof cases
    case 1
    then have "putchar c s = next_row ?s0" by (simp add: putchar_def terminal_putchar_def)
    then show ?thesis
      using 1 b f r(1) d m [of "unat (terminal_row s) + 1"]
      by (simp add: console_inv_nat cursor_def move_cursor_def printable_def)
  next
    case 2
    then have "putchar c s = ?s0" by (simp add: putchar_def terminal_putchar_def)
    then show ?thesis
      using 2 b d by (simp add: console_inv_nat cursor_def move_cursor_def printable_def)
  next
    case 3
    show ?thesis
    proof (cases "unat (terminal_column s) + 1 = 80")
      case True
      then have "putchar c s = serial_write [c, NUL] (next_row ?s0)"
        using 3 w by (simp add: putchar_def terminal_putchar_def)
      moreover have "cursor s + 1 = (unat (terminal_row s) + 1) * 80" using True by (simp add: cursor_def)
      ultimately show ?thesis
        using 3 b f r(1) m [of "unat (terminal_row s) + 1"]
        by (simp add: console_inv_nat cursor_def move_cursor_def printable_def serial_write_def)
    next
      case False
      then have "putchar c s = serial_write [c, NUL] (s\<lparr>terminal_column := terminal_column s + 1\<rparr>)"
        using 3 w by (simp add: putchar_def terminal_putchar_def)
      moreover have "cursor s + 1 < 2000" using False b by (simp add: cursor_def)
      ultimately show ?thesis
        using 3 b False col
        by (simp add: console_inv_nat cursor_def move_cursor_def printable_def serial_write_def)
    qed
  qed
qed

lemma fold_putchar:
  assumes "console_inv s"
  shows "console_inv (fold putchar cs s) \<and> cursor (fold putchar cs s) = fold move_cursor cs (cursor s) \<and>
    terminal_buffer (fold putchar cs s) = terminal_buffer s \<and>
    serial_sent (fold putchar cs s) = serial_sent s @ filter printable cs"
  using assms
proof (induction cs arbitrary: s)
  case (Cons c cs)
  with putchar_step [OF Cons.prems, of c] Cons.IH [of "putchar c s"] show ?case by auto
qed simp

section \<open>Clearing the screen\<close>

definition blank_range :: "u16 \<Rightarrow> nat \<Rightarrow> nat \<Rightarrow> u16 list \<Rightarrow> u16 list" where
  "blank_range v i n b = take i b @ replicate n v @ drop (i + n) b"

lemma blank_range_Suc:
  "i < length b \<Longrightarrow> blank_range v (Suc i) n (b[i := v]) = blank_range v i (Suc n) b"
  by (simp add: blank_range_def take_Suc_conv_app_nth)

lemma length_blank_range [simp]: "i + n \<le> length b \<Longrightarrow> length (blank_range v i n b) = length b"
  by (simp add: blank_range_def)

lemma blank_range_append:
  "i + n + m \<le> length b \<Longrightarrow> blank_range v (i + n) m (blank_range v i n b) = blank_range v i (n + m) b"
  by (simp add: blank_range_def replicate_add add.commute add.left_commute)
    (metis append.assoc replicate_add add.commute)

lemma cell_index:
  "unat (y :: u32) < 25 \<Longrightarrow> unat (x :: u32) < 80 \<Longrightarrow> unat (y * VGA_WIDTH + x) = unat y * 80 + unat x"
  by (simp add: VGA_WIDTH_def unat_add_no_wrap unat_mult_no_wrap)

lemma terminal_clear_row_eq:
  assumes "unat y < 25" "unat x + n \<le> 80" "length (terminal_buffer s) = 2000"
  shows "terminal_clear_row n y x s = Some (s\<lparr>terminal_buffer :=
    blank_range (vga_entry 32 (terminal_color s)) (unat y * 80 + unat x) n (terminal_buffer s)\<rparr>)"
  using assms(2,3)
proof (induction n arbitrary: x s)
  case 0
  then show ?case by (simp add: blank_range_def)
next
  case (Suc n)
  have i: "unat (y * VGA_WIDTH + x) = unat y * 80 + unat x" "unat (x + 1) = unat x + 1"
    using assms(1) Suc.prems by (simp_all add: cell_index unat_add_no_wrap)
  let ?s = "s\<lparr>terminal_buffer :=
    (terminal_buffer s)[unat y * 80 + unat x := vga_entry 32 (terminal_color s)]\<rparr>"
  have "set_cell (y * VGA_WIDTH + x) (vga_entry 32 (terminal_color s)) s = Some ?s"
    using i(1) assms(1) Suc.prems by (simp add: set_cell_def)
  with Suc.IH [of "x + 1" ?s] Suc.prems i(2) assms(1) show ?case
    by (simp add: blank_range_Suc)
qed

lemma terminal_clear_eq:
  assumes "unat y + n \<le> 25" "length (terminal_buffer s) = 2000"
  shows "terminal_clear n y s = Some (s\<lparr>terminal_buffer :=
    blank_range (vga_entry 32 (terminal_color s)) (unat y * 80) (n * 80) (terminal_buffer s)\<rparr>)"
  using assms
proof (induction n arbitrary: y s)
  case 0
  then show ?case by (simp add: blank_range_def)
next
  case (Suc n)
  have y: "unat (y + 1) = unat y + 1" using Suc.prems(1) by (simp add: unat_add_no_wrap)
  have row: "terminal_clear_row 80 y 0 s = Some (s\<lparr>terminal_buffer :=
      blank_range (vga_entry 32 (terminal_color s)) (unat y * 80) 80 (terminal_buffer s)\<rparr>)" (is "_ = Some ?s")
    using terminal_clear_row_eq [of y 0 80 s] Suc.prems by simp
  have "terminal_clear n (y + 1) ?s = Some (s\<lparr>terminal_buffer :=
      blank_range (vga_entry 32 (terminal_color s)) (unat y * 80 + 80) (n * 80) (terminal_buffer ?s)\<rparr>)"
    using Suc.IH [of "y + 1" ?s] Suc.prems y by (simp add: add.commute)
  with row blank_range_append [of "unat y * 80" 80 "n * 80" "terminal_buffer s"] Suc.prems show ?case
    by simp
qed

lemma terminal_init_spec:
  assumes "length (terminal_buffer s) = 2000"
  shows "\<exists>t. terminal_init s = Some t \<and> console_inv t \<and> cursor t = 0 \<and>
    terminal_buffer t = replicate 2000 0x0720 \<and> serial_sent t = serial_sent s"
proof -
  have "vga_entry 32 (vga_entry_color 7 0) = 0x0720"
    by (simp add: vga_entry_def vga_entry_color_def)
  with assms show ?thesis
    by (simp add: terminal_init_def terminal_clear_eq console_inv_nat cursor_def blank_range_def)
qed



end
