(* ===== verification/Syscall.thy ===== *)
theory Syscall
  imports Module FileSystem Keyboard Console
begin

text \<open>
  System calls and interrupts, kernel/src/kernel/syscall.c and interrupt.c, over the whole kernel
  state: memory, frames, page tables, tasks, modules, open files, keyboard buffer and terminal.
  The saved registers are the words that \<open>common_interrupt_handler\<close> of cpu.s leaves on the kernel
  stack (EDI, ESI, EBP, ESP, EBX, EDX, ECX, EAX, interrupt number, error code, frame of the
  processor). A handler returns the task whose context is to be resumed, or \<open>None\<close> for NULL, with
  the saved registers and the state after it. The ports of the disk and the code of modules are
  arguments, as in \<open>Block\<close> and \<open>Module\<close>. Log output and the acknowledgement of the interrupt
  controller are port writes and left out.
\<close>

section \<open>State\<close>

record 'd kernel = module_state +
  files :: "'d fat_state"
  keys :: kbd
  screen :: console

section \<open>Saved registers\<close>

definition syscall_get_u32_arg :: "u32 list \<Rightarrow> nat \<Rightarrow> u32 option" where
  "syscall_get_u32_arg saved_regs arg_index =
     (if arg_index = 0 then reg saved_regs 4
      else if arg_index = 1 then reg saved_regs 6
      else if arg_index = 2 then reg saved_regs 5
      else if arg_index = 3 then reg saved_regs 1
      else if arg_index = 4 then reg saved_regs 0
      else Some 0)"

definition syscall_set_return_value :: "u32 list \<Rightarrow> u32 \<Rightarrow> u32 list option" where
  "syscall_set_return_value saved_regs v =
     (if 7 < length saved_regs then Some (saved_regs[7 := v]) else None)"

section \<open>User pointers\<close>

partial_function (option) validate_pages :: "u32 \<Rightarrow> u32 \<Rightarrow> 'a machine_scheme \<Rightarrow> bool option" where
  "validate_pages vaddr end_vaddr s =
     (if vaddr \<le> end_vaddr
      then do {
        p \<leftarrow> vmm_get_phys_addr vaddr s;
        if p = 0 then Some False else validate_pages (vaddr + PAGE_SIZE) end_vaddr s
      }
      else Some True)"

definition validate_user_range :: "u32 \<Rightarrow> u32 \<Rightarrow> 'a machine_scheme \<Rightarrow> bool option" where
  "validate_user_range ptr sz s =
     (if ptr = 0 then Some (sz = 0)
      else if sz = 0 then Some True
      else
        let end_vaddr = ptr + sz - 1 in
        if ptr \<ge> KERNEL_VIRT_BASE \<or> end_vaddr \<ge> KERNEL_VIRT_BASE then Some False
        else validate_pages (ptr AND NOT (PAGE_SIZE - 1)) end_vaddr s)"

primrec validate_string_from :: "nat \<Rightarrow> u32 \<Rightarrow> 'a machine_scheme \<Rightarrow> bool option" where
  "validate_string_from 0 vaddr s = Some False"
| "validate_string_from (Suc n) vaddr s = do {
     p \<leftarrow> vmm_get_phys_addr (vaddr AND NOT (PAGE_SIZE - 1)) s;
     if p = 0 then Some False
     else do {
       c \<leftarrow> vload8 vaddr s;
       if c = 0 then Some True
       else if vaddr + 1 \<ge> KERNEL_VIRT_BASE then Some False
       else validate_string_from n (vaddr + 1) s
     }
   }"

definition validate_user_string :: "u32 \<Rightarrow> 'a machine_scheme \<Rightarrow> bool option" where
  "validate_user_string str s =
     (if str = 0 then Some True
      else if str \<ge> KERNEL_VIRT_BASE then Some False
      else validate_string_from 4096 str s)"

primrec validate_array_from :: "nat \<Rightarrow> u32 \<Rightarrow> 'a machine_scheme \<Rightarrow> bool option" where
  "validate_array_from 0 ptrs s = Some False"
| "validate_array_from (Suc n) ptrs s =
     (if ptrs \<ge> KERNEL_VIRT_BASE then Some False
      else do {
        ok \<leftarrow> validate_user_range ptrs 4 s;
        if \<not> ok then Some False
        else do {
          p \<leftarrow> vload32 ptrs s;
          if p = 0 then Some True
          else do {
            ok2 \<leftarrow> validate_user_string p s;
            if \<not> ok2 then Some False else validate_array_from n (ptrs + 4) s
          }
        }
      })"

definition validate_user_pointer_array :: "u32 \<Rightarrow> 'a machine_scheme \<Rightarrow> bool option" where
  "validate_user_pointer_array ptrs s =
     (if ptrs = 0 then Some True
      else if ptrs \<ge> KERNEL_VIRT_BASE then Some False
      else validate_array_from 32 ptrs s)"

text \<open>
  Bytes that kernel code reads through a user pointer: all of them, as far as they are mapped, or
  up to a terminator.
\<close>

primrec load_bytes :: "u32 \<Rightarrow> nat \<Rightarrow> 'a machine_scheme \<Rightarrow> u8 list option" where
  "load_bytes p 0 s = Some []"
| "load_bytes p (Suc n) s = do { b \<leftarrow> vload8 p s; bs \<leftarrow> load_bytes (p + 1) n s; Some (b # bs) }"

primrec readable_bytes :: "u32 \<Rightarrow> nat \<Rightarrow> 'a machine_scheme \<Rightarrow> u8 list" where
  "readable_bytes p 0 s = []"
| "readable_bytes p (Suc n) s =
     (case vload8 p s of None \<Rightarrow> [] | Some b \<Rightarrow> b # readable_bytes (p + 1) n s)"

partial_function (option) load_cstring :: "u32 \<Rightarrow> 'a machine_scheme \<Rightarrow> u8 list option" where
  "load_cstring p s = do {
     c \<leftarrow> vload8 p s;
     if c = 0 then Some [] else do { cs \<leftarrow> load_cstring (p + 1) s; Some (c # cs) }
   }"

section \<open>Output, files, keyboard\<close>

definition sys_write ::
  "int \<Rightarrow> u32 \<Rightarrow> u32 \<Rightarrow> ('d, 'a) kernel_scheme \<Rightarrow> (int \<times> ('d, 'a) kernel_scheme) option" where
  "sys_write fd buf len s =
     (if buf = 0 \<or> len = 0 then Some (- 1, s)
      else do {
        ok \<leftarrow> validate_user_range buf len s;
        if \<not> ok then Some (- 1, s)
        else if fd = 1
        then do {
          bs \<leftarrow> load_bytes buf (unat len) s;
          Some (sint len, s\<lparr>screen := terminal_write (map (\<lambda>b. char_of (unat b)) bs) (screen s)\<rparr>)
        }
        else if fd = 2
        then do {
          bs \<leftarrow> load_bytes buf (unat len) s;
          Some (sint len, s\<lparr>screen := fold (\<lambda>b. serial_write [char_of (unat b), CHR 0x00]) bs (screen s)\<rparr>)
        }
        else Some (- 1, s)
      })"

definition user_path :: "u32 \<Rightarrow> 'a machine_scheme \<Rightarrow> u8 list option option" where
  "user_path path s = (if path = 0 then Some None else map_option Some (load_cstring path s))"

definition open_path ::
  "'d ports \<Rightarrow> u32 \<Rightarrow> ('d, 'a) kernel_scheme \<Rightarrow> (int \<times> ('d, 'a) kernel_scheme) option" where
  "open_path hw path s = do {
     p \<leftarrow> user_path path s;
     (r, f) \<leftarrow> fat16_open hw 0 p (files s);
     Some (r, s\<lparr>files := f\<rparr>)
   }"

definition sys_open ::
  "'d ports \<Rightarrow> u32 \<Rightarrow> ('d, 'a) kernel_scheme \<Rightarrow> (int \<times> ('d, 'a) kernel_scheme) option" where
  "sys_open hw path s =
     (if path = 0 then Some (- 1, s)
      else do {
        ok \<leftarrow> validate_user_string path s;
        if \<not> ok then Some (- 1, s) else open_path hw path s
      })"

text \<open>
  \<open>fat16_read\<close> into a buffer in virtual memory: the bytes it copies are the first ones of the
  buffer, as many as the position of the file has moved, also when it ends with an error.
\<close>

definition bytes_moved :: "int \<Rightarrow> 'd fat_state \<Rightarrow> 'd fat_state \<Rightarrow> nat" where
  "bytes_moved fd f f1 =
     (case fd_index fd of
        None \<Rightarrow> 0
      | Some i \<Rightarrow> unat (position (fat16_files f1 ! i) - position (fat16_files f ! i)))"

definition sys_read_file ::
  "'d ports \<Rightarrow> int \<Rightarrow> u32 \<Rightarrow> u32 \<Rightarrow> ('d, 'a) kernel_scheme \<Rightarrow> (int \<times> ('d, 'a) kernel_scheme) option" where
  "sys_read_file hw fd buffer count s =
     (if buffer = 0 \<or> count = 0 then Some (- 1, s)
      else do {
        ok \<leftarrow> validate_user_range buffer count s;
        if \<not> ok then Some (- 1, s)
        else do {
          (r, buf, f) \<leftarrow> fat16_read hw fd (Some (replicate (unat count) 0)) count (files s);
          s1 \<leftarrow> store_bytes buffer (take (bytes_moved fd (files s) f) (case buf of None \<Rightarrow> [] | Some b \<Rightarrow> b)) s;
          Some (r, s1\<lparr>files := f\<rparr>)
        }
      })"

text \<open>\<open>fat16_write\<close> from a buffer in virtual memory: a byte that is not mapped is a fault when it is read.\<close>

definition sys_write_file ::
  "'d ports \<Rightarrow> int \<Rightarrow> u32 \<Rightarrow> u32 \<Rightarrow> ('d, 'a) kernel_scheme \<Rightarrow> (int \<times> ('d, 'a) kernel_scheme) option" where
  "sys_write_file hw fd buffer count s =
     (if buffer = 0 \<or> count = 0 then Some (- 1, s)
      else do {
        ok \<leftarrow> validate_user_range buffer count s;
        if \<not> ok then Some (- 1, s)
        else do {
          (r, f) \<leftarrow> fat16_write hw fd (Some (readable_bytes buffer (unat count) s)) count (files s);
          Some (r, s\<lparr>files := f\<rparr>)
        }
      })"

definition sys_close ::
  "'d ports \<Rightarrow> int \<Rightarrow> ('d, 'a) kernel_scheme \<Rightarrow> (int \<times> ('d, 'a) kernel_scheme) option" where
  "sys_close hw fd s = do { (r, f) \<leftarrow> fat16_close hw fd (files s); Some (r, s\<lparr>files := f\<rparr>) }"

text \<open>
  The loop of \<open>sys_read\<close>. System calls run behind an interrupt gate (idt.c), so no keyboard
  interrupt arrives inside it: the buffer changes only by what the loop does.
\<close>

partial_function (option) wait_for_key :: "('d, 'a) kernel_scheme \<Rightarrow> ('d, 'a) kernel_scheme option" where
  "wait_for_key s =
     (if keyboard_has_event (keys s) then Some s
      else case current_task s of
        None \<Rightarrow> wait_for_key s
      | Some t \<Rightarrow> wait_for_key (snd (task_schedule (set_task t (\<lambda>k. k\<lparr>tstate := TASK_WAITING\<rparr>) s))))"

definition sys_read :: "int \<Rightarrow> ('d, 'a) kernel_scheme \<Rightarrow> (int \<times> ('d, 'a) kernel_scheme) option" where
  "sys_read fd s =
     (if fd \<noteq> 0 then Some (- 1, s)
      else do {
        s1 \<leftarrow> wait_for_key s;
        (c, k) \<leftarrow> keyboard_get_event (keys s1);
        Some (sint c, s1\<lparr>keys := k\<rparr>)
      })"

definition sys_load_module ::
  "('d, 'a) kernel_scheme module_code \<Rightarrow> u32 \<Rightarrow> u32 \<Rightarrow> ('d, 'a) kernel_scheme
    \<Rightarrow> (int \<times> ('d, 'a) kernel_scheme) option" where
  "sys_load_module call elf_data elf_size s =
     (if elf_data = 0 \<or> elf_size = 0 then Some (- 1, s)
      else module_load call (Some (readable_bytes elf_data (unat elf_size) s)) elf_size s)"

definition sys_unload_module ::
  "('d, 'a) kernel_scheme module_code \<Rightarrow> u32 \<Rightarrow> ('d, 'a) kernel_scheme
    \<Rightarrow> (int \<times> ('d, 'a) kernel_scheme) option" where
  "sys_unload_module call name s =
     (if name = 0 then Some (- 1, s) else module_unload call (Some (in_memory s name)) s)"

section \<open>Memory and time\<close>

text \<open>The pages that the failing call has added to the heap are given back.\<close>

primrec undo_heap_pages :: "nat \<Rightarrow> nat \<Rightarrow> u32 \<Rightarrow> 'a task_state_scheme \<Rightarrow> 'a task_state_scheme option" where
  "undo_heap_pages t 0 j s = Some s"
| "undo_heap_pages t (Suc n) j s = do {
     let k = task_table s t;
     let slot = user_heap_frame_count k + j;
     s1 \<leftarrow> vmm_unmap_page_for_pdt (page_directory_phys k) (user_heap_start k + slot * PAGE_SIZE) s;
     frame \<leftarrow> frame_at (user_heap_frames k) slot;
     s2 \<leftarrow> pmm_free_frame frame s1;
     undo_heap_pages t n (j + 1)
       (set_task t (\<lambda>k. k\<lparr>user_heap_frames := (user_heap_frames k)[unat slot := 0]\<rparr>) s2)
   }"

primrec add_heap_pages ::
  "nat \<Rightarrow> nat \<Rightarrow> u32 \<Rightarrow> 'a task_state_scheme \<Rightarrow> (bool \<times> 'a task_state_scheme) option" where
  "add_heap_pages t 0 i s = Some (True, s)"
| "add_heap_pages t (Suc n) i s = do {
     (frame, s1) \<leftarrow> pmm_alloc_frame s;
     if frame = 0
     then do { s2 \<leftarrow> undo_heap_pages t (unat i) 0 s1; Some (False, s2) }
     else do {
       let k = task_table s1 t;
       let slot = user_heap_frame_count k + i;
       old \<leftarrow> frame_at (user_heap_frames k) slot;
       let s2 = set_task t (\<lambda>k. k\<lparr>user_heap_frames := (user_heap_frames k)[unat slot := frame]\<rparr>) s1;
       s3 \<leftarrow> vmm_map_page_for_pdt (page_directory_phys k) (user_heap_start k + slot * PAGE_SIZE) frame
         (PAGE_PRESENT OR PAGE_WRITE OR PAGE_USER) s2;
       add_heap_pages t n (i + 1) s3
     }
   }"

definition sys_alloc :: "u32 \<Rightarrow> 'a task_state_scheme \<Rightarrow> (u32 \<times> 'a task_state_scheme) option" where
  "sys_alloc sz s =
     (if sz = 0 then Some (0, s)
      else case task_get_current s of
        None \<Rightarrow> Some (0, s)
      | Some t \<Rightarrow>
          if ttype (task_table s t) \<noteq> TASK_TYPE_USER_PROCESS then Some (0, s)
          else
            let pages_needed = ((sz + PAGE_SIZE - 1) AND NOT (PAGE_SIZE - 1)) div PAGE_SIZE;
                k = task_table s t in
            if pages_needed = 0 \<or> user_heap_frame_count k + pages_needed > of_nat MAX_USER_HEAP_PAGES
            then Some (0, s)
            else do {
              (ok, s1) \<leftarrow> add_heap_pages t (unat pages_needed) 0 s;
              if \<not> ok then Some (0, s1)
              else Some (user_heap_start k + user_heap_size k,
                set_task t (\<lambda>k. k\<lparr>user_heap_frame_count := user_heap_frame_count k + pages_needed,
                  user_heap_size := user_heap_size k + pages_needed * PAGE_SIZE\<rparr>) s1)
            })"

definition sys_sleep :: "u32 \<Rightarrow> 'a task_state_scheme \<Rightarrow> int \<times> 'a task_state_scheme" where
  "sys_sleep ms s =
     (if ms = 0 then (0, s)
      else
        let delay_ticks = (ms + 9) div 10 in
        case task_get_current s of
          None \<Rightarrow> (- 1, s)
        | Some t \<Rightarrow>
            (0, set_task t (\<lambda>k. k\<lparr>wake_tick := timer_get_ticks s + (if delay_ticks = 0 then 1 else delay_ticks),
                  tstate := TASK_WAITING\<rparr>) s))"

section \<open>Processes\<close>

text \<open>One page copied through the two temporary mappings.\<close>

definition copy_page :: "u32 \<Rightarrow> u32 \<Rightarrow> 'a pmm_state_scheme \<Rightarrow> 'a pmm_state_scheme option" where
  "copy_page src_frame dst_frame s = do {
     s1 \<leftarrow> vmm_map_kernel_page VMM_TEMP_PAGE src_frame s;
     s2 \<leftarrow> vmm_map_kernel_page (VMM_TEMP_PAGE - PAGE_SIZE) dst_frame s1;
     s3 \<leftarrow> memcpy (VMM_TEMP_PAGE - PAGE_SIZE) VMM_TEMP_PAGE (unat PAGE_SIZE) s2;
     s4 \<leftarrow> vmm_unmap_page VMM_TEMP_PAGE s3;
     vmm_unmap_page (VMM_TEMP_PAGE - PAGE_SIZE) s4
   }"

text \<open>The clean-up loops: frames of the child, with or without their mappings.\<close>

primrec free_child_code :: "nat \<Rightarrow> nat \<Rightarrow> u32 \<Rightarrow> 'a task_state_scheme \<Rightarrow> 'a task_state_scheme option" where
  "free_child_code c 0 j s = Some s"
| "free_child_code c (Suc n) j s = do {
     frame \<leftarrow> frame_at (user_code_frames (task_table s c)) j;
     s1 \<leftarrow> pmm_free_frame frame s;
     free_child_code c n (j + 1) s1
   }"

primrec unmap_child_code :: "nat \<Rightarrow> u32 \<Rightarrow> nat \<Rightarrow> u32 \<Rightarrow> 'a task_state_scheme \<Rightarrow> 'a task_state_scheme option" where
  "unmap_child_code c child_pdt 0 i s = Some s"
| "unmap_child_code c child_pdt (Suc n) i s = do {
     s1 \<leftarrow> vmm_unmap_page_for_pdt child_pdt (0x00400000 + i * PAGE_SIZE) s;
     frame \<leftarrow> frame_at (user_code_frames (task_table s1 c)) i;
     s2 \<leftarrow> pmm_free_frame frame s1;
     unmap_child_code c child_pdt n (i + 1) s2
   }"

primrec unmap_child_heap ::
  "nat \<Rightarrow> nat \<Rightarrow> u32 \<Rightarrow> nat \<Rightarrow> u32 \<Rightarrow> 'a task_state_scheme \<Rightarrow> 'a task_state_scheme option" where
  "unmap_child_heap p c child_pdt 0 i s = Some s"
| "unmap_child_heap p c child_pdt (Suc n) i s = do {
     s1 \<leftarrow> vmm_unmap_page_for_pdt child_pdt (user_heap_start (task_table s p) + i * PAGE_SIZE) s;
     frame \<leftarrow> frame_at (user_heap_frames (task_table s1 c)) i;
     s2 \<leftarrow> pmm_free_frame frame s1;
     unmap_child_heap p c child_pdt n (i + 1) s2
   }"

primrec fork_code ::
  "nat \<Rightarrow> nat \<Rightarrow> u32 \<Rightarrow> nat \<Rightarrow> u32 \<Rightarrow> 'a task_state_scheme \<Rightarrow> (bool \<times> 'a task_state_scheme) option" where
  "fork_code p c child_pdt 0 i s = Some (True, s)"
| "fork_code p c child_pdt (Suc n) i s = do {
     (new_frame, s1) \<leftarrow> pmm_alloc_frame s;
     if new_frame = 0
     then do { s2 \<leftarrow> free_child_code c (unat i) 0 s1; Some (False, s2) }
     else do {
       old \<leftarrow> frame_at (user_code_frames (task_table s1 c)) i;
       let s2 = set_task c (\<lambda>k. k\<lparr>user_code_frames := (user_code_frames k)[unat i := new_frame]\<rparr>) s1;
       src \<leftarrow> frame_at (user_code_frames (task_table s2 p)) i;
       s3 \<leftarrow> copy_page src new_frame s2;
       s4 \<leftarrow> vmm_map_page_for_pdt child_pdt (0x00400000 + i * PAGE_SIZE) new_frame
         (PAGE_PRESENT OR PAGE_USER) s3;
       fork_code p c child_pdt n (i + 1) s4
     }
   }"

primrec fork_heap ::
  "nat \<Rightarrow> nat \<Rightarrow> u32 \<Rightarrow> nat \<Rightarrow> u32 \<Rightarrow> 'a task_state_scheme \<Rightarrow> (bool \<times> 'a task_state_scheme) option" where
  "fork_heap p c child_pdt 0 i s = Some (True, s)"
| "fork_heap p c child_pdt (Suc n) i s = do {
     (new_frame, s1) \<leftarrow> pmm_alloc_frame s;
     if new_frame = 0
     then do {
       s2 \<leftarrow> free_child_code c (unat (user_code_frame_count (task_table s1 p))) 0 s1;
       s3 \<leftarrow> unmap_child_heap p c child_pdt (unat i) 0 s2;
       s4 \<leftarrow> pmm_free_frame (user_stack_paddr (task_table s3 c)) s3;
       Some (False, s4)
     }
     else do {
       old \<leftarrow> frame_at (user_heap_frames (task_table s1 c)) i;
       let s2 = set_task c (\<lambda>k. k\<lparr>user_heap_frames := (user_heap_frames k)[unat i := new_frame]\<rparr>) s1;
       src \<leftarrow> frame_at (user_heap_frames (task_table s2 p)) i;
       s3 \<leftarrow> copy_page src new_frame s2;
       s4 \<leftarrow> vmm_map_page_for_pdt child_pdt (user_heap_start (task_table s3 p) + i * PAGE_SIZE) new_frame
         (PAGE_PRESENT OR PAGE_WRITE OR PAGE_USER) s3;
       fork_heap p c child_pdt n (i + 1) s4
     }
   }"

definition fork_failed :: "nat \<Rightarrow> 'a task_state_scheme \<Rightarrow> u32 \<times> 'a task_state_scheme" where
  "fork_failed c s = (- 1, set_task c (\<lambda>k. k\<lparr>tstate := TASK_UNUSED\<rparr>) s)"

text \<open>The last part of \<open>sys_fork\<close>: type, family, context, ready list.\<close>

definition fork_finish :: "nat \<Rightarrow> nat \<Rightarrow> 'a task_state_scheme \<Rightarrow> u32 \<times> 'a task_state_scheme" where
  "fork_finish p c s = (
     let par = task_table s p;
         s1 = set_task c (\<lambda>k. k\<lparr>ttype := TASK_TYPE_USER_PROCESS, user_stack_top := user_stack_top par,
                user_stack_size := user_stack_size par, user_code_paddr := user_code_paddr par,
                tstate := TASK_READY, ticks := 0, quantum := TASK_QUANTUM_DEFAULT,
                parent_pid := pid par, parent := Some p\<rparr>) s;
         s2 = task_add_child (Some p) (Some c) s1;
         s3 = set_task c (\<lambda>k. k\<lparr>ctx := (ctx (task_table s2 p))\<lparr>eax := 0\<rparr>\<rparr>) s2;
         s4 = task_enqueue c s3 in
     (pid (task_table s4 c), s4))"

definition fork_stack_and_heap ::
  "nat \<Rightarrow> nat \<Rightarrow> u32 \<Rightarrow> 'a task_state_scheme \<Rightarrow> (u32 \<times> 'a task_state_scheme) option" where
  "fork_stack_and_heap p c child_pdt s = do {
     (stack_frame, s1) \<leftarrow> pmm_alloc_frame s;
     if stack_frame = 0
     then do {
       s2 \<leftarrow> unmap_child_code c child_pdt (unat (user_code_frame_count (task_table s1 c))) 0 s1;
       s3 \<leftarrow> unmap_child_heap p c child_pdt (unat (user_heap_frame_count (task_table s2 c))) 0 s2;
       Some (fork_failed c s3)
     }
     else do {
       let s2 = set_task c (\<lambda>k. k\<lparr>user_stack_paddr := stack_frame\<rparr>) s1;
       s3 \<leftarrow> copy_page (user_stack_paddr (task_table s2 p)) stack_frame s2;
       s4 \<leftarrow> vmm_map_page_for_pdt child_pdt (user_stack_top (task_table s3 p) - PAGE_SIZE) stack_frame
         (PAGE_PRESENT OR PAGE_WRITE OR PAGE_USER) s3;
       let par = task_table s4 p;
       let s5 = set_task c (\<lambda>k. k\<lparr>user_heap_start := user_heap_start par, user_heap_size := user_heap_size par,
                  user_heap_frame_count := user_heap_frame_count par\<rparr>) s4;
       (ok, s6) \<leftarrow> fork_heap p c child_pdt (unat (user_heap_frame_count par)) 0 s5;
       if \<not> ok then Some (fork_failed c s6) else Some (fork_finish p c s6)
     }
   }"

definition sys_fork :: "'a task_state_scheme \<Rightarrow> (u32 \<times> 'a task_state_scheme) option" where
  "sys_fork s =
     (case task_get_current s of
        None \<Rightarrow> Some (- 1, s)
      | Some p \<Rightarrow>
          if ttype (task_table s p) \<noteq> TASK_TYPE_USER_PROCESS then Some (- 1, s)
          else (case task_alloc s of
            (None, s1) \<Rightarrow> Some (- 1, s1)
          | (Some c, s1) \<Rightarrow> do {
              (child_pdt, s2) \<leftarrow> vmm_clone_kernel_mappings s1;
              if child_pdt = 0 then Some (fork_failed c s2)
              else do {
                let n = user_code_frame_count (task_table s2 p);
                let s3 = set_task c (\<lambda>k. k\<lparr>page_directory_phys := child_pdt, user_code_frame_count := n\<rparr>) s2;
                (ok, s4) \<leftarrow> fork_code p c child_pdt (unat n) 0 s3;
                if \<not> ok then Some (fork_failed c s4) else fork_stack_and_heap p c child_pdt s4
              }
            }))"

text \<open>The local \<open>buffer\<close> of 16 KiB; the image is the part that was read.\<close>

definition read_image ::
  "'d ports \<Rightarrow> int \<Rightarrow> ('d, 'a) kernel_scheme \<Rightarrow> (int \<times> u8 list \<times> ('d, 'a) kernel_scheme) option" where
  "read_image hw fd s = do {
     (r, buf, f1) \<leftarrow> fat16_read hw fd (Some (replicate 16384 0)) 16384 (files s);
     (rc, f2) \<leftarrow> fat16_close hw fd f1;
     Some (r, take (nat r) (case buf of None \<Rightarrow> [] | Some b \<Rightarrow> b), s\<lparr>files := f2\<rparr>)
   }"

definition sys_exec ::
  "'d ports \<Rightarrow> u32 \<Rightarrow> u32 \<Rightarrow> u32 \<Rightarrow> ('d, 'a) kernel_scheme \<Rightarrow> (int \<times> ('d, 'a) kernel_scheme) option" where
  "sys_exec hw path argv envp s = do {
     ok1 \<leftarrow> validate_user_string path s;
     if \<not> ok1 then Some (- 1, s)
     else do {
       ok2 \<leftarrow> validate_user_pointer_array argv s;
       if \<not> ok2 then Some (- 1, s)
       else do {
         ok3 \<leftarrow> validate_user_pointer_array envp s;
         if \<not> ok3 then Some (- 1, s)
         else case task_get_current s of
           None \<Rightarrow> Some (- 1, s)
         | Some t \<Rightarrow>
             if ttype (task_table s t) \<noteq> TASK_TYPE_USER_PROCESS then Some (- 1, s)
             else do {
               (fd, s1) \<leftarrow> open_path hw path s;
               if fd < 0 then Some (- 1, s1)
               else do {
                 (r, image, s2) \<leftarrow> read_image hw fd s1;
                 if r \<le> 0 then Some (- 1, s2)
                 else do {
                   (rc, s3) \<leftarrow> task_replace_process_image t (Some image) (of_int r) argv envp s2;
                   if rc \<noteq> 0 then Some (- 1, s3) else Some (0, s3)
                 }
               }
             }
       }
     }
   }"

text \<open>A zombie is taken apart: memory, page tables, stack, family, entry of the table.\<close>

definition reap :: "nat \<Rightarrow> u32 \<Rightarrow> 'a task_state_scheme \<Rightarrow> (u32 \<times> 'a task_state_scheme) option" where
  "reap c status s = do {
     s1 \<leftarrow> vstore32 status (exit_status (task_table s c)) s;
     let child_pid = pid (task_table s1 c);
     s2 \<leftarrow> task_cleanup_user_resources c s1;
     let pdt = page_directory_phys (task_table s2 c);
     s3 \<leftarrow> (if pdt \<noteq> 0 \<and> pdt \<noteq> vmm_get_kernel_pdt_phys s2
           then do {
             u \<leftarrow> vmm_free_page_directory pdt s2;
             Some (set_task c (\<lambda>k. k\<lparr>page_directory_phys := vmm_get_kernel_pdt_phys u\<rparr>) u)
           }
           else Some s2);
     s4 \<leftarrow> task_remove_child c (task_free_stack c s3);
     Some (child_pid, set_task c (\<lambda>k. k\<lparr>ttype := TASK_TYPE_KERNEL, parent := None, parent_pid := 0,
       next_sibling := None, waiting_for_pid := - 1, waiting_status := 0, tstate := TASK_UNUSED\<rparr>) s4)
   }"

definition sys_wait :: "u32 \<Rightarrow> u32 \<Rightarrow> 'a task_state_scheme \<Rightarrow> (u32 \<times> 'a task_state_scheme) option" where
  "sys_wait p status s = do {
     ok \<leftarrow> validate_user_range status 4 s;
     if \<not> ok then Some (- 1, s)
     else case task_get_current s of
       None \<Rightarrow> Some (- 1, s)
     | Some t \<Rightarrow>
         if ttype (task_table s t) \<noteq> TASK_TYPE_USER_PROCESS then Some (- 1, s)
         else do {
           child \<leftarrow> task_find_child t p s;
           case child of
             None \<Rightarrow> Some (- 1, s)
           | Some c \<Rightarrow>
               if tstate (task_table s c) = TASK_ZOMBIE then reap c status s
               else Some (0, set_task t (\<lambda>k. k\<lparr>waiting_for_pid := p, waiting_status := status,
                 tstate := TASK_WAITING\<rparr>) s)
         }
   }"

section \<open>Handlers\<close>

type_synonym ('d, 'a) handled = "(nat option \<times> u32 list \<times> ('d, 'a) kernel_scheme) option"

text \<open>The end that most handlers share: the result goes to EAX, no task switch.\<close>

definition return_value :: "u32 list \<Rightarrow> u32 \<Rightarrow> ('d, 'a) kernel_scheme \<Rightarrow> ('d, 'a) handled" where
  "return_value saved_regs v s = do {
     rs \<leftarrow> syscall_set_return_value saved_regs v;
     Some (None, rs, s)
   }"

definition syscall_handle_write :: "u32 list \<Rightarrow> ('d, 'a) kernel_scheme \<Rightarrow> ('d, 'a) handled" where
  "syscall_handle_write saved_regs s = do {
     fd \<leftarrow> syscall_get_u32_arg saved_regs 0;
     buf \<leftarrow> syscall_get_u32_arg saved_regs 1;
     len \<leftarrow> syscall_get_u32_arg saved_regs 2;
     (r, s1) \<leftarrow> sys_write (sint fd) buf len s;
     return_value saved_regs (of_int r) s1
   }"

definition sys_exit :: "u32 \<Rightarrow> 'a task_state_scheme \<Rightarrow> 'a task_state_scheme option" where
  "sys_exit status s = task_terminate status s"

definition syscall_handle_exit :: "u32 list \<Rightarrow> ('d, 'a) kernel_scheme \<Rightarrow> ('d, 'a) handled" where
  "syscall_handle_exit saved_regs s = do {
     status \<leftarrow> syscall_get_u32_arg saved_regs 0;
     s1 \<leftarrow> sys_exit status s;
     let (ctxt, s2) = task_schedule s1;
     Some (ctxt, saved_regs, s2)
   }"

definition syscall_handle_alloc :: "u32 list \<Rightarrow> ('d, 'a) kernel_scheme \<Rightarrow> ('d, 'a) handled" where
  "syscall_handle_alloc saved_regs s = do {
     sz \<leftarrow> syscall_get_u32_arg saved_regs 0;
     (r, s1) \<leftarrow> sys_alloc sz s;
     return_value saved_regs r s1
   }"

definition syscall_handle_sleep :: "u32 list \<Rightarrow> ('d, 'a) kernel_scheme \<Rightarrow> ('d, 'a) handled" where
  "syscall_handle_sleep saved_regs s = do {
     ms \<leftarrow> syscall_get_u32_arg saved_regs 0;
     let (r, s1) = sys_sleep ms s;
     rs \<leftarrow> syscall_set_return_value saved_regs (of_int r);
     let (ctxt, s2) = task_schedule s1;
     Some (ctxt, rs, s2)
   }"

definition syscall_handle_read :: "u32 list \<Rightarrow> ('d, 'a) kernel_scheme \<Rightarrow> ('d, 'a) handled" where
  "syscall_handle_read saved_regs s = do {
     fd \<leftarrow> syscall_get_u32_arg saved_regs 0;
     (r, s1) \<leftarrow> sys_read (sint fd) s;
     return_value saved_regs (of_int r) s1
   }"

definition syscall_handle_open :: "'d ports \<Rightarrow> u32 list \<Rightarrow> ('d, 'a) kernel_scheme \<Rightarrow> ('d, 'a) handled" where
  "syscall_handle_open hw saved_regs s = do {
     path \<leftarrow> syscall_get_u32_arg saved_regs 0;
     (r, s1) \<leftarrow> sys_open hw path s;
     return_value saved_regs (of_int r) s1
   }"

definition syscall_handle_read_file :: "'d ports \<Rightarrow> u32 list \<Rightarrow> ('d, 'a) kernel_scheme \<Rightarrow> ('d, 'a) handled" where
  "syscall_handle_read_file hw saved_regs s = do {
     fd \<leftarrow> syscall_get_u32_arg saved_regs 0;
     buffer \<leftarrow> syscall_get_u32_arg saved_regs 1;
     count \<leftarrow> syscall_get_u32_arg saved_regs 2;
     (r, s1) \<leftarrow> sys_read_file hw (sint fd) buffer count s;
     return_value saved_regs (of_int r) s1
   }"

definition syscall_handle_write_file :: "'d ports \<Rightarrow> u32 list \<Rightarrow> ('d, 'a) kernel_scheme \<Rightarrow> ('d, 'a) handled" where
  "syscall_handle_write_file hw saved_regs s = do {
     fd \<leftarrow> syscall_get_u32_arg saved_regs 0;
     buffer \<leftarrow> syscall_get_u32_arg saved_regs 1;
     count \<leftarrow> syscall_get_u32_arg saved_regs 2;
     (r, s1) \<leftarrow> sys_write_file hw (sint fd) buffer count s;
     return_value saved_regs (of_int r) s1
   }"

definition syscall_handle_close :: "'d ports \<Rightarrow> u32 list \<Rightarrow> ('d, 'a) kernel_scheme \<Rightarrow> ('d, 'a) handled" where
  "syscall_handle_close hw saved_regs s = do {
     fd \<leftarrow> syscall_get_u32_arg saved_regs 0;
     (r, s1) \<leftarrow> sys_close hw (sint fd) s;
     return_value saved_regs (of_int r) s1
   }"

definition sys_yield :: int where
  "sys_yield = 0"

definition syscall_handle_yield :: "u32 list \<Rightarrow> ('d, 'a) kernel_scheme \<Rightarrow> ('d, 'a) handled" where
  "syscall_handle_yield saved_regs s = do {
     rs \<leftarrow> syscall_set_return_value saved_regs (of_int sys_yield);
     let (ctxt, s1) = task_yield s;
     Some (ctxt, rs, s1)
   }"

definition syscall_handle_load_module ::
  "('d, 'a) kernel_scheme module_code \<Rightarrow> u32 list \<Rightarrow> ('d, 'a) kernel_scheme \<Rightarrow> ('d, 'a) handled" where
  "syscall_handle_load_module call saved_regs s = do {
     elf_data \<leftarrow> syscall_get_u32_arg saved_regs 0;
     elf_size \<leftarrow> syscall_get_u32_arg saved_regs 1;
     (r, s1) \<leftarrow> sys_load_module call elf_data elf_size s;
     return_value saved_regs (of_int r) s1
   }"

definition syscall_handle_unload_module ::
  "('d, 'a) kernel_scheme module_code \<Rightarrow> u32 list \<Rightarrow> ('d, 'a) kernel_scheme \<Rightarrow> ('d, 'a) handled" where
  "syscall_handle_unload_module call saved_regs s = do {
     name \<leftarrow> syscall_get_u32_arg saved_regs 0;
     (r, s1) \<leftarrow> sys_unload_module call name s;
     return_value saved_regs (of_int r) s1
   }"

definition syscall_handle_fork :: "u32 list \<Rightarrow> ('d, 'a) kernel_scheme \<Rightarrow> ('d, 'a) handled" where
  "syscall_handle_fork saved_regs s = do {
     (r, s1) \<leftarrow> sys_fork s;
     return_value saved_regs r s1
   }"

definition syscall_handle_exec :: "'d ports \<Rightarrow> u32 list \<Rightarrow> ('d, 'a) kernel_scheme \<Rightarrow> ('d, 'a) handled" where
  "syscall_handle_exec hw saved_regs s = do {
     path \<leftarrow> syscall_get_u32_arg saved_regs 0;
     argv \<leftarrow> syscall_get_u32_arg saved_regs 1;
     envp \<leftarrow> syscall_get_u32_arg saved_regs 2;
     (r, s1) \<leftarrow> sys_exec hw path argv envp s;
     return_value saved_regs (of_int r) s1
   }"

definition syscall_handle_wait :: "u32 list \<Rightarrow> ('d, 'a) kernel_scheme \<Rightarrow> ('d, 'a) handled" where
  "syscall_handle_wait saved_regs s = do {
     p \<leftarrow> syscall_get_u32_arg saved_regs 0;
     status \<leftarrow> syscall_get_u32_arg saved_regs 1;
     (r, s1) \<leftarrow> sys_wait p status s;
     return_value saved_regs r s1
   }"

definition syscall_dispatch ::
  "'d ports \<Rightarrow> ('d, 'a) kernel_scheme module_code \<Rightarrow> u32 \<Rightarrow> u32 list \<Rightarrow> ('d, 'a) kernel_scheme
    \<Rightarrow> ('d, 'a) handled" where
  "syscall_dispatch hw call interrupt saved_regs s =
     (if interrupt \<noteq> 128 then Some (None, saved_regs, s)
      else do {
        call_number \<leftarrow> reg saved_regs 7;
        if call_number = 1 then syscall_handle_write saved_regs s
        else if call_number = 2 then syscall_handle_exit saved_regs s
        else if call_number = 6 then syscall_handle_alloc saved_regs s
        else if call_number = 7 then syscall_handle_sleep saved_regs s
        else if call_number = 8 then syscall_handle_read saved_regs s
        else if call_number = 10 then syscall_handle_open hw saved_regs s
        else if call_number = 11 then syscall_handle_read_file hw saved_regs s
        else if call_number = 13 then syscall_handle_write_file hw saved_regs s
        else if call_number = 12 then syscall_handle_close hw saved_regs s
        else if call_number = 9 then syscall_handle_yield saved_regs s
        else if call_number = 14 then syscall_handle_load_module call saved_regs s
        else if call_number = 15 then syscall_handle_unload_module call saved_regs s
        else if call_number = 3 then syscall_handle_fork saved_regs s
        else if call_number = 4 then syscall_handle_exec hw saved_regs s
        else if call_number = 5 then syscall_handle_wait saved_regs s
        else return_value saved_regs (- 1) s
      })"

section \<open>Interrupts\<close>

text \<open>
  \<open>interrupt_handler\<close>; \<open>scan_code\<close> is the byte that the keyboard controller delivers. A processor
  exception other than a page fault in user code ends in the endless loop of \<open>dump_registers\<close>.
\<close>

definition interrupt_handler ::
  "'d ports \<Rightarrow> ('d, 'a) kernel_scheme module_code \<Rightarrow> u8 \<Rightarrow> u32 list \<Rightarrow> ('d, 'a) kernel_scheme
    \<Rightarrow> ('d, 'a) handled" where
  "interrupt_handler hw call scan_code saved_regs s = do {
     interrupt \<leftarrow> reg saved_regs 8;
     code_seg \<leftarrow> reg saved_regs 11;
     flags \<leftarrow> reg saved_regs 12;
     if interrupt < 32
     then
       if interrupt = 14 \<and> code_seg = USER_CODE_SEG
       then do {
         s1 \<leftarrow> task_terminate 14 s;
         let (ctxt, s2) = task_schedule s1;
         Some (ctxt, saved_regs, s2)
       }
       else None
     else if interrupt = 128 then syscall_dispatch hw call interrupt saved_regs s
     else if interrupt = 32
     then (let (ctxt, s1) = task_tick (timer_handle_interrupt s) in Some (ctxt, saved_regs, s1))
     else if interrupt = 33
     then do {
       k \<leftarrow> keyboard_handle_interrupt scan_code (keys s);
       Some (None, saved_regs, s\<lparr>keys := k\<rparr>)
     }
     else Some (None, saved_regs, s)
   }"

text \<open>\<open>common_interrupt_handler\<close>: the context of the current task is saved first.\<close>

definition interrupt_entry ::
  "'d ports \<Rightarrow> ('d, 'a) kernel_scheme module_code \<Rightarrow> u8 \<Rightarrow> u32 list \<Rightarrow> ('d, 'a) kernel_scheme
    \<Rightarrow> ('d, 'a) handled" where
  "interrupt_entry hw call scan_code saved_regs s = do {
     s1 \<leftarrow> task_save_current_context (Some saved_regs) s;
     interrupt_handler hw call scan_code saved_regs s1
   }"

end
