(* ===== verification/UserAccess.thy ===== *)
theory UserAccess
  imports Syscall
begin

text \<open>
  What the checks of user pointers in syscall.c guarantee, and the blocking read of the keyboard.
\<close>

section \<open>Ranges\<close>

text \<open>
  The page of an address is mapped, and not to physical address 0, which \<open>vmm_get_phys_addr\<close>
  does not tell from an unmapped page.
\<close>

definition user_page :: "'a machine_scheme \<Rightarrow> u32 \<Rightarrow> bool" where
  "user_page s v \<longleftrightarrow> (\<exists>a. translate s (v AND 0xFFFFF000) = Some a \<and> a \<noteq> 0)"

lemma user_page_get: "vmm_inv s \<Longrightarrow> page_aligned v \<Longrightarrow> \<exists>a. vmm_get_phys_addr v s = Some a \<and> (a = 0 \<longleftrightarrow> \<not> user_page s v)"
  by (auto simp: get_phys_addr_translate user_page_def page_aligned_and_id split: option.splits)

lemma user_page_load: "user_page s v \<Longrightarrow> \<exists>b. vload8 v s = Some b"
  using translate_same_page [of v "v AND 0xFFFFF000" s] by (auto simp: user_page_def vload8_def)

lemma user_page_cong: "v AND 0xFFFFF000 = w AND 0xFFFFF000 \<Longrightarrow> user_page s v = user_page s w"
  by (simp add: user_page_def)

lemma unat_page_number: "4096 * n < 2 ^ 32 \<Longrightarrow> unat (of_nat (4096 * n) :: u32) = 4096 * n"
  by (rule unat_of_nat_u32) simp

lemma page_number_aligned: "4096 * n < 2 ^ 32 \<Longrightarrow> page_aligned (of_nat (4096 * n) :: u32)"
  using unat_page_number [of n] by (simp add: page_aligned_mod)

lemma validate_pages_spec:
  assumes "vmm_inv s" "unat e < 2 ^ 32 - 4096" "4096 * n \<le> unat e + 4096"
  shows "validate_pages (of_nat (4096 * n)) e s =
    Some (\<forall>m. n \<le> m \<and> 4096 * m \<le> unat e \<longrightarrow> user_page s (of_nat (4096 * m)))"
  using assms(3)
proof (induction "unat e + 4096 - 4096 * n" arbitrary: n rule: less_induct)
  case less
  have b: "4096 * n < 2 ^ 32" using less.prems assms(2) by simp
  have le: "of_nat (4096 * n) \<le> e \<longleftrightarrow> 4096 * n \<le> unat e"
    using unat_page_number [OF b] by (simp add: word_le_nat_alt)
  show ?case
  proof (cases "4096 * n \<le> unat e")
    case True
    obtain a where a: "vmm_get_phys_addr (of_nat (4096 * n)) s = Some a" "a = 0 \<longleftrightarrow> \<not> user_page s (of_nat (4096 * n))"
      using user_page_get [OF assms(1) page_number_aligned [OF b]] by blast
    have nx: "of_nat (4096 * n) + PAGE_SIZE = (of_nat (4096 * Suc n) :: u32)" by (simp add: PAGE_SIZE_def)
    have ih: "validate_pages (of_nat (4096 * Suc n)) e s =
        Some (\<forall>m. Suc n \<le> m \<and> 4096 * m \<le> unat e \<longrightarrow> user_page s (of_nat (4096 * m)))"
      using True by (intro less.hyps) auto
    have "(\<forall>m. n \<le> m \<and> 4096 * m \<le> unat e \<longrightarrow> user_page s (of_nat (4096 * m))) \<longleftrightarrow> user_page s (of_nat (4096 * n))
        \<and> (\<forall>m. Suc n \<le> m \<and> 4096 * m \<le> unat e \<longrightarrow> user_page s (of_nat (4096 * m)))"
      using True by (metis Suc_leD le_refl not_less_eq_eq order_antisym)
    then show ?thesis using a ih le True nx
      by (subst validate_pages.simps) (simp del: of_nat_mult of_nat_Suc mult_Suc_right)
  next
    case False
    then show ?thesis using le by (subst validate_pages.simps) (auto simp del: of_nat_mult)
  qed
qed

lemma load_bytes_mapped:
  "(\<And>i. i < n \<Longrightarrow> \<exists>b. vload8 (p + of_nat i) s = Some b) \<Longrightarrow>
   \<exists>bs. load_bytes p n s = Some bs \<and> length bs = n"
proof (induction n arbitrary: p)
  case (Suc n)
  have "\<exists>b. vload8 (p + 1 + of_nat i) s = Some b" if "i < n" for i
    using Suc.prems [of "Suc i"] that by (simp add: add.assoc)
  from Suc.IH [OF this] Suc.prems [of 0] show ?case by auto
qed simp

lemma page_of_nat:
  assumes "n < 2 ^ 32"
  shows "(of_nat n :: u32) AND 0xFFFFF000 = of_nat (4096 * (n div 4096))"
proof -
  have "4096 * (n div 4096) < 2 ^ 32" using assms by (meson le_less_trans times_div_less_eq_dividend)
  then show ?thesis using assms
    by (simp add: word_unat_eq_iff page_arith unat_of_nat_u32 mult.commute del: of_nat_mult)
qed

lemma same_page_nat:
  "n < 2 ^ 32 \<Longrightarrow> (of_nat n :: u32) AND 0xFFFFF000 = of_nat (4096 * (n div 4096)) AND 0xFFFFF000"
  by (subst page_of_nat [symmetric]) simp_all

text \<open>The pages that the loop visits are the pages of the bytes of the range.\<close>

lemma pages_of_range:
  assumes "z > 0" "unat p + z \<le> 2 ^ 32"
  shows "(\<forall>m. unat p div 4096 \<le> m \<and> 4096 * m \<le> unat p + z - 1 \<longrightarrow> user_page s (of_nat (4096 * m))) \<longleftrightarrow>
    (\<forall>i < z. user_page s (p + of_nat i))" (is "?L = ?R")
proof
  have same: "(p + of_nat i) AND 0xFFFFF000 = of_nat (4096 * ((unat p + i) div 4096)) AND 0xFFFFF000" if "i < z" for i
    using same_page_nat [of "unat p + i"] that assms(2) by (simp del: of_nat_mult)
  show ?R if L: ?L
  proof (intro allI impI)
    fix i assume i: "i < z"
    have "unat p div 4096 \<le> (unat p + i) div 4096" by (rule div_le_mono) simp
    moreover have "4096 * ((unat p + i) div 4096) \<le> unat p + z - 1"
      using i by (intro order_trans [OF times_div_less_eq_dividend]) simp
    ultimately show "user_page s (p + of_nat i)" using L user_page_cong [OF same [OF i]] by blast
  qed
  show ?L if R: ?R
  proof (intro allI impI, elim conjE)
    fix m assume m: "unat p div 4096 \<le> m" "4096 * m \<le> unat p + z - 1"
    let ?i = "max (4096 * m) (unat p) - unat p"
    have i: "?i < z" using m(2) assms(1) by auto
    have "(unat p + ?i) div 4096 = m"
    proof (cases "unat p \<le> 4096 * m")
      case False
      then have "m \<le> unat p div 4096" by (simp add: less_eq_div_iff_mult_less_eq)
      then show ?thesis using False m(1) by simp
    qed simp
    then show "user_page s (of_nat (4096 * m))" using R i user_page_cong [OF same [OF i]] by metis
  qed
qed

lemma validate_user_range_spec:
  assumes "vmm_inv s" "p \<noteq> 0" "z \<noteq> 0" "unat p + unat z \<le> 2 ^ 32"
  shows "validate_user_range p z s =
    Some (unat p + unat z \<le> 0xC0000000 \<and> (\<forall>i < unat z. user_page s (p + of_nat i)))"
proof -
  have z: "unat z > 0" using assms(3) by (simp add: word_unat_eq_iff)
  have "unat (p + (z - 1)) = unat p + unat (z - 1)"
    using assms(3,4) z unat_minus_one [OF assms(3)] by (intro unat_add_no_wrap) simp
  then have e: "unat (p + z - 1) = unat p + unat z - 1"
    using z unat_minus_one [OF assms(3)] by (simp add: algebra_simps)
  have top: "p \<ge> KERNEL_VIRT_BASE \<or> p + z - 1 \<ge> KERNEL_VIRT_BASE \<longleftrightarrow> \<not> unat p + unat z \<le> 0xC0000000"
    using e z by (auto simp: word_le_nat_alt layout)
  show ?thesis
  proof (cases "unat p + unat z \<le> 0xC0000000")
    case False
    then show ?thesis using assms(2,3) top by (simp add: validate_user_range_def Let_def)
  next
    case True
    have "NOT (PAGE_SIZE - 1) = (0xFFFFF000 :: u32)" by (simp add: PAGE_SIZE_def)
    then have "p AND NOT (PAGE_SIZE - 1) = of_nat (4096 * (unat p div 4096))"
      using page_of_nat [of "unat p"] unat_lt_2p32 [of p] by (simp del: of_nat_mult)
    then have "validate_user_range p z s = validate_pages (of_nat (4096 * (unat p div 4096))) (p + z - 1) s"
      using assms(2,3) top True by (simp add: validate_user_range_def Let_def del: of_nat_mult)
    also have "\<dots> = Some (\<forall>m. unat p div 4096 \<le> m \<and> 4096 * m \<le> unat p + unat z - 1 \<longrightarrow> user_page s (of_nat (4096 * m)))"
      unfolding e [symmetric] using e True z by (intro validate_pages_spec assms(1)) auto
    finally show ?thesis using pages_of_range [OF z assms(4)] True by simp
  qed
qed

section \<open>Waiting for a key\<close>

text \<open>The loop of \<open>sys_read\<close> ends only when there is a character at the beginning.\<close>

lemma keys_simps [simp]:
  "keys (set_task t f s) = keys s" "keys (load_cr3 c s) = keys s" "keys (s\<lparr>current_task := o1\<rparr>) = keys s"
  "keys (task_enqueue t s) = keys s" "keys (task_remove t s) = keys s"
  "keys (task_update_tss s) = keys s" "keys (load_task_cr3 s) = keys s"
proof -
  show set: "keys (set_task t f s) = keys s" for t f and s :: "('a, 'b) kernel_scheme" by (simp add: set_task_def)
  show cr3: "keys (load_cr3 c s) = keys s" for c and s :: "('a, 'b) kernel_scheme" by (simp add: load_cr3_def)
  show "keys (s\<lparr>current_task := o1\<rparr>) = keys s" by simp
  show "keys (task_enqueue t s) = keys s" "keys (task_remove t s) = keys s"
    by (auto simp: task_enqueue_def task_remove_def Let_def set split: option.split)
  show "keys (task_update_tss s) = keys s" "keys (load_task_cr3 s) = keys s"
    by (auto simp: task_update_tss_def load_task_cr3_def cr3 split: option.split)
qed

lemma schedule_keys: "keys (snd (task_schedule s)) = keys s"
proof -
  have "keys (requeue_current s) = keys s" by (simp add: requeue_current_def split: option.split)
  moreover have "keys (snd (task_select_next u)) = keys u" for u :: "('a, 'b) kernel_scheme"
    by (simp add: task_select_next_def Let_def split: option.split)
  ultimately show ?thesis by (simp add: task_schedule_def)
qed

lemma wait_for_key_spec:
  assumes "wait_for_key s = Some u"
  shows "keyboard_has_event (keys s) \<and> u = s"
proof -
  let ?P = "\<lambda>s u. keyboard_has_event (keys s) \<and> u = s"
  show ?thesis
  proof (rule wait_for_key.raw_induct [where P = ?P, OF _ assms])
    fix f :: "('a, 'b) kernel_scheme \<Rightarrow> ('a, 'b) kernel_scheme option" and s u :: "('a, 'b) kernel_scheme"
    assume ih: "\<And>s u. f s = Some u \<Longrightarrow> ?P s u"
      and r: "(if keyboard_has_event (keys s) then Some s
        else case current_task s of None \<Rightarrow> f s
          | Some t \<Rightarrow> f (snd (task_schedule (set_task t (\<lambda>k. k\<lparr>tstate := TASK_WAITING\<rparr>) s)))) = Some u"
    show "?P s u"
      using r ih schedule_keys [of "set_task t (\<lambda>k. k\<lparr>tstate := TASK_WAITING\<rparr>) s" for t]
      by (fastforce simp: set_task_def split: if_splits option.splits)
  qed
qed

section \<open>A small kernel\<close>

definition demo_kernel :: "(pio, unit) kernel_scheme" where
  "demo_kernel = demo_tasks (module_state_ext [] (\<lambda>_. kmodule_zero) 0
     (kernel_ext demo_fat kbd_boot \<lparr>terminal_row = 0, terminal_column = 0, terminal_color = 7,
        terminal_buffer = replicate 2000 0, serial_sent = []\<rparr> ()))"

lemma demo_tasks_machine:
  "phys (demo_tasks x) = phys demo_vmm" "cr3 (demo_tasks x) = cr3 demo_vmm" "cr0_pg (demo_tasks x) = cr0_pg demo_vmm"
  "pmm_bitmap (demo_tasks x) = pmm_bitmap demo_vmm" "total_frames (demo_tasks x) = total_frames demo_vmm"
  "pdir (demo_tasks x) = pdir demo_vmm" "entry (demo_tasks x) = entry demo_vmm"
  by (simp_all add: demo_tasks_def demo_vmm_simps pdir_def fun_eq_iff entry_def)

lemma demo_tasks_vmm: "vmm_inv (demo_tasks x)"
proof -
  have u: "frame_used (demo_tasks x) = frame_used demo_vmm"
    by (simp add: fun_eq_iff frame_used_def demo_tasks_machine)
  show ?thesis using demo_vmm_inv
    unfolding vmm_inv_def pmm_inv_def dir_ok_def frame_addr_used_def u demo_tasks_machine .
qed

section \<open>Properties\<close>

text \<open>
  C10: For a range that does not wrap around the address space, \<open>validate_user_pointer\<close> of
  syscall.c ends and accepts exactly when the range lies below the kernel and every page of it is
  mapped; reading an accepted range does not fault.
\<close>

theorem validate_user_range_exact:
  assumes "vmm_inv s" "p \<noteq> 0" "z \<noteq> 0" "unat p + unat z \<le> 2 ^ 32"
  shows "validate_user_range p z s =
      Some (unat p + unat z \<le> 0xC0000000 \<and> (\<forall>i < unat z. user_page s (p + of_nat i)))
    \<and> (validate_user_range p z s = Some True \<longrightarrow> (\<exists>bs. load_bytes p (unat z) s = Some bs \<and> length bs = unat z))"
proof -
  have "\<exists>bs. load_bytes p (unat z) s = Some bs \<and> length bs = unat z" if "\<forall>i < unat z. user_page s (p + of_nat i)"
    by (rule load_bytes_mapped) (use that user_page_load in blast)
  then show ?thesis using validate_user_range_spec [OF assms] by simp
qed

theorem validate_user_range_exact_witness: "validate_user_range 0x00801234 16 demo_kernel = Some False"
proof -
  have i: "vmm_inv demo_kernel" by (simp add: demo_kernel_def demo_tasks_vmm)
  have "translate demo_kernel 0x00801000 = None"
    by (simp add: demo_kernel_def translate_def demo_tasks_machine walk_def demo_vmm_simps demo_vmm_entry
        pd_index_def drop_bit_eq_div)
  then have "\<not> user_page demo_kernel (0x00801234 + of_nat 0)" by (simp add: user_page_def)
  then have "\<not> (\<forall>j < unat (16 :: u32). user_page demo_kernel (0x00801234 + of_nat j))" by force
  then show ?thesis using validate_user_range_exact [OF i, of "0x00801234" 16] by simp
qed



text \<open>
  C31: Reading the keyboard returns exactly when a character waits, and then the oldest one; with an
  empty buffer the system call never returns, as no interrupt can fill the buffer behind the
  interrupt gate.
\<close>

theorem sys_read_returns:
  assumes "kbd_inv (keys s)"
  shows "case kbd_contents (keys s) of
      [] \<Rightarrow> sys_read 0 s = None
    | c # cs \<Rightarrow> \<exists>k. sys_read 0 s = Some (sint c, s\<lparr>keys := k\<rparr>) \<and> kbd_inv k \<and> kbd_contents k = cs"
proof (cases "kbd_contents (keys s)")
  case Nil
  then have "keyboard_count (keys s) = 0" using length_kbd_contents [of "keys s"] by (simp add: word_unat_eq_iff)
  then have "wait_for_key s = None"
    using wait_for_key_spec [of s] by (cases "wait_for_key s") (auto simp: keyboard_has_event_def)
  then show ?thesis using Nil by (simp add: sys_read_def)
next
  case (Cons c cs)
  then have "keyboard_count (keys s) \<noteq> 0" using length_kbd_contents [of "keys s"] by auto
  then have "wait_for_key s = Some s" by (subst wait_for_key.simps) (simp add: keyboard_has_event_def word_neq_0_conv)
  then show ?thesis using kbd_dequeue [OF assms] Cons by (auto simp: sys_read_def)
qed

theorem sys_read_returns_witness: "sys_read 0 demo_kernel = None"
  using sys_read_returns [of demo_kernel] by (simp add: demo_kernel_def demo_tasks_def)

end
