(* ===== verification/SyscallInv.thy ===== *)
theory SyscallInv
  imports UserAccess
begin

text \<open>
  Interrupts and the invariant of the task table: every interrupt that arrives while the current
  task is in state RUNNING, system calls included, leaves the ready list, the kernel stacks and
  the frame arrays in order.
\<close>

section \<open>Operations outside the task table\<close>

lemma kernel_update_stays:
  "stays s (s\<lparr>files := f\<rparr>)" "stays s (s\<lparr>keys := k\<rparr>)" "stays s (s\<lparr>screen := c\<rparr>)"
  using task_inv_cong [of "s\<lparr>files := f\<rparr>" s] task_inv_cong [of "s\<lparr>keys := k\<rparr>" s]
    task_inv_cong [of "s\<lparr>screen := c\<rparr>" s]
  by (simp_all add: stays_def)

lemma symbols_stays: "stays s (s\<lparr>kernel_symbols := a\<rparr>)"
  using task_inv_cong [of "s\<lparr>kernel_symbols := a\<rparr>" s] by (simp add: stays_def)

lemmas kernel_stays = stays_trans [OF _ kernel_update_stays(1)] stays_trans [OF _ kernel_update_stays(2)]
  stays_trans [OF _ kernel_update_stays(3)]

lemma syscall_reads [wp]:
  "(\<And>x. P1 x) \<Longrightarrow> post P1 (validate_user_range p z s)" "(\<And>x. P2 x) \<Longrightarrow> post P2 (validate_user_string p s)"
  "(\<And>x. P3 x) \<Longrightarrow> post P3 (validate_user_pointer_array p s)" "(\<And>x. P4 x) \<Longrightarrow> post P4 (load_bytes p n s)"
  "(\<And>x. P5 x) \<Longrightarrow> post P5 (user_path p s)" "(\<And>x. P6 x) \<Longrightarrow> post P6 (syscall_get_u32_arg rs i)"
  "(\<And>x. P7 x) \<Longrightarrow> post P7 (syscall_set_return_value rs v)"
  "(\<And>x. P8 x) \<Longrightarrow> post P8 (fat16_open hw i pa f)"
  "(\<And>x. P9 x) \<Longrightarrow> post P9 (fat16_read hw fd b c f)"
  "(\<And>x. P10 x) \<Longrightarrow> post P10 (fat16_write hw fd b c f)"
  "(\<And>x. P11 x) \<Longrightarrow> post P11 (fat16_close hw fd f)"
  "(\<And>x. P12 x) \<Longrightarrow> post P12 (keyboard_get_event kb)"
  "(\<And>x. P13 x) \<Longrightarrow> post P13 (keyboard_handle_interrupt sc kb)"
  by (simp_all add: post_def)

lemma sys_write_stays: "post (\<lambda>(r, u). stays s u) (sys_write fd buf len s)"
  unfolding sys_write_def by (intro wp) (auto intro: kernel_update_stays)

lemma open_path_stays: "post (\<lambda>(r, u). stays s u) (open_path hw p s)"
  unfolding open_path_def by (intro wp) (auto intro: kernel_update_stays)

lemmas open_path_wp [wp] = open_path_stays [THEN post_stays2]

lemma sys_open_stays: "post (\<lambda>(r, u). stays s u) (sys_open hw p s)"
  unfolding sys_open_def by (intro wp) auto

lemma sys_read_file_stays: "post (\<lambda>(r, u). stays s u) (sys_read_file hw fd b c s)"
  unfolding sys_read_file_def
  by (intro wp) (auto intro: kernel_stays keeps_stays)

lemma sys_write_file_stays: "post (\<lambda>(r, u). stays s u) (sys_write_file hw fd b c s)"
  unfolding sys_write_file_def by (intro wp) (auto intro: kernel_update_stays)

lemma sys_close_stays: "post (\<lambda>(r, u). stays s u) (sys_close hw fd s)"
  unfolding sys_close_def by (intro wp) (auto intro: kernel_update_stays)

lemma sys_read_stays: "post (\<lambda>(r, u). stays s u) (sys_read fd s)"
proof -
  have key: "post P (wait_for_key s)" if "P s" for P
    using that wait_for_key_spec [of s] by (auto simp: post_def)
  show ?thesis unfolding sys_read_def by (intro wp key) (auto intro: kernel_update_stays)
qed

section \<open>User heap\<close>

lemma undo_heap_pages_stays: "post (stays s) (undo_heap_pages t n j s)"
proof (induction n arbitrary: j s)
  case (Suc n)
  show ?case unfolding undo_heap_pages.simps Let_def
    by (intro wp post_staysI [OF _ Suc.IH])
      (auto dest!: to_stays intro!: stays_setI task_ok_updates task_ok_lengths intro: stays_trans)
qed (simp add: post_def)

lemmas undo_heap_pages_wp [wp] = undo_heap_pages_stays [THEN post_stays]

lemma add_heap_pages_stays:
  "post (\<lambda>(ok, u). stays s u \<and> (ok \<longrightarrow> user_heap_frame_count (task_table u t) = user_heap_frame_count (task_table s t)))
    (add_heap_pages t n i s)"
proof (induction n arbitrary: i s)
  case (Suc n)
  let ?Q = "\<lambda>s (ok, u). stays s u \<and> (ok \<longrightarrow> user_heap_frame_count (task_table u t) = user_heap_frame_count (task_table s t))"
  have chain: "post (?Q s) (add_heap_pages t n j v)"
    if "keeps2 s a" "keeps2 (set_task t (\<lambda>k. k\<lparr>user_heap_frames := (user_heap_frames k)[m := fr]\<rparr>) a) v" for a v m fr j
  proof -
    let ?b = "set_task t (\<lambda>k. k\<lparr>user_heap_frames := (user_heap_frames k)[m := fr]\<rparr>) a"
    have "stays a ?b" by (rule stays_set) (auto intro!: task_ok_updates task_ok_lengths)
    then have st: "stays s v" using that by (blast intro: stays_trans keeps2_stays)
    have "user_heap_frame_count (task_table v t) = user_heap_frame_count (task_table s t)"
      using keeps2_tasks(1) [OF that(1)] keeps2_tasks(1) [OF that(2)] by simp
    then show ?thesis using Suc.IH [of v j] stays_trans [OF st] by (auto simp: post_def)
  qed
  show ?case unfolding add_heap_pages.simps Let_def
    by (intro wp chain) (auto dest!: keeps2_stays intro: stays_trans)
qed (simp add: post_def)

lemma sys_alloc_stays: "post (\<lambda>(r, u). stays s u) (sys_alloc z s)"
proof -
  let ?n = "((z + PAGE_SIZE - 1) AND NOT (PAGE_SIZE - 1)) div PAGE_SIZE"
  have add: "post P (add_heap_pages t m 0 s)"
    if "\<And>ok u. stays s u \<Longrightarrow> (ok \<Longrightarrow> user_heap_frame_count (task_table u t) = user_heap_frame_count (task_table s t)) \<Longrightarrow> P (ok, u)"
    for P t m
    using that by (intro post_mono [OF add_heap_pages_stays]) auto
  have fin: "stays s (set_task t (\<lambda>k. k\<lparr>user_heap_frame_count := user_heap_frame_count k + ?n,
      user_heap_size := user_heap_size k + x\<rparr>) u)"
    if "stays s u" "user_heap_frame_count (task_table u t) = user_heap_frame_count (task_table s t)"
      "\<not> user_heap_frame_count (task_table s t) + ?n > of_nat MAX_USER_HEAP_PAGES" for t u x
  proof -
    have "unat (user_heap_frame_count (task_table u t) + ?n) \<le> MAX_USER_HEAP_PAGES"
      using that(2,3) by (simp add: not_less word_le_nat_alt MAX_USER_HEAP_PAGES_def)
    then show ?thesis using that(1) by (intro stays_setI) (auto intro!: task_ok_updates)
  qed
  show ?thesis unfolding sys_alloc_def Let_def
    by (intro wp add) (use fin in auto)
qed

section \<open>Fork\<close>

lemma copy_page_keeps: "post (keeps2 s) (copy_page a b s)"
  unfolding copy_page_def by (intro wp) (auto dest!: keeps_keeps2 simp: keeps2_def)

lemmas copy_page_wp [wp] = copy_page_keeps [THEN post_alloc]

lemma free_child_code_keeps: "post (keeps2 s) (free_child_code c n j s)"
proof (induction n arbitrary: j s)
  case (Suc n)
  show ?case unfolding free_child_code.simps by (intro wp post_keeps2I [OF _ Suc.IH]) auto
qed (simp add: post_def)

lemma unmap_child_code_keeps: "post (keeps2 s) (unmap_child_code c d n j s)"
proof (induction n arbitrary: j s)
  case (Suc n)
  show ?case unfolding unmap_child_code.simps
    by (intro wp post_keeps2I [OF _ Suc.IH]) (auto dest!: keeps_keeps2 simp: keeps2_def)
qed (simp add: post_def)

lemma unmap_child_heap_keeps: "post (keeps2 s) (unmap_child_heap p c d n j s)"
proof (induction n arbitrary: j s)
  case (Suc n)
  show ?case unfolding unmap_child_heap.simps
    by (intro wp post_keeps2I [OF _ Suc.IH]) (auto dest!: keeps_keeps2 simp: keeps2_def)
qed (simp add: post_def)

lemmas child_wp [wp] = free_child_code_keeps [THEN post_alloc] unmap_child_code_keeps [THEN post_alloc]
  unmap_child_heap_keeps [THEN post_alloc]

lemma limbo_set_frames:
  "limbo c s \<Longrightarrow> limbo c (set_task c (\<lambda>k. k\<lparr>user_code_frames := (user_code_frames k)[i := f]\<rparr>) s)"
  "limbo c s \<Longrightarrow> limbo c (set_task c (\<lambda>k. k\<lparr>user_heap_frames := (user_heap_frames k)[i := f]\<rparr>) s)"
  by (rule limbo_set; auto intro!: task_ok_updates task_ok_lengths)+

lemma fork_code_limbo: "limbo c s \<Longrightarrow> post (\<lambda>(ok, u). limbo c u) (fork_code p c d n i s)"
proof (induction n arbitrary: i s)
  case (Suc n)
  show ?case unfolding fork_code.simps Let_def
    by (insert Suc.prems, intro wp Suc.IH; clarsimp?; (erule limbo_back | rule limbo_set_frames | assumption)+)
qed (simp add: post_def)

lemma fork_heap_limbo: "limbo c s \<Longrightarrow> post (\<lambda>(ok, u). limbo c u) (fork_heap p c d n i s)"
proof (induction n arbitrary: i s)
  case (Suc n)
  show ?case unfolding fork_heap.simps Let_def
    by (insert Suc.prems, intro wp Suc.IH; clarsimp?; (erule limbo_back | rule limbo_set_frames | assumption)+)
qed (simp add: post_def)

lemma add_child_state: "tstate (task_table (task_add_child a b s) v) = tstate (task_table s v)"
  by (auto simp: task_add_child_def Let_def split: option.splits)

lemma fork_finish_inv:
  assumes "limbo c s" "p < TASK_MAX"
  shows "task_inv {} (snd (fork_finish p c s))"
proof -
  let ?par = "task_table s p"
  let ?s1 = "set_task c (\<lambda>k. k\<lparr>ttype := TASK_TYPE_USER_PROCESS, user_stack_top := user_stack_top ?par,
                user_stack_size := user_stack_size ?par, user_code_paddr := user_code_paddr ?par,
                tstate := TASK_READY, ticks := 0, quantum := TASK_QUANTUM_DEFAULT,
                parent_pid := pid ?par, parent := Some p\<rparr>) s"
  have "limbo c ?s1" using assms(1) by (rule limbo_set) (use assms(2) in \<open>auto intro!: task_ok_updates\<close>)
  then have "limbo c (task_add_child (Some p) (Some c) ?s1)"
    using task_add_child_inv [of "{c}" ?s1 "Some p" "Some c"] assms(2)
    by (simp add: limbo_def add_child_state del: set_task_simps)
  then have "limbo c (set_task c (\<lambda>k. k\<lparr>ctx := z\<rparr>) (task_add_child (Some p) (Some c) ?s1))" for z
    by (rule limbo_set) simp_all
  then show ?thesis unfolding fork_finish_def Let_def snd_conv by (rule limbo_enqueue)
qed

lemma fork_failed_inv: "limbo c s \<Longrightarrow> task_inv {} (snd (fork_failed c s))"
  by (simp add: fork_failed_def limbo_abandon)

text \<open>The counters that the child takes over from its parent are inside the arrays.\<close>

lemma limbo_counts:
  assumes "limbo c s" "p < TASK_MAX"
  shows "limbo c (set_task c (\<lambda>k. k\<lparr>page_directory_phys := d, user_code_frame_count := user_code_frame_count (task_table s p)\<rparr>) s)"
    "limbo c (set_task c (\<lambda>k. k\<lparr>user_heap_start := a, user_heap_size := b,
       user_heap_frame_count := user_heap_frame_count (task_table s p)\<rparr>) s)"
proof -
  have "task_ok (task_table s p)" using assms task_inv_ok [of "{c}" s p] by (simp add: limbo_def)
  then have "unat (user_code_frame_count (task_table s p)) \<le> MAX_USER_CODE_PAGES"
    "unat (user_heap_frame_count (task_table s p)) \<le> MAX_USER_HEAP_PAGES" by (simp_all add: task_ok_def)
  then show "limbo c (set_task c (\<lambda>k. k\<lparr>page_directory_phys := d, user_code_frame_count := user_code_frame_count (task_table s p)\<rparr>) s)"
    "limbo c (set_task c (\<lambda>k. k\<lparr>user_heap_start := a, user_heap_size := b,
       user_heap_frame_count := user_heap_frame_count (task_table s p)\<rparr>) s)"
    using assms(1) by (auto intro!: limbo_set task_ok_updates)
qed

lemma fork_stack_and_heap_inv:
  assumes "limbo c s" "p < TASK_MAX"
  shows "post (\<lambda>(r, u). task_inv {} u) (fork_stack_and_heap p c d s)"
proof -
  have heap: "post P (fork_heap p c d n 0 t)" if "limbo c t" "\<And>ok u. limbo c u \<Longrightarrow> P (ok, u)" for P n t
    using that by (intro post_mono [OF fork_heap_limbo]) auto
  have fin: "case x of (r, u) \<Rightarrow> task_inv {} u" if "task_inv {} (snd x)" for x :: "u32 \<times> 'a task_state_scheme"
    using that by (simp add: case_prod_beta)
  show ?thesis unfolding fork_stack_and_heap_def Let_def
    by (insert assms, intro wp heap; (rule fin)?; (rule fork_failed_inv fork_finish_inv)?; clarsimp?;
        (rule limbo_counts(2))?; (erule limbo_back | rule limbo_set_stack | assumption)+)
qed

lemma sys_fork_inv:
  assumes "task_inv {} s"
  shows "post (\<lambda>(r, u). task_inv {} u) (sys_fork s)"
proof -
  have code: "post P (fork_code p c d n 0 t)" if "limbo c t" "\<And>ok u. limbo c u \<Longrightarrow> P (ok, u)" for P p c d n t
    using that by (intro post_mono [OF fork_code_limbo]) auto
  have fin: "case x of (r, u) \<Rightarrow> task_inv {} u" if "task_inv {} (snd x)" for x :: "u32 \<times> 'a task_state_scheme"
    using that by (simp add: case_prod_beta)
  have cur: "p < TASK_MAX" if "task_get_current s = Some p" for p
    using that task_inv_current [OF assms] by (simp add: task_get_current_def)
  have n: "task_inv {} s'" if "task_alloc s = (None, s')" for s' using limbo_alloc(1) [OF assms that] .
  have l: "limbo c s'" if "task_alloc s = (Some c, s')" for c s' using limbo_alloc(2) [OF assms that] .
  show ?thesis unfolding sys_fork_def Let_def
    by (insert assms, intro wp code fork_stack_and_heap_inv; (rule fin)?; (rule fork_failed_inv)?; clarsimp?;
        (drule n l cur)+; (rule limbo_counts(1))?; (erule limbo_back | assumption)+)
qed

section \<open>Exec and wait\<close>

lemmas replace_wp [wp] = task_replace_process_image_stays [THEN post_stays2]

lemma read_image_stays: "post (\<lambda>(r, b, u). stays s u) (read_image hw fd s)"
  unfolding read_image_def by (intro wp) (auto intro: kernel_update_stays)

lemma sys_exec_stays: "post (\<lambda>(r, u). stays s u) (sys_exec hw path argv envp s)"
proof -
  have img: "post P (read_image hw fd t)" if "\<And>r b u. stays t u \<Longrightarrow> P (r, b, u)" for P fd and t :: "('a, 'b) kernel_scheme"
    using that by (intro post_mono [OF read_image_stays]) auto
  show ?thesis unfolding sys_exec_def
    by (intro wp img; clarsimp?; (erule stays_back | rule stays_refl | assumption)+)
qed

lemma find_sibling_bound:
  assumes "find_sibling p c s = Some (Some d)" "task_inv X s" "\<And>x. c = Some x \<Longrightarrow> x < TASK_MAX"
  shows "d < TASK_MAX"
proof -
  let ?P = "\<lambda>p c s r. task_inv X s \<longrightarrow> (\<forall>x. c = Some x \<longrightarrow> x < TASK_MAX) \<longrightarrow> (\<forall>d. r = Some d \<longrightarrow> d < TASK_MAX)"
  have "?P p c s (Some d)"
  proof (rule find_sibling.raw_induct [where P = ?P, OF _ assms(1)], intro impI)
    fix f :: "u32 \<Rightarrow> nat option \<Rightarrow> 'a task_state_scheme \<Rightarrow> nat option option"
      and p c and s :: "'a task_state_scheme" and r
    assume ih: "\<And>p c s r. f p c s = Some r \<Longrightarrow> ?P p c s r"
      and r: "(case c of None \<Rightarrow> Some None
        | Some child \<Rightarrow> if pid (task_table s child) = p then Some (Some child)
            else f p (next_sibling (task_table s child)) s) = Some r"
      and i: "task_inv X s" "\<forall>x. c = Some x \<longrightarrow> x < TASK_MAX"
    have n: "x < TASK_MAX" if "c = Some child" "next_sibling (task_table s child) = Some x" for child x
      using task_okD(7) [OF task_inv_ok [OF i(1)]] i(2) that by blast
    show "\<forall>d. r = Some d \<longrightarrow> d < TASK_MAX"
    proof (cases c)
      case (Some child)
      then show ?thesis using r i n [OF Some] ih [of p "next_sibling (task_table s child)" s r]
        by (auto split: if_splits)
    qed (use r in auto)
  qed
  then show ?thesis using assms(2,3) by blast
qed

lemma task_inv_stop:
  assumes "task_inv {} s" "tstate (task_table s t) \<noteq> TASK_READY"
    "tstate (f (task_table s t)) \<notin> {TASK_READY, TASK_RUNNING}"
    "stack_base (f (task_table s t)) = stack_base (task_table s t)"
    "stack_top (f (task_table s t)) = stack_top (task_table s t)"
    "task_ok (task_table s t) \<Longrightarrow> task_ok (f (task_table s t))"
  shows "task_inv {} (set_task t f s)"
  using task_inv_park [of "{}" s t f, OF assms(1) _ assms(3-5)] assms(2,6) by simp

lemma reap_inv:
  assumes "task_inv {} s" "c < TASK_MAX" "tstate (task_table s c) = TASK_ZOMBIE"
  shows "post (\<lambda>(r, u). task_inv {} u) (reap c status s)"
proof -
  let ?Z = "\<lambda>u. task_inv {} u \<and> tstate (task_table u c) = TASK_ZOMBIE"
  have pd: "stays s (set_task c (\<lambda>k. k\<lparr>page_directory_phys := x\<rparr>) t)" if "stays s t" for t x
    using that by (rule stays_setI) simp_all
  have rem: "post P (task_remove_child c (task_free_stack c t))" if "stays s t" "\<And>u. ?Z u \<Longrightarrow> P u" for P t
  proof -
    have z: "task_inv {} t" "tstate (task_table t c) = TASK_ZOMBIE" using staysD [OF that(1)] assms by simp_all
    show ?thesis
      using task_remove_child_inv [OF task_free_stack_stays(1) [OF z(1) assms(2)] assms(2)]
        task_free_stack_stays(2) [OF z(1) assms(2), of c] z(2) that(2) by (auto simp: post_def)
  qed
  have fin: "task_inv {} (set_task c (\<lambda>k. k\<lparr>ttype := TASK_TYPE_KERNEL, parent := None, parent_pid := 0,
       next_sibling := None, waiting_for_pid := - 1, waiting_status := 0, tstate := TASK_UNUSED\<rparr>) t)"
    if "?Z t" for t :: "'a task_state_scheme"
    by (rule task_inv_stop) (use that in \<open>auto intro!: task_ok_updates\<close>)
  show ?thesis unfolding reap_def Let_def
    by (intro wp rem; (clarsimp split del: if_split)?; (rule fin pd)?; ((erule stays_back | rule stays_refl)+)?; simp?)
qed

lemma sys_wait_inv:
  assumes "task_inv {} s" "\<And>t. current_task s = Some t \<Longrightarrow> tstate (task_table s t) = TASK_RUNNING"
  shows "post (\<lambda>(r, u). task_inv {} u) (sys_wait p status s)"
proof -
  have find: "post P (task_find_child t p s)"
    if "current_task s = Some t" "P None" "\<And>c. c < TASK_MAX \<Longrightarrow> P (Some c)" for P t
  proof -
    have "x < TASK_MAX" if "first_child (task_table s t) = Some x" for x
      using task_okD(6) [OF task_inv_ok [OF assms(1) task_inv_current [OF assms(1)]]] \<open>current_task s = Some t\<close> that by blast
    then show ?thesis using find_sibling_bound [OF _ assms(1)] that(2,3)
      by (metis option.exhaust post_def task_find_child_def)
  qed
  have park: "task_inv {} (set_task t (\<lambda>k. k\<lparr>waiting_for_pid := p, waiting_status := status, tstate := TASK_WAITING\<rparr>) s)"
    if "current_task s = Some t" for t
    by (rule task_inv_stop [OF assms(1)]) (use assms(2) [OF that] in \<open>auto intro!: task_ok_updates\<close>)
  show ?thesis unfolding sys_wait_def task_get_current_def
    by (insert assms(1), intro wp find reap_inv park; clarsimp?; (rule park)?; assumption?)
qed

section \<open>Handlers\<close>

definition current_runs :: "'a task_state_scheme \<Rightarrow> bool" where
  "current_runs s \<longleftrightarrow> (\<forall>t. current_task s = Some t \<longrightarrow> tstate (task_table s t) = TASK_RUNNING)"

definition keeps_tasks :: "('d, 'a) handled \<Rightarrow> bool" where
  "keeps_tasks m \<longleftrightarrow> post (\<lambda>(c, rs, u). task_inv {} u) m"

lemma return_value_wp [wp]: "(\<And>rs'. P (None, rs', s)) \<Longrightarrow> post P (return_value rs v s)"
  by (simp add: return_value_def post_def syscall_set_return_value_def)

lemma sleep_inv:
  assumes "task_inv {} s" "current_runs s"
  shows "task_inv {} (snd (sys_sleep ms s))"
proof (cases "current_task s")
  case (Some t)
  have "task_inv {} (set_task t (\<lambda>k. k\<lparr>wake_tick := w, tstate := TASK_WAITING\<rparr>) s)" for w
    by (rule task_inv_stop [OF assms(1)])
      (use assms(2) Some in \<open>auto simp: current_runs_def intro!: task_ok_updates\<close>)
  then show ?thesis using assms Some by (simp add: sys_sleep_def task_get_current_def Let_def)
qed (use assms in \<open>simp add: sys_sleep_def task_get_current_def Let_def\<close>)

lemma exit_inv:
  assumes "task_inv {} s" "current_runs s"
  shows "post (task_inv {}) (task_terminate status s)"
  using assms by (intro task_terminate_inv) (auto simp: current_runs_def)

text \<open>The handlers that leave the scheduler alone.\<close>

lemma memory_handlers:
  assumes "task_inv {} s" "well_behaved call"
  shows "keeps_tasks (syscall_handle_write rs s)" "keeps_tasks (syscall_handle_alloc rs s)"
    "keeps_tasks (syscall_handle_read rs s)" "keeps_tasks (syscall_handle_open hw rs s)"
    "keeps_tasks (syscall_handle_read_file hw rs s)" "keeps_tasks (syscall_handle_write_file hw rs s)"
    "keeps_tasks (syscall_handle_close hw rs s)" "keeps_tasks (syscall_handle_exec hw rs s)"
    "keeps_tasks (syscall_handle_load_module call rs s)" "keeps_tasks (syscall_handle_unload_module call rs s)"
proof -
  have inv: "task_inv {} u" if "stays s u" for u using staysD(1) [OF that assms(1)] .
  have load: "post (\<lambda>(r, u). stays s u) (sys_load_module call a z s)" for a z
    unfolding sys_load_module_def using module_load_stays [OF assms(2)]
    by (intro wp post_mono [OF module_load_stays [OF assms(2)]]) auto
  have unload: "post (\<lambda>(r, u). stays s u) (sys_unload_module call a s)" for a
    unfolding sys_unload_module_def by (intro wp post_mono [OF module_unload_stays [OF assms(2)]]) auto
  note specs = sys_write_stays sys_alloc_stays sys_read_stays sys_open_stays sys_read_file_stays
    sys_write_file_stays sys_close_stays sys_exec_stays load unload
  note defs = keeps_tasks_def syscall_handle_write_def syscall_handle_alloc_def syscall_handle_read_def
    syscall_handle_open_def syscall_handle_read_file_def syscall_handle_write_file_def syscall_handle_close_def
    syscall_handle_exec_def syscall_handle_load_module_def syscall_handle_unload_module_def
  show "keeps_tasks (syscall_handle_write rs s)" "keeps_tasks (syscall_handle_alloc rs s)"
    "keeps_tasks (syscall_handle_read rs s)" "keeps_tasks (syscall_handle_open hw rs s)"
    "keeps_tasks (syscall_handle_read_file hw rs s)" "keeps_tasks (syscall_handle_write_file hw rs s)"
    "keeps_tasks (syscall_handle_close hw rs s)" "keeps_tasks (syscall_handle_exec hw rs s)"
    "keeps_tasks (syscall_handle_load_module call rs s)" "keeps_tasks (syscall_handle_unload_module call rs s)"
    unfolding defs by (intro wp specs [THEN post_stays2]; clarsimp; rule inv; assumption)+
qed

text \<open>The handlers that create, block, end or switch tasks.\<close>

lemma task_handlers:
  assumes "task_inv {} s" "current_runs s"
  shows "keeps_tasks (syscall_handle_exit rs s)" "keeps_tasks (syscall_handle_sleep rs s)"
    "keeps_tasks (syscall_handle_yield rs s)" "keeps_tasks (syscall_handle_fork rs s)"
    "keeps_tasks (syscall_handle_wait rs s)"
proof -
  show "keeps_tasks (syscall_handle_exit rs s)"
    unfolding keeps_tasks_def syscall_handle_exit_def sys_exit_def
    by (intro wp post_mono [OF exit_inv [OF assms]]) (auto dest: task_schedule_inv)
  show "keeps_tasks (syscall_handle_sleep rs s)"
    unfolding keeps_tasks_def syscall_handle_sleep_def Let_def case_prod_beta
    by (intro wp) (simp add: task_schedule_inv sleep_inv [OF assms])
  show "keeps_tasks (syscall_handle_yield rs s)"
    unfolding keeps_tasks_def syscall_handle_yield_def Let_def case_prod_beta
    by (intro wp) (simp add: task_yield_inv [OF assms(1)])
  show "keeps_tasks (syscall_handle_fork rs s)"
    unfolding keeps_tasks_def syscall_handle_fork_def
    by (intro wp post_mono [OF sys_fork_inv [OF assms(1)]]) auto
  have w: "post (\<lambda>(r, u). task_inv {} u) (sys_wait p status s)" for p status
    using assms by (intro sys_wait_inv) (auto simp: current_runs_def)
  show "keeps_tasks (syscall_handle_wait rs s)"
    unfolding keeps_tasks_def syscall_handle_wait_def by (intro wp post_mono [OF w]) auto
qed

lemma syscall_dispatch_inv:
  assumes "task_inv {} s" "current_runs s" "well_behaved call"
  shows "post (\<lambda>(c, rs, u). task_inv {} u) (syscall_dispatch hw call n rs s)"
  unfolding syscall_dispatch_def
  by (intro wp memory_handlers [OF assms(1,3), unfolded keeps_tasks_def]
      task_handlers [OF assms(1,2), unfolded keeps_tasks_def]) (simp_all add: assms)

lemma interrupt_entry_inv:
  assumes "task_inv {} s" "current_runs s" "well_behaved call"
  shows "post (\<lambda>(c, rs, u). task_inv {} u) (interrupt_entry hw call scan_code rs s)"
proof -
  have saved: "task_inv {} u \<and> current_runs u" if "stays s u" for u
    using staysD [OF that] assms(1,2) by (simp add: current_runs_def)
  have handler: "post (\<lambda>(c, rs, u). task_inv {} u) (interrupt_handler hw call scan_code rs u)"
    if u: "task_inv {} u" "current_runs u" for u
  proof -
    have tick: "task_inv {} v" if "task_tick (timer_handle_interrupt u) = (c, v)" for c v
      using task_tick_inv [of "timer_handle_interrupt u"] u(1) that by (simp add: task_inv_clock)
    show ?thesis unfolding interrupt_handler_def
      by (insert u, intro wp syscall_dispatch_inv post_mono [OF exit_inv] assms(3))
        (auto dest: task_schedule_inv tick staysD(1) [OF kernel_update_stays(2)])
  qed
  show ?thesis unfolding interrupt_entry_def
    using handler saved by (intro wp task_save_current_context_stays [THEN post_stays]) blast
qed

section \<open>Runs of the kernel\<close>

text \<open>
  The states of the task table that the kernel reaches: \<open>task_init\<close>, the creators of tasks, the
  first task made current, symbols exported and modules loaded by the boot code, and then
  interrupts; the devices may change at any time. An interrupt is taken while the current task is
  in state RUNNING; the parameters are the ports of the disk and the code of modules.
\<close>

inductive reaches :: "'d ports \<Rightarrow> ('d, 'a) kernel_scheme module_code \<Rightarrow> ('d, 'a) kernel_scheme \<Rightarrow> bool"
  for hw call where
  boot: "reaches hw call (task_init s)"
| create: "reaches hw call s \<Longrightarrow> reaches hw call (snd (task_create entry_pt s))"
| create_user: "reaches hw call s \<Longrightarrow> task_create_user entry_pt ustop ussize s = Some (r, u) \<Longrightarrow> reaches hw call u"
| create_elf: "reaches hw call s \<Longrightarrow>
    task_create_user_from_elf d n ustop ussize argv envp s = Some (r, u) \<Longrightarrow> reaches hw call u"
| create_binary: "reaches hw call s \<Longrightarrow>
    task_create_user_from_binary d n ustop ussize argv envp s = Some (r, u) \<Longrightarrow> reaches hw call u"
| start: "reaches hw call s \<Longrightarrow> current_task s = None \<Longrightarrow> t < TASK_MAX \<Longrightarrow>
    tstate (task_table s t) = TASK_READY \<Longrightarrow> reaches hw call (task_set_current (Some t) s)"
| interrupt: "reaches hw call s \<Longrightarrow> current_runs s \<Longrightarrow>
    interrupt_entry hw call scan_code saved_regs s = Some (c, rs, u) \<Longrightarrow> reaches hw call u"
| yield_call: "reaches hw call s \<Longrightarrow> reaches hw call (snd (task_yield s))"
| export_symbol: "reaches hw call s \<Longrightarrow> reaches hw call (snd (module_register_symbol name address s))"
| load_module: "reaches hw call s \<Longrightarrow> module_load call d z s = Some (r, u) \<Longrightarrow> reaches hw call u"
| drivers: "reaches hw call s \<Longrightarrow> reaches hw call (s\<lparr>files := f, keys := k, screen := c\<rparr>)"

lemma no_current_idle: "task_inv {} s \<Longrightarrow> current_task s = None \<Longrightarrow> idle s"
  by (auto simp: task_inv_def idle_def dest: schedD(4))

lemma reaches_inv:
  assumes "reaches hw call s" "well_behaved call"
  shows "task_inv {} s"
  using assms(1)
proof induction
  case (boot s)
  show ?case by (rule task_init_inv)
next
  case (create s entry_pt)
  then show ?case by (simp add: task_create_inv)
next
  case (create_user s entry_pt ustop ussize r u)
  then show ?case using postD [OF task_create_user_inv] by fastforce
next
  case (create_elf s d n ustop ussize argv envp r u)
  then show ?case using postD [OF task_create_user_from_elf_inv] by fastforce
next
  case (create_binary s d n ustop ussize argv envp r u)
  then show ?case using postD [OF task_create_user_from_binary_inv] by fastforce
next
  case (start s t)
  then show ?case using no_current_idle by (intro task_set_current_inv) auto
next
  case (interrupt s scan_code saved_regs c rs u)
  then show ?case using postD [OF interrupt_entry_inv [OF _ _ assms(2)]] by fastforce
next
  case (yield_call s)
  then show ?case by (simp add: task_yield_inv)
next
  case (export_symbol s name address)
  then show ?case
    by (cases name) (auto simp: module_register_symbol_def intro: staysD(1) [OF symbols_stays])
next
  case (load_module s d z r u)
  then show ?case using postD [OF module_load_stays [OF assms(2)]] by (fastforce dest: staysD(1))
next
  case (drivers s f k c)
  then show ?case by (intro staysD(1) [OF kernel_update_stays(1)] staysD(1) [OF kernel_update_stays(2)]
    staysD(1) [OF kernel_update_stays(3)])
qed

text \<open>The module code of the witnesses: there is none, a call does not return.\<close>

definition no_modules :: "('d, 'a) kernel_scheme module_code" where
  "no_modules a s = None"

lemma no_modules_ok: "well_behaved no_modules"
  by (simp add: well_behaved_def no_modules_def)







text \<open>
  A task that sleeps while no other task is ready goes on running: the handler returns NULL, so
  the interrupted code is resumed, with the task in state WAITING.
\<close>

theorem sleep_alone_resumes:
  assumes "sched {} s []" "current_task s = Some t" "tstate (task_table s t) = TASK_RUNNING"
    "7 < length saved_regs" "saved_regs ! 4 \<noteq> 0"
  shows "\<exists>rs u. syscall_handle_sleep saved_regs s = Some (None, rs, u)
    \<and> current_task u = Some t \<and> tstate (task_table u t) = TASK_WAITING"
proof -
  let ?u = "snd (sys_sleep (saved_regs ! 4) s)"
  have u: "current_task ?u = Some t" "tstate (task_table ?u t) = TASK_WAITING" "ready_list_head ?u = None"
    using assms schedD(1) [OF assms(1)] by (simp_all add: sys_sleep_def task_get_current_def Let_def is_ready_list_def)
  then have "task_schedule ?u = (None, ?u)"
    by (simp add: task_schedule_def requeue_current_def task_select_next_None)
  then show ?thesis using u assms(4)
    by (simp add: syscall_handle_sleep_def syscall_get_u32_arg_def reg_def syscall_set_return_value_def case_prod_beta Let_def)
qed

definition lone_kernel :: "(pio, unit) kernel_scheme" where
  "lone_kernel = demo_kernel\<lparr>task_table := (\<lambda>i. if i = 0 then demo_task 0 else demo_task 3),
     ready_list_head := None, ready_list_tail := None\<rparr>"

theorem sleep_alone_resumes_witness:
  "\<exists>rs u. syscall_handle_sleep [0, 0, 0, 0, 100, 0, 0, 7] lone_kernel = Some (None, rs, u)
    \<and> tstate (task_table u 0) = TASK_WAITING"
proof -
  have T: "task_table lone_kernel = (\<lambda>i. if i = 0 then demo_task 0 else demo_task 3)"
    "ready_list_head lone_kernel = None" "ready_list_tail lone_kernel = None" "current_task lone_kernel = Some 0"
    by (simp_all add: lone_kernel_def demo_kernel_def)
  have "sched {} lone_kernel []"
    by (rule schedI) (auto simp: is_ready_list_def ready_set_def T TASK_MAX_def split: if_splits)
  from sleep_alone_resumes [OF this, of 0 "[0, 0, 0, 0, 100, 0, 0, 7]"] T show ?thesis by auto
qed

end
