(* ===== verification/Descriptors.thy ===== *)
theory Descriptors
  imports Task
begin

text \<open>
  The descriptor tables of the processor: arch/i386/gdt.c with the task state segment, and
  arch/i386/idt.c. A table is a list of entries with the fields of the C structures; the bit
  fields of an access byte are booleans and the privilege level a word of two bits. How the
  processor reads a descriptor back (base, limit, privilege, gate target) is the specification:
  \<open>segment_base\<close>, \<open>segment_limit\<close>, \<open>gate_offset\<close> and their companions. Addresses of the tables and
  of the interrupt stubs of cpu.s, and the stack pointer, are arguments.
\<close>

section \<open>Segments\<close>

record gdt_access =
  accessed :: bool
  read_write :: bool
  conforming :: bool
  executable :: bool
  s_type :: bool
  dpl :: "2 word"
  present_bit :: bool

record gdt_gran =
  limit_high :: "4 word"
  available :: bool
  long_mode :: bool
  size_bit :: bool
  gran_bit :: bool

record gdt_entry =
  limit_low :: u16
  base_low :: u16
  base_middle :: u8
  access_byte :: u8
  granularity :: u8
  base_high :: u8

record gdt_tables =
  gdt :: "gdt_entry list"
  gp_size :: u16
  gp_address :: u32
  tss :: "u8 list"

definition bit_at :: "nat \<Rightarrow> bool \<Rightarrow> u8" where
  "bit_at n b = (if b then push_bit n 1 else 0)"

text \<open>The byte behind \<open>*(unsigned char *)&access\<close> and \<open>*(unsigned char *)&gran\<close>.\<close>

definition byte_of_access :: "gdt_access \<Rightarrow> u8" where
  "byte_of_access a = bit_at 0 (accessed a) OR bit_at 1 (read_write a) OR bit_at 2 (conforming a)
     OR bit_at 3 (executable a) OR bit_at 4 (s_type a) OR push_bit 5 (ucast (dpl a))
     OR bit_at 7 (present_bit a)"

definition byte_of_gran :: "gdt_gran \<Rightarrow> u8" where
  "byte_of_gran g = ucast (limit_high g) OR bit_at 4 (available g) OR bit_at 5 (long_mode g)
     OR bit_at 6 (size_bit g) OR bit_at 7 (gran_bit g)"

definition gdt_set_gate ::
  "nat \<Rightarrow> u32 \<Rightarrow> u32 \<Rightarrow> gdt_access \<Rightarrow> gdt_gran \<Rightarrow> gdt_tables \<Rightarrow> gdt_tables" where
  "gdt_set_gate num base limit acc gran t = t\<lparr>gdt := (gdt t)[num :=
     \<lparr>limit_low = ucast (limit AND 0xFFFF), base_low = ucast (base AND 0xFFFF),
      base_middle = ucast (drop_bit 16 base AND 0xFF), access_byte = byte_of_access acc,
      granularity = byte_of_gran (gran\<lparr>limit_high := ucast (drop_bit 16 limit AND 0x0F)\<rparr>),
      base_high = ucast (drop_bit 24 base AND 0xFF)\<rparr>]\<rparr>"

definition no_access :: gdt_access where
  "no_access = \<lparr>accessed = False, read_write = False, conforming = False, executable = False,
     s_type = False, dpl = 0, present_bit = False\<rparr>"

definition no_gran :: gdt_gran where
  "no_gran = \<lparr>limit_high = 0, available = False, long_mode = False, size_bit = False, gran_bit = False\<rparr>"

text \<open>A field of the packed task state segment, little endian.\<close>

definition put16 :: "nat \<Rightarrow> u16 \<Rightarrow> u8 list \<Rightarrow> u8 list" where
  "put16 i w bs = bs[i := ucast w, i + 1 := ucast (drop_bit 8 w)]"

definition put32 :: "nat \<Rightarrow> u32 \<Rightarrow> u8 list \<Rightarrow> u8 list" where
  "put32 i w bs = put16 (i + 2) (ucast (drop_bit 16 w)) (put16 i (ucast w) bs)"

definition TSS_SEG :: u32 where
  "TSS_SEG = 0x28"

text \<open>
  \<open>gdt_init\<close>: the addresses of the two objects and the stack pointer, then the table. The fields
  of \<open>struct tss_entry\<close> that are set are \<open>esp0\<close> at offset 4, \<open>ss0\<close> at 8 and \<open>iomap_base\<close> at 102.
\<close>

definition gdt_init :: "u32 \<Rightarrow> u32 \<Rightarrow> u32 \<Rightarrow> gdt_tables \<Rightarrow> gdt_tables" where
  "gdt_init gdt_addr tss_addr sp t = (
     let t0 = t\<lparr>gp_size := 8 * 6 - 1, gp_address := gdt_addr\<rparr>;
         t1 = gdt_set_gate 0 0 0 no_access no_gran t0;
         flat = no_gran\<lparr>gran_bit := True, size_bit := True\<rparr>;
         seg = no_access\<lparr>present_bit := True, s_type := True, read_write := True\<rparr>;
         t2 = gdt_set_gate 1 0 0xFFFFFFFF (seg\<lparr>dpl := 0, executable := True\<rparr>) flat t1;
         t3 = gdt_set_gate 2 0 0xFFFFFFFF (seg\<lparr>dpl := 0, executable := False\<rparr>) flat t2;
         t4 = gdt_set_gate 3 0 0xFFFFFFFF (seg\<lparr>dpl := 3, executable := True\<rparr>) flat t3;
         t5 = gdt_set_gate 4 0 0xFFFFFFFF (seg\<lparr>dpl := 3, executable := False\<rparr>) flat t4;
         t6 = gdt_set_gate 5 tss_addr (104 - 1)
                (no_access\<lparr>accessed := True, present_bit := True, dpl := 0, s_type := False,
                  executable := True, read_write := False\<rparr>) no_gran t5 in
     t6\<lparr>tss := put16 102 104 (put32 4 sp (put16 8 (ucast KERNEL_DATA_SEG) (replicate 104 0)))\<rparr>)"

section \<open>How the processor reads a segment descriptor\<close>

definition segment_base :: "gdt_entry \<Rightarrow> u32" where
  "segment_base e = ucast (base_low e) OR push_bit 16 (ucast (base_middle e)) OR push_bit 24 (ucast (base_high e))"

definition raw_limit :: "gdt_entry \<Rightarrow> u32" where
  "raw_limit e = ucast (limit_low e) OR push_bit 16 (ucast (granularity e AND 0x0F))"

definition segment_limit :: "gdt_entry \<Rightarrow> u32" where
  "segment_limit e = (if bit (granularity e) 7 then push_bit 12 (raw_limit e) OR 0xFFF else raw_limit e)"

definition segment_dpl :: "gdt_entry \<Rightarrow> u8" where
  "segment_dpl e = drop_bit 5 (access_byte e) AND 3"

definition segment_present :: "gdt_entry \<Rightarrow> bool" where
  "segment_present e = bit (access_byte e) 7"

definition segment_type :: "gdt_entry \<Rightarrow> u8" where
  "segment_type e = access_byte e AND 0x1F"

text \<open>A selector: index, table bit (0 for the GDT) and requested privilege level.\<close>

definition selected :: "u32 \<Rightarrow> gdt_tables \<Rightarrow> gdt_entry option" where
  "selected sel t =
     (if bit sel 2 \<or> (sel OR 7) > ucast (gp_size t) then None else Some (gdt t ! unat (drop_bit 3 sel)))"

definition get16 :: "nat \<Rightarrow> u8 list \<Rightarrow> u16" where
  "get16 i bs = ucast (bs ! i) OR push_bit 8 (ucast (bs ! (i + 1)))"

definition get32 :: "nat \<Rightarrow> u8 list \<Rightarrow> u32" where
  "get32 i bs = ucast (get16 i bs) OR push_bit 16 (ucast (get16 (i + 2) bs))"

section \<open>Interrupt gates\<close>

record idt_entry =
  offset_low :: u16
  selector :: u16
  zero :: u8
  type_attr :: u8
  offset_high :: u16

record idt_tables =
  idt :: "idt_entry list"
  idt_limit :: u16
  idt_base :: u32

definition idt_set_gate :: "u8 \<Rightarrow> u32 \<Rightarrow> u16 \<Rightarrow> u8 \<Rightarrow> idt_tables \<Rightarrow> idt_tables" where
  "idt_set_gate num base sel flags t = t\<lparr>idt := (idt t)[unat num :=
     \<lparr>offset_low = ucast (base AND 0xFFFF), selector = sel, zero = 0, type_attr = flags,
      offset_high = ucast (drop_bit 16 base AND 0xFFFF)\<rparr>]\<rparr>"

primrec clear_gates :: "nat \<Rightarrow> u8 \<Rightarrow> idt_tables \<Rightarrow> idt_tables" where
  "clear_gates 0 i t = t"
| "clear_gates (Suc n) i t = clear_gates n (i + 1) (idt_set_gate i 0 0 0 t)"

definition idt_init :: "u32 \<Rightarrow> u32 \<Rightarrow> u32 \<Rightarrow> u32 \<Rightarrow> u32 \<Rightarrow> idt_tables \<Rightarrow> idt_tables" where
  "idt_init idt_addr handler_14 handler_32 handler_33 handler_128 t = (
     let t0 = clear_gates 256 0 (t\<lparr>idt_limit := 8 * 256 - 1, idt_base := idt_addr\<rparr>);
         t1 = idt_set_gate 32 handler_32 0x08 0x8E t0;
         t2 = idt_set_gate 33 handler_33 0x08 0x8E t1;
         t3 = idt_set_gate 14 handler_14 0x08 0x8E t2 in
     idt_set_gate 128 handler_128 0x08 0xEE t3)"

definition gate_used :: "idt_entry \<Rightarrow> bool" where
  "gate_used e \<longleftrightarrow> offset_low e \<noteq> 0 \<or> offset_high e \<noteq> 0"

primrec count_used :: "nat \<Rightarrow> nat \<Rightarrow> u32 \<Rightarrow> idt_tables \<Rightarrow> u32" where
  "count_used 0 i count t = count"
| "count_used (Suc n) i count t =
     count_used n (i + 1) (if gate_used (idt t ! i) then count + 1 else count) t"

definition idt_get_used_entries :: "idt_tables \<Rightarrow> u32" where
  "idt_get_used_entries t = count_used 256 0 0 t"

text \<open>The numbers written to the caller's array, whose length is \<open>max_count\<close>.\<close>

primrec collect_used :: "nat \<Rightarrow> nat \<Rightarrow> u32 list \<Rightarrow> u32 \<Rightarrow> idt_tables \<Rightarrow> u32 list" where
  "collect_used 0 i found max_count t = found"
| "collect_used (Suc n) i found max_count t =
     (if of_nat (length found) < max_count
      then collect_used n (i + 1) (if gate_used (idt t ! i) then found @ [of_nat i] else found) max_count t
      else found)"

definition idt_get_configured_interrupts :: "u32 \<Rightarrow> idt_tables \<Rightarrow> u32 list" where
  "idt_get_configured_interrupts max_count t = collect_used 256 0 [] max_count t"

definition gate_offset :: "idt_entry \<Rightarrow> u32" where
  "gate_offset e = ucast (offset_low e) OR push_bit 16 (ucast (offset_high e))"

definition gate_present :: "idt_entry \<Rightarrow> bool" where
  "gate_present e = bit (type_attr e) 7"

definition gate_dpl :: "idt_entry \<Rightarrow> u8" where
  "gate_dpl e = drop_bit 5 (type_attr e) AND 3"

definition gate_type :: "idt_entry \<Rightarrow> u8" where
  "gate_type e = type_attr e AND 0x0F"

section \<open>Reading back what was written\<close>

lemma split_base:
  fixes b :: u32
  shows "ucast (ucast (b AND 0xFFFF) :: u16) OR push_bit 16 (ucast (ucast (drop_bit 16 b AND 0xFF) :: u8))
    OR push_bit 24 (ucast (ucast (drop_bit 24 b AND 0xFF) :: u8)) = b" (is "?l = b")
proof (rule bit_word_eqI)
  have m: "(0xFFFF :: u32) = mask 16" "(0xFF :: u32) = mask 8" by (simp_all add: mask_eq_exp_minus_1)
  fix n
  assume "n < LENGTH(32)"
  then consider "n < 16" | "16 \<le> n" "n < 24" | "24 \<le> n" "n < 32" by fastforce
  then show "bit ?l n = bit b n" unfolding m by cases (auto simp: bit_simps)
qed

lemma split_limit:
  fixes l :: u32
  shows "ucast (ucast (l AND 0xFFFF) :: u16) OR
    push_bit 16 (ucast (ucast (ucast (drop_bit 16 l AND 0x0F) :: 4 word) :: u8)) = take_bit 20 l" (is "?l = _")
proof (rule bit_word_eqI)
  have m: "(0xFFFF :: u32) = mask 16" "(0x0F :: u32) = mask 4" by (simp_all add: mask_eq_exp_minus_1)
  fix n
  assume "n < LENGTH(32)"
  then consider "n < 16" | "16 \<le> n" "n < 20" | "20 \<le> n" "n < 32" by fastforce
  then show "bit ?l n = bit (take_bit 20 l) n" unfolding m by cases (auto simp: bit_simps)
qed

lemma split_offset:
  fixes b :: u32
  shows "ucast (ucast (b AND 0xFFFF) :: u16) OR push_bit 16 (ucast (ucast (drop_bit 16 b AND 0xFFFF) :: u16)) = b"
    (is "?l = b")
proof (rule bit_word_eqI)
  have m: "(0xFFFF :: u32) = mask 16" by (simp add: mask_eq_exp_minus_1)
  fix n
  assume "n < LENGTH(32)"
  then consider "n < 16" | "16 \<le> n" "n < 32" by fastforce
  then show "bit ?l n = bit b n" unfolding m by cases (auto simp: bit_simps)
qed

lemma get_put16:
  "i + 1 < length bs \<Longrightarrow> get16 i (put16 i w bs) = w"
  "j + 1 < i \<or> i + 1 < j \<Longrightarrow> get16 j (put16 i w bs) = get16 j bs"
proof -
  show "get16 i (put16 i w bs) = w" if "i + 1 < length bs"
    using that by (simp add: get16_def put16_def) (rule bit_word_eqI; auto simp: bit_simps)
qed (auto simp: get16_def put16_def)

lemma length_put [simp]: "length (put16 i w bs) = length bs" "length (put32 i v bs) = length bs"
  by (simp_all add: put16_def put32_def)

lemma get_put32: "i + 3 < length bs \<Longrightarrow> get32 i (put32 i w bs) = w"
  by (simp add: get32_def put32_def get_put16) (rule bit_word_eqI; auto simp: bit_simps)

lemma get_put16_32:
  "j + 1 < i \<or> i + 3 < j \<Longrightarrow> get16 j (put32 i w bs) = get16 j bs"
  "j + 3 < i \<or> i + 1 < j \<Longrightarrow> get32 j (put16 i v bs) = get32 j bs"
  by (auto simp: get32_def put32_def get_put16)

lemma bit_bit_at: "bit (bit_at n b) k \<longleftrightarrow> b \<and> k = n \<and> k < 8"
  by (auto simp: bit_at_def bit_simps)

lemma gran_byte:
  "byte_of_gran g AND 0x0F = ucast (limit_high g)" "bit (byte_of_gran g) 7 = gran_bit g"
proof -
  have m: "(0x0F :: u8) = mask 4" by (simp add: mask_eq_exp_minus_1)
  show "byte_of_gran g AND 0x0F = ucast (limit_high g)" unfolding m
    by (rule bit_word_eqI) (auto simp: bit_simps byte_of_gran_def bit_bit_at dest: bit_imp_le_length)
  show "bit (byte_of_gran g) 7 = gran_bit g"
    by (auto simp: bit_simps byte_of_gran_def bit_bit_at dest: bit_imp_le_length)
qed

lemma access_byte_dpl:
  "drop_bit 5 (byte_of_access a) AND 3 = ucast (dpl a)" "bit (byte_of_access a) 7 = present_bit a"
proof -
  have m: "(3 :: u8) = mask 2" by (simp add: mask_eq_exp_minus_1)
  show "drop_bit 5 (byte_of_access a) AND 3 = ucast (dpl a)" unfolding m
    by (rule bit_word_eqI) (auto simp: bit_simps byte_of_access_def bit_bit_at dest: bit_imp_le_length)
  show "bit (byte_of_access a) 7 = present_bit a"
    by (auto simp: bit_simps byte_of_access_def bit_bit_at dest: bit_imp_le_length)
qed

lemma gdt_set_gate_reads:
  assumes "num < length (gdt t)"
  shows "segment_base (gdt (gdt_set_gate num base limit acc gran t) ! num) = base"
    "raw_limit (gdt (gdt_set_gate num base limit acc gran t) ! num) = take_bit 20 limit"
    "segment_limit (gdt (gdt_set_gate num base limit acc gran t) ! num) =
       (if gran_bit gran then push_bit 12 (take_bit 20 limit) OR 0xFFF else take_bit 20 limit)"
    "segment_dpl (gdt (gdt_set_gate num base limit acc gran t) ! num) = ucast (dpl acc)"
    "segment_present (gdt (gdt_set_gate num base limit acc gran t) ! num) = present_bit acc"
    "segment_type (gdt (gdt_set_gate num base limit acc gran t) ! num) = byte_of_access acc AND 0x1F"
  using assms split_base [of base] split_limit [of limit]
  by (simp_all add: gdt_set_gate_def segment_base_def raw_limit_def segment_limit_def segment_dpl_def
      segment_present_def segment_type_def gran_byte access_byte_dpl)

lemma gdt_set_gate_frame [simp]:
  "length (gdt (gdt_set_gate num base limit acc gran t)) = length (gdt t)"
  "n \<noteq> num \<Longrightarrow> gdt (gdt_set_gate num base limit acc gran t) ! n = gdt t ! n"
  "gp_size (gdt_set_gate num base limit acc gran t) = gp_size t"
  by (simp_all add: gdt_set_gate_def)

lemma idt_set_gate_reads:
  assumes "unat v < length (idt t)"
  shows "gate_offset (idt (idt_set_gate v base sel flags t) ! unat v) = base"
    "selector (idt (idt_set_gate v base sel flags t) ! unat v) = sel"
    "type_attr (idt (idt_set_gate v base sel flags t) ! unat v) = flags"
    "gate_used (idt (idt_set_gate v base sel flags t) ! unat v) \<longleftrightarrow> base \<noteq> 0"
proof -
  show "gate_offset (idt (idt_set_gate v base sel flags t) ! unat v) = base"
    using assms split_offset [of base] by (simp add: idt_set_gate_def gate_offset_def)
  then show "gate_used (idt (idt_set_gate v base sel flags t) ! unat v) \<longleftrightarrow> base \<noteq> 0"
    using assms by (auto simp: gate_used_def gate_offset_def idt_set_gate_def)
qed (use assms in \<open>simp_all add: idt_set_gate_def\<close>)

lemma idt_set_gate_frame [simp]:
  "length (idt (idt_set_gate v base sel flags t)) = length (idt t)"
  "n \<noteq> unat v \<Longrightarrow> idt (idt_set_gate v base sel flags t) ! n = idt t ! n"
  by (simp_all add: idt_set_gate_def)

lemma clear_gates_spec:
  assumes "unat i + n \<le> 256" "length (idt t) = 256"
  shows "length (idt (clear_gates n i t)) = 256"
    and "\<And>v. v < 256 \<Longrightarrow> idt (clear_gates n i t) ! v =
      (if unat i \<le> v \<and> v < unat i + n then \<lparr>offset_low = 0, selector = 0, zero = 0, type_attr = 0, offset_high = 0\<rparr>
       else idt t ! v)"
  using assms
proof (induction n arbitrary: i t)
  case (Suc n)
  { case 1
    then show ?case
      by (cases "n = 0") (simp_all add: Suc.IH(1) unat_word_ariths unat_plus_simple)
  next
    case 2
    show ?case
    proof (cases "n = 0")
      case True
      then show ?thesis using 2 by (auto simp: idt_set_gate_def nth_list_update)
    next
      case False
      then have "unat (i + 1) = unat i + 1" using 2 by (simp add: unat_word_ariths)
      then show ?thesis
        using 2 Suc.IH(2) [where i = "i + 1" and t = "idt_set_gate i 0 0 0 t" and v = v] by (auto simp: idt_set_gate_def nth_list_update)
    qed
  }
qed auto

lemma count_used_eq:
  "count_used n i c t = c + of_nat (length (filter (\<lambda>j. gate_used (idt t ! j)) [i..<i + n]))"
  by (induction n arbitrary: i c) (simp_all add: upt_conv_Cons del: upt_Suc)

lemma collect_used_eq:
  assumes "length found \<le> unat max_count" "i + n \<le> 256"
  shows "collect_used n i found max_count t =
    take (unat max_count) (found @ map of_nat (filter (\<lambda>j. gate_used (idt t ! j)) [i..<i + n]))"
  using assms
proof (induction n arbitrary: i found)
  case (Suc n)
  show ?case
  proof (cases "length found < unat max_count")
    case True
    then have "of_nat (length found) < max_count"
      using unat_lt_2p32 [of max_count] by (simp add: word_less_nat_alt unat_of_nat_u32)
    then show ?thesis using True Suc by (simp add: upt_conv_Cons take_Cons' del: upt_Suc)
  next
    case False
    then have e: "unat max_count = length found" using Suc.prems by simp
    then have "\<not> of_nat (length found) < max_count" by (simp flip: e)
    then show ?thesis using e by simp
  qed
qed simp

section \<open>The tables the kernel loads\<close>

definition flat_segment :: "u32 \<Rightarrow> bool \<Rightarrow> gdt_tables \<Rightarrow> bool" where
  "flat_segment sel code t =
     (case selected sel t of
        None \<Rightarrow> False
      | Some e \<Rightarrow> segment_present e \<and> segment_base e = 0 \<and> segment_limit e = 0xFFFFFFFF
          \<and> segment_dpl e = ucast (sel AND 3) \<and> segment_type e = (if code then 0x1A else 0x12))"

definition tss_segment :: "u32 \<Rightarrow> u32 \<Rightarrow> gdt_tables \<Rightarrow> bool" where
  "tss_segment sel addr t =
     (case selected sel t of
        None \<Rightarrow> False
      | Some e \<Rightarrow> segment_present e \<and> segment_base e = addr \<and> segment_limit e = 103
          \<and> segment_dpl e = 0 \<and> segment_type e = 9)"

lemmas gdt_eval = gdt_init_def Let_def selected_def no_access_def no_gran_def gdt_set_gate_reads
  KERNEL_CODE_SEG_def KERNEL_DATA_SEG_def USER_CODE_SEG_def USER_DATA_SEG_def TSS_SEG_def
  byte_of_access_def bit_at_def

text \<open>
  C36: After \<open>gdt_init\<close> the four segment selectors of the kernel name present segments that span
  the whole address space from 0, with the privilege level of the selector, executable or
  writable as their names say; the task register selects the task state segment, whose
  ring 0 stack is the given one in the kernel data segment.
\<close>

theorem gdt_init_correct:
  assumes "length (gdt t) = 12" "u = gdt_init gdt_addr tss_addr sp t"
  shows "flat_segment KERNEL_CODE_SEG True u \<and> flat_segment KERNEL_DATA_SEG False u
    \<and> flat_segment USER_CODE_SEG True u \<and> flat_segment USER_DATA_SEG False u
    \<and> tss_segment TSS_SEG tss_addr u
    \<and> get32 4 (tss u) = sp \<and> get16 8 (tss u) = ucast KERNEL_DATA_SEG \<and> get16 102 (tss u) = 104"
proof -
  have "flat_segment KERNEL_CODE_SEG True u" "flat_segment KERNEL_DATA_SEG False u"
    "flat_segment USER_CODE_SEG True u" "flat_segment USER_DATA_SEG False u" "tss_segment TSS_SEG tss_addr u"
    using assms by (simp_all add: flat_segment_def tss_segment_def gdt_eval)
  moreover have "tss u = put16 102 104 (put32 4 sp (put16 8 (ucast KERNEL_DATA_SEG) (replicate 104 0)))"
    using assms(2) by (simp add: gdt_init_def Let_def)
  ultimately show ?thesis by (simp add: get_put16 get_put32 get_put16_32)
qed

definition boot_gdt :: gdt_tables where
  "boot_gdt = \<lparr>gdt = replicate 12 \<lparr>limit_low = 0, base_low = 0, base_middle = 0, access_byte = 0,
     granularity = 0, base_high = 0\<rparr>, gp_size = 0, gp_address = 0, tss = replicate 104 0\<rparr>"

theorem gdt_init_correct_witness:
  "flat_segment USER_CODE_SEG True (gdt_init 0xC0110000 0xC0110100 0xC0200000 boot_gdt)
   \<and> get32 4 (tss (gdt_init 0xC0110000 0xC0110100 0xC0200000 boot_gdt)) = 0xC0200000"
  using gdt_init_correct [of boot_gdt _ "0xC0110000" "0xC0110100" "0xC0200000", OF _ refl]
  by (simp add: boot_gdt_def)

text \<open>The gate of a vector: where it leads, and with which privilege it may be called.\<close>

definition interrupt_gate :: "nat \<Rightarrow> u32 \<Rightarrow> u8 \<Rightarrow> idt_tables \<Rightarrow> bool" where
  "interrupt_gate v handler level t \<longleftrightarrow> gate_present (idt t ! v) \<and> gate_offset (idt t ! v) = handler
     \<and> selector (idt t ! v) = ucast KERNEL_CODE_SEG \<and> gate_dpl (idt t ! v) = level \<and> gate_type (idt t ! v) = 0xE"

lemma idt_init_gates:
  assumes "length (idt t) = 256" "u = idt_init idt_addr h14 h32 h33 h128 t"
  shows "interrupt_gate 14 h14 0 u" "interrupt_gate 32 h32 0 u" "interrupt_gate 33 h33 0 u"
    "interrupt_gate 128 h128 3 u"
    "v < 256 \<Longrightarrow> v \<notin> {14, 32, 33, 128} \<Longrightarrow> \<not> gate_present (idt u ! v) \<and> \<not> gate_used (idt u ! v)"
    "gate_used (idt u ! 14) \<longleftrightarrow> h14 \<noteq> 0" "gate_used (idt u ! 32) \<longleftrightarrow> h32 \<noteq> 0"
    "gate_used (idt u ! 33) \<longleftrightarrow> h33 \<noteq> 0" "gate_used (idt u ! 128) \<longleftrightarrow> h128 \<noteq> 0"
proof -
  let ?t = "t\<lparr>idt_limit := 8 * 256 - 1, idt_base := idt_addr\<rparr>"
  have c: "length (idt (clear_gates 256 0 ?t)) = 256"
    "\<And>v. v < 256 \<Longrightarrow> idt (clear_gates 256 0 ?t) ! v =
       \<lparr>offset_low = 0, selector = 0, zero = 0, type_attr = 0, offset_high = 0\<rparr>"
    using assms(1) clear_gates_spec [of 0 256 ?t] by simp_all
  note r = idt_set_gate_reads [of 14] idt_set_gate_reads [of 32] idt_set_gate_reads [of 33]
    idt_set_gate_reads [of 128]
  show "interrupt_gate 14 h14 0 u" "interrupt_gate 32 h32 0 u" "interrupt_gate 33 h33 0 u"
    "interrupt_gate 128 h128 3 u"
    "gate_used (idt u ! 14) \<longleftrightarrow> h14 \<noteq> 0" "gate_used (idt u ! 32) \<longleftrightarrow> h32 \<noteq> 0"
    "gate_used (idt u ! 33) \<longleftrightarrow> h33 \<noteq> 0" "gate_used (idt u ! 128) \<longleftrightarrow> h128 \<noteq> 0"
    using assms(2) r c(1)
    by (simp_all add: idt_init_def Let_def interrupt_gate_def gate_present_def gate_dpl_def gate_type_def
        KERNEL_CODE_SEG_def)
  show "\<not> gate_present (idt u ! v) \<and> \<not> gate_used (idt u ! v)" if "v < 256" "v \<notin> {14, 32, 33, 128}"
    using assms(2) c(2) [OF that(1)] that(2)
    by (simp add: idt_init_def Let_def gate_present_def gate_used_def)
qed

lemma used_vectors:
  assumes "\<And>v. v < 256 \<Longrightarrow> P v \<longleftrightarrow> v \<in> {14, 32, 33, 128}"
  shows "filter P [0..<256] = [14, 32, 33, 128]"
proof -
  have "filter P [0..<256] = filter (\<lambda>v. v \<in> {14, 32, 33, 128}) [0..<256]"
    using assms by (intro filter_cong) auto
  also have "\<dots> = [14, 32, 33, 128]" by code_simp
  finally show ?thesis .
qed

text \<open>
  C37: After \<open>idt_init\<close> exactly the vectors of page fault, timer, keyboard and system call have a
  gate, each leads to its stub in the kernel code segment with interrupts disabled, and only
  the system call may be raised by user code; the two reports on the table agree with it.
\<close>

theorem idt_init_correct:
  assumes "length (idt t) = 256" "u = idt_init idt_addr h14 h32 h33 h128 t"
    "h14 \<noteq> 0" "h32 \<noteq> 0" "h33 \<noteq> 0" "h128 \<noteq> 0"
  shows "interrupt_gate 14 h14 0 u \<and> interrupt_gate 32 h32 0 u \<and> interrupt_gate 33 h33 0 u
    \<and> interrupt_gate 128 h128 3 u
    \<and> (\<forall>v < 256. gate_present (idt u ! v) \<longleftrightarrow> v \<in> {14, 32, 33, 128})
    \<and> idt_get_used_entries u = 4
    \<and> idt_get_configured_interrupts n u = take (unat n) [14, 32, 33, 128]"
proof -
  note g = idt_init_gates [OF assms(1,2)]
  have "gate_used (idt u ! v) \<longleftrightarrow> v \<in> {14, 32, 33, 128}" if "v < 256" for v
    using g(5) [OF that] g(6-) assms(3-) by auto
  then have f: "filter (\<lambda>v. gate_used (idt u ! v)) [0..<256] = [14, 32, 33, 128]" by (rule used_vectors)
  have "gate_present (idt u ! v) \<longleftrightarrow> v \<in> {14, 32, 33, 128}" if "v < 256" for v
    using g(1-4) g(5) [OF that] by (auto simp: interrupt_gate_def)
  then show ?thesis
    using g(1-4) f by (simp add: idt_get_used_entries_def count_used_eq idt_get_configured_interrupts_def
        collect_used_eq)
qed

definition boot_idt :: idt_tables where
  "boot_idt = \<lparr>idt = replicate 256 \<lparr>offset_low = 1, selector = 2, zero = 3, type_attr = 4, offset_high = 5\<rparr>,
     idt_limit = 0, idt_base = 0\<rparr>"

theorem idt_init_correct_witness:
  "idt_get_used_entries (idt_init 0xC0111000 0xC0100100 0xC0100200 0xC0100300 0xC0100400 boot_idt) = 4
   \<and> interrupt_gate 128 0xC0100400 3 (idt_init 0xC0111000 0xC0100100 0xC0100200 0xC0100300 0xC0100400 boot_idt)"
  using idt_init_correct [of boot_idt _ "0xC0111000" "0xC0100100" "0xC0100200" "0xC0100300" "0xC0100400", OF _ refl]
  by (simp add: boot_idt_def)

end
