(* ===== verification/Devices.thy ===== *)
theory Devices
  imports Descriptors Block Console
begin

text \<open>
  The interrupt controllers arch/i386/pic.c, the serial line drivers/serial.c, the programming of
  the interval timer in drivers/timer.c and the kernel log kernel/log.c. As in \<open>Block\<close> the ports
  are an argument of the code; the statements are about two 8259 controllers and a 16550 UART
  behind the ports, emulated at the level of their registers. The log is written over the
  serial line of \<open>Console\<close>, and the port-level loop is shown to implement that line.
\<close>

section \<open>Interrupt controllers\<close>

definition PIC1_COMMAND :: u16 where "PIC1_COMMAND = 0x20"

definition PIC1_DATA :: u16 where "PIC1_DATA = 0x21"

definition PIC2_COMMAND :: u16 where "PIC2_COMMAND = 0xA0"

definition PIC2_DATA :: u16 where "PIC2_DATA = 0xA1"

lemmas pic_port_defs = PIC1_COMMAND_def PIC1_DATA_def PIC2_COMMAND_def PIC2_DATA_def

definition pic_remap :: "'d ports \<Rightarrow> 'd \<Rightarrow> 'd" where
  "pic_remap hw d = (
     let (a1, d1) = p_inb hw PIC1_DATA d;
         (a2, d2) = p_inb hw PIC2_DATA d1;
         d3 = p_outb hw PIC2_COMMAND 0x11 (p_outb hw PIC1_COMMAND 0x11 d2);
         d4 = p_outb hw PIC2_DATA 0x28 (p_outb hw PIC1_DATA 0x20 d3);
         d5 = p_outb hw PIC2_DATA 0x02 (p_outb hw PIC1_DATA 0x04 d4);
         d6 = p_outb hw PIC2_DATA 0x01 (p_outb hw PIC1_DATA 0x01 d5) in
     p_outb hw PIC2_DATA a2 (p_outb hw PIC1_DATA a1 d6))"

definition pic_disable_all_irq :: "'d ports \<Rightarrow> 'd \<Rightarrow> 'd" where
  "pic_disable_all_irq hw d = p_outb hw PIC2_DATA 0xFF (p_outb hw PIC1_DATA 0xFF d)"

function pic_enable_irq :: "'d ports \<Rightarrow> u8 \<Rightarrow> 'd \<Rightarrow> 'd" where
  "pic_enable_irq hw irq d = (
     let (port, line, d1) =
           (if irq < 8 then (PIC1_DATA, irq, d) else (PIC2_DATA, irq - 8, pic_enable_irq hw 2 d));
         (v, d2) = p_inb hw port d1 in
     p_outb hw port (v AND NOT (push_bit (unat line) 1)) d2)"
  by pat_completeness auto

termination pic_enable_irq
  by (relation "measure (\<lambda>(hw, irq, d). if irq < 8 then 0 else 1)") auto

declare pic_enable_irq.simps [simp del]

definition pic_sendEOI :: "'d ports \<Rightarrow> u32 \<Rightarrow> 'd \<Rightarrow> 'd" where
  "pic_sendEOI hw interrupt d =
     (if interrupt < 0x20 \<or> interrupt > 0x2F then d
      else
        let d1 = (if interrupt \<ge> 0x28 \<and> interrupt \<le> 0x2F then p_outb hw PIC2_COMMAND 0x20 d else d) in
        p_outb hw PIC1_COMMAND 0x20 d1)"

section \<open>The serial line\<close>

definition serial_configure_baud_rate :: "'d ports \<Rightarrow> u16 \<Rightarrow> u16 \<Rightarrow> 'd \<Rightarrow> 'd" where
  "serial_configure_baud_rate hw com_base divisor d = (
     let d1 = p_outb hw (com_base + 3) 0x80 d;
         d2 = p_outb hw com_base (ucast (drop_bit 8 divisor AND 0x00FF)) d1 in
     p_outb hw com_base (ucast (divisor AND 0x00FF)) d2)"

definition serial_init :: "'d ports \<Rightarrow> u16 \<Rightarrow> 'd \<Rightarrow> int \<times> 'd" where
  "serial_init hw com_base d = (
     let d1 = p_outb hw (com_base + 1) 0x00 d;
         d2 = serial_configure_baud_rate hw com_base 3 d1;
         d3 = p_outb hw (com_base + 3) 0x03 d2;
         d4 = p_outb hw (com_base + 2) 0xC7 d3;
         d5 = p_outb hw (com_base + 4) 0x03 d4;
         d6 = p_outb hw (com_base + 4) 0x1E d5;
         d7 = p_outb hw com_base 0xAE d6;
         (v, d8) = p_inb hw com_base d7 in
     if v \<noteq> 0xAE then (1, d8) else (0, p_outb hw (com_base + 4) 0x0F d8))"

definition serial_is_faulty :: "'d ports \<Rightarrow> u16 \<Rightarrow> 'd \<Rightarrow> int \<times> 'd" where
  "serial_is_faulty hw com_base d = (
     let d1 = p_outb hw (com_base + 4) 0x1E d;
         d2 = p_outb hw com_base 0xAE d1;
         (v, d3) = p_inb hw com_base d2 in
     if v \<noteq> 0xAE then (1, d3) else (0, d3))"

definition serial_is_transmit_fifo_empty :: "'d ports \<Rightarrow> u16 \<Rightarrow> 'd \<Rightarrow> u8 \<times> 'd" where
  "serial_is_transmit_fifo_empty hw com_base d = (
     let (v, d1) = p_inb hw (com_base + 5) d in (v AND 0x20, d1))"

partial_function (option) serial_write_char :: "'d ports \<Rightarrow> u16 \<Rightarrow> char \<Rightarrow> 'd \<Rightarrow> 'd option" where
  "serial_write_char hw com_base a d = (
     let (e, d1) = serial_is_transmit_fifo_empty hw com_base d in
     if e = 0 then serial_write_char hw com_base a d1 else Some (p_outb hw com_base (of_char a) d1))"

text \<open>\<open>serial_write\<close> on the ports: the characters up to the terminator, which the list need not hold.\<close>

primrec serial_write_loop :: "'d ports \<Rightarrow> u16 \<Rightarrow> string \<Rightarrow> 'd \<Rightarrow> 'd option" where
  "serial_write_loop hw com_base [] d = Some d"
| "serial_write_loop hw com_base (c # str) d =
     (if c = NUL then Some d
      else do { d1 \<leftarrow> serial_write_char hw com_base c d; serial_write_loop hw com_base str d1 })"

section \<open>Timer and log\<close>

definition timer_init :: "'d ports \<Rightarrow> u32 \<Rightarrow> 'd \<Rightarrow> 'd" where
  "timer_init hw frequency d =
     (if frequency = 0 then d
      else
        let divisor = 1193180 div frequency in
        p_outb hw 0x40 (ucast (drop_bit 8 divisor AND 0xFF))
          (p_outb hw 0x40 (ucast (divisor AND 0xFF)) (p_outb hw 0x43 0x36 d)))"

definition level_tags :: "string list" where
  "level_tags = [''[DEBUG] '', ''[INFO] '', ''[WARNING] '', ''[ERROR] '', ''[FATAL] '']"

definition printk :: "int \<Rightarrow> string \<Rightarrow> varg list \<Rightarrow> console \<Rightarrow> console option" where
  "printk level fmt args s = do {
     let s1 = (if level \<ge> 0 \<and> level \<le> 4 then serial_write (level_tags ! nat level) s else s);
     (len, buf) \<leftarrow> vsprintf (replicate 1024 (CHR 0xFF)) fmt args;
     Some (serial_write [CHR 0x0A] (serial_write buf s1))
   }"

section \<open>Two 8259 controllers\<close>

text \<open>
  The initialisation words still expected, the vector base, the cascade word, the mask register
  and the number of end-of-interrupt commands received.
\<close>

record pic_chip =
  icw :: nat
  vector :: u8
  cascade :: u8
  imr :: u8
  eois :: nat

record pics =
  master :: pic_chip
  slave :: pic_chip

definition chip_command :: "u8 \<Rightarrow> pic_chip \<Rightarrow> pic_chip" where
  "chip_command v c = (if bit v 4 then c\<lparr>icw := 3, imr := 0\<rparr> else if v = 0x20 then c\<lparr>eois := eois c + 1\<rparr> else c)"

definition chip_data :: "u8 \<Rightarrow> pic_chip \<Rightarrow> pic_chip" where
  "chip_data v c =
     (if icw c = 3 then c\<lparr>icw := 2, vector := v AND 0xF8\<rparr>
      else if icw c = 2 then c\<lparr>icw := 1, cascade := v\<rparr>
      else if icw c = 1 then c\<lparr>icw := 0\<rparr>
      else c\<lparr>imr := v\<rparr>)"

definition pic_outb :: "u16 \<Rightarrow> u8 \<Rightarrow> pics \<Rightarrow> pics" where
  "pic_outb p v d =
     (if p = 0x20 then d\<lparr>master := chip_command v (master d)\<rparr>
      else if p = 0x21 then d\<lparr>master := chip_data v (master d)\<rparr>
      else if p = 0xA0 then d\<lparr>slave := chip_command v (slave d)\<rparr>
      else if p = 0xA1 then d\<lparr>slave := chip_data v (slave d)\<rparr>
      else d)"

definition pic_inb :: "u16 \<Rightarrow> pics \<Rightarrow> u8 \<times> pics" where
  "pic_inb p d = (if p = 0x21 then imr (master d) else if p = 0xA1 then imr (slave d) else 0, d)"

definition pic_ports :: "pics ports" where
  "pic_ports = \<lparr>p_inb = pic_inb, p_inw = (\<lambda>p d. (0, d)), p_outb = pic_outb, p_outw = (\<lambda>p w d. d)\<rparr>"

text \<open>Whether an interrupt line gets through, and the vector it raises.\<close>

definition irq_enabled :: "nat \<Rightarrow> pics \<Rightarrow> bool" where
  "irq_enabled irq d \<longleftrightarrow>
     (if irq < 8 then \<not> bit (imr (master d)) irq
      else \<not> bit (imr (slave d)) (irq - 8) \<and> \<not> bit (imr (master d)) 2)"

definition irq_vector :: "nat \<Rightarrow> pics \<Rightarrow> u8" where
  "irq_vector irq d =
     (if irq < 8 then vector (master d) OR of_nat irq else vector (slave d) OR of_nat (irq - 8))"

lemma pic_ports_simps [simp]:
  "p_inb pic_ports = pic_inb" "p_outb pic_ports = pic_outb"
  by (simp_all add: pic_ports_def)

lemma pic_remap_eq:
  "pic_remap pic_ports d =
     \<lparr>master = (master d)\<lparr>icw := 0, vector := 0x20, cascade := 4\<rparr>,
      slave = (slave d)\<lparr>icw := 0, vector := 0x28, cascade := 2\<rparr>\<rparr>"
  by (cases d; cases "master d"; cases "slave d"; simp add: pic_remap_def Let_def pic_port_defs pic_inb_def pic_outb_def chip_command_def chip_data_def)

definition operating :: "pics \<Rightarrow> bool" where
  "operating d \<longleftrightarrow> icw (master d) = 0 \<and> icw (slave d) = 0"

lemma pic_mask_ports:
  "operating d \<Longrightarrow> pic_outb PIC1_DATA v d = d\<lparr>master := (master d)\<lparr>imr := v\<rparr>\<rparr>"
  "operating d \<Longrightarrow> pic_outb PIC2_DATA v d = d\<lparr>slave := (slave d)\<lparr>imr := v\<rparr>\<rparr>"
  "pic_inb PIC1_DATA d = (imr (master d), d)" "pic_inb PIC2_DATA d = (imr (slave d), d)"
  by (simp_all add: operating_def pic_outb_def pic_inb_def chip_data_def pic_port_defs)

lemma pic_enable_low:
  assumes "operating d" "irq < 8"
  shows "pic_enable_irq pic_ports irq d =
    d\<lparr>master := (master d)\<lparr>imr := imr (master d) AND NOT (push_bit (unat irq) 1)\<rparr>\<rparr>"
  using assms by (subst pic_enable_irq.simps) (simp add: pic_mask_ports)

lemma pic_enable_high:
  assumes "operating d" "\<not> irq < 8"
  shows "pic_enable_irq pic_ports irq d =
    d\<lparr>master := (master d)\<lparr>imr := imr (master d) AND NOT 4\<rparr>,
      slave := (slave d)\<lparr>imr := imr (slave d) AND NOT (push_bit (unat (irq - 8)) 1)\<rparr>\<rparr>"
proof -
  have "pic_enable_irq pic_ports 2 d = d\<lparr>master := (master d)\<lparr>imr := imr (master d) AND NOT 4\<rparr>\<rparr>"
    using pic_enable_low [OF assms(1), of 2] by simp
  then show ?thesis
    using assms by (subst pic_enable_irq.simps) (simp add: pic_mask_ports operating_def)
qed

lemma pic_enable_irq_enables:
  assumes "operating d" "unat irq < 16"
  shows "operating (pic_enable_irq pic_ports irq d)" "irq_enabled (unat irq) (pic_enable_irq pic_ports irq d)"
    "irq_enabled n d \<Longrightarrow> irq_enabled n (pic_enable_irq pic_ports irq d)"
proof -
  have four: "(4 :: u8) = push_bit 2 1" by simp
  have "operating (pic_enable_irq pic_ports irq d) \<and> irq_enabled (unat irq) (pic_enable_irq pic_ports irq d)
      \<and> (irq_enabled n d \<longrightarrow> irq_enabled n (pic_enable_irq pic_ports irq d))"
  proof (cases "irq < 8")
    case True
    then show ?thesis
      using assms pic_enable_low [OF assms(1) True]
      by (auto simp: irq_enabled_def operating_def bit_simps word_less_nat_alt)
  next
    case False
    then have "unat (irq - 8) = unat irq - 8" by (simp add: unat_sub word_less_nat_alt word_le_nat_alt)
    then show ?thesis
      using False assms pic_enable_high [OF assms(1) False] unfolding four
      by (auto simp: irq_enabled_def operating_def bit_simps word_less_nat_alt simp del: push_bit_of_1)
  qed
  then show "operating (pic_enable_irq pic_ports irq d)" "irq_enabled (unat irq) (pic_enable_irq pic_ports irq d)"
    "irq_enabled n d \<Longrightarrow> irq_enabled n (pic_enable_irq pic_ports irq d)"
    by blast+
qed

text \<open>The calls of \<open>kernel_main\<close> between the descriptor tables and the serial line.\<close>

definition boot_irqs :: "'d ports \<Rightarrow> 'd \<Rightarrow> 'd" where
  "boot_irqs hw d = pic_enable_irq hw 1 (pic_enable_irq hw 0 (pic_disable_all_irq hw (pic_remap hw d)))"

lemma boot_irqs_eq:
  "boot_irqs pic_ports d =
     \<lparr>master = (master d)\<lparr>icw := 0, vector := 0x20, cascade := 4, imr := 0xFC\<rparr>,
      slave = (slave d)\<lparr>icw := 0, vector := 0x28, cascade := 2, imr := 0xFF\<rparr>\<rparr>"
proof -
  let ?r = "\<lparr>master = (master d)\<lparr>icw := 0, vector := 0x20, cascade := 4\<rparr>,
      slave = (slave d)\<lparr>icw := 0, vector := 0x28, cascade := 2\<rparr>\<rparr> :: pics"
  have "pic_disable_all_irq pic_ports ?r = ?r\<lparr>master := (master ?r)\<lparr>imr := 0xFF\<rparr>, slave := (slave ?r)\<lparr>imr := 0xFF\<rparr>\<rparr>"
    by (simp add: pic_disable_all_irq_def pic_outb_def chip_data_def pic_port_defs)
  then show ?thesis
    by (simp add: boot_irqs_def pic_remap_eq pic_enable_low operating_def)
qed

text \<open>
  C35: Whatever state the two interrupt controllers are in, after the boot sequence exactly timer
  and keyboard are enabled, and every line that is enabled raises a vector that has a gate in
  the interrupt table and is none of the processor's exceptions.
\<close>

theorem enabled_irqs_have_gates:
  assumes "length (idt t) = 256" "u = idt_init idt_addr h14 h32 h33 h128 t" "irq < 16"
  shows "(irq_enabled irq (boot_irqs pic_ports d) \<longleftrightarrow> irq = 0 \<or> irq = 1)
    \<and> (irq_enabled irq (boot_irqs pic_ports d) \<longrightarrow>
        32 \<le> unat (irq_vector irq (boot_irqs pic_ports d))
        \<and> interrupt_gate (unat (irq_vector irq (boot_irqs pic_ports d))) (if irq = 0 then h32 else h33) 0 u)"
proof -
  have "irq \<in> {0, 1, 2, 3, 4, 5, 6, 7, 8, 9, 10, 11, 12, 13, 14, 15}" using assms(3) by simp presburger
  then have e: "irq_enabled irq (boot_irqs pic_ports d) \<longleftrightarrow> irq = 0 \<or> irq = 1"
    unfolding boot_irqs_eq by (auto simp: irq_enabled_def)
  have v: "unat (irq_vector 0 (boot_irqs pic_ports d)) = 32" "unat (irq_vector 1 (boot_irqs pic_ports d)) = 33"
    unfolding boot_irqs_eq by (simp_all add: irq_vector_def)
  show ?thesis using e v idt_init_gates(2,3) [OF assms(1,2)] by auto
qed

theorem enabled_irqs_have_gates_witness:
  "let d = \<lparr>master = \<lparr>icw = 2, vector = 8, cascade = 0, imr = 0, eois = 0\<rparr>,
            slave = \<lparr>icw = 0, vector = 0x70, cascade = 0, imr = 0, eois = 0\<rparr>\<rparr>
   in \<not> irq_enabled 14 (boot_irqs pic_ports d) \<and> irq_enabled 1 (boot_irqs pic_ports d)
     \<and> interrupt_gate (unat (irq_vector 1 (boot_irqs pic_ports d))) 0xC0100300 0
          (idt_init 0xC0111000 0xC0100100 0xC0100200 0xC0100300 0xC0100400 boot_idt)"
  using enabled_irqs_have_gates [of boot_idt _ "0xC0111000" "0xC0100100" "0xC0100200" "0xC0100300" "0xC0100400" 14, OF _ refl]
    enabled_irqs_have_gates [of boot_idt _ "0xC0111000" "0xC0100100" "0xC0100200" "0xC0100300" "0xC0100400" 1, OF _ refl]
  by (simp add: boot_idt_def)

lemma pic_sendEOI_targets:
  assumes "0x20 \<le> interrupt" "interrupt \<le> 0x2F"
  shows "eois (master (pic_sendEOI pic_ports interrupt d)) = eois (master d) + 1"
    "eois (slave (pic_sendEOI pic_ports interrupt d)) = eois (slave d) + (if interrupt \<ge> 0x28 then 1 else 0)"
  using assms by (auto simp: pic_sendEOI_def pic_outb_def chip_command_def pic_port_defs not_less)

section \<open>A 16550 UART\<close>

lemma unat_of_char [simp]: "unat (of_char c :: u8) = of_char c"
proof -
  have "unat (of_nat (of_char c) :: u8) = of_char c" by (simp add: unat_of_nat)
  then show ?thesis by (simp add: of_nat_of_char)
qed

text \<open>
  Divisor latch, control registers, the byte that loopback mode returns, the bytes that have gone
  out on the line, and the number of polls until the transmitter is ready again; \<open>delay\<close> is that
  number after each byte.
\<close>

record uart =
  dll :: u8
  dlm :: u8
  ier :: u8
  lcr :: u8
  mcr :: u8
  fcr :: u8
  looped :: u8
  line_sent :: "u8 list"
  busy :: nat
  delay :: nat

definition uart_outb :: "u16 \<Rightarrow> u16 \<Rightarrow> u8 \<Rightarrow> uart \<Rightarrow> uart" where
  "uart_outb base p v d =
     (if p = base then
        if bit (lcr d) 7 then d\<lparr>dll := v\<rparr>
        else if bit (mcr d) 4 then d\<lparr>looped := v\<rparr>
        else d\<lparr>line_sent := line_sent d @ [v], busy := delay d\<rparr>
      else if p = base + 1 then (if bit (lcr d) 7 then d\<lparr>dlm := v\<rparr> else d\<lparr>ier := v\<rparr>)
      else if p = base + 2 then d\<lparr>fcr := v\<rparr>
      else if p = base + 3 then d\<lparr>lcr := v\<rparr>
      else if p = base + 4 then d\<lparr>mcr := v\<rparr>
      else d)"

definition uart_inb :: "u16 \<Rightarrow> u16 \<Rightarrow> uart \<Rightarrow> u8 \<times> uart" where
  "uart_inb base p d =
     (if p = base then (if bit (lcr d) 7 then dll d else looped d, d)
      else if p = base + 5 then (if busy d = 0 then (0x20, d) else (0, d\<lparr>busy := busy d - 1\<rparr>))
      else (0, d))"

definition uart_ports :: "u16 \<Rightarrow> uart ports" where
  "uart_ports base = \<lparr>p_inb = uart_inb base, p_inw = (\<lambda>p d. (0, d)), p_outb = uart_outb base, p_outw = (\<lambda>p w d. d)\<rparr>"

text \<open>Ready to send: the divisor latch closed and no loopback.\<close>

definition on_line :: "uart \<Rightarrow> bool" where
  "on_line d \<longleftrightarrow> \<not> bit (lcr d) 7 \<and> \<not> bit (mcr d) 4"

lemma uart_ports_simps [simp]:
  "p_inb (uart_ports base) = uart_inb base" "p_outb (uart_ports base) = uart_outb base"
  by (simp_all add: uart_ports_def)

lemma serial_write_char_ends:
  "serial_write_char (uart_ports base) base a d = Some (uart_outb base base (of_char a) (d\<lparr>busy := 0\<rparr>))"
proof (induction "busy d" arbitrary: d)
  case 0
  then have e: "d\<lparr>busy := 0\<rparr> = d" by (cases d) simp
  show ?case
    unfolding e using 0 by (subst serial_write_char.simps) (simp add: serial_is_transmit_fifo_empty_def uart_inb_def)
next
  case (Suc n)
  have "serial_write_char (uart_ports base) base a d =
      serial_write_char (uart_ports base) base a (d\<lparr>busy := busy d - 1\<rparr>)"
    using Suc(2) by (subst serial_write_char.simps) (simp add: serial_is_transmit_fifo_empty_def uart_inb_def)
  with Suc(1) [of "d\<lparr>busy := busy d - 1\<rparr>"] Suc(2) show ?case by simp
qed

lemma serial_write_sends:
  assumes "on_line d"
  shows "\<exists>d'. serial_write_loop (uart_ports base) base str d = Some d' \<and> on_line d'
    \<and> line_sent d' = line_sent d @ map of_char (takeWhile (\<lambda>c. c \<noteq> NUL) str)"
  using assms
proof (induction str arbitrary: d)
  case (Cons c str)
  show ?case
  proof (cases "c = NUL")
    case False
    let ?d = "d\<lparr>line_sent := line_sent d @ [of_char c], busy := delay d\<rparr>"
    have "serial_write_char (uart_ports base) base c d = Some ?d" "on_line ?d"
      using Cons.prems by (simp_all add: serial_write_char_ends uart_outb_def on_line_def)
    with Cons.IH [of ?d] False show ?thesis by auto
  qed (use Cons.prems in simp)
qed simp

lemma serial_init_eq:
  "serial_init (uart_ports base) base d =
     (0, d\<lparr>dll := 3, lcr := 3, mcr := 0x0F, fcr := 0xC7, looped := 0xAE,
         ier := (if bit (lcr d) 7 then ier d else 0), dlm := (if bit (lcr d) 7 then 0 else dlm d)\<rparr>)"
  by (simp add: serial_init_def serial_configure_baud_rate_def Let_def uart_outb_def uart_inb_def)


text \<open>
  \<open>serial_is_faulty\<close> leaves the UART in loopback mode: what is written afterwards does not go out.
\<close>

lemma serial_is_faulty_cuts_line:
  assumes "on_line d"
  shows "\<exists>d1 d2. serial_is_faulty (uart_ports base) base d = (0, d1)
    \<and> serial_write_loop (uart_ports base) base str d1 = Some d2 \<and> line_sent d2 = line_sent d"
proof -
  have "\<exists>d2. serial_write_loop (uart_ports base) base str d1 = Some d2 \<and> line_sent d2 = line_sent d1"
    if "\<not> bit (lcr d1) 7" "bit (mcr d1) 4" for d1
    using that
  proof (induction str arbitrary: d1)
    case (Cons c str)
    let ?d = "d1\<lparr>busy := 0, looped := of_char c\<rparr>"
    have "serial_write_char (uart_ports base) base c d1 = Some ?d"
      using Cons.prems by (simp add: serial_write_char_ends uart_outb_def)
    with Cons.IH [of ?d] Cons.prems show ?case by simp
  qed simp
  from this [of "d\<lparr>mcr := 0x1E, looped := 0xAE\<rparr>"] assms show ?thesis
    by (simp add: serial_is_faulty_def Let_def uart_outb_def uart_inb_def on_line_def)
qed

lemma printk_sends:
  assumes "parse_format fmt = Some items" "render items args = Some out" "length out < 1024"
  shows "\<exists>t. printk level fmt args s = Some t
    \<and> serial_sent t = serial_sent s @ (if level \<ge> 0 \<and> level \<le> 4 then level_tags ! nat level else [])
        @ takeWhile (\<lambda>c. c \<noteq> NUL) out @ [CHR 0x0A]"
proof -
  have "takeWhile (\<lambda>c. c \<noteq> NUL) (out @ NUL # x) = takeWhile (\<lambda>c. c \<noteq> NUL) out" for x
    by (induction out) auto
  then have "takeWhile (\<lambda>c. c \<noteq> NUL) (overwrite b 0 (out @ [NUL])) = takeWhile (\<lambda>c. c \<noteq> NUL) out" for b
    by (simp add: overwrite_def)
  moreover have "takeWhile (\<lambda>c. c \<noteq> NUL) (level_tags ! nat level) = level_tags ! nat level"
    if "0 \<le> level" "level \<le> 4"
  proof -
    have "level \<in> {0, 1, 2, 3, 4}" using that by auto
    then show ?thesis by (auto simp: level_tags_def)
  qed
  ultimately show ?thesis
    using assms by (simp add: printk_def vsprintf_reference serial_write_def)
qed

end
