(* ===== verification/Paging.thy ===== *)
theory Paging
  imports VMM
begin

text \<open>
  Paging at boot, kernel/src/kernel/paging.c. \<open>paging_init\<close> runs with paging off, so the tables
  it builds are written at their physical addresses; it allocates the directory, the table of
  the identity-mapped first 4 MiB, the kernel table and a frame per page of the kernel stack
  region, installs the recursive entry and turns paging on. The linker symbols
  \<open>kernel_physical_start\<close> and \<open>kernel_physical_end\<close> are arguments.
\<close>

section \<open>Operations\<close>

text \<open>
  The loops of steps 3 and 4: \<open>pt[i] = ((start_page + i) * PAGE_SIZE) | PAGE_PRESENT |
  PAGE_WRITE\<close> for \<open>n\<close> entries from \<open>i\<close> on (\<open>start_page\<close> is 0 for the identity map).
\<close>

primrec paging_map_pages :: "u32 \<Rightarrow> u32 \<Rightarrow> u32 \<Rightarrow> nat \<Rightarrow> 'a machine_scheme \<Rightarrow> 'a machine_scheme option" where
  "paging_map_pages pt start_page i 0 s = Some s"
| "paging_map_pages pt start_page i (Suc n) s = do {
     s1 \<leftarrow> vstore32 (pt + 4 * i) (((start_page + i) * PAGE_SIZE) OR PAGE_PRESENT OR PAGE_WRITE) s;
     paging_map_pages pt start_page (i + 1) n s1
   }"

text \<open>The loop of step 6: a fresh frame for each page of the stack region.\<close>

primrec paging_map_stack :: "u32 \<Rightarrow> u32 \<Rightarrow> u32 \<Rightarrow> nat \<Rightarrow> 'a pmm_state_scheme \<Rightarrow> 'a pmm_state_scheme option" where
  "paging_map_stack pt_kernel stack_pt_index i 0 s = Some s"
| "paging_map_stack pt_kernel stack_pt_index i (Suc n) s = do {
     (stack_frame, s1) \<leftarrow> pmm_alloc_frame s;
     s2 \<leftarrow> vstore32 (pt_kernel + 4 * (stack_pt_index + i)) (stack_frame OR PAGE_PRESENT OR PAGE_WRITE) s1;
     paging_map_stack pt_kernel stack_pt_index (i + 1) n s2
   }"

definition kernel_page_count :: "u32 \<Rightarrow> u32 \<Rightarrow> u32" where
  "kernel_page_count ks ke = (ke - 1) div PAGE_SIZE - ks div PAGE_SIZE + 1"

definition paging_init :: "u32 \<Rightarrow> u32 \<Rightarrow> 'a vmm_state_scheme \<Rightarrow> 'a vmm_state_scheme option" where
  "paging_init ks ke s = do {
     (pdt, s) \<leftarrow> pmm_alloc_frame s;
     (pt_low, s) \<leftarrow> pmm_alloc_frame s;
     (pt_kernel, s) \<leftarrow> pmm_alloc_frame s;
     s \<leftarrow> memset pdt 0 (unat PAGE_SIZE) s;
     s \<leftarrow> memset pt_low 0 (unat PAGE_SIZE) s;
     s \<leftarrow> memset pt_kernel 0 (unat PAGE_SIZE) s;
     s \<leftarrow> paging_map_pages pt_low 0 0 (unat ((IDENTITY_MAP_END - IDENTITY_MAP_START + 1) div PAGE_SIZE)) s;
     s \<leftarrow> vstore32 (pdt + 4 * 0) (pt_low OR PAGE_PRESENT OR PAGE_WRITE) s;
     s \<leftarrow> paging_map_pages pt_kernel (ks div PAGE_SIZE) 0 (unat (kernel_page_count ks ke)) s;
     s \<leftarrow> vstore32 (pdt + 4 * drop_bit 22 KERNEL_VIRT_BASE) (pt_kernel OR PAGE_PRESENT OR PAGE_WRITE) s;
     s \<leftarrow> vstore32 (pdt + 4 * drop_bit 22 KERNEL_HEAP_START) 0 s;
     s \<leftarrow> paging_map_stack pt_kernel ((KERNEL_STACK_REGION_START - KERNEL_VIRT_BASE) div PAGE_SIZE) 0
       (unat ((KERNEL_STACK_REGION_END - KERNEL_STACK_REGION_START + 1) div PAGE_SIZE)) s;
     s \<leftarrow> vstore32 (pdt + 4 * drop_bit 22 KERNEL_STACK_REGION_START) (pt_kernel OR PAGE_PRESENT OR PAGE_WRITE) s;
     s \<leftarrow> vstore32 (pdt + 4 * 1023) (pdt OR PAGE_PRESENT OR PAGE_WRITE) s;
     Some (vmm_init pdt (s\<lparr>cr3 := pdt, cr0_pg := True\<rparr>))
   }"

section \<open>With paging off\<close>

lemma word_at_entry:
  assumes "page_aligned f" "unat i < 1024"
  shows "unat (f + 4 * i) mod 4 = 0"
proof -
  obtain q where q: "unat f = 4096 * q"
    using assms(1) unfolding page_aligned_mod by (auto elim: mod_0_imp_dvd [THEN dvdE])
  have "unat (f + 4 * i) = 4 * (1024 * q + unat i)"
    using unat_in_frame [OF assms(1), of "4 * i"] assms(2) by (simp add: unat_4_times q)
  then show ?thesis by (metis mod_mult_self1_is_0)
qed

lemma unpaged_store:
  assumes "\<not> cr0_pg s" "page_aligned f" "unat i < 1024"
  shows "vstore32 (f + 4 * i) x s = Some (set_entry f i x s)"
  using vstore32_aligned [OF word_at_entry [OF assms(2,3)], of s "f + 4 * i" x] assms(1)
  by (simp add: translate_def set_entry_def)

lemma unpaged_clear:
  assumes "\<not> cr0_pg s" "page_aligned f"
  shows "memset f 0 (unat PAGE_SIZE) s = Some (zero_frame f s)"
proof -
  have "stable_map s f f" using assms by (simp add: stable_map_def translate_def)
  then show ?thesis by (simp add: PAGE_SIZE_def memset_page)
qed

text \<open>The state after the page loop, entry by entry.\<close>

primrec set_range :: "u32 \<Rightarrow> (u32 \<Rightarrow> u32) \<Rightarrow> u32 \<Rightarrow> nat \<Rightarrow> 'a machine_scheme \<Rightarrow> 'a machine_scheme" where
  "set_range f e i 0 s = s"
| "set_range f e i (Suc n) s = set_range f e (i + 1) n (set_entry f i (e i) s)"

lemma set_range_simps [simp]:
  "cr3 (set_range f e i n s) = cr3 s" "cr0_pg (set_range f e i n s) = cr0_pg s"
  by (induction n arbitrary: i s) simp_all

lemma set_range_phys: "\<exists>m. set_range f e i n s = s\<lparr>phys := m\<rparr>"
proof (induction n arbitrary: i s)
  case 0
  show ?case by (rule exI [of _ "phys s"]) simp
next
  case (Suc n)
  from Suc.IH [of "i + 1" "set_entry f i (e i) s"] show ?case by (auto simp: set_entry_def)
qed

lemma entry_set_range:
  assumes "page_aligned f" "page_aligned g" "unat i + n \<le> 1024" "unat k < 1024"
  shows "entry (set_range f e i n s) g k =
    (if g = f \<and> unat i \<le> unat k \<and> unat k < unat i + n then e k else entry s g k)"
  using assms(3)
proof (induction n arbitrary: i s)
  case 0
  then show ?case by auto
next
  case (Suc n)
  have i: "unat i < 1024" "unat (i + 1) = Suc (unat i)"
    using Suc.prems unat_add_no_wrap [of i 1] by simp_all
  have "k = i \<longleftrightarrow> unat k = unat i" by (simp add: word_unat_eq_iff)
  then show ?case
    using Suc.IH [of "i + 1" "set_entry f i (e i) s"] Suc.prems i assms(1,2,4)
    by (auto simp: entry_set_entry)
qed

lemma paging_map_pages_spec:
  assumes "\<not> cr0_pg s" "page_aligned pt" "unat i + n \<le> 1024"
  shows "paging_map_pages pt p i n s =
    Some (set_range pt (\<lambda>k. ((p + k) * PAGE_SIZE) OR PAGE_PRESENT OR PAGE_WRITE) i n s)"
  using assms(1,3)
proof (induction n arbitrary: i s)
  case 0
  then show ?case by simp
next
  case (Suc n)
  have i: "unat i < 1024" "unat (i + 1) = Suc (unat i)"
    using Suc.prems unat_add_no_wrap [of i 1] by simp_all
  then show ?case
    using Suc.IH [of "set_entry pt i (((p + i) * PAGE_SIZE) OR PAGE_PRESENT OR PAGE_WRITE) s" "i + 1"]
      Suc.prems unpaged_store [OF Suc.prems(1) assms(2) i(1)] by simp
qed

section \<open>The stack region\<close>

lemma paging_map_stack_spec:
  assumes "pmm_inv s" "\<not> cr0_pg s" "page_aligned pt" "unat b + unat i + n \<le> 1024" "n \<le> free_frames s"
  shows "\<exists>t fs. paging_map_stack pt b i n s = Some t \<and> pmm_inv t \<and> \<not> cr0_pg t \<and>
    length fs = n \<and> distinct fs \<and> (\<forall>f \<in> set fs. pmm_managed f \<and> f \<noteq> 0 \<and> \<not> frame_addr_used s f) \<and>
    (\<forall>a. pmm_managed a \<longrightarrow> frame_addr_used t a = (a \<in> set fs \<or> frame_addr_used s a)) \<and>
    (\<forall>g k. page_aligned g \<and> unat k < 1024 \<longrightarrow> entry t g k =
      (if g = pt \<and> unat b + unat i \<le> unat k \<and> unat k < unat b + unat i + n
       then fs ! (unat k - (unat b + unat i)) OR PAGE_PRESENT OR PAGE_WRITE else entry s g k))"
  using assms(1,2,4,5)
proof (induction n arbitrary: i s)
  case 0
  then show ?case by auto
next
  case (Suc n)
  obtain f s1 where f: "pmm_alloc_frame s = Some (f, s1)" "f \<noteq> 0" "n \<le> free_frames s1" "pmm_inv s1"
    "same_machine s s1" "pmm_managed f" "\<not> frame_addr_used s f"
    "\<And>a. pmm_managed a \<Longrightarrow> frame_addr_used s1 a \<longleftrightarrow> a = f \<or> frame_addr_used s a"
    by (rule alloc_enough [OF Suc.prems(1,4)]) blast
  have bi: "unat (b + i) = unat b + unat i" "unat (b + i) < 1024" "unat (i + 1) = Suc (unat i)"
    using Suc.prems(3) unat_add_no_wrap [of b i] unat_add_no_wrap [of i 1] by simp_all
  let ?u = "set_entry pt (b + i) (f OR PAGE_PRESENT OR PAGE_WRITE) s1"
  have pg: "\<not> cr0_pg s1" using f(5) Suc.prems(2) by (simp add: same_machine_def)
  have step: "paging_map_stack pt b i (Suc n) s = paging_map_stack pt b (i + 1) n ?u"
    using f(1) unpaged_store [OF pg assms(3) bi(2)] by simp
  obtain t fs where t: "paging_map_stack pt b (i + 1) n ?u = Some t" "pmm_inv t" "\<not> cr0_pg t"
    "length fs = n" "distinct fs" "\<forall>f \<in> set fs. pmm_managed f \<and> f \<noteq> 0 \<and> \<not> frame_addr_used s1 f"
    "\<And>a. pmm_managed a \<Longrightarrow> frame_addr_used t a = (a \<in> set fs \<or> frame_addr_used s1 a)"
    "\<And>g k. page_aligned g \<Longrightarrow> unat k < 1024 \<Longrightarrow> entry t g k =
      (if g = pt \<and> unat b + unat (i + 1) \<le> unat k \<and> unat k < unat b + unat (i + 1) + n
       then fs ! (unat k - (unat b + unat (i + 1))) OR PAGE_PRESENT OR PAGE_WRITE else entry ?u g k)"
    using Suc.IH [of ?u "i + 1"] f(3,4) pg Suc.prems(3) bi(3) by auto
  have e: "entry t g k = (if g = pt \<and> unat b + unat i \<le> unat k \<and> unat k < unat b + unat i + Suc n
       then (f # fs) ! (unat k - (unat b + unat i)) OR PAGE_PRESENT OR PAGE_WRITE else entry s g k)"
    if "page_aligned g" "unat k < 1024" for g k
  proof -
    have "k = b + i \<longleftrightarrow> unat k = unat b + unat i" by (simp add: word_unat_eq_iff bi(1))
    moreover have "entry ?u g k =
        (if pt = g \<and> b + i = k then f OR PAGE_PRESENT OR PAGE_WRITE else entry s g k)"
      using that assms(3) bi(2) same_machine_accesses(1) [OF f(5)] by (simp add: entry_set_entry)
    moreover have "unat b + unat i < unat k \<Longrightarrow>
        (f # fs) ! (unat k - (unat b + unat i)) = fs ! (unat k - Suc (unat b + unat i))"
      by (simp add: nth_Cons')
    ultimately show ?thesis using t(8) [OF that] by (auto simp: bi(3))
  qed
  have "pmm_managed a \<Longrightarrow> frame_addr_used t a = (a \<in> set (f # fs) \<or> frame_addr_used s a)" for a
    using t(7) f(8) by auto
  moreover have "distinct (f # fs)" "\<forall>a \<in> set (f # fs). pmm_managed a \<and> a \<noteq> 0 \<and> \<not> frame_addr_used s a"
    using t(5,6) f by auto
  ultimately show ?case
    unfolding step using t(1-4) e by (intro exI [of _ t] exI [of _ "f # fs"]) simp
qed

section \<open>The tables built at boot\<close>

lemma paging_constants [simp]:
  "unat ((IDENTITY_MAP_END - IDENTITY_MAP_START + 1) div PAGE_SIZE) = 1024"
  "drop_bit 22 KERNEL_VIRT_BASE = 768" "drop_bit 22 KERNEL_HEAP_START = 769"
  "drop_bit 22 KERNEL_STACK_REGION_START = 768"
  "(KERNEL_STACK_REGION_START - KERNEL_VIRT_BASE) div PAGE_SIZE = 512"
  "unat ((KERNEL_STACK_REGION_END - KERNEL_STACK_REGION_START + 1) div PAGE_SIZE) = 511"
  by (simp_all add: layout PAGE_SIZE_def drop_bit_eq_div)

text \<open>The state after step 5, before the stack region is mapped.\<close>

definition boot_tables :: "u32 \<Rightarrow> u32 \<Rightarrow> u32 \<Rightarrow> u32 \<Rightarrow> u32 \<Rightarrow> 'a machine_scheme \<Rightarrow> 'a machine_scheme" where
  "boot_tables D L K ks ke s =
     (let page = (\<lambda>p k. ((p + k) * PAGE_SIZE) OR PAGE_PRESENT OR PAGE_WRITE) in
      set_entry D 769 0 (set_entry D 768 (K OR PAGE_PRESENT OR PAGE_WRITE)
        (set_range K (page (ks div PAGE_SIZE)) 0 (unat (kernel_page_count ks ke))
          (set_entry D 0 (L OR PAGE_PRESENT OR PAGE_WRITE)
            (set_range L (page 0) 0 1024
              (zero_frame K (zero_frame L (zero_frame D s))))))))"

lemma boot_tables_phys: "\<exists>m. boot_tables D L K ks ke s = s\<lparr>phys := m\<rparr>"
proof -
  obtain m where m: "set_range L (\<lambda>k. ((0 + k) * PAGE_SIZE) OR PAGE_PRESENT OR PAGE_WRITE) 0 1024
      (zero_frame K (zero_frame L (zero_frame D s))) = s\<lparr>phys := m\<rparr>"
    using set_range_phys [of L _ 0 1024 "zero_frame K (zero_frame L (zero_frame D s))"]
    by (auto simp: zero_frame_def)
  let ?t = "set_entry D 0 (L OR PAGE_PRESENT OR PAGE_WRITE) (s\<lparr>phys := m\<rparr>)"
  obtain n where "set_range K (\<lambda>k. ((ks div PAGE_SIZE + k) * PAGE_SIZE) OR PAGE_PRESENT OR PAGE_WRITE) 0
      (unat (kernel_page_count ks ke)) ?t = s\<lparr>phys := n\<rparr>"
    using set_range_phys [of K _ 0 "unat (kernel_page_count ks ke)" ?t] by (auto simp: set_entry_def)
  with m show ?thesis unfolding boot_tables_def Let_def by (auto simp: set_entry_def)
qed

lemma entry_boot_tables:
  assumes "page_aligned D" "page_aligned L" "page_aligned K" "distinct [D, L, K]"
    "unat (kernel_page_count ks ke) \<le> 512" "unat k < 1024"
  shows "entry (boot_tables D L K ks ke s) D k =
      (if k = 768 then K OR PAGE_PRESENT OR PAGE_WRITE
       else if k = 0 then L OR PAGE_PRESENT OR PAGE_WRITE else 0)"
    and "entry (boot_tables D L K ks ke s) L k = (k * PAGE_SIZE) OR PAGE_PRESENT OR PAGE_WRITE"
    and "entry (boot_tables D L K ks ke s) K k =
      (if unat k < unat (kernel_page_count ks ke)
       then ((ks div PAGE_SIZE + k) * PAGE_SIZE) OR PAGE_PRESENT OR PAGE_WRITE else 0)"
  using assms by (auto simp: boot_tables_def Let_def entry_set_entry entry_set_range entry_zero_frame)

lemma paging_init_run:
  assumes "\<not> cr0_pg s" "unat (kernel_page_count ks ke) \<le> 512"
    and "pmm_alloc_frame s = Some (D, s1)" "pmm_alloc_frame s1 = Some (L, s2)"
      "pmm_alloc_frame s2 = Some (K, s3)"
    and al: "page_aligned D" "page_aligned L" "page_aligned K" and pg: "\<not> cr0_pg s3"
    and stack: "paging_map_stack K 512 0 511 (boot_tables D L K ks ke s3) = Some t" "\<not> cr0_pg t"
  shows "paging_init ks ke s = Some (vmm_init D
    ((set_entry D 1023 (D OR PAGE_PRESENT OR PAGE_WRITE) (set_entry D 768 (K OR PAGE_PRESENT OR PAGE_WRITE) t))
       \<lparr>cr3 := D, cr0_pg := True\<rparr>))"
proof -
  let ?z = "zero_frame K (zero_frame L (zero_frame D s3))"
  have low: "paging_map_pages L 0 0 1024 ?z =
      Some (set_range L (\<lambda>k. ((0 + k) * PAGE_SIZE) OR PAGE_PRESENT OR PAGE_WRITE) 0 1024 ?z)" (is "_ = Some ?l")
    using al pg by (intro paging_map_pages_spec) simp_all
  let ?d = "set_entry D 0 (L OR PAGE_PRESENT OR PAGE_WRITE) ?l"
  have ker: "paging_map_pages K (ks div PAGE_SIZE) 0 (unat (kernel_page_count ks ke)) ?d =
      Some (set_range K (\<lambda>k. ((ks div PAGE_SIZE + k) * PAGE_SIZE) OR PAGE_PRESENT OR PAGE_WRITE) 0
        (unat (kernel_page_count ks ke)) ?d)" (is "_ = Some ?k")
    using al pg assms(2) by (intro paging_map_pages_spec) simp_all
  note st = unpaged_store [OF _ al(1)]
  have d0: "vstore32 (D + 4 * 0) x ?l = Some (set_entry D 0 x ?l)" for x
    using pg by (intro st) simp_all
  have d768: "vstore32 (D + 4 * 768) x ?k = Some (set_entry D 768 x ?k)" for x
    using pg by (intro st) simp_all
  have d769: "vstore32 (D + 4 * 769) 0 (set_entry D 768 x ?k) = Some (set_entry D 769 0 (set_entry D 768 x ?k))" for x
    using pg by (intro st) simp_all
  have d768': "vstore32 (D + 4 * 768) x t = Some (set_entry D 768 x t)" for x
    using stack(2) by (intro st) simp_all
  have d1023: "vstore32 (D + 4 * 1023) x (set_entry D 768 y t) = Some (set_entry D 1023 x (set_entry D 768 y t))" for x y
    using stack(2) by (intro st) simp_all
  show ?thesis
    unfolding paging_init_def paging_constants
    by (simp only: assms(3-5) unpaged_clear al pg zero_frame_simps low ker d0 d768 d769 stack(1) d768' d1023
        Option.bind.simps prod.case not_False_eq_True boot_tables_def [symmetric, unfolded Let_def])
qed

text \<open>
  The paging structures after boot: the directory \<open>D\<close> with its three entries, the identity
  table \<open>L\<close>, the kernel table \<open>K\<close> with the image and the stack frames \<open>fs\<close>.
\<close>

definition boot_paging ::
  "u32 \<Rightarrow> u32 \<Rightarrow> u32 \<Rightarrow> u32 \<Rightarrow> u32 \<Rightarrow> u32 list \<Rightarrow> 'a machine_scheme \<Rightarrow> bool" where
  "boot_paging ks ke D L K fs t \<longleftrightarrow> cr0_pg t \<and> cr3 t = D \<and> length fs = 511 \<and>
     distinct (D # L # K # fs) \<and> (\<forall>f \<in> set (D # L # K # fs). pmm_managed f \<and> f \<noteq> 0) \<and>
     (\<forall>k. unat k < 1024 \<longrightarrow>
       entry t D k =
         (if k = 1023 then D OR PAGE_PRESENT OR PAGE_WRITE
          else if k = 768 then K OR PAGE_PRESENT OR PAGE_WRITE
          else if k = 0 then L OR PAGE_PRESENT OR PAGE_WRITE else 0) \<and>
       entry t L k = ((k * PAGE_SIZE) OR PAGE_PRESENT OR PAGE_WRITE) \<and>
       entry t K k =
         (if 512 \<le> unat k \<and> unat k < 1023 then fs ! (unat k - 512) OR PAGE_PRESENT OR PAGE_WRITE
          else if unat k < unat (kernel_page_count ks ke)
          then ((ks div PAGE_SIZE + k) * PAGE_SIZE) OR PAGE_PRESENT OR PAGE_WRITE else 0))"

lemma entry_final [simp]:
  "entry (vmm_init d s) g k = entry s g k" "entry (s\<lparr>cr3 := c, cr0_pg := b\<rparr>) g k = entry s g k"
  "pmm_inv (vmm_init d s') = pmm_inv s'" "pmm_inv (s'\<lparr>cr3 := c, cr0_pg := b\<rparr>) = pmm_inv s'"
  "frame_addr_used (vmm_init d s') a = frame_addr_used s' a"
  "frame_addr_used (s'\<lparr>cr3 := c, cr0_pg := b\<rparr>) a = frame_addr_used s' a"
  by (simp_all add: vmm_init_def entry_def pmm_inv_def frame_addr_used_def frame_used_def)

lemma alloc_three:
  assumes "pmm_inv s" "Suc (Suc (Suc n)) \<le> free_frames s"
  obtains D L K s1 s2 s3 where "pmm_alloc_frame s = Some (D, s1)" "pmm_alloc_frame s1 = Some (L, s2)"
    "pmm_alloc_frame s2 = Some (K, s3)" "n \<le> free_frames s3" "pmm_inv s3" "cr0_pg s3 = cr0_pg s"
    "distinct [D, L, K]" "\<And>f. f \<in> {D, L, K} \<Longrightarrow> page_aligned f \<and> pmm_managed f \<and> f \<noteq> 0 \<and> \<not> frame_addr_used s f"
    "\<And>a. pmm_managed a \<Longrightarrow> frame_addr_used s3 a \<longleftrightarrow> a \<in> {D, L, K} \<or> frame_addr_used s a"
proof -
  obtain D s1 where D: "pmm_alloc_frame s = Some (D, s1)" "D \<noteq> 0" "Suc (Suc n) \<le> free_frames s1" "pmm_inv s1"
    "same_machine s s1" "page_aligned D" "pmm_managed D" "\<not> frame_addr_used s D"
    "\<And>a. pmm_managed a \<Longrightarrow> frame_addr_used s1 a \<longleftrightarrow> a = D \<or> frame_addr_used s a"
    by (rule alloc_enough [OF assms]) blast
  obtain L s2 where L: "pmm_alloc_frame s1 = Some (L, s2)" "L \<noteq> 0" "Suc n \<le> free_frames s2" "pmm_inv s2"
    "same_machine s1 s2" "page_aligned L" "pmm_managed L" "\<not> frame_addr_used s1 L"
    "\<And>a. pmm_managed a \<Longrightarrow> frame_addr_used s2 a \<longleftrightarrow> a = L \<or> frame_addr_used s1 a"
    by (rule alloc_enough [OF D(4,3)]) blast
  obtain K s3 where K: "pmm_alloc_frame s2 = Some (K, s3)" "K \<noteq> 0" "n \<le> free_frames s3" "pmm_inv s3"
    "same_machine s2 s3" "page_aligned K" "pmm_managed K" "\<not> frame_addr_used s2 K"
    "\<And>a. pmm_managed a \<Longrightarrow> frame_addr_used s3 a \<longleftrightarrow> a = K \<or> frame_addr_used s2 a"
    by (rule alloc_enough [OF L(4,3)]) blast
  show thesis
    by (rule that [OF D(1) L(1) K(1) K(3,4)]) (use D L K in \<open>auto simp: same_machine_def\<close>)
qed

lemma paging_init_builds:
  assumes "pmm_inv s" "\<not> cr0_pg s" "unat (kernel_page_count ks ke) \<le> 512" "514 \<le> free_frames s"
  shows "\<exists>t D L K fs. paging_init ks ke s = Some t \<and> boot_paging ks ke D L K fs t \<and>
    pmm_inv t \<and> kernel_pdt_phys t = D \<and> current_pdt_phys t = D \<and>
    (\<forall>a. pmm_managed a \<longrightarrow> frame_addr_used t a = (a \<in> set (D # L # K # fs) \<or> frame_addr_used s a)) \<and>
    (\<forall>a \<in> set (D # L # K # fs). \<not> frame_addr_used s a)"
proof -
  have n: "Suc (Suc (Suc 511)) \<le> free_frames s" using assms(4) by simp
  obtain D L K s1 s2 s3 where run3: "pmm_alloc_frame s = Some (D, s1)" "pmm_alloc_frame s1 = Some (L, s2)"
    "pmm_alloc_frame s2 = Some (K, s3)" and s3: "511 \<le> free_frames s3" "pmm_inv s3" "cr0_pg s3 = cr0_pg s"
    and dist: "distinct [D, L, K]"
    and fr: "\<And>f. f \<in> {D, L, K} \<Longrightarrow> page_aligned f \<and> pmm_managed f \<and> f \<noteq> 0 \<and> \<not> frame_addr_used s f"
    and us3: "\<And>a. pmm_managed a \<Longrightarrow> frame_addr_used s3 a \<longleftrightarrow> a \<in> {D, L, K} \<or> frame_addr_used s a"
    by (rule alloc_three [OF assms(1) n]) (rule that)
  have al: "page_aligned D" "page_aligned L" "page_aligned K" using fr by auto
  have pg: "\<not> cr0_pg s3" using assms(2) s3(3) by simp
  obtain m where m: "boot_tables D L K ks ke s3 = s3\<lparr>phys := m\<rparr>" using boot_tables_phys by blast
  let ?b = "boot_tables D L K ks ke s3"
  have b: "pmm_inv ?b" "\<not> cr0_pg ?b" "511 \<le> free_frames ?b" "\<And>a. frame_addr_used ?b a = frame_addr_used s3 a"
    using s3 pg by (simp_all add: m)
  obtain t fs where t: "paging_map_stack K 512 0 511 ?b = Some t" "pmm_inv t" "\<not> cr0_pg t"
    "length fs = 511" "distinct fs" "\<forall>f \<in> set fs. pmm_managed f \<and> f \<noteq> 0 \<and> \<not> frame_addr_used s3 f"
    "\<And>a. pmm_managed a \<Longrightarrow> frame_addr_used t a = (a \<in> set fs \<or> frame_addr_used s3 a)"
    "\<And>g k. page_aligned g \<Longrightarrow> unat k < 1024 \<Longrightarrow> entry t g k =
      (if g = K \<and> 512 \<le> unat k \<and> unat k < 1023
       then fs ! (unat k - 512) OR PAGE_PRESENT OR PAGE_WRITE else entry ?b g k)"
    using paging_map_stack_spec [OF b(1,2) al(3), of 512 0 511] b(3,4) by auto
  note run = paging_init_run [OF assms(2,3) run3 al pg t(1,3)]
  note eb = entry_boot_tables [OF al dist assms(3), where s = s3]
  let ?t = "vmm_init D ((set_entry D 1023 (D OR PAGE_PRESENT OR PAGE_WRITE)
    (set_entry D 768 (K OR PAGE_PRESENT OR PAGE_WRITE) t))\<lparr>cr3 := D, cr0_pg := True\<rparr>)"
  have all: "distinct (D # L # K # fs)" "\<forall>f \<in> set (D # L # K # fs). pmm_managed f \<and> f \<noteq> 0"
    "\<forall>a \<in> set (D # L # K # fs). \<not> frame_addr_used s a"
    using dist t(5,6) fr us3 by auto
  have et: "entry ?t g k = (if g = D \<and> k = 1023 then D OR PAGE_PRESENT OR PAGE_WRITE
      else if g = D \<and> k = 768 then K OR PAGE_PRESENT OR PAGE_WRITE else entry t g k)"
    if "page_aligned g" "unat k < 1024" for g k
    using that al(1) by (auto simp: entry_set_entry)
  have ne: "L \<noteq> D" "K \<noteq> D" "D \<noteq> K" "L \<noteq> K" using dist by auto
  have es: "entry ?t D k =
      (if k = 1023 then D OR PAGE_PRESENT OR PAGE_WRITE else if k = 768 then K OR PAGE_PRESENT OR PAGE_WRITE
       else if k = 0 then L OR PAGE_PRESENT OR PAGE_WRITE else 0)"
    "entry ?t L k = (k * PAGE_SIZE) OR PAGE_PRESENT OR PAGE_WRITE"
    "entry ?t K k =
      (if 512 \<le> unat k \<and> unat k < 1023 then fs ! (unat k - 512) OR PAGE_PRESENT OR PAGE_WRITE
       else if unat k < unat (kernel_page_count ks ke)
       then ((ks div PAGE_SIZE + k) * PAGE_SIZE) OR PAGE_PRESENT OR PAGE_WRITE else 0)"
    if k: "unat k < 1024" for k
    unfolding al [THEN et, OF k] al [THEN t(8), OF k] eb [OF k] using ne by simp_all
  have "cr0_pg ?t" "cr3 ?t = D" by (simp_all add: vmm_init_def)
  then have "boot_paging ks ke D L K fs ?t"
    unfolding boot_paging_def using es all(1,2) t(4) by blast
  moreover have "frame_addr_used ?t a = (a \<in> set (D # L # K # fs) \<or> frame_addr_used s a)" if "pmm_managed a" for a
    using that t(7) us3 by auto
  moreover have "pmm_inv ?t" "kernel_pdt_phys ?t = D" "current_pdt_phys ?t = D"
    using t(2) by (simp, simp_all add: vmm_init_def)
  ultimately show ?thesis using run all(3) by blast
qed

section \<open>Translation after boot\<close>

lemma boot_paging_inv:
  assumes "boot_paging ks ke D L K fs t" "pmm_inv t"
    and "\<forall>a \<in> set (D # L # K # fs). frame_addr_used t a"
  shows "vmm_inv t"
proof -
  note b = assms(1) [unfolded boot_paging_def]
  have al: "page_aligned D" "page_aligned L" "page_aligned K" using b by (auto simp: pmm_managed_def)
  note w = al [THEN window_entry(1)] al [THEN window_entry(2)]
  have e: "entry t D k = (if k = 1023 then D OR PAGE_PRESENT OR PAGE_WRITE
      else if k = 768 then K OR PAGE_PRESENT OR PAGE_WRITE
      else if k = 0 then L OR PAGE_PRESENT OR PAGE_WRITE else 0)" if "unat k < 1024" for k
    using b that by blast
  have "i = j" if "unat i < 1024" "unat j < 1024" "present (entry t D i)" "present (entry t D j)"
    "table t D i = table t D j" for i j
    using that w b by (auto simp: e split: if_splits)
  moreover have "pmm_managed (table t D i) \<and> table t D i \<noteq> 0 \<and> frame_addr_used t (table t D i)"
    if "unat i < 1024" "present (entry t D i)" for i
    using that w b assms(3) by (auto simp: e split: if_splits)
  moreover have "present (entry t D 1023)" "table t D 1023 = D" "present (entry t D 768)"
    using w by (simp_all add: e)
  ultimately have "dir_ok t D" unfolding dir_ok_def using al(1) by blast
  then show ?thesis using b assms(2) al(1) by (simp add: vmm_inv_def pdir_def page_aligned_and_id)
qed

lemma boot_walk:
  assumes "boot_paging ks ke D L K fs t" and "pd_index v \<noteq> 1023"
  shows "translate t v =
    (if pd_index v = 0 then Some (pt_index v * PAGE_SIZE + (v AND 0xFFF))
     else if pd_index v = 768 \<and> 512 \<le> unat (pt_index v) \<and> unat (pt_index v) < 1023
     then Some (fs ! (unat (pt_index v) - 512) + (v AND 0xFFF))
     else if pd_index v = 768 \<and> unat (pt_index v) < unat (kernel_page_count ks ke)
     then Some ((ks div PAGE_SIZE + pt_index v) * PAGE_SIZE + (v AND 0xFFF))
     else None)"
proof -
  note b = assms(1) [unfolded boot_paging_def]
  have page: "page_aligned (x * PAGE_SIZE)" for x :: u32
  proof -
    have "4096 dvd unat (x * PAGE_SIZE)"
      unfolding unat_word_ariths(2) PAGE_SIZE_def by (intro dvd_mod) simp_all
    then show ?thesis by (simp add: page_aligned_mod)
  qed
  have al: "page_aligned D" "page_aligned L" "page_aligned K" "pdir t = D"
    using b by (auto simp: pmm_managed_def pdir_def page_aligned_and_id)
  have fs: "page_aligned (fs ! j)" if "j < 511" for j
    using b nth_mem [of j fs] that by (auto simp: pmm_managed_def)
  have e: "entry t D (pd_index v) = (if pd_index v = 1023 then D OR PAGE_PRESENT OR PAGE_WRITE
      else if pd_index v = 768 then K OR PAGE_PRESENT OR PAGE_WRITE
      else if pd_index v = 0 then L OR PAGE_PRESENT OR PAGE_WRITE else 0)"
    and eL: "entry t L (pt_index v) = (pt_index v * PAGE_SIZE) OR PAGE_PRESENT OR PAGE_WRITE"
    and eK: "entry t K (pt_index v) =
      (if 512 \<le> unat (pt_index v) \<and> unat (pt_index v) < 1023
       then fs ! (unat (pt_index v) - 512) OR PAGE_PRESENT OR PAGE_WRITE
       else if unat (pt_index v) < unat (kernel_page_count ks ke)
       then ((ks div PAGE_SIZE + pt_index v) * PAGE_SIZE) OR PAGE_PRESENT OR PAGE_WRITE else 0)"
    using b pd_index_bound pt_index_bound by blast+
  note w = al(1-3) [THEN window_entry(1)] al(1-3) [THEN window_entry(2)] window_entry [OF page]
  have wf: "present (fs ! (unat (pt_index v) - 512) OR PAGE_PRESENT OR PAGE_WRITE)"
    "frame_of (fs ! (unat (pt_index v) - 512) OR PAGE_PRESENT OR PAGE_WRITE) = fs ! (unat (pt_index v) - 512)"
    if "512 \<le> unat (pt_index v)" "unat (pt_index v) < 1023"
    using that window_entry [OF fs [of "unat (pt_index v) - 512"]] by simp_all
  consider "pd_index v = 768" | "pd_index v = 0" | "pd_index v \<noteq> 768" "pd_index v \<noteq> 0" by blast
  then show ?thesis
  proof cases
    case 1
    then show ?thesis using b al(4) w wf by (simp add: translate_def walk_def e eK)
  next
    case 2
    then show ?thesis using b al(4) w by (simp add: translate_def walk_def e eL)
  next
    case 3
    then show ?thesis using b al(4) assms(2) by (simp add: translate_def walk_def e)
  qed
qed

lemma index_in_table:
  assumes "unat d < 4194304" "unat b = m * 4194304" "m < 1024"
  shows "pd_index (b + d) = of_nat m" "unat (pt_index (b + d)) = unat d div 4096"
    "(b + d) AND 0xFFF = d AND 0xFFF"
proof -
  have "m * 4194304 \<le> 1023 * 4194304" using assms(3) by simp
  then have u: "unat (b + d) = m * 4194304 + unat d"
    using unat_add_no_wrap [of b d] assms(1,2) by simp
  have "(m * 4194304 + unat d) div 4194304 = m" using assms(1) by simp
  then show "pd_index (b + d) = of_nat m"
    using assms(3) by (simp add: word_unat_eq_iff unat_pd_index u unat_of_nat_u32)
  have "(m * 1024 * 4096 + unat d) div 4096 = m * 1024 + unat d div 4096"
    and "(m * 1024 * 4096 + unat d) mod 4096 = unat d mod 4096"
    by (rule div_mult_self3, simp) (rule mod_mult_self3)
  then have "(m * 4194304 + unat d) div 4096 = m * 1024 + unat d div 4096"
    and md: "(m * 4194304 + unat d) mod 4096 = unat d mod 4096"
    by (simp_all add: mult.assoc)
  moreover have "unat d div 4096 < 1024" using assms(1) by (simp add: less_mult_imp_div_less)
  ultimately show "unat (pt_index (b + d)) = unat d div 4096"
    by (simp add: unat_pt_index u)
  show "(b + d) AND 0xFFF = d AND 0xFFF" by (simp add: word_unat_eq_iff page_arith u md)
qed

lemma page_of_index: "unat (x :: u32) = unat d div 4096 \<Longrightarrow> x * PAGE_SIZE + (d AND 0xFFF) = d"
proof -
  assume x: "unat x = unat d div 4096"
  have "unat (d AND 0xFFFFF000) = unat x * 4096" by (simp add: unat_and_page x)
  moreover have "unat x * 4096 < 4294967296" using unat_lt_2p32 [of d] x by simp
  ultimately have "d AND 0xFFFFF000 = x * PAGE_SIZE"
    unfolding word_unat_eq_iff PAGE_SIZE_def by (subst unat_mult_no_wrap) simp_all
  then show ?thesis using page_split [of d] by simp
qed

text \<open>
  C21: \<open>paging_init\<close>, run with paging off on a consistent bitmap with at least 514 free frames
  and a kernel image of at most 512 pages, returns with paging on and well-formed structures
  that the VMM knows as the kernel directory: the first 4 MiB translate to themselves, the
  kernel base translates to the image page by page, every page of the stack region has a frame
  of its own that was free before, and the heap region is not mapped.
\<close>

theorem paging_init_correct:
  assumes "pmm_inv s" "\<not> cr0_pg s" "514 \<le> free_frames s" "unat (kernel_page_count ks ke) \<le> 512"
  shows "\<exists>t fs. paging_init ks ke s = Some t \<and> vmm_inv t \<and> cr3 t = kernel_pdt_phys t \<and>
    distinct fs \<and> length fs = 511 \<and> (\<forall>f \<in> set fs. \<not> frame_addr_used s f \<and> frame_addr_used t f) \<and>
    (\<forall>v. unat v < 0x400000 \<longrightarrow> translate t v = Some v) \<and>
    (\<forall>d. unat d < unat (kernel_page_count ks ke) * 4096 \<longrightarrow>
       translate t (KERNEL_VIRT_BASE + d) = Some (ks div PAGE_SIZE * PAGE_SIZE + d)) \<and>
    (\<forall>d. 0x200000 \<le> unat d \<and> unat d < 0x3FF000 \<longrightarrow>
       translate t (KERNEL_VIRT_BASE + d) = Some (fs ! (unat d div 4096 - 512) + (d AND 0xFFF))) \<and>
    (\<forall>d. unat d < 0x400000 \<longrightarrow> translate t (KERNEL_HEAP_START + d) = None)"
proof -
  obtain t D L K fs where t: "paging_init ks ke s = Some t" "boot_paging ks ke D L K fs t" "pmm_inv t"
    "kernel_pdt_phys t = D"
    "\<forall>a. pmm_managed a \<longrightarrow> frame_addr_used t a = (a \<in> set (D # L # K # fs) \<or> frame_addr_used s a)"
    "\<forall>a \<in> set (D # L # K # fs). \<not> frame_addr_used s a"
    using paging_init_builds [OF assms(1,2,4,3)] by blast
  have b: "cr3 t = D" "length fs = 511" "distinct (D # L # K # fs)" "\<forall>f \<in> set (D # L # K # fs). pmm_managed f"
    using t(2) unfolding boot_paging_def by blast+
  have us: "\<forall>a \<in> set (D # L # K # fs). frame_addr_used t a" using t(5) b(4) by blast
  note w = boot_walk [OF t(2)]
  have low: "translate t v = Some v" if "unat v < 4194304" for v
    using index_in_table [of v 0 0, simplified] that w [of v] page_of_index [of "pt_index v" v] by simp
  have base: "unat KERNEL_VIRT_BASE = 768 * 4194304" "unat KERNEL_HEAP_START = 769 * 4194304"
    by (simp_all add: layout)
  have hi: "pd_index (KERNEL_VIRT_BASE + d) = 768" "unat (pt_index (KERNEL_VIRT_BASE + d)) = unat d div 4096"
    "(KERNEL_VIRT_BASE + d) AND 0xFFF = d AND 0xFFF" if "unat d < 4194304" for d
    using index_in_table [OF that base(1)] by simp_all
  have kernel: "translate t (KERNEL_VIRT_BASE + d) = Some (ks div PAGE_SIZE * PAGE_SIZE + d)"
    if "unat d < unat (kernel_page_count ks ke) * 4096" for d
  proof -
    have d: "unat d < 2097152" "unat d div 4096 < unat (kernel_page_count ks ke)"
      using that assms(4) by (simp_all add: less_mult_imp_div_less)
    then have "unat d div 4096 < 512" by (simp add: less_mult_imp_div_less)
    then show ?thesis
      using d hi [of d] w [of "KERNEL_VIRT_BASE + d"] page_of_index [of "pt_index (KERNEL_VIRT_BASE + d)" d]
      by (simp add: distrib_right add.assoc)
  qed
  have stack: "translate t (KERNEL_VIRT_BASE + d) = Some (fs ! (unat d div 4096 - 512) + (d AND 0xFFF))"
    if "0x200000 \<le> unat d" "unat d < 0x3FF000" for d
  proof -
    have "512 \<le> unat d div 4096" "unat d div 4096 < 1023"
      using that div_le_mono [of "0x200000" "unat d" 4096] by (simp_all add: less_mult_imp_div_less)
    then show ?thesis using that hi [of d] w [of "KERNEL_VIRT_BASE + d"] by simp
  qed
  have heap: "translate t (KERNEL_HEAP_START + d) = None" if "unat d < 4194304" for d
    using index_in_table [OF that base(2)] w [of "KERNEL_HEAP_START + d"] by simp
  show ?thesis
    using t(1,4,6) b us boot_paging_inv [OF t(2,3) us] low kernel stack heap
    by (intro exI [of _ t] exI [of _ fs]) auto
qed

definition demo_unpaged :: vmm_state where
  "demo_unpaged = demo_vmm\<lparr>cr3 := 0, cr0_pg := False, total_frames := 2048\<rparr>"

lemma demo_unpaged_used: "frame_used demo_unpaged n \<longleftrightarrow> n < 512"
  using demo_vmm_used [of n] by (simp add: demo_unpaged_def frame_used_def)

theorem paging_init_correct_witness:
  "\<exists>t. paging_init 0x100000 0x1F0000 demo_unpaged = Some t \<and> vmm_inv t \<and>
    translate t 0xB8000 = Some 0xB8000 \<and> translate t 0xC0012345 = Some 0x112345 \<and>
    translate t 0xC0400000 = None"
proof -
  have "{k. k < 2048 \<and> \<not> k < (512 :: nat)} = {512..<2048}" by auto
  then have "free_frames demo_unpaged = 1536"
    unfolding free_frames_def demo_unpaged_used by (simp add: demo_unpaged_def)
  moreover have "pmm_inv demo_unpaged" "\<not> cr0_pg demo_unpaged"
    by (simp_all add: pmm_inv_def demo_unpaged_used) (simp_all add: demo_unpaged_def)
  moreover have "unat (kernel_page_count 0x100000 0x1F0000) = 240"
    by (simp add: kernel_page_count_def PAGE_SIZE_def)
  ultimately obtain t where t: "paging_init 0x100000 0x1F0000 demo_unpaged = Some t" "vmm_inv t"
    "\<forall>v. unat v < 0x400000 \<longrightarrow> translate t v = Some v"
    "\<forall>d. unat d < 240 * 4096 \<longrightarrow>
       translate t (KERNEL_VIRT_BASE + d) = Some (0x100000 div PAGE_SIZE * PAGE_SIZE + d)"
    "\<forall>d. unat d < 0x400000 \<longrightarrow> translate t (KERNEL_HEAP_START + d) = None"
    using paging_init_correct [of demo_unpaged "0x100000" "0x1F0000"] by auto
  have "translate t 0xB8000 = Some 0xB8000" using t(3) by simp
  moreover have "translate t 0xC0012345 = Some 0x112345"
    using t(4) [rule_format, of "0x12345"] by (simp add: layout PAGE_SIZE_def)
  moreover have "translate t 0xC0400000 = None"
    using t(5) [rule_format, of 0] by (simp add: layout)
  ultimately show ?thesis using t(1,2) by blast
qed

end
