(* ===== verification/Heap.thy ===== *)
theory Heap
  imports VMM
begin

text \<open>
  The kernel heap, kernel/src/kernel/malloc.c: a first-fit allocator over a doubly linked list
  of chunks, each prefixed by a \<open>header_t\<close>, that grows page by page in the region
  0xC0400000..0xC07FFFFF. Headers are kept in an explicit store from addresses to header
  values; an access to a header faults (\<open>None\<close>) when its page is not mapped or when nothing
  was written there. \<open>heap_inv\<close> ties the store to the list of chunks it represents.
\<close>

section \<open>State\<close>

record header =
  h_size :: u32
  h_is_free :: u32
  h_next :: u32
  h_prev :: u32

record heap_state = vmm_state +
  heap_hdr :: "u32 \<Rightarrow> header option"
  free_list_start :: u32
  heap_end_vaddr :: u32

definition HEAP_START :: u32 where [layout]:
  "HEAP_START = KERNEL_HEAP_START"

text \<open>\<open>sizeof(header_t)\<close> on i386.\<close>

definition HEADER_SIZE :: u32 where [layout]:
  "HEADER_SIZE = 16"

section \<open>Operations\<close>

definition hdr_load :: "u32 \<Rightarrow> 'a heap_state_scheme \<Rightarrow> header option" where
  "hdr_load a s = (if translate s a = None then None else heap_hdr s a)"

definition hdr_store :: "u32 \<Rightarrow> header \<Rightarrow> 'a heap_state_scheme \<Rightarrow> 'a heap_state_scheme option" where
  "hdr_store a h s =
     (if translate s a = None then None else Some (s\<lparr>heap_hdr := (heap_hdr s)(a \<mapsto> h)\<rparr>))"

text \<open>
  The page loop of \<open>expand_heap\<close> for \<open>n\<close> more pages: whether it got them all, and the frames
  taken so far (\<open>allocated_frames[0..pages_mapped]\<close>).
\<close>

primrec expand_pages ::
  "nat \<Rightarrow> u32 list \<Rightarrow> 'a heap_state_scheme \<Rightarrow> (bool \<times> u32 list \<times> 'a heap_state_scheme) option" where
  "expand_pages 0 frames s = Some (True, frames, s)"
| "expand_pages (Suc n) frames s =
     (if heap_end_vaddr s > KERNEL_HEAP_END - PAGE_SIZE + 1 then Some (False, frames, s)
      else do {
        (phys_frame, s) \<leftarrow> pmm_alloc_frame s;
        if phys_frame = 0 then Some (False, frames, s)
        else do {
          s \<leftarrow> vmm_map_kernel_page (heap_end_vaddr s) phys_frame s;
          expand_pages n (frames @ [phys_frame]) (s\<lparr>heap_end_vaddr := heap_end_vaddr s + PAGE_SIZE\<rparr>)
        }
      })"

fun expand_rollback :: "u32 \<Rightarrow> u32 list \<Rightarrow> 'a pmm_state_scheme \<Rightarrow> 'a pmm_state_scheme option" where
  "expand_rollback v [] s = Some s"
| "expand_rollback v (f # fs) s = do {
     s \<leftarrow> vmm_unmap_page v s;
     s \<leftarrow> pmm_free_frame f s;
     expand_rollback (v + PAGE_SIZE) fs s
   }"

definition heap_pages :: "u32 \<Rightarrow> u32" where
  "heap_pages sz = (sz + HEADER_SIZE + PAGE_SIZE - 1) div PAGE_SIZE"

definition expand_heap :: "u32 \<Rightarrow> 'a heap_state_scheme \<Rightarrow> (u32 \<times> 'a heap_state_scheme) option" where
  "expand_heap sz s = (
     let num_pages = heap_pages sz;
         old_heap_end = heap_end_vaddr s in do {
       (ok, frames, s) \<leftarrow> expand_pages (unat num_pages) [] s;
       if ok
       then do {
         s \<leftarrow> hdr_store old_heap_end
           \<lparr>h_size = num_pages * PAGE_SIZE - HEADER_SIZE, h_is_free = 1, h_next = 0, h_prev = 0\<rparr> s;
         Some (old_heap_end, s)
       }
       else do {
         s \<leftarrow> expand_rollback old_heap_end frames s;
         Some (0, s\<lparr>heap_end_vaddr := old_heap_end\<rparr>)
       }
     })"

text \<open>The first-fit search; 0 when the list has no fitting free chunk.\<close>

partial_function (option) kmalloc_find :: "u32 \<Rightarrow> u32 \<Rightarrow> 'a heap_state_scheme \<Rightarrow> u32 option" where
  "kmalloc_find sz cur s =
     (if cur = 0 then Some 0
      else do {
        h \<leftarrow> hdr_load cur s;
        if h_is_free h \<noteq> 0 \<and> sz \<le> h_size h then Some cur
        else kmalloc_find sz (h_next h) s
      })"

text \<open>The statement \<open>if (nx) nx->prev = q;\<close>.\<close>

definition set_prev :: "u32 \<Rightarrow> u32 \<Rightarrow> 'a heap_state_scheme \<Rightarrow> 'a heap_state_scheme option" where
  "set_prev nx q s =
     (if nx \<noteq> 0 then do { m \<leftarrow> hdr_load nx s; hdr_store nx (m\<lparr>h_prev := q\<rparr>) s } else Some s)"

text \<open>Taking the chunk found: split when the rest can hold a header and 16 bytes.\<close>

definition kmalloc_split :: "u32 \<Rightarrow> u32 \<Rightarrow> 'a heap_state_scheme \<Rightarrow> 'a heap_state_scheme option" where
  "kmalloc_split sz cur s = do {
     h \<leftarrow> hdr_load cur s;
     if h_size h \<ge> sz + HEADER_SIZE + 16
     then (let split = cur + HEADER_SIZE + sz in do {
       s \<leftarrow> hdr_store split \<lparr>h_size = h_size h - sz - HEADER_SIZE, h_is_free = 1,
              h_next = h_next h, h_prev = cur\<rparr> s;
       s \<leftarrow> set_prev (h_next h) split s;
       hdr_store cur (h\<lparr>h_next := split, h_size := sz\<rparr>) s
     })
     else Some s
   }"

definition kmalloc_take :: "u32 \<Rightarrow> u32 \<Rightarrow> 'a heap_state_scheme \<Rightarrow> (u32 \<times> 'a heap_state_scheme) option" where
  "kmalloc_take sz cur s = do {
     s \<leftarrow> kmalloc_split sz cur s;
     h \<leftarrow> hdr_load cur s;
     s \<leftarrow> hdr_store cur (h\<lparr>h_is_free := 0\<rparr>) s;
     Some (cur + HEADER_SIZE, s)
   }"

partial_function (option) heap_last :: "u32 \<Rightarrow> 'a heap_state_scheme \<Rightarrow> u32 option" where
  "heap_last l s = do {
     h \<leftarrow> hdr_load l s;
     if h_next h = 0 then Some l else heap_last (h_next h) s
   }"

definition heap_link :: "u32 \<Rightarrow> 'a heap_state_scheme \<Rightarrow> 'a heap_state_scheme option" where
  "heap_link new_block s =
     (if free_list_start s = 0 then Some (s\<lparr>free_list_start := new_block\<rparr>)
      else do {
        l \<leftarrow> heap_last (free_list_start s) s;
        h \<leftarrow> hdr_load l s;
        s \<leftarrow> hdr_store l (h\<lparr>h_next := new_block\<rparr>) s;
        n \<leftarrow> hdr_load new_block s;
        hdr_store new_block (n\<lparr>h_prev := l\<rparr>) s
      })"

definition align16 :: "u32 \<Rightarrow> u32" where
  "align16 sz = (sz + 15) AND NOT 15"

partial_function (option) kmalloc ::
  "u32 \<Rightarrow> 'a heap_state_scheme \<Rightarrow> (u32 \<times> 'a heap_state_scheme) option" where
  "kmalloc sz s =
     (if sz = 0 then Some (0, s)
      else do {
        cur \<leftarrow> kmalloc_find (align16 sz) (free_list_start s) s;
        if cur \<noteq> 0 then kmalloc_take (align16 sz) cur s
        else do {
          (new_block, s) \<leftarrow> expand_heap (align16 sz) s;
          if new_block = 0 then Some (0, s)
          else do {
            s \<leftarrow> heap_link new_block s;
            kmalloc (align16 sz) s
          }
        }
      })"

definition kfree_next :: "u32 \<Rightarrow> 'a heap_state_scheme \<Rightarrow> 'a heap_state_scheme option" where
  "kfree_next hp s = do {
     h \<leftarrow> hdr_load hp s;
     if h_next h = 0 then Some s
     else do {
       n \<leftarrow> hdr_load (h_next h) s;
       if h_is_free n = 0 then Some s
       else do {
         s \<leftarrow> hdr_store hp (h\<lparr>h_size := h_size h + (HEADER_SIZE + h_size n), h_next := h_next n\<rparr>) s;
         set_prev (h_next n) hp s
       }
     }
   }"

definition kfree_prev :: "u32 \<Rightarrow> 'a heap_state_scheme \<Rightarrow> 'a heap_state_scheme option" where
  "kfree_prev hp s = do {
     h \<leftarrow> hdr_load hp s;
     if h_prev h = 0 then Some s
     else do {
       p \<leftarrow> hdr_load (h_prev h) s;
       if h_is_free p = 0 then Some s
       else do {
         s \<leftarrow> hdr_store (h_prev h) (p\<lparr>h_size := h_size p + (HEADER_SIZE + h_size h), h_next := h_next h\<rparr>) s;
         set_prev (h_next h) (h_prev h) s
       }
     }
   }"

definition kfree :: "u32 \<Rightarrow> 'a heap_state_scheme \<Rightarrow> 'a heap_state_scheme option" where
  "kfree ptr s =
     (if ptr = 0 then Some s
      else (let hp = ptr - HEADER_SIZE in do {
        h \<leftarrow> hdr_load hp s;
        s \<leftarrow> hdr_store hp (h\<lparr>h_is_free := 1\<rparr>) s;
        s \<leftarrow> kfree_next hp s;
        kfree_prev hp s
      }))"

definition heap_init :: "'a heap_state_scheme \<Rightarrow> 'a heap_state_scheme option" where
  "heap_init s = do {
     (b, s) \<leftarrow> expand_heap 0 (s\<lparr>free_list_start := 0, heap_end_vaddr := HEAP_START\<rparr>);
     Some (s\<lparr>free_list_start := b\<rparr>)
   }"

definition heap_get_end_vaddr :: "'a heap_state_scheme \<Rightarrow> u32" where
  "heap_get_end_vaddr s = heap_end_vaddr s"

section \<open>The list of chunks\<close>

text \<open>
  A chunk is its size and whether it is free. \<open>seg H p a cs nx\<close>: from address \<open>a\<close> on, the store
  holds the headers of the chunks \<open>cs\<close>, back to back, linked both ways; \<open>p\<close> is the \<open>prev\<close> link
  of the first and \<open>nx\<close> the \<open>next\<close> link of the last.
\<close>

type_synonym chunk = "u32 \<times> bool"

abbreviation hdr :: "u32 \<Rightarrow> bool \<Rightarrow> u32 \<Rightarrow> u32 \<Rightarrow> header" where
  "hdr n f nx p \<equiv> \<lparr>h_size = n, h_is_free = (if f then 1 else 0), h_next = nx, h_prev = p\<rparr>"

definition extent :: "chunk list \<Rightarrow> nat" where
  "extent cs = sum_list (map (\<lambda>c. 16 + unat (fst c)) cs)"

lemma extent_simps [simp]:
  "extent [] = 0" "extent (c # cs) = 16 + unat (fst c) + extent cs" "extent (xs @ ys) = extent xs + extent ys"
  by (simp_all add: extent_def)

definition caddr :: "u32 \<Rightarrow> chunk list \<Rightarrow> u32" where
  "caddr a cs = a + of_nat (extent cs)"

lemma caddr_simps [simp]:
  "caddr a [] = a" "caddr a (c # cs) = caddr (a + 16 + fst c) cs" "caddr a (xs @ ys) = caddr (caddr a xs) ys"
  by (simp_all add: caddr_def add.assoc)

lemma unat_caddr: "unat a + extent cs < 4294967296 \<Longrightarrow> unat (caddr a cs) = unat a + extent cs"
  unfolding caddr_def by (subst unat_add_no_wrap) (simp_all add: unat_of_nat_u32)

lemma unat_next_chunk:
  "unat a + 16 + unat n < 4294967296 \<Longrightarrow> unat (a + 16 + n :: u32) = unat a + 16 + unat n"
  using unat_caddr [of a "[(n, True)]"] by simp

fun seg :: "(u32 \<Rightarrow> header option) \<Rightarrow> u32 \<Rightarrow> u32 \<Rightarrow> chunk list \<Rightarrow> u32 \<Rightarrow> bool" where
  "seg H p a [] nx \<longleftrightarrow> True"
| "seg H p a ((n, f) # cs) nx \<longleftrightarrow>
     H a = Some (hdr n f (if cs = [] then nx else a + 16 + n) p) \<and> seg H a (a + 16 + n) cs nx"

fun addrs :: "u32 \<Rightarrow> chunk list \<Rightarrow> u32 list" where
  "addrs a [] = []"
| "addrs a ((n, f) # cs) = a # addrs (a + 16 + n) cs"

fun lastp :: "u32 \<Rightarrow> u32 \<Rightarrow> chunk list \<Rightarrow> u32" where
  "lastp p a [] = p"
| "lastp p a ((n, f) # cs) = lastp a (a + 16 + n) cs"

lemma seg_append:
  "seg H p a (xs @ ys) nx \<longleftrightarrow>
     seg H p a xs (if ys = [] then nx else caddr a xs) \<and> seg H (lastp p a xs) (caddr a xs) ys nx"
  by (induction H p a xs nx rule: seg.induct) auto

lemma addrs_append: "addrs a (xs @ ys) = addrs a xs @ addrs (caddr a xs) ys"
  by (induction a xs rule: addrs.induct) auto

lemma lastp_append [simp]: "lastp p a (xs @ [c]) = caddr a xs"
  by (induction p a xs rule: lastp.induct) (cases c, auto)

lemma addrs_bounds:
  assumes "x \<in> set (addrs a cs)" "unat a + extent cs < 4294967296"
  shows "unat a \<le> unat x \<and> unat x + 16 \<le> unat a + extent cs"
  using assms
proof (induction a cs rule: addrs.induct)
  case (2 a n f cs)
  then show ?case using unat_next_chunk [of a n] by auto
qed simp

lemma seg_cong:
  assumes "\<And>x. x \<in> set (addrs a cs) \<Longrightarrow> H' x = H x"
  shows "seg H' p a cs nx = seg H p a cs nx"
  using assms by (induction H p a cs nx rule: seg.induct) auto

lemma seg_upd_outside: "x \<notin> set (addrs a cs) \<Longrightarrow> seg (H(x := v)) p a cs nx = seg H p a cs nx"
  by (rule seg_cong) auto

lemma seg_upd_below:
  "unat x < unat a \<Longrightarrow> unat a + extent cs < 4294967296 \<Longrightarrow> seg (H(x := v)) p a cs nx = seg H p a cs nx"
  by (rule seg_upd_outside) (use addrs_bounds in fastforce)

lemma seg_upd_above:
  "unat a + extent cs \<le> unat x \<Longrightarrow> seg (H(x := v)) p a cs nx = seg H p a cs nx"
  using unat_lt_2p32 [of x]
  by (intro seg_upd_outside) (use addrs_bounds [of x a cs] in fastforce)

text \<open>Setting the \<open>prev\<close> link of the first chunk of a segment, or the \<open>next\<close> link of the last.\<close>

lemma seg_set_prev:
  assumes "seg H p a ((n, f) # cs) nx" "unat a + extent ((n, f) # cs) < 4294967296"
  shows "seg (H(a \<mapsto> hdr n f (if cs = [] then nx else a + 16 + n) q)) q a ((n, f) # cs) nx"
  using assms unat_next_chunk [of a n] seg_upd_below [of a "a + 16 + n" cs] by simp

lemma seg_set_next:
  assumes "seg H p a (cs @ [(n, f)]) nx" "unat a + extent (cs @ [(n, f)]) < 4294967296"
  shows "seg (H(caddr a cs \<mapsto> hdr n f ny (lastp p a cs))) p a (cs @ [(n, f)]) ny"
proof -
  have "unat (caddr a cs) = unat a + extent cs" using assms(2) by (simp add: unat_caddr)
  then show ?thesis using assms(1) by (simp add: seg_append seg_upd_above)
qed

section \<open>The invariant\<close>

text \<open>
  The chunks tile the heap from its start to \<open>heap_end_vaddr\<close>, their sizes are multiples of 16,
  and every page below \<open>heap_end_vaddr\<close> is mapped, through the table at directory entry 769.
\<close>

definition heap_inv :: "'a heap_state_scheme \<Rightarrow> chunk list \<Rightarrow> bool" where
  "heap_inv s cs \<longleftrightarrow> vmm_inv s \<and>
     free_list_start s = (if cs = [] then 0 else HEAP_START) \<and>
     seg (heap_hdr s) 0 HEAP_START cs 0 \<and>
     unat (heap_end_vaddr s) = unat HEAP_START + extent cs \<and>
     page_aligned (heap_end_vaddr s) \<and>
     unat (heap_end_vaddr s) \<le> 0xC0800000 \<and>
     (\<forall>c \<in> set cs. unat (fst c) mod 16 = 0) \<and>
     present (entry s (pdir s) 769) \<and>
     (\<forall>v. HEAP_START \<le> v \<and> v < heap_end_vaddr s \<longrightarrow> translate s v \<noteq> None)"

lemma unat_HEAP_START: "unat HEAP_START = 3225419776"
  by (simp add: layout)

lemma heap_invD:
  assumes "heap_inv s cs"
  shows "vmm_inv s" "free_list_start s = (if cs = [] then 0 else HEAP_START)"
    "seg (heap_hdr s) 0 HEAP_START cs 0" "unat (heap_end_vaddr s) = 3225419776 + extent cs"
    "page_aligned (heap_end_vaddr s)" "3225419776 + extent cs \<le> 3229614080"
    "\<And>c. c \<in> set cs \<Longrightarrow> unat (fst c) mod 16 = 0"
    "\<And>v. HEAP_START \<le> v \<Longrightarrow> v < heap_end_vaddr s \<Longrightarrow> translate s v \<noteq> None"
    "present (entry s (pdir s) 769)"
  using assms by (auto simp: heap_inv_def unat_HEAP_START)

lemma caddr_heap:
  assumes "heap_inv s (xs @ ys)"
  shows "unat (caddr HEAP_START xs) = 3225419776 + extent xs" "caddr HEAP_START xs \<noteq> 0"
proof -
  show u: "unat (caddr HEAP_START xs) = 3225419776 + extent xs"
    using unat_caddr [of HEAP_START xs] heap_invD(6) [OF assms] by (simp add: unat_HEAP_START)
  show "caddr HEAP_START xs \<noteq> 0" using u by (auto simp: unat_eq_0)
qed

text \<open>The header of a chunk can be read and written, and is what the list says.\<close>

lemma hdr_access:
  assumes "translate s a \<noteq> None"
  shows "hdr_load a s = heap_hdr s a" "hdr_store a h s = Some (s\<lparr>heap_hdr := (heap_hdr s)(a \<mapsto> h)\<rparr>)"
  using assms by (auto simp: hdr_load_def hdr_store_def)

lemma translate_heap_upd [simp]:
  "translate (s\<lparr>heap_hdr := H\<rparr>) v = translate s v" "translate (s\<lparr>free_list_start := x\<rparr>) v = translate s v"
  "translate (s\<lparr>heap_end_vaddr := x\<rparr>) v = translate s v"
  by (rule same_machine_accesses(3), simp add: same_machine_def)+

lemma chunk_mapped:
  assumes "heap_inv s cs" "3225419776 \<le> unat a" "unat a < 3225419776 + extent cs"
  shows "translate s a \<noteq> None"
  using heap_invD(4) [OF assms(1)] heap_invD(8) [OF assms(1), of a] assms(2,3)
  by (simp add: word_le_nat_alt word_less_nat_alt unat_HEAP_START)

lemma entry_heap_upd [simp]:
  "entry (s\<lparr>heap_hdr := H\<rparr>) f i = entry s f i" "entry (s\<lparr>free_list_start := x\<rparr>) f i = entry s f i"
  "entry (s\<lparr>heap_end_vaddr := x\<rparr>) f i = entry s f i" "pdir (s\<lparr>heap_hdr := H\<rparr>) = pdir s"
  "pdir (s\<lparr>free_list_start := x\<rparr>) = pdir s" "pdir (s\<lparr>heap_end_vaddr := x\<rparr>) = pdir s"
  by (simp_all add: entry_def pdir_def)

lemma vmm_inv_heap_upd [simp]:
  "vmm_inv (s\<lparr>heap_hdr := H\<rparr>) = vmm_inv s" "vmm_inv (s\<lparr>free_list_start := x\<rparr>) = vmm_inv s"
  "vmm_inv (s\<lparr>heap_end_vaddr := x\<rparr>) = vmm_inv s"
  by (simp_all add: vmm_inv_def dir_ok_def pmm_inv_def frame_used_def frame_addr_used_def entry_def pdir_def)

lemma heap_inv_upd:
  assumes "heap_inv s cs" "seg H 0 HEAP_START cs' 0" "extent cs' = extent cs" "cs' = [] \<longleftrightarrow> cs = []"
    "\<And>c. c \<in> set cs' \<Longrightarrow> unat (fst c) mod 16 = 0"
  shows "heap_inv (s\<lparr>heap_hdr := H\<rparr>) cs'"
  using assms by (auto simp: heap_inv_def)

section \<open>Allocation as first fit on the list\<close>

fun first_fit :: "u32 \<Rightarrow> chunk list \<Rightarrow> (chunk list \<times> chunk \<times> chunk list) option" where
  "first_fit sz [] = None"
| "first_fit sz ((n, f) # cs) =
     (if f \<and> sz \<le> n then Some ([], (n, f), cs)
      else map_option (\<lambda>(xs, c, ys). ((n, f) # xs, c, ys)) (first_fit sz cs))"

definition taken :: "u32 \<Rightarrow> u32 \<Rightarrow> chunk list" where
  "taken sz n = (if unat sz + 32 \<le> unat n then [(sz, False), (n - sz - 16, True)] else [(n, False)])"

lemma first_fit_Some:
  "first_fit sz cs = Some (xs, c, ys) \<Longrightarrow>
     cs = xs @ c # ys \<and> snd c \<and> sz \<le> fst c \<and> (\<forall>d \<in> set xs. \<not> (snd d \<and> sz \<le> fst d))"
  by (induction sz cs arbitrary: xs rule: first_fit.induct) (auto split: if_splits, fastforce+)

lemma first_fit_None: "first_fit sz cs = None \<longleftrightarrow> (\<forall>d \<in> set cs. \<not> (snd d \<and> sz \<le> fst d))"
  by (induction sz cs rule: first_fit.induct) auto

text \<open>The header of the chunk after the prefix \<open>xs\<close>.\<close>

lemma chunk_header:
  assumes "heap_inv s (xs @ (n, f) # ys)"
  shows "heap_hdr s (caddr HEAP_START xs) =
      Some (hdr n f (if ys = [] then 0 else caddr HEAP_START xs + 16 + n) (lastp 0 HEAP_START xs))"
    and "translate s (caddr HEAP_START xs) \<noteq> None"
  using heap_invD(3) [OF assms] caddr_heap(1) [OF assms] chunk_mapped [OF assms, of "caddr HEAP_START xs"]
  by (simp_all add: seg_append)

lemma kmalloc_find_spec:
  assumes "heap_inv s (xs @ ys)"
  shows "kmalloc_find sz (if ys = [] then 0 else caddr HEAP_START xs) s =
    Some (case first_fit sz ys of None \<Rightarrow> 0 | Some (us, c, vs) \<Rightarrow> caddr HEAP_START (xs @ us))"
  using assms
proof (induction ys arbitrary: xs)
  case Nil
  then show ?case by (simp add: kmalloc_find.simps)
next
  case (Cons c cs)
  obtain n f where c: "c = (n, f)" by force
  note h = chunk_header [OF Cons.prems [unfolded c]]
  have nz: "caddr HEAP_START xs \<noteq> 0" by (rule caddr_heap(2) [OF Cons.prems])
  have IH: "kmalloc_find sz (if cs = [] then 0 else caddr HEAP_START xs + 16 + n) s =
      Some (case first_fit sz cs of None \<Rightarrow> 0 | Some (us, c, vs) \<Rightarrow> caddr HEAP_START (xs @ (n, f) # us))"
    using Cons.IH [of "xs @ [(n, f)]"] Cons.prems by (cases "cs = []") (simp_all add: c split: option.split)
  show ?case
    using nz h IH by (subst kmalloc_find.simps) (auto simp: c hdr_access(1) split: option.splits)
qed

text \<open>\<open>set_prev\<close> on the segment \<open>ys\<close> that starts at \<open>e\<close>.\<close>

lemma relink_prev:
  assumes "seg H p e ys 0" "unat e + extent ys < 4294967296" "ys \<noteq> [] \<longrightarrow> translate s e \<noteq> None" "e \<noteq> 0"
  obtains H2 where "\<And>x. unat x < unat e \<Longrightarrow> H2 x = H x" "seg H2 q e ys 0"
    "set_prev (if ys = [] then 0 else e) q (s\<lparr>heap_hdr := H\<rparr>) = Some (s\<lparr>heap_hdr := H2\<rparr>)"
proof (cases ys)
  case Nil
  then show ?thesis using assms(1) by (intro that [of H]) (simp_all add: set_prev_def)
next
  case (Cons y zs)
  obtain k g where y: "y = (k, g)" by force
  let ?h = "hdr k g (if zs = [] then 0 else e + 16 + k)"
  have "seg (H(e \<mapsto> ?h q)) q e ys 0"
    using seg_set_prev [of H p e k g zs 0 q] assms(1,2) by (simp add: Cons y)
  moreover have "H e = Some (?h p)" using assms(1) by (simp add: Cons y)
  ultimately show ?thesis
    using assms(3,4) Cons by (intro that [of "H(e \<mapsto> ?h q)"]) (auto simp: set_prev_def hdr_access)
qed

lemma extent_pos: "ys \<noteq> [] \<Longrightarrow> 0 < extent ys"
  by (cases ys) simp_all

lemma no_wrap_size:
  assumes "heap_inv s (xs @ (n, f) # ys)" "unat sz \<le> unat n"
  shows "unat (sz + HEADER_SIZE + 16) = unat sz + 32"
proof -
  have "extent (xs @ (n, f) # ys) \<le> 4194304" using heap_invD(6) [OF assms(1)] by simp
  then have "unat sz + 32 < 4294967296" using assms(2) by simp
  then show ?thesis
    using unat_add_no_wrap [of sz 32] by (simp add: HEADER_SIZE_def add.assoc)
qed

lemma taken_not_Nil [simp]: "taken sz n \<noteq> []"
  by (simp add: taken_def)

lemma taken_extent: "sz \<le> n \<Longrightarrow> extent (taken sz n) = 16 + unat n"
proof (cases "unat sz + 32 \<le> unat n")
  case True
  have "unat (n - sz) = unat n - unat sz" using True by (simp add: unat_sub word_le_nat_alt)
  moreover have "unat (n - sz - 16) = unat (n - sz) - 16"
    using True calculation by (simp add: unat_sub word_le_nat_alt)
  ultimately show ?thesis using True by (simp add: taken_def)
qed (simp add: taken_def)

lemma taken_mod16:
  assumes "unat n mod 16 = 0" "unat sz mod 16 = 0" "sz \<le> n" "c \<in> set (taken sz n)"
  shows "unat (fst c) mod 16 = 0"
proof (cases "unat sz + 32 \<le> unat n")
  case True
  have "unat (n - sz) = unat n - unat sz" using True by (simp add: unat_sub word_le_nat_alt)
  moreover have "unat (n - sz - 16) = unat (n - sz) - 16"
    using True calculation by (simp add: unat_sub word_le_nat_alt)
  moreover have "(unat n - unat sz - 16) mod 16 = 0"
    using assms(1,2) by (metis dvd_diff_nat dvd_refl mod_0_imp_dvd dvd_imp_mod_0)
  ultimately show ?thesis using assms(2,4) True by (auto simp: taken_def)
qed (use assms in \<open>auto simp: taken_def\<close>)

lemma kmalloc_take_spec:
  assumes inv: "heap_inv s (xs @ (n, True) # ys)" and sz: "sz \<le> n" "unat sz mod 16 = 0"
  shows "\<exists>t. kmalloc_take sz (caddr HEAP_START xs) s = Some (caddr HEAP_START xs + 16, t) \<and>
    heap_inv t (xs @ taken sz n @ ys)"
proof -
  let ?c = "caddr HEAP_START xs" and ?H = "heap_hdr s" and ?p = "lastp 0 HEAP_START xs"
  let ?nx = "if ys = [] then 0 else ?c + 16 + n"
  note h = chunk_header [OF inv] and u = caddr_heap(1) [OF inv] and b = heap_invD [OF inv]
  have ext: "unat ?c + 16 + unat n + extent ys \<le> 3229614080" using b(6) u by simp
  have sg: "seg ?H 0 HEAP_START xs ?c" "seg ?H ?c (?c + 16 + n) ys 0"
    using b(3) by (auto simp: seg_append)
  have un: "unat (?c + 16 + n) = unat ?c + 16 + unat n" using ext by (intro unat_next_chunk) simp
  have fin: "heap_inv (s\<lparr>heap_hdr := H\<rparr>) (xs @ taken sz n @ ys)"
    if "seg H 0 HEAP_START (xs @ taken sz n @ ys) 0" for H
    using taken_extent [OF sz(1)] taken_mod16 [OF b(7) [of "(n, True)", simplified] sz(2,1)] b(7) that
    by (intro heap_inv_upd [OF inv]) auto
  have below: "seg (H(x := v)) 0 HEAP_START xs ?c = seg H 0 HEAP_START xs ?c" if "unat ?c \<le> unat x" for H x v
    using that u by (intro seg_upd_above) (simp add: unat_HEAP_START)
  show ?thesis
  proof (cases "unat sz + 32 \<le> unat n")
    case False
    then have split: "kmalloc_split sz ?c s = Some s"
      using h no_wrap_size [OF inv] sz(1) by (simp add: kmalloc_split_def hdr_access word_le_nat_alt)
    let ?H' = "?H(?c \<mapsto> hdr n False ?nx ?p)"
    have "seg ?H' 0 HEAP_START (xs @ taken sz n @ ys) 0"
      using False sg below [of ?c] un ext seg_upd_below [of ?c "?c + 16 + n" ys]
      by (simp add: taken_def seg_append)
    then show ?thesis
      using split h fin by (simp add: kmalloc_take_def hdr_access HEADER_SIZE_def)
  next
    case True
    let ?d = "?c + HEADER_SIZE + sz" and ?m = "n - sz - 16"
    note T = True
    have n32: "unat (n - sz) = unat n - unat sz" using T by (simp add: unat_sub word_le_nat_alt)
    have ud: "unat ?d = unat ?c + 16 + unat sz"
      using ext T unat_next_chunk [of ?c sz] by (simp add: HEADER_SIZE_def)
    have um: "unat ?m = unat n - unat sz - 16" using T n32 by (simp add: unat_sub word_le_nat_alt)
    have dm: "?d + 16 + ?m = ?c + 16 + n" by (simp add: HEADER_SIZE_def)
    have md: "translate s ?d \<noteq> None" using ud u T by (intro chunk_mapped [OF inv]) simp_all
    let ?H1 = "?H(?d \<mapsto> hdr ?m True ?nx ?c)"
    have big: "h_size (hdr n True ?nx ?p) \<ge> sz + HEADER_SIZE + 16"
      using no_wrap_size [OF inv] sz(1) T by (simp add: word_le_nat_alt)
    have s1: "seg ?H1 ?c (?c + 16 + n) ys 0"
      using sg(2) un ud T ext seg_upd_below [of ?d "?c + 16 + n" ys] by simp
    have m1: "ys \<noteq> [] \<longrightarrow> translate s (?c + 16 + n) \<noteq> None"
      using un u chunk_mapped [OF inv, of "?c + 16 + n"] extent_pos [of ys] by simp
    have lim: "unat (?c + 16 + n) + extent ys < 4294967296" "?c + 16 + n \<noteq> 0"
      using un ext by (simp, metis add_is_0 unat_0 zero_neq_numeral)
    obtain H2 where H2: "\<And>x. unat x < unat (?c + 16 + n) \<Longrightarrow> H2 x = ?H1 x" "seg H2 ?d (?c + 16 + n) ys 0"
      "set_prev ?nx ?d (s\<lparr>heap_hdr := ?H1\<rparr>) = Some (s\<lparr>heap_hdr := H2\<rparr>)"
      by (rule relink_prev [OF s1 lim(1) m1 lim(2), where q = ?d]) (rule that)
    let ?H3 = "H2(?c \<mapsto> hdr sz True ?d ?p)" and ?H4 = "H2(?c \<mapsto> hdr sz False ?d ?p)"
    have "kmalloc_split sz ?c s = Some (s\<lparr>heap_hdr := ?H3\<rparr>)"
      using h md big H2(3) unfolding kmalloc_split_def
      by (simp add: hdr_access Let_def HEADER_SIZE_def)
    then have "kmalloc_take sz ?c s = Some (?c + 16, s\<lparr>heap_hdr := ?H4\<rparr>)"
      using h by (simp add: kmalloc_take_def hdr_access HEADER_SIZE_def)
    moreover have "seg ?H4 0 HEAP_START (xs @ taken sz n @ ys) 0"
    proof -
      have "seg H2 0 HEAP_START xs ?c = seg ?H 0 HEAP_START xs ?c"
      proof (rule seg_cong)
        fix x
        assume "x \<in> set (addrs HEAP_START xs)"
        then have "unat x + 16 \<le> unat ?c"
          using addrs_bounds [of x HEAP_START xs] u ext by (simp add: unat_HEAP_START)
        moreover from this have "x \<noteq> ?d" using ud by auto
        ultimately show "H2 x = ?H x" using H2(1) [of x] un by simp
      qed
      then have xs4: "seg ?H4 0 HEAP_START xs ?c" using sg(1) below [of ?c H2] by simp
      have "?d \<noteq> ?c" by (intro notI, drule arg_cong [of _ _ unat]) (simp add: ud)
      then have d4: "?H4 ?d = Some (hdr ?m True ?nx ?c)" using H2(1) [of ?d] ud un T by simp
      have ys4: "seg ?H4 ?d (?c + 16 + n) ys 0"
        using H2(2) un ext seg_upd_below [of ?c "?c + 16 + n" ys] by simp
      have d16: "?c + 16 + sz = ?d" by (simp add: HEADER_SIZE_def)
      have "seg ?H4 0 HEAP_START (xs @ (sz, False) # (?m, True) # ys) 0"
        unfolding seg_append seg.simps d16 dm using xs4 d4 ys4 by simp
      then show ?thesis using T by (simp add: taken_def)
    qed
    ultimately show ?thesis using fin by blast
  qed
qed

section \<open>Growing the heap\<close>

lemma heap_page_index:
  assumes "3225419776 \<le> unat v" "unat v < 3229614080"
  shows "pd_index v = 769" "v AND 0xFFFFF000 \<noteq> VMM_TEMP_PAGE"
proof -
  have "unat v div 4194304 = 769" using assms by (simp add: div_nat_eqI)
  then show "pd_index v = 769" by (simp add: word_unat_eq_iff unat_pd_index)
  then show "v AND 0xFFFFF000 \<noteq> VMM_TEMP_PAGE" by (simp add: temp_page_iff)
qed

lemma in_page:
  assumes "page_aligned p" "unat p \<le> unat v" "unat v < unat p + 4096"
  shows "v AND 0xFFFFF000 = p"
proof -
  have u: "unat (v - p) = unat v - unat p" using assms(2) by (simp add: unat_sub word_le_nat_alt)
  then have "unat (v - p) < 4096" using assms(2,3) by simp
  from frame_in_frame [OF assms(1) this] show ?thesis by simp
qed

lemma page_aligned_add: "page_aligned p \<Longrightarrow> page_aligned (p + 4096)"
proof -
  assume "page_aligned p"
  then have "4096 dvd unat p + unat (4096 :: u32)" by (auto simp: page_aligned_mod)
  then have "4096 dvd (unat p + unat (4096 :: u32)) mod 4294967296" by (intro dvd_mod) simp_all
  then show ?thesis by (simp add: page_aligned_mod unat_word_ariths(1))
qed

text \<open>What clients of the heap see of the rest of the state when pages are mapped.\<close>

definition vm_change :: "'a heap_state_scheme \<Rightarrow> 'a heap_state_scheme \<Rightarrow> bool" where
  "vm_change s t \<longleftrightarrow> (\<exists>m b e. t = s\<lparr>phys := m, pmm_bitmap := b, heap_end_vaddr := e\<rparr>)"

lemma vm_changeD:
  assumes "vm_change s t"
  shows "heap_hdr t = heap_hdr s" "free_list_start t = free_list_start s" "cr3 t = cr3 s"
    "pdir t = pdir s" "total_frames t = total_frames s"
  using assms by (auto simp: vm_change_def pdir_def)

lemma vm_change_refl: "vm_change s s"
  unfolding vm_change_def
  by (rule exI [of _ "phys s"], rule exI [of _ "pmm_bitmap s"], rule exI [of _ "heap_end_vaddr s"]) simp

lemma vm_change_trans: "vm_change s t \<Longrightarrow> vm_change t u \<Longrightarrow> vm_change s u"
  unfolding vm_change_def by force

text \<open>One turn of the page loop: a fresh frame, mapped at the end of the heap.\<close>

lemma expand_page_step:
  fixes s :: "'a heap_state_scheme"
  assumes "vmm_inv s" "present (entry s (pdir s) 769) \<or> 2 \<le> free_frames s" "1 \<le> free_frames s"
    "page_aligned (heap_end_vaddr s)" "3225419776 \<le> unat (heap_end_vaddr s)"
    "unat (heap_end_vaddr s) + 4096 \<le> 3229614080"
  obtains f t where "f \<noteq> 0" "pmm_managed f" "\<not> frame_addr_used s f"
    "\<And>n frs. expand_pages (Suc n) frs s = expand_pages n (frs @ [f]) t"
    "vm_change s t" "vmm_inv t" "present (entry t (pdir t) 769)"
    "heap_end_vaddr t = heap_end_vaddr s + 4096"
    "\<And>v. 3225419776 \<le> unat v \<Longrightarrow> unat v < unat (heap_end_vaddr s) \<Longrightarrow> translate t v = translate s v"
    "\<And>v. unat (heap_end_vaddr s) \<le> unat v \<Longrightarrow> unat v < unat (heap_end_vaddr s) + 4096 \<Longrightarrow>
      translate t v \<noteq> None"
    "\<And>a. frame_addr_used s a \<Longrightarrow> frame_addr_used t a" "frame_addr_used t f"
    "\<And>a. present (entry s (pdir s) 769) \<Longrightarrow> pmm_managed a \<Longrightarrow>
      frame_addr_used t a \<longleftrightarrow> a = f \<or> frame_addr_used s a"
    "\<And>i. present (entry s (pdir s) 769) \<Longrightarrow> unat i < 1024 \<Longrightarrow> entry t (pdir t) i = entry s (pdir s) i"
    "free_frames s \<le> Suc (Suc (free_frames t))"
    "present (entry s (pdir s) 769) \<Longrightarrow> free_frames s \<le> Suc (free_frames t)"
proof -
  let ?v = "heap_end_vaddr s"
  have n: "Suc (free_frames s - 1) \<le> free_frames s" using assms(3) by simp
  obtain f s1 where f: "pmm_alloc_frame s = Some (f, s1)" "f \<noteq> 0" "free_frames s - 1 \<le> free_frames s1"
    "pmm_inv s1" "same_machine s s1" "pmm_managed f" "\<not> frame_addr_used s f"
    "\<And>a. pmm_managed a \<Longrightarrow> frame_addr_used s1 a \<longleftrightarrow> a = f \<or> frame_addr_used s a"
    by (rule alloc_enough [OF vmm_invD(1) [OF assms(1)] n]) blast
  note fr = fresh_frame [OF vmm_invD(1) [OF assms(1)] f(1,2)]
  have acc: "entry s1 g i = entry s g i" "pdir s1 = pdir s" "translate s1 w = translate s w" for g i w
    using same_machine_accesses [OF f(5)] by simp_all
  have inv1: "vmm_inv s1"
    using vmm_invD [OF assms(1)] fr(7) f(4,5) by (simp add: vmm_inv_def acc same_machine_def)
  have ch1: "\<exists>b. s1 = s\<lparr>pmm_bitmap := b\<rparr>"
    using pmm_alloc_frameE [OF vmm_invD(1) [OF assms(1)] f(1,2)] unfolding mark_used_def by blast
  have idx: "pd_index ?v = 769" using heap_page_index [of ?v] assms(5,6) by simp
  have fl: "(PAGE_PRESENT OR PAGE_WRITE) AND 0xFFFFF000 = 0" "pd_index ?v \<noteq> 1023"
    by (simp_all add: layout idx)
  have pres: "present (entry s1 (pdir s1) (pd_index ?v)) \<or> 1 \<le> free_frames s1"
    using assms(2) f(3) by (auto simp: acc idx)
  obtain t where t: "vmm_map_page ?v f (PAGE_PRESENT OR PAGE_WRITE) s1 = Some t"
    "page_mapped ?v f (PAGE_PRESENT OR PAGE_WRITE) s1 t" "\<exists>m b. t = s1\<lparr>phys := m, pmm_bitmap := b\<rparr>"
    "present (entry t (pdir t) (pd_index ?v))"
    "present (entry s1 (pdir s1) (pd_index ?v)) \<Longrightarrow> pmm_bitmap t = pmm_bitmap s1"
    "\<And>i. present (entry s1 (pdir s1) (pd_index ?v)) \<Longrightarrow> unat i < 1024 \<Longrightarrow>
      entry t (pdir t) i = entry s1 (pdir s1) i"
    "\<And>a. frame_addr_used s1 a \<Longrightarrow> frame_addr_used t a" "free_frames s1 \<le> Suc (free_frames t)"
    by (rule vmm_map_page_effect [OF inv1 fl(2,1) pres]) (rule that)
  let ?t = "t\<lparr>heap_end_vaddr := ?v + 4096\<rparr>"
  have ch: "vm_change s ?t" using ch1 t(3) unfolding vm_change_def by force
  have he: "heap_end_vaddr t = ?v" using ch1 t(3) by auto
  have he1: "heap_end_vaddr s1 = ?v" using ch1 by auto
  have "\<not> KERNEL_HEAP_END - PAGE_SIZE + 1 < ?v"
    using assms(6) by (simp add: word_less_nat_alt layout PAGE_SIZE_def)
  then have run: "expand_pages (Suc n) frs s = expand_pages n (frs @ [f]) ?t" for n frs
    using f(1,2) t(1) he he1 by (simp add: vmm_map_kernel_page_def) (simp add: PAGE_SIZE_def)
  have used_t: "frame_addr_used ?t a = frame_addr_used t a" "free_frames ?t = free_frames t" for a
    by (simp_all add: frame_addr_used_def frame_used_def free_frames_def)
  have old: "translate ?t v = translate s v" if v: "3225419776 \<le> unat v" "unat v < unat ?v" for v
  proof -
    have ne: "v AND 0xFFFFF000 \<noteq> ?v AND 0xFFFFF000"
    proof
      assume "v AND 0xFFFFF000 = ?v AND 0xFFFFF000"
      then have "unat v div 4096 * 4096 = unat ?v div 4096 * 4096" by (metis unat_and_page)
      then show False
        using v(2) page_aligned_and_id [OF assms(4)] div_times_less_eq_dividend [of "unat v" 4096]
        by (metis unat_and_page linorder_not_le)
    qed
    have "pd_index v = 769" "v AND 0xFFFFF000 \<noteq> VMM_TEMP_PAGE" using heap_page_index [of v] v assms(6) by simp_all
    with ne t(2) show ?thesis by (simp add: page_mapped_def unrelated_def acc)
  qed
  have "translate ?t v \<noteq> None" if "unat ?v \<le> unat v" "unat v < unat ?v + 4096" for v
    using translate_same_page [of v ?v t] in_page [OF assms(4) that] page_aligned_and_id [OF assms(4)] t(2)
    by (simp add: page_mapped_def)
  moreover have "frame_addr_used ?t a \<longleftrightarrow> a = f \<or> frame_addr_used s a"
    if "present (entry s (pdir s) 769)" "pmm_managed a" for a
    using t(5) that f(8) [OF that(2)] used_t by (simp add: acc idx frame_addr_used_def frame_used_def)
  moreover have "free_frames t = free_frames s1" if "present (entry s (pdir s) 769)"
    using t(3,5) that by (auto simp: acc idx free_frames_def frame_used_def)
  ultimately show thesis
    using f(3) t(2,4,6,7,8) fr(8,9) idx he
    by (intro that [OF f(2,6,7) run ch _ _ _ old]) (auto simp: used_t page_mapped_def acc)
qed

lemma expand_pages_stop:
  assumes "pmm_inv s" "free_frames s = 0 \<or> 3229614080 < unat (heap_end_vaddr s) + 4096"
  shows "expand_pages (Suc n) frs s = Some (False, frs, s)"
proof (cases "KERNEL_HEAP_END - PAGE_SIZE + 1 < heap_end_vaddr s")
  case False
  then have "unat (heap_end_vaddr s) + 4096 \<le> 3229614080"
    by (simp add: word_less_nat_alt layout PAGE_SIZE_def)
  then have "free_frames s = 0" using assms(2) by simp
  then have "\<forall>k < unat (total_frames s). frame_used s k" by (auto simp: free_frames_def)
  then show ?thesis using False pmm_alloc_none [OF assms(1)] by simp
qed simp

text \<open>The page loop: it maps \<open>k\<close> pages, all \<open>n\<close> unless frames or address space run out.\<close>

lemma expand_pages_spec:
  assumes "vmm_inv s" "present (entry s (pdir s) 769)" "page_aligned (heap_end_vaddr s)"
    "3225419776 \<le> unat (heap_end_vaddr s)" "unat (heap_end_vaddr s) \<le> 3229614080"
  shows "\<exists>fs t. expand_pages n frs s = Some (length fs = n, frs @ fs, t) \<and> length fs \<le> n \<and>
    vm_change s t \<and> vmm_inv t \<and> present (entry t (pdir t) 769) \<and> page_aligned (heap_end_vaddr t) \<and>
    unat (heap_end_vaddr t) = unat (heap_end_vaddr s) + length fs * 4096 \<and>
    unat (heap_end_vaddr t) \<le> 3229614080 \<and>
    (\<forall>v. 3225419776 \<le> unat v \<and> unat v < unat (heap_end_vaddr s) \<longrightarrow> translate t v = translate s v) \<and>
    (\<forall>v. unat (heap_end_vaddr s) \<le> unat v \<and> unat v < unat (heap_end_vaddr t) \<longrightarrow> translate t v \<noteq> None) \<and>
    distinct fs \<and> (\<forall>f \<in> set fs. f \<noteq> 0 \<and> pmm_managed f \<and> \<not> frame_addr_used s f) \<and>
    (\<forall>a. pmm_managed a \<longrightarrow> frame_addr_used t a = (a \<in> set fs \<or> frame_addr_used s a)) \<and>
    (\<forall>i. unat i < 1024 \<longrightarrow> entry t (pdir t) i = entry s (pdir s) i) \<and>
    free_frames s \<le> length fs + free_frames t \<and>
    (length fs < n \<longrightarrow> free_frames t = 0 \<or> 3229614080 < unat (heap_end_vaddr t) + 4096)"
  using assms
proof (induction n arbitrary: s frs)
  case 0
  then show ?case by (intro exI [of _ "[]"] exI [of _ s]) (simp add: vm_change_refl, auto)
next
  case (Suc n)
  show ?case
  proof (cases "free_frames s = 0 \<or> 3229614080 < unat (heap_end_vaddr s) + 4096")
    case True
    then show ?thesis
      using expand_pages_stop [OF vmm_invD(1) [OF Suc.prems(1)] True] Suc.prems
      by (intro exI [of _ "[]"] exI [of _ s]) (simp add: vm_change_refl, auto)
  next
    case False
    let ?v = "heap_end_vaddr s"
    have room: "unat ?v + 4096 \<le> 3229614080" "1 \<le> free_frames s" using False by simp_all
    obtain f t where t: "f \<noteq> 0" "pmm_managed f" "\<not> frame_addr_used s f"
      "\<And>n frs. expand_pages (Suc n) frs s = expand_pages n (frs @ [f]) t"
      "vm_change s t" "vmm_inv t" "present (entry t (pdir t) 769)" "heap_end_vaddr t = ?v + 4096"
      "\<And>v. 3225419776 \<le> unat v \<Longrightarrow> unat v < unat ?v \<Longrightarrow> translate t v = translate s v"
      "\<And>v. unat ?v \<le> unat v \<Longrightarrow> unat v < unat ?v + 4096 \<Longrightarrow> translate t v \<noteq> None"
      "\<And>a. present (entry s (pdir s) 769) \<Longrightarrow> pmm_managed a \<Longrightarrow>
        frame_addr_used t a \<longleftrightarrow> a = f \<or> frame_addr_used s a"
      "\<And>i. present (entry s (pdir s) 769) \<Longrightarrow> unat i < 1024 \<Longrightarrow> entry t (pdir t) i = entry s (pdir s) i"
      "present (entry s (pdir s) 769) \<Longrightarrow> free_frames s \<le> Suc (free_frames t)"
      by (rule expand_page_step [OF Suc.prems(1) disjI1 [OF Suc.prems(2)] room(2) Suc.prems(3,4) room(1)]) blast
    have u: "unat (heap_end_vaddr t) = unat ?v + 4096"
      using t(8) room unat_add_no_wrap [of ?v 4096] by simp
    have al: "page_aligned (heap_end_vaddr t)" using Suc.prems(3) t(8) page_aligned_add by simp
    obtain fs w where w: "expand_pages n (frs @ [f]) t = Some (length fs = n, (frs @ [f]) @ fs, w)"
      "length fs \<le> n" "vm_change t w" "vmm_inv w" "present (entry w (pdir w) 769)"
      "page_aligned (heap_end_vaddr w)" "unat (heap_end_vaddr w) = unat (heap_end_vaddr t) + length fs * 4096"
      "unat (heap_end_vaddr w) \<le> 3229614080"
      "\<And>v. 3225419776 \<le> unat v \<Longrightarrow> unat v < unat (heap_end_vaddr t) \<Longrightarrow> translate w v = translate t v"
      "\<And>v. unat (heap_end_vaddr t) \<le> unat v \<Longrightarrow> unat v < unat (heap_end_vaddr w) \<Longrightarrow> translate w v \<noteq> None"
      "distinct fs" "\<forall>f \<in> set fs. f \<noteq> 0 \<and> pmm_managed f \<and> \<not> frame_addr_used t f"
      "\<And>a. pmm_managed a \<Longrightarrow> frame_addr_used w a = (a \<in> set fs \<or> frame_addr_used t a)"
      "length fs < n \<Longrightarrow> free_frames w = 0 \<or> 3229614080 < unat (heap_end_vaddr w) + 4096"
      "\<And>i. unat i < 1024 \<Longrightarrow> entry w (pdir w) i = entry t (pdir t) i"
      "free_frames t \<le> length fs + free_frames w"
      using Suc.IH [OF t(6,7) al, of "frs @ [f]"] u room Suc.prems(4) by auto
    have used: "frame_addr_used w a = (a \<in> set (f # fs) \<or> frame_addr_used s a)" if "pmm_managed a" for a
      using w(13) [OF that] t(11) [OF Suc.prems(2) that] by auto
    have fs: "distinct (f # fs)" "\<forall>g \<in> set (f # fs). g \<noteq> 0 \<and> pmm_managed g \<and> \<not> frame_addr_used s g"
      using w(11,12) t(1-3) t(11) [OF Suc.prems(2)] by auto
    have old: "translate w v = translate s v" if "3225419776 \<le> unat v" "unat v < unat ?v" for v
      using w(9) [of v] t(9) [OF that] that u by simp
    have new: "translate w v \<noteq> None" if "unat ?v \<le> unat v" "unat v < unat (heap_end_vaddr w)" for v
    proof (cases "unat v < unat ?v + 4096")
      case True
      then show ?thesis using w(9) [of v] t(10) [OF that(1)] Suc.prems(4) that u by simp
    next
      case False
      then show ?thesis using w(10) [of v] that u by simp
    qed
    have "expand_pages (Suc n) frs s = Some (length (f # fs) = Suc n, frs @ (f # fs), w)"
      using t(4) w(1) by simp
    moreover have "length (f # fs) \<le> Suc n" "vm_change s w"
      "unat (heap_end_vaddr w) = unat ?v + length (f # fs) * 4096"
      "length (f # fs) < Suc n \<Longrightarrow> free_frames w = 0 \<or> 3229614080 < unat (heap_end_vaddr w) + 4096"
      using w(2,7,14) u vm_change_trans [OF t(5) w(3)] by simp_all
    moreover have "entry w (pdir w) i = entry s (pdir s) i" if "unat i < 1024" for i
      using w(15) [OF that] t(12) [OF Suc.prems(2) that] by simp
    moreover have "free_frames s \<le> length (f # fs) + free_frames w"
      using w(16) t(13) [OF Suc.prems(2)] by simp
    ultimately show ?thesis
      using w(4-6,8) old new fs used by (intro exI [of _ "f # fs"] exI [of _ w]) blast
  qed
qed

text \<open>One turn of the rollback loop: a page unmapped and its frame released.\<close>

lemma rollback_step:
  fixes s :: "'a heap_state_scheme"
  assumes "vmm_inv s" "present (entry s (pdir s) 769)" "page_aligned v" "3225419776 \<le> unat v"
    "unat v < 3229614080" "f \<noteq> 0" "pmm_managed f"
    "\<forall>i. unat i < 1024 \<and> present (entry s (pdir s) i) \<longrightarrow> table s (pdir s) i \<noteq> f"
  obtains w where "\<And>fs. expand_rollback v (f # fs) s = expand_rollback (v + PAGE_SIZE) fs w"
    "vm_change s w" "heap_end_vaddr w = heap_end_vaddr s" "vmm_inv w"
    "\<And>i. unat i < 1024 \<Longrightarrow> entry w (pdir w) i = entry s (pdir s) i"
    "\<And>x. 3225419776 \<le> unat x \<Longrightarrow> unat x < unat v \<Longrightarrow> translate w x = translate s x"
    "\<And>a. pmm_managed a \<Longrightarrow> frame_addr_used w a \<longleftrightarrow> a \<noteq> f \<and> frame_addr_used s a"
proof -
  note inv = vmm_invD [OF assms(1)] and d = dir_okD [OF vmm_invD(3) [OF assms(1)]]
  have v: "pd_index v = 769" using heap_page_index [of v] assms(4,5) by simp
  let ?F = "table s (pdir s) 769"
  let ?u = "set_entry ?F (pt_index v) 0 s"
  have un: "vmm_unmap_page v s = Some ?u"
    using table_access(2) [OF inv(4) _ _ assms(2), of "pt_index v"]
    by (simp add: vmm_unmap_page_def Let_def index_folds PAGE_SIZE_def v)
  have F: "?F \<noteq> pdir s" using d(5) [of 769 1023] d(2,3) assms(2) by auto
  have eu: "entry ?u (pdir s) i = entry s (pdir s) i" if "unat i < 1024" for i
    using that F by (simp add: entry_set_entry)
  obtain k where k: "k < 32768" "f = of_nat k * PAGE_SIZE" using assms(7) by (auto simp: pmm_managed_iff)
  let ?w = "mark_free k ?u"
  have us: "frame_addr_used ?w a \<longleftrightarrow> a \<noteq> f \<and> frame_addr_used s a" if "pmm_managed a" for a
    using that k unfolding pmm_managed_iff
    by (auto simp: frame_addr_used_def frame_addr_div frame_addr_eq_iff set_entry_def)
  have "dir_ok ?w (pdir s)" unfolding dir_ok_def
  proof (intro conjI allI impI; (elim conjE)?)
    fix i
    assume i: "unat i < 1024" "present (entry ?w (pdir s) i)"
    then have "pmm_managed (table s (pdir s) i) \<and> table s (pdir s) i \<noteq> 0 \<and> frame_addr_used s (table s (pdir s) i)"
      "table s (pdir s) i \<noteq> f"
      using d(6) [of i] assms(8) by (auto simp: eu)
    with i us show "pmm_managed (table ?w (pdir s) i)" "table ?w (pdir s) i \<noteq> 0"
      "frame_addr_used ?w (table ?w (pdir s) i)" by (simp_all add: eu)
  qed (use d in \<open>simp_all add: eu\<close>)
  moreover have "pmm_inv ?w" using inv(1) k assms(6) by (cases "k = 0") (auto simp: pmm_inv_def set_entry_def)
  ultimately have iw: "vmm_inv ?w" using inv(2) by (simp add: vmm_inv_def)
  have ch: "vm_change s ?w" "heap_end_vaddr ?w = heap_end_vaddr s"
    unfolding vm_change_def set_entry_def mark_free_def
    by (rule exI, rule exI, rule exI [of _ "heap_end_vaddr s"]) simp_all
  have tr: "translate ?w x = translate s x" if x: "3225419776 \<le> unat x" "unat x < unat v" for x
  proof -
    have ix: "pd_index x = 769" using heap_page_index [of x] x assms(5) by simp
    have "x AND 0xFFFFF000 \<noteq> v AND 0xFFFFF000"
    proof
      assume "x AND 0xFFFFF000 = v AND 0xFFFFF000"
      then have "v = x AND 0xFFFFF000" using page_aligned_and_id [OF assms(3)] by simp
      then show False using x(2) div_times_less_eq_dividend [of "unat x" 4096] by (simp add: unat_and_page)
    qed
    then have "translate ?u x = translate s x"
      using walk_set_entry [OF inv(3) _ assms(2), of "pt_index v" x 0] ix inv(2) v
      by (auto simp: translate_def page_eq_iff)
    moreover have "translate ?w x = translate ?u x"
      by (rule same_machine_accesses(3)) (simp add: same_machine_def)
    ultimately show ?thesis by simp
  qed
  show thesis
    by (rule that [OF _ ch iw _ tr us]) (use un k eu in \<open>simp_all add: pmm_free_frame_spec\<close>)
qed

text \<open>The rollback loop undoes the page loop.\<close>

lemma expand_rollback_spec:
  fixes s :: "'a heap_state_scheme"
  assumes "vmm_inv s" "present (entry s (pdir s) 769)" "page_aligned v" "3225419776 \<le> unat v"
    "unat v + length fs * 4096 \<le> 3229614080" "\<forall>f \<in> set fs. f \<noteq> 0 \<and> pmm_managed f"
    "\<forall>i. unat i < 1024 \<and> present (entry s (pdir s) i) \<longrightarrow> table s (pdir s) i \<notin> set fs"
  shows "\<exists>t. expand_rollback v fs s = Some t \<and> vm_change s t \<and> heap_end_vaddr t = heap_end_vaddr s \<and>
    vmm_inv t \<and> present (entry t (pdir t) 769) \<and>
    (\<forall>w. 3225419776 \<le> unat w \<and> unat w < unat v \<longrightarrow> translate t w = translate s w) \<and>
    (\<forall>a. pmm_managed a \<longrightarrow> frame_addr_used t a = (frame_addr_used s a \<and> a \<notin> set fs))"
  using assms
proof (induction fs arbitrary: v s)
  case Nil
  then show ?case by (simp add: vm_change_refl)
next
  case (Cons f fs)
  have f: "unat v < 3229614080" "f \<noteq> 0" "pmm_managed f"
    "\<forall>i. unat i < 1024 \<and> present (entry s (pdir s) i) \<longrightarrow> table s (pdir s) i \<noteq> f"
    using Cons.prems(5-7) by auto
  obtain w where w: "\<And>fs. expand_rollback v (f # fs) s = expand_rollback (v + PAGE_SIZE) fs w"
    "vm_change s w" "heap_end_vaddr w = heap_end_vaddr s" "vmm_inv w"
    "\<And>i. unat i < 1024 \<Longrightarrow> entry w (pdir w) i = entry s (pdir s) i"
    "\<And>x. 3225419776 \<le> unat x \<Longrightarrow> unat x < unat v \<Longrightarrow> translate w x = translate s x"
    "\<And>a. pmm_managed a \<Longrightarrow> frame_addr_used w a \<longleftrightarrow> a \<noteq> f \<and> frame_addr_used s a"
    by (rule rollback_step [OF Cons.prems(1-4) f]) (rule that)
  have u1: "unat (v + PAGE_SIZE) = unat v + 4096"
    using Cons.prems(5) unat_add_no_wrap [of v 4096] by (simp add: PAGE_SIZE_def)
  have tabs: "\<forall>i. unat i < 1024 \<and> present (entry w (pdir w) i) \<longrightarrow> table w (pdir w) i \<notin> set fs"
  proof (intro allI impI)
    fix i
    assume "unat i < 1024 \<and> present (entry w (pdir w) i)"
    then show "table w (pdir w) i \<notin> set fs" using w(5) [of i] Cons.prems(7) by auto
  qed
  have pre: "page_aligned (v + PAGE_SIZE)" "3225419776 \<le> unat (v + PAGE_SIZE)"
    "unat (v + PAGE_SIZE) + length fs * 4096 \<le> 3229614080" "\<forall>f \<in> set fs. f \<noteq> 0 \<and> pmm_managed f"
    "present (entry w (pdir w) 769)"
    using Cons.prems u1 page_aligned_add [OF Cons.prems(3)] by (simp_all add: w(5) PAGE_SIZE_def)
  obtain t where t: "expand_rollback (v + PAGE_SIZE) fs w = Some t" "vm_change w t"
    "heap_end_vaddr t = heap_end_vaddr w" "vmm_inv t" "present (entry t (pdir t) 769)"
    "\<And>x. 3225419776 \<le> unat x \<Longrightarrow> unat x < unat v + 4096 \<Longrightarrow> translate t x = translate w x"
    "\<And>a. pmm_managed a \<Longrightarrow> frame_addr_used t a = (frame_addr_used w a \<and> a \<notin> set fs)"
    using Cons.IH [OF w(4) pre(5,1-4) tabs] u1 by auto
  have "frame_addr_used t a = (frame_addr_used s a \<and> a \<notin> set (f # fs))" if "pmm_managed a" for a
    using t(7) [OF that] w(7) [OF that] by auto
  moreover have "translate t x = translate s x" if "3225419776 \<le> unat x" "unat x < unat v" for x
    using t(6) [of x] w(6) [OF that] that by simp
  ultimately show ?case
    using w(1,3) t(1,3-5) vm_change_trans [OF w(2) t(2)] by (intro exI [of _ t]) auto
qed

section \<open>Linking a new block\<close>

text \<open>The part of the invariant that the list walk needs.\<close>

definition heap_seg :: "'a heap_state_scheme \<Rightarrow> chunk list \<Rightarrow> bool" where
  "heap_seg s cs \<longleftrightarrow> seg (heap_hdr s) 0 HEAP_START cs 0 \<and> 3225419776 + extent cs \<le> 3229614080 \<and>
     (\<forall>v. 3225419776 \<le> unat v \<and> unat v < 3225419776 + extent cs \<longrightarrow> translate s v \<noteq> None)"

lemma heap_inv_seg: "heap_inv s cs \<Longrightarrow> heap_seg s cs"
  using heap_invD(3,6) [of s cs] chunk_mapped [of s cs] by (simp add: heap_seg_def)

lemma heap_seg_header:
  assumes "heap_seg s (xs @ (n, f) # ys)"
  shows "hdr_load (caddr HEAP_START xs) s =
      Some (hdr n f (if ys = [] then 0 else caddr HEAP_START xs + 16 + n) (lastp 0 HEAP_START xs))"
    and "translate s (caddr HEAP_START xs) \<noteq> None"
    and "unat (caddr HEAP_START xs) = 3225419776 + extent xs"
proof -
  show u: "unat (caddr HEAP_START xs) = 3225419776 + extent xs"
    using assms unat_caddr [of HEAP_START xs] by (simp add: heap_seg_def unat_HEAP_START)
  then show tr: "translate s (caddr HEAP_START xs) \<noteq> None" using assms by (simp add: heap_seg_def)
  show "hdr_load (caddr HEAP_START xs) s =
      Some (hdr n f (if ys = [] then 0 else caddr HEAP_START xs + 16 + n) (lastp 0 HEAP_START xs))"
    using assms hdr_access(1) [OF tr] by (simp add: heap_seg_def seg_append)
qed

lemma heap_last_spec:
  assumes "heap_seg s (xs @ c # ys)"
  shows "heap_last (caddr HEAP_START xs) s = Some (caddr HEAP_START (butlast (xs @ c # ys)))"
  using assms
proof (induction ys arbitrary: xs c)
  case Nil
  obtain n f where c: "c = (n, f)" by force
  show ?case
    using heap_seg_header(1) [OF Nil [unfolded c]] by (subst heap_last.simps) simp
next
  case (Cons d ys)
  obtain n f where c: "c = (n, f)" by force
  obtain m g where d: "d = (m, g)" by force
  have pre: "heap_seg s ((xs @ [(n, f)]) @ (m, g) # ys)" using Cons.prems by (simp add: c d)
  have "caddr HEAP_START xs + 16 + n \<noteq> 0"
    using heap_seg_header(3) [OF pre] by (intro notI) simp
  then show ?case
    using heap_seg_header(1) [OF Cons.prems [unfolded c]] Cons.IH [of "xs @ [(n, f)]" d] Cons.prems
    by (subst heap_last.simps) (simp add: c butlast_append)
qed

lemma heap_link_spec:
  assumes "heap_seg s cs" "free_list_start s = (if cs = [] then 0 else HEAP_START)"
    "b = caddr HEAP_START cs" "heap_hdr s b = Some (hdr n True 0 0)" "translate s b \<noteq> None"
  shows "\<exists>H. heap_link b s = Some (s\<lparr>heap_hdr := H, free_list_start := HEAP_START\<rparr>) \<and>
    seg H 0 HEAP_START (cs @ [(n, True)]) 0"
proof (cases cs rule: rev_cases)
  case Nil
  then show ?thesis
    using assms by (intro exI [of _ "heap_hdr s"]) (simp add: heap_link_def)
next
  case (snoc xs c)
  obtain m f where c: "c = (m, f)" by force
  let ?l = "caddr HEAP_START xs" and ?p = "lastp 0 HEAP_START xs"
  have pre: "heap_seg s (xs @ (m, f) # [])" using assms(1) snoc c by simp
  note h = heap_seg_header [OF pre]
  have sg: "seg (heap_hdr s) 0 HEAP_START (xs @ [(m, f)]) 0"
    and lim: "unat HEAP_START + extent (xs @ [(m, f)]) < 4294967296"
    using pre by (simp_all add: heap_seg_def unat_HEAP_START)
  have ub: "unat b = 3225419776 + extent cs"
    using unat_caddr [OF lim] assms(3) snoc c by (simp add: unat_HEAP_START)
  have ne: "b \<noteq> ?l" using ub h(3) snoc c by (intro notI) simp
  have nz: "HEAP_START \<noteq> 0" by (simp add: layout)
  have last: "heap_last (free_list_start s) s = Some ?l"
    using assms(1,2) heap_last_spec [of s "[]" "hd cs" "tl cs"] snoc
    by (cases xs) (simp_all add: c)
  let ?H1 = "(heap_hdr s)(?l \<mapsto> hdr m f b ?p)"
  let ?H = "?H1(b \<mapsto> hdr n True 0 ?l)"
  have "heap_link b s = Some (s\<lparr>heap_hdr := ?H\<rparr>)"
    using last h(1,2) assms(2,4,5) ne nz snoc unfolding heap_link_def
    by (simp add: hdr_store_def hdr_load_def)
  moreover have "seg ?H1 0 HEAP_START (xs @ [(m, f)]) b"
    using seg_set_next [OF sg lim, of b] by simp
  then have "seg ?H 0 HEAP_START (xs @ [(m, f)]) b"
    using ub snoc c by (subst seg_upd_above) (simp_all add: unat_HEAP_START)
  then have "seg ?H 0 HEAP_START (cs @ [(n, True)]) 0"
    unfolding seg_append [of _ _ _ cs] using assms(3) snoc c by simp
  moreover have "s\<lparr>heap_hdr := ?H, free_list_start := HEAP_START\<rparr> = s\<lparr>heap_hdr := ?H\<rparr>"
    using assms(2) snoc by simp
  ultimately show ?thesis by metis
qed

section \<open>expand_heap\<close>

lemma heap_pages_unat:
  assumes "unat sz \<le> 4294959104"
  shows "unat (heap_pages sz) = (unat sz + 4111) div 4096"
proof -
  have "unat (sz + 4111) = unat sz + 4111" using assms unat_add_no_wrap [of sz 4111] by simp
  moreover have e: "sz + HEADER_SIZE + PAGE_SIZE - 1 = sz + 4111" by (simp add: HEADER_SIZE_def PAGE_SIZE_def)
  ultimately show ?thesis unfolding heap_pages_def e unat_div by (simp add: PAGE_SIZE_def)
qed

lemma heap_pages_room: "unat sz \<le> 4294959104 \<Longrightarrow> 0 < unat (heap_pages sz) \<and> unat sz + 16 \<le> unat (heap_pages sz) * 4096"
proof -
  assume "unat sz \<le> 4294959104"
  from heap_pages_unat [OF this] have e: "unat (heap_pages sz) = (unat sz + 4111) div 4096" .
  have "unat sz + 4111 < (unat sz + 4111) div 4096 * 4096 + 4096"
    using dividend_less_div_times [of 4096 "unat sz + 4111"] by simp
  then show ?thesis unfolding e by (auto simp: div_greater_zero_iff)
qed

lemma unat_new_block:
  assumes "unat p * 4096 \<le> 4194304" "0 < unat p"
  shows "unat (p * PAGE_SIZE - HEADER_SIZE) = unat p * 4096 - 16"
proof -
  have "unat (p * PAGE_SIZE) = unat p * 4096"
    using assms unat_mult_no_wrap [of p 4096] by (simp add: PAGE_SIZE_def)
  moreover have "unat HEADER_SIZE = 16" by (simp add: HEADER_SIZE_def)
  ultimately show ?thesis using assms(2) by (simp add: unat_sub word_le_nat_alt)
qed

text \<open>The two outcomes of growing: a free block linked at the end, or nothing changed.\<close>

lemma expand_heap_spec:
  assumes "heap_inv s cs" "unat sz \<le> 4294959104"
  defines "N \<equiv> unat (heap_pages sz)"
  shows "(\<exists>t u n. expand_heap sz s = Some (caddr HEAP_START cs, t) \<and> caddr HEAP_START cs \<noteq> 0 \<and>
      heap_link (caddr HEAP_START cs) t = Some u \<and> heap_inv u (cs @ [(n, True)]) \<and> unat n = N * 4096 - 16) \<or>
    (\<exists>t. expand_heap sz s = Some (0, t) \<and> heap_inv t cs \<and>
      (\<forall>a. pmm_managed a \<longrightarrow> frame_addr_used t a = frame_addr_used s a) \<and>
      (free_frames s < N \<or> 3229614080 < unat (heap_end_vaddr s) + N * 4096))"
proof -
  note h = heap_invD [OF assms(1)]
  let ?e = "heap_end_vaddr s"
  have e: "?e = caddr HEAP_START cs" "unat ?e \<le> 3229614080" "3225419776 \<le> unat ?e"
    using h(4,6) unat_caddr [of HEAP_START cs] by (simp_all add: word_unat_eq_iff unat_HEAP_START)
  obtain fs t where t: "expand_pages N [] s = Some (length fs = N, fs, t)" "length fs \<le> N"
    "vm_change s t" "vmm_inv t" "present (entry t (pdir t) 769)" "page_aligned (heap_end_vaddr t)"
    "unat (heap_end_vaddr t) = unat ?e + length fs * 4096" "unat (heap_end_vaddr t) \<le> 3229614080"
    "\<And>v. 3225419776 \<le> unat v \<Longrightarrow> unat v < unat ?e \<Longrightarrow> translate t v = translate s v"
    "\<And>v. unat ?e \<le> unat v \<Longrightarrow> unat v < unat (heap_end_vaddr t) \<Longrightarrow> translate t v \<noteq> None"
    "\<forall>f \<in> set fs. f \<noteq> 0 \<and> pmm_managed f \<and> \<not> frame_addr_used s f"
    "\<And>a. pmm_managed a \<Longrightarrow> frame_addr_used t a = (a \<in> set fs \<or> frame_addr_used s a)"
    "\<And>i. unat i < 1024 \<Longrightarrow> entry t (pdir t) i = entry s (pdir s) i"
    "free_frames s \<le> length fs + free_frames t"
    "length fs < N \<Longrightarrow> free_frames t = 0 \<or> 3229614080 < unat (heap_end_vaddr t) + 4096"
    using expand_pages_spec [OF h(1,9,5) e(3,2), of N "[]"] by auto
  note ch = vm_changeD [OF t(3)]
  have N: "0 < N" "unat sz + 16 \<le> N * 4096" using heap_pages_room [OF assms(2)] by (simp_all add: N_def)
  have old: "translate t v \<noteq> None" if "3225419776 \<le> unat v" "unat v < 3225419776 + extent cs" for v
    using t(9) [of v] chunk_mapped [OF assms(1), of v] that h(4) by simp
  show ?thesis
  proof (cases "length fs = N")
    case True
    let ?n = "heap_pages sz * PAGE_SIZE - HEADER_SIZE"
    let ?t = "t\<lparr>heap_hdr := (heap_hdr t)(?e \<mapsto> hdr ?n True 0 0)\<rparr>"
    have m: "translate t ?e \<noteq> None" using t(7) t(10) [of ?e] True N(1) by simp
    then have run: "expand_heap sz s = Some (?e, ?t)"
      using t(1) True unfolding expand_heap_def N_def by (simp add: Let_def hdr_access)
    have sg: "heap_seg ?t cs"
      using heap_inv_seg [OF assms(1)] old h(4) ch(1)
      by (simp add: heap_seg_def seg_upd_above unat_HEAP_START)
    have "\<exists>H. heap_link ?e ?t = Some (?t\<lparr>heap_hdr := H, free_list_start := HEAP_START\<rparr>) \<and>
        seg H 0 HEAP_START (cs @ [(?n, True)]) 0"
      using sg h(2) ch(2) e(1) m by (intro heap_link_spec) simp_all
    then obtain H where H: "heap_link ?e ?t = Some (?t\<lparr>heap_hdr := H, free_list_start := HEAP_START\<rparr>)"
      "seg H 0 HEAP_START (cs @ [(?n, True)]) 0" by blast
    have un: "unat ?n = N * 4096 - 16"
      using unat_new_block [of "heap_pages sz"] t(7,8) True e(3) N(1) by (simp add: N_def)
    have "(N * 4096 - 16) mod 16 = 0"
    proof -
      have "N * 4096 - 16 = 16 * (N * 256 - 1)" by (simp add: diff_mult_distrib2)
      then show ?thesis by (metis mod_mult_self1_is_0)
    qed
    moreover have "translate t v \<noteq> None" if "HEAP_START \<le> v" "v < heap_end_vaddr t" for v
      using old [of v] t(10) [of v] that h(4) by (cases "unat v < unat ?e")
        (simp_all add: word_le_nat_alt word_less_nat_alt unat_HEAP_START)
    ultimately have "heap_inv (?t\<lparr>heap_hdr := H, free_list_start := HEAP_START\<rparr>) (cs @ [(?n, True)])"
      unfolding heap_inv_def using H(2) t(4-8) h(4,7) un N(1) True by (auto simp: unat_HEAP_START)
    then show ?thesis using run H(1) un e(1) caddr_heap(2) [of s cs "[]"] assms(1) by auto
  next
    case False
    have tabs: "\<forall>i. unat i < 1024 \<and> present (entry t (pdir t) i) \<longrightarrow> table t (pdir t) i \<notin> set fs"
    proof (intro allI impI)
      fix i
      assume "unat i < 1024 \<and> present (entry t (pdir t) i)"
      then show "table t (pdir t) i \<notin> set fs"
        using t(11,13) dir_okD(6) [OF vmm_invD(3) [OF h(1)], of i] by auto
    qed
    have lim: "unat ?e + length fs * 4096 \<le> 3229614080" using t(7,8) by simp
    have fs: "\<forall>f \<in> set fs. f \<noteq> 0 \<and> pmm_managed f" using t(11) by blast
    obtain w where w: "expand_rollback ?e fs t = Some w" "vm_change t w" "heap_end_vaddr w = heap_end_vaddr t"
      "vmm_inv w" "present (entry w (pdir w) 769)"
      "\<And>v. 3225419776 \<le> unat v \<Longrightarrow> unat v < unat ?e \<Longrightarrow> translate w v = translate t v"
      "\<And>a. pmm_managed a \<Longrightarrow> frame_addr_used w a = (frame_addr_used t a \<and> a \<notin> set fs)"
      using expand_rollback_spec [OF t(4,5) h(5) e(3) lim fs tabs] by auto
    let ?w = "w\<lparr>heap_end_vaddr := ?e\<rparr>"
    have run: "expand_heap sz s = Some (0, ?w)"
      using t(1) False w(1) unfolding expand_heap_def N_def by (simp add: Let_def)
    have "translate w v \<noteq> None" if "HEAP_START \<le> v" "v < ?e" for v
      using old [of v] w(6) [of v] that h(4)
      by (simp add: word_le_nat_alt word_less_nat_alt unat_HEAP_START)
    then have "heap_inv ?w cs"
      unfolding heap_inv_def using w(4,5) h vm_changeD [OF w(2)] ch by (auto simp: unat_HEAP_START)
    moreover have "frame_addr_used ?w a = frame_addr_used s a" if "pmm_managed a" for a
      using w(7) [OF that] t(11,12) that by (auto simp: frame_addr_used_def frame_used_def)
    moreover have "free_frames s < N \<or> 3229614080 < unat ?e + N * 4096"
    proof -
      have "length fs < N" using False t(2) by simp
      with t(15) t(14) t(7) show ?thesis
        using mult_le_mono1 [of "Suc (length fs)" N 4096] by auto
    qed
    ultimately show ?thesis using run by blast
  qed
qed

section \<open>kmalloc\<close>

lemma unat_and_not_15: "unat (x AND NOT 15 :: u32) = unat x div 16 * 16"
proof -
  have m: "(15 :: u32) = mask 4" by (simp add: mask_eq_exp_minus_1)
  have split: "(x AND NOT 15) + (x AND 15) = x"
    unfolding m by (subst disjunctive_add) (auto simp: bit_simps simp flip: bit.conj_disj_distrib)
  have r: "unat (x AND 15) = unat x mod 16"
    unfolding m take_bit_eq_mask [symmetric] unsigned_take_bit_eq by (simp add: take_bit_eq_mod)
  have "x AND NOT 15 = x - (x AND 15)" using split by (metis add_diff_cancel_right')
  moreover have "x AND 15 \<le> x" by (rule word_and_le2)
  ultimately have "unat (x AND NOT 15) = unat x - unat (x AND 15)" by (simp add: unat_sub)
  then show ?thesis unfolding r by (simp add: minus_mod_eq_div_mult)
qed

lemma unat_align16:
  assumes "unat sz \<le> 4294959104"
  shows "unat (align16 sz) = (unat sz + 15) div 16 * 16"
proof -
  have "unat (sz + 15) = unat sz + 15" using assms unat_add_no_wrap [of sz 15] by simp
  then show ?thesis unfolding align16_def unat_and_not_15 by (rule arg_cong [of _ _ "\<lambda>x. x div 16 * 16"])
qed

lemma align16_ge: "unat sz \<le> 4294959104 \<Longrightarrow> unat sz \<le> unat (align16 sz)"
  using dividend_less_div_times [of 16 "unat sz + 15"] by (simp add: unat_align16)

lemma align16_bound: "unat sz \<le> 4294959104 \<Longrightarrow> unat (align16 sz) \<le> 4294959104"
proof -
  assume a: "unat sz \<le> 4294959104"
  then have "(unat sz + 15) div 16 \<le> 4294959119 div 16" by (intro div_le_mono) simp
  then show ?thesis unfolding unat_align16 [OF a] by simp
qed

lemma align16_mod: "unat sz \<le> 4294959104 \<Longrightarrow> unat (align16 sz) mod 16 = 0"
  by (simp add: unat_align16)

lemma align16_idem:
  assumes "unat sz \<le> 4294959104"
  shows "align16 (align16 sz) = align16 sz"
proof -
  have "((unat sz + 15) div 16 * 16 + 15) div 16 = (unat sz + 15) div 16"
    by (subst div_mult_self3) simp_all
  then show ?thesis
    using unat_align16 [OF assms] unat_align16 [OF align16_bound [OF assms]] by (simp add: word_unat_eq_iff)
qed

text \<open>The abstract allocator: first fit, else one more block at the end.\<close>

definition malloc_result ::
  "u32 \<Rightarrow> chunk list \<Rightarrow> 'a heap_state_scheme \<Rightarrow> u32 \<Rightarrow> 'a heap_state_scheme \<Rightarrow> bool" where
  "malloc_result sz cs s p t \<longleftrightarrow>
     (case first_fit sz cs of
        Some (xs, (n, _), ys) \<Rightarrow> p = caddr HEAP_START xs + 16 \<and> heap_inv t (xs @ taken sz n @ ys)
      | None \<Rightarrow>
          (p = 0 \<and> heap_inv t cs \<and> (\<forall>a. pmm_managed a \<longrightarrow> frame_addr_used t a = frame_addr_used s a) \<and>
            (free_frames s < unat (heap_pages sz) \<or>
             3229614080 < unat (heap_end_vaddr s) + unat (heap_pages sz) * 4096)) \<or>
          (\<exists>n. unat n = unat (heap_pages sz) * 4096 - 16 \<and>
            p = caddr HEAP_START cs + 16 \<and> heap_inv t (cs @ taken sz n)))"

lemma kmalloc_fit:
  assumes "heap_inv s cs" "sz \<noteq> 0" "first_fit (align16 sz) cs = Some (xs, (n, f), ys)"
    "unat (align16 sz) mod 16 = 0"
  shows "\<exists>t. kmalloc sz s = Some (caddr HEAP_START xs + 16, t) \<and> heap_inv t (xs @ taken (align16 sz) n @ ys)"
proof -
  have cs: "cs = xs @ (n, True) # ys" "align16 sz \<le> n" "f"
    using first_fit_Some [OF assms(3)] by auto
  have "kmalloc_find (align16 sz) (free_list_start s) s = Some (caddr HEAP_START xs)"
    using kmalloc_find_spec [of s "[]" cs "align16 sz"] assms(1,3) heap_invD(2) [OF assms(1)]
    by (cases "cs = []") simp_all
  moreover have "caddr HEAP_START xs \<noteq> 0" using caddr_heap(2) assms(1) cs(1) by blast
  moreover have "\<exists>t. kmalloc_take (align16 sz) (caddr HEAP_START xs) s = Some (caddr HEAP_START xs + 16, t) \<and>
      heap_inv t (xs @ taken (align16 sz) n @ ys)"
    using assms(1,4) cs by (intro kmalloc_take_spec) simp_all
  ultimately show ?thesis using assms(2) by (subst kmalloc.simps) simp
qed

lemma kmalloc_spec:
  assumes "heap_inv s cs" "sz \<noteq> 0" "unat sz \<le> 0xFFFFE000"
  shows "\<exists>p t. kmalloc sz s = Some (p, t) \<and> malloc_result (align16 sz) cs s p t"
proof (cases "first_fit (align16 sz) cs")
  case (Some r)
  obtain xs n f ys where r: "r = (xs, (n, f), ys)" by (metis prod.exhaust)
  show ?thesis
    using kmalloc_fit [OF assms(1,2) Some [unfolded r]] align16_mod assms(3) Some r
    by (auto simp: malloc_result_def)
next
  case None
  let ?z = "align16 sz"
  have sz: "unat sz \<le> 4294959104" using assms(3) by simp
  note zb = align16_bound [OF sz] and zi = align16_idem [OF sz]
  have nz: "?z \<noteq> 0" using align16_ge [OF sz] assms(2) by (metis le_zero_eq unat_0 unat_eq_0)
  have find: "kmalloc_find ?z (free_list_start s) s = Some 0"
    using kmalloc_find_spec [of s "[]" cs ?z] assms(1) None heap_invD(2) [OF assms(1)]
    by (cases "cs = []") simp_all
  have step: "kmalloc sz s = do {
      (b, t) \<leftarrow> expand_heap ?z s;
      if b = 0 then Some (0, t) else do { u \<leftarrow> heap_link b t; kmalloc ?z u } }"
    using assms(2) find by (subst kmalloc.simps) simp
  consider (grown) t u n where "expand_heap ?z s = Some (caddr HEAP_START cs, t)" "caddr HEAP_START cs \<noteq> 0"
      "heap_link (caddr HEAP_START cs) t = Some u" "heap_inv u (cs @ [(n, True)])"
      "unat n = unat (heap_pages ?z) * 4096 - 16"
    | (full) t where "expand_heap ?z s = Some (0, t)" "heap_inv t cs"
      "\<forall>a. pmm_managed a \<longrightarrow> frame_addr_used t a = frame_addr_used s a"
      "free_frames s < unat (heap_pages ?z) \<or> 3229614080 < unat (heap_end_vaddr s) + unat (heap_pages ?z) * 4096"
    using expand_heap_spec [OF assms(1) zb] by blast
  then show ?thesis
  proof cases
    case grown
    have fit: "?z \<le> n" using heap_pages_room [OF zb] unfolding word_le_nat_alt grown(5) by linarith
    have "first_fit ?z (cs @ [(n, True)]) = Some (cs, (n, True), [])"
      using None fit by (induction ?z cs rule: first_fit.induct) (auto split: if_splits)
    then have "\<exists>t. kmalloc ?z u = Some (caddr HEAP_START cs + 16, t) \<and> heap_inv t (cs @ taken ?z n @ [])"
      using kmalloc_fit [OF grown(4) nz] align16_mod [OF sz] zi by simp
    then show ?thesis using step grown None by (auto simp: malloc_result_def)
  next
    case full
    then show ?thesis using step None by (auto simp: malloc_result_def)
  qed
qed


section \<open>kfree\<close>

lemma set_free_flag:
  assumes "heap_inv s (xs @ (n, f) # ys)"
  shows "heap_inv (s\<lparr>heap_hdr := (heap_hdr s)(caddr HEAP_START xs \<mapsto>
      hdr n g (if ys = [] then 0 else caddr HEAP_START xs + 16 + n) (lastp 0 HEAP_START xs))\<rparr>)
    (xs @ (n, g) # ys)"
proof -
  note b = heap_invD [OF assms] and u = caddr_heap(1) [OF assms]
  let ?c = "caddr HEAP_START xs"
  have ext: "unat ?c + 16 + unat n + extent ys \<le> 3229614080" using b(6) u by simp
  have un: "unat (?c + 16 + n) = unat ?c + 16 + unat n" using ext by (intro unat_next_chunk) simp
  have "seg (heap_hdr s) 0 HEAP_START xs ?c" "seg (heap_hdr s) ?c (?c + 16 + n) ys 0"
    using b(3) by (auto simp: seg_append)
  then have "seg ((heap_hdr s)(?c \<mapsto> hdr n g (if ys = [] then 0 else ?c + 16 + n) (lastp 0 HEAP_START xs)))
      0 HEAP_START (xs @ (n, g) # ys) 0"
    using un ext u seg_upd_below [of ?c "?c + 16 + n" ys] seg_upd_above [of HEAP_START xs ?c]
    by (simp add: seg_append unat_HEAP_START)
  then show ?thesis using b(7) [of "(n, f)"] b(7) by (intro heap_inv_upd [OF assms]) auto
qed

text \<open>Merging a free chunk with a free successor.\<close>

lemma merge_step:
  assumes "heap_inv s (xs @ (n, True) # (m, True) # zs)"
  defines "c \<equiv> caddr HEAP_START xs"
  defines "nx \<equiv> (if zs = [] then 0 else c + 16 + n + 16 + m)"
  shows "\<exists>H. set_prev nx c (s\<lparr>heap_hdr := (heap_hdr s)(c \<mapsto>
        hdr (n + (16 + m)) True nx (lastp 0 HEAP_START xs))\<rparr>) = Some (s\<lparr>heap_hdr := H\<rparr>) \<and>
    heap_inv (s\<lparr>heap_hdr := H\<rparr>) (xs @ (n + (16 + m), True) # zs)"
proof -
  note b = heap_invD [OF assms(1)]
  let ?e = "c + 16 + n + 16 + m" and ?p = "lastp 0 HEAP_START xs"
  have u: "unat c = 3225419776 + extent xs" unfolding c_def by (rule caddr_heap(1) [OF assms(1)])
  have ext: "unat c + 16 + unat n + 16 + unat m + extent zs \<le> 3229614080" using b(6) u by simp
  have ue: "unat ?e = unat c + 16 + unat n + 16 + unat m"
    using ext unat_next_chunk [of c n] unat_next_chunk [of "c + 16 + n" m] by simp
  have unm: "unat (n + (16 + m)) = unat n + 16 + unat m"
    using ext unat_add_no_wrap [of 16 m] unat_add_no_wrap [of n "16 + m"] by simp
  have sg: "seg (heap_hdr s) 0 HEAP_START xs c" "seg (heap_hdr s) (c + 16 + n) ?e zs 0"
    using b(3) by (auto simp: seg_append c_def)
  let ?H = "(heap_hdr s)(c \<mapsto> hdr (n + (16 + m)) True nx ?p)"
  have s1: "seg ?H (c + 16 + n) ?e zs 0" using sg(2) ue ext by (subst seg_upd_below) simp_all
  have lim: "unat ?e + extent zs < 4294967296" "?e \<noteq> 0"
    using ue ext by (simp, metis add_is_0 unat_0 zero_neq_numeral)
  have m1: "zs \<noteq> [] \<longrightarrow> translate s ?e \<noteq> None"
    using ue u chunk_mapped [OF assms(1), of ?e] extent_pos [of zs] by simp
  obtain H2 where H2: "\<And>x. unat x < unat ?e \<Longrightarrow> H2 x = ?H x" "seg H2 c ?e zs 0"
    "set_prev (if zs = [] then 0 else ?e) c (s\<lparr>heap_hdr := ?H\<rparr>) = Some (s\<lparr>heap_hdr := H2\<rparr>)"
    by (rule relink_prev [OF s1 lim(1) m1 lim(2), where q = c]) (rule that)
  have "seg H2 0 HEAP_START xs c = seg (heap_hdr s) 0 HEAP_START xs c"
  proof (rule seg_cong)
    fix x
    assume "x \<in> set (addrs HEAP_START xs)"
    then have "unat x + 16 \<le> unat c"
      using addrs_bounds [of x HEAP_START xs] u ext by (simp add: unat_HEAP_START)
    moreover from this have "x \<noteq> c" by auto
    ultimately show "H2 x = heap_hdr s x" using H2(1) [of x] ue by simp
  qed
  moreover have "H2 c = Some (hdr (n + (16 + m)) True nx ?p)" using H2(1) [of c] ue by simp
  moreover have em: "c + 16 + (n + (16 + m)) = ?e" by simp
  ultimately have "seg H2 0 HEAP_START (xs @ (n + (16 + m), True) # zs) 0"
    unfolding seg_append seg.simps c_def [symmetric] em using sg(1) H2(2) by (simp add: nx_def)
  moreover have m16: "unat (n + (16 + m)) mod 16 = 0"
  proof -
    have "16 dvd unat n" "16 dvd unat m" using b(7) [of "(n, True)"] b(7) [of "(m, True)"] by auto
    then have "16 dvd unat n + 16 + unat m" by simp
    then show ?thesis unfolding unm by simp
  qed
  moreover have "unat (fst x) mod 16 = 0" if "x \<in> set (xs @ (n + (16 + m), True) # zs)" for x
    using that b(7) [of x] m16 by auto
  ultimately have "heap_inv (s\<lparr>heap_hdr := H2\<rparr>) (xs @ (n + (16 + m), True) # zs)"
    using unm by (intro heap_inv_upd [OF assms(1)]) simp_all
  then show ?thesis using H2(3) unfolding nx_def by blast
qed

text \<open>What freeing does to the list: the chunk is free and merged with its free neighbours.\<close>

fun merge_next :: "u32 \<Rightarrow> chunk list \<Rightarrow> chunk list" where
  "merge_next n ((m, True) # zs) = (n + (16 + m), True) # zs"
| "merge_next n ys = (n, True) # ys"

fun merge_prev :: "chunk list \<Rightarrow> chunk list \<Rightarrow> chunk list" where
  "merge_prev ((k, True) # rs) ((n, f) # ys) = rev rs @ (k + (16 + n), True) # ys"
| "merge_prev rs ys = rev rs @ ys"

definition freed :: "chunk list \<Rightarrow> u32 \<Rightarrow> chunk list \<Rightarrow> chunk list" where
  "freed xs n ys = merge_prev (rev xs) (merge_next n ys)"

lemma kfree_next_spec:
  assumes "heap_inv s (xs @ (n, True) # ys)"
  shows "\<exists>t. kfree_next (caddr HEAP_START xs) s = Some t \<and> heap_inv t (xs @ merge_next n ys)"
proof (cases ys)
  case Nil
  then show ?thesis
    using heap_seg_header(1) [OF heap_inv_seg [OF assms]] assms by (simp add: kfree_next_def)
next
  case (Cons y zs)
  obtain m g where y: "y = (m, g)" by force
  let ?c = "caddr HEAP_START xs"
  have nxt: "heap_inv s ((xs @ [(n, True)]) @ (m, g) # zs)" using assms Cons y by simp
  have h1: "hdr_load ?c s = Some (hdr n True (?c + 16 + n) (lastp 0 HEAP_START xs))"
    using heap_seg_header(1) [OF heap_inv_seg [OF assms]] Cons by simp
  have h2: "hdr_load (?c + 16 + n) s = Some (hdr m g (if zs = [] then 0 else ?c + 16 + n + 16 + m) ?c)"
    "?c + 16 + n \<noteq> 0"
    using heap_seg_header(1) [OF heap_inv_seg [OF nxt]] caddr_heap(2) [OF nxt] by simp_all
  show ?thesis
  proof (cases g)
    case False
    then show ?thesis using h1 h2 assms Cons y by (simp add: kfree_next_def)
  next
    case True
    then obtain H where "set_prev (if zs = [] then 0 else ?c + 16 + n + 16 + m) ?c (s\<lparr>heap_hdr := (heap_hdr s)(?c \<mapsto>
        hdr (n + (16 + m)) True (if zs = [] then 0 else ?c + 16 + n + 16 + m) (lastp 0 HEAP_START xs))\<rparr>) =
          Some (s\<lparr>heap_hdr := H\<rparr>)"
      "heap_inv (s\<lparr>heap_hdr := H\<rparr>) (xs @ (n + (16 + m), True) # zs)"
      using merge_step [of s xs n m zs] assms Cons y by auto
    then show ?thesis
      using h1 h2 True Cons y hdr_access(2) [OF chunk_header(2) [OF assms]]
      by (simp add: kfree_next_def HEADER_SIZE_def)
  qed
qed

lemma kfree_prev_spec:
  assumes "heap_inv s (xs @ (n, True) # ys)"
  shows "\<exists>t. kfree_prev (caddr HEAP_START xs) s = Some t \<and> heap_inv t (merge_prev (rev xs) ((n, True) # ys))"
proof (cases xs rule: rev_cases)
  case Nil
  then show ?thesis
    using heap_seg_header(1) [OF heap_inv_seg [OF assms]] assms by (simp add: kfree_prev_def)
next
  case (snoc ws y)
  obtain k g where y: "y = (k, g)" by force
  let ?p = "caddr HEAP_START ws" and ?c = "caddr HEAP_START xs"
  let ?nx = "if ys = [] then 0 else ?c + 16 + n"
  have prv: "heap_inv s (ws @ (k, g) # (n, True) # ys)" using assms snoc y by simp
  have h1: "hdr_load ?c s = Some (hdr n True ?nx ?p)"
    using heap_seg_header(1) [OF heap_inv_seg [OF assms]] snoc by simp
  have h2: "hdr_load ?p s = Some (hdr k g ?c (lastp 0 HEAP_START ws))" "?p \<noteq> 0"
    using heap_seg_header(1) [OF heap_inv_seg [OF prv]] caddr_heap(2) [OF prv] snoc y by simp_all
  have c: "?p + 16 + k = ?c" using snoc y by simp
  show ?thesis
  proof (cases g)
    case False
    then show ?thesis using h1 h2 assms snoc y by (simp add: kfree_prev_def)
  next
    case True
    then obtain H where "set_prev ?nx ?p (s\<lparr>heap_hdr := (heap_hdr s)(?p \<mapsto>
        hdr (k + (16 + n)) True ?nx (lastp 0 HEAP_START ws))\<rparr>) = Some (s\<lparr>heap_hdr := H\<rparr>)"
      "heap_inv (s\<lparr>heap_hdr := H\<rparr>) (ws @ (k + (16 + n), True) # ys)"
      using merge_step [of s ws k n ys, unfolded c] prv by auto
    then show ?thesis
      using h1 h2 True snoc y hdr_access(2) [OF chunk_header(2) [OF prv]]
      by (simp add: kfree_prev_def HEADER_SIZE_def)
  qed
qed

lemma merge_next_Cons: "\<exists>m zs. merge_next n ys = (m, True) # zs"
  by (cases "(n, ys)" rule: merge_next.cases) auto

lemma kfree_spec:
  assumes "heap_inv s (xs @ (n, False) # ys)"
  shows "(\<exists>t. kfree (caddr HEAP_START xs + 16) s = Some t \<and> heap_inv t (freed xs n ys)) \<and> kfree 0 s = Some s"
proof -
  let ?c = "caddr HEAP_START xs"
  have h: "hdr_load ?c s = Some (hdr n False (if ys = [] then 0 else ?c + 16 + n) (lastp 0 HEAP_START xs))"
    by (rule heap_seg_header(1) [OF heap_inv_seg [OF assms]])
  let ?s = "s\<lparr>heap_hdr := (heap_hdr s)(?c \<mapsto>
    hdr n True (if ys = [] then 0 else ?c + 16 + n) (lastp 0 HEAP_START xs))\<rparr>"
  have inv1: "heap_inv ?s (xs @ (n, True) # ys)" by (rule set_free_flag [OF assms])
  obtain t where t: "kfree_next ?c ?s = Some t" "heap_inv t (xs @ merge_next n ys)"
    using kfree_next_spec [OF inv1] by blast
  obtain m zs where m: "merge_next n ys = (m, True) # zs" using merge_next_Cons by blast
  obtain u where u: "kfree_prev ?c t = Some u" "heap_inv u (freed xs n ys)"
    using kfree_prev_spec [of t xs m zs] t(2) unfolding freed_def m by auto
  have "?c + 16 \<noteq> 0"
  proof -
    have "unat (?c + 16) = unat ?c + 16"
      using caddr_heap(1) [OF assms] heap_invD(6) [OF assms] unat_add_no_wrap [of ?c 16] by simp
    then show ?thesis by (metis add_is_0 unat_0 zero_neq_numeral)
  qed
  then have "kfree (?c + 16) s = Some u"
    using h t(1) u(1) hdr_access(2) [OF chunk_header(2) [OF assms]]
    by (simp add: kfree_def HEADER_SIZE_def)
  then show ?thesis using u(2) by (simp add: kfree_def)
qed

text \<open>
  C22: \<open>kfree\<close> of a pointer that \<open>kmalloc\<close> returned (the data of an allocated chunk) returns, and
  the chunk becomes free, merged with the next chunk when that one is free and with the
  previous one when that one is free; \<open>kfree(NULL)\<close> does nothing.
\<close>

theorem kfree_correct:
  assumes "heap_inv s (xs @ (n, False) # ys)"
  shows "(\<exists>t. kfree (caddr HEAP_START xs + 16) s = Some t \<and> heap_inv t (freed xs n ys)) \<and> kfree 0 s = Some s"
  using assms by (rule kfree_spec)

section \<open>Initialisation and witnesses\<close>

lemma heap_init_spec:
  assumes "vmm_inv s" "present (entry s (pdir s) 769) \<or> 2 \<le> free_frames s" "1 \<le> free_frames s"
  shows "\<exists>t. heap_init s = Some t \<and> heap_inv t [(4080, True)]"
proof -
  let ?s = "s\<lparr>free_list_start := 0, heap_end_vaddr := HEAP_START\<rparr>"
  have fr: "free_frames ?s = free_frames s" by (simp add: free_frames_def frame_used_def)
  have al: "page_aligned (heap_end_vaddr ?s)" by (simp add: page_aligned_def layout)
  have pre: "vmm_inv ?s" "present (entry ?s (pdir ?s) 769) \<or> 2 \<le> free_frames ?s" "1 \<le> free_frames ?s"
    "3225419776 \<le> unat (heap_end_vaddr ?s)" "unat (heap_end_vaddr ?s) + 4096 \<le> 3229614080"
    using assms by (simp_all add: fr unat_HEAP_START)
  obtain f t where t: "\<And>n frs. expand_pages (Suc n) frs ?s = expand_pages n (frs @ [f]) t"
    "vm_change ?s t" "vmm_inv t" "present (entry t (pdir t) 769)" "heap_end_vaddr t = heap_end_vaddr ?s + 4096"
    "\<And>v. unat (heap_end_vaddr ?s) \<le> unat v \<Longrightarrow> unat v < unat (heap_end_vaddr ?s) + 4096 \<Longrightarrow> translate t v \<noteq> None"
    by (rule expand_page_step [OF pre(1-3) al pre(4,5)]) blast
  have he: "heap_end_vaddr t = 0xC0401000" using t(5) by (simp add: layout)
  have m: "translate t v \<noteq> None" if "3225419776 \<le> unat v" "unat v < 3225423872" for v
    using t(6) [of v] that by (simp add: unat_HEAP_START)
  let ?t = "t\<lparr>heap_hdr := (heap_hdr t)(HEAP_START \<mapsto> hdr 4080 True 0 0), free_list_start := HEAP_START\<rparr>"
  have "expand_pages (Suc 0) [] ?s = Some (True, [f], t)" using t(1) [of 0 "[]"] by simp
  moreover have "heap_pages 0 = 1" "translate t HEAP_START \<noteq> None"
    using m [of HEAP_START] by (simp_all add: heap_pages_def HEADER_SIZE_def PAGE_SIZE_def unat_HEAP_START)
  ultimately have "heap_init s = Some ?t"
    by (simp add: heap_init_def expand_heap_def Let_def hdr_access HEADER_SIZE_def PAGE_SIZE_def)
  moreover have "heap_inv ?t [(4080, True)]"
    unfolding heap_inv_def using t(3,4) he m
    by (simp add: unat_HEAP_START page_aligned_def word_le_nat_alt word_less_nat_alt)
  ultimately show ?thesis by blast
qed

text \<open>
  \<open>heap_init\<close> on well-formed paging structures without a heap yet, with two free frames
  (one for the page, one for the page table), returns a well-formed heap with one free chunk
  of a page minus its header.
\<close>

theorem heap_init_correct:
  assumes "vmm_inv s" "present (entry s (pdir s) 769) \<or> 2 \<le> free_frames s" "1 \<le> free_frames s"
  shows "\<exists>t. heap_init s = Some t \<and> heap_inv t [(4080, True)]"
  using assms by (rule heap_init_spec)

definition demo_heap0 :: heap_state where
  "demo_heap0 = vmm_state.extend demo_vmm (heap_state.fields Map.empty 0 0)"

lemma demo_heap0_inv: "vmm_inv demo_heap0" "free_frames demo_heap0 = 88"
proof -
  have "vmm_inv demo_heap0 = vmm_inv demo_vmm"
    by (simp add: demo_heap0_def vmm_state.defs vmm_inv_def dir_ok_def pmm_inv_def frame_used_def
        frame_addr_used_def entry_def pdir_def)
  then show "vmm_inv demo_heap0" using demo_vmm_inv by simp
  have "frame_used demo_heap0 n = frame_used demo_vmm n" "total_frames demo_heap0 = total_frames demo_vmm" for n
    by (simp_all add: demo_heap0_def vmm_state.defs frame_used_def)
  moreover have "{k. k < 600 \<and> \<not> k < (512 :: nat)} = {512..<600}" by auto
  ultimately show "free_frames demo_heap0 = 88"
    by (simp add: free_frames_def demo_vmm_used demo_vmm_simps)
qed

theorem heap_init_correct_witness: "\<exists>t. heap_init demo_heap0 = Some t \<and> heap_inv t [(4080, True)]"
  using heap_init_correct [OF demo_heap0_inv(1)] by (simp add: demo_heap0_inv(2))

lemma demo_heap:
  obtains t where "heap_init demo_heap0 = Some t" "heap_inv t [(4080, True)]"
  using heap_init_spec [OF demo_heap0_inv(1)] that by (auto simp: demo_heap0_inv(2))


theorem kfree_correct_witness:
  "\<exists>s p t u. heap_init demo_heap0 = Some s \<and> kmalloc 100 s = Some (p, t) \<and> kfree p t = Some u \<and>
    heap_inv u [(4080, True)]"
proof -
  obtain s where s: "heap_init demo_heap0 = Some s" "heap_inv s [(4080, True)]" by (rule demo_heap)
  have "first_fit (align16 100) [(4080, True)] = Some ([], (4080, True), [])" by (simp add: align16_def)
  then obtain t where t: "kmalloc 100 s = Some (HEAP_START + 16, t)" "heap_inv t (taken (align16 100) 4080)"
    using kmalloc_fit [OF s(2), of 100] by (auto simp: align16_def)
  have "heap_inv t ([] @ (112, False) # [(3952, True)])" using t(2) by (simp add: taken_def align16_def)
  from kfree_correct [OF this] have "\<exists>u. kfree (HEAP_START + 16) t = Some u \<and> heap_inv u [(4080, True)]"
    by (simp add: freed_def)
  then show ?thesis using s(1) t(1) by blast
qed

section \<open>Blocks in use\<close>

text \<open>The data blocks of the allocated chunks: address and size.\<close>

fun live :: "u32 \<Rightarrow> chunk list \<Rightarrow> (u32 \<times> u32) list" where
  "live a [] = []"
| "live a ((n, f) # cs) = (if f then [] else [(a + 16, n)]) @ live (a + 16 + n) cs"

lemma live_append: "live a (xs @ ys) = live a xs @ live (caddr a xs) ys"
  by (induction a xs rule: live.induct) auto

lemma live_bounds:
  assumes "(q, m) \<in> set (live a cs)" "unat a + extent cs < 4294967296"
  shows "unat a + 16 \<le> unat q" "unat q + unat m \<le> unat a + extent cs"
  using assms
proof (induction a cs rule: live.induct)
  case (2 a n f cs)
  { case 1
    then show ?case using 2 unat_next_chunk [of a n] unat_add_no_wrap [of a 16] by (fastforce split: if_splits)
  next
    case 2
    then show ?case using "2.IH" unat_next_chunk [of a n] unat_add_no_wrap [of a 16] by (fastforce split: if_splits) }
qed simp_all

lemma taken_live:
  assumes "sz \<le> n"
  obtains m where "live c (taken sz n) = [(c + 16, m)]" "sz \<le> m" "m \<le> n"
  using assms by (cases "unat sz + 32 \<le> unat n") (auto simp: taken_def)

lemma extent_dvd: "\<forall>c \<in> set cs. unat (fst c) mod 16 = 0 \<Longrightarrow> 16 dvd extent cs"
  by (induction cs) (auto simp: mod_eq_0_iff_dvd intro!: dvd_add)

text \<open>Taking a free chunk adds its block to those in use, apart from all others.\<close>

lemma take_live:
  assumes "heap_inv t (xs @ taken sz n @ ys)" "sz \<le> n" "unat w \<le> unat sz"
  defines "c \<equiv> caddr HEAP_START xs"
  shows "\<exists>cs' m. heap_inv t cs' \<and> unat (w :: u32) \<le> unat m \<and>
    set (live HEAP_START cs') = insert (c + 16, m) (set (live HEAP_START (xs @ (n, True) # ys))) \<and>
    (\<forall>(q, k) \<in> set (live HEAP_START (xs @ (n, True) # ys)).
       unat q + unat k \<le> unat (c + 16) \<or> unat (c + 16) + unat m \<le> unat q) \<and>
    unat (c + 16) + unat m \<le> unat (heap_end_vaddr t) \<and> unat (c + 16) mod 16 = 0"
proof -
  note b = heap_invD [OF assms(1)]
  obtain m where m: "live c (taken sz n) = [(c + 16, m)]" "sz \<le> m" "m \<le> n"
    by (rule taken_live [OF assms(2)])
  have ext: "extent (taken sz n) = 16 + unat n" by (rule taken_extent [OF assms(2)])
  have uc: "unat c = 3225419776 + extent xs" unfolding c_def by (rule caddr_heap(1) [OF assms(1)])
  have tot: "unat c + 16 + unat n + extent ys \<le> 3229614080" using b(6) uc ext by simp
  have uc16: "unat (c + 16) = unat c + 16" using tot unat_add_no_wrap [of c 16] by simp
  have un: "unat (c + 16 + n) = unat c + 16 + unat n" using tot by (intro unat_next_chunk) simp
  have "caddr c (taken sz n) = c + 16 + n"
    using unat_caddr [of c "taken sz n"] ext tot un by (simp add: word_unat_eq_iff)
  then have L: "live HEAP_START (xs @ taken sz n @ ys) = live HEAP_START xs @ (c + 16, m) # live (c + 16 + n) ys"
    "live HEAP_START (xs @ (n, True) # ys) = live HEAP_START xs @ live (c + 16 + n) ys"
    using m(1) by (simp_all add: live_append c_def)
  have below: "unat q + unat k \<le> unat c" if "(q, k) \<in> set (live HEAP_START xs)" for q k
    using live_bounds(2) [OF that] uc tot by (simp add: unat_HEAP_START)
  have above: "unat (c + 16) + unat m \<le> unat q" if "(q, k) \<in> set (live (c + 16 + n) ys)" for q k
    using live_bounds(1) [OF that] un uc16 tot m(3) by (simp add: word_le_nat_alt)
  have "unat (c + 16) + unat m \<le> unat (heap_end_vaddr t)"
    using b(4) uc uc16 ext m(3) by (simp add: word_le_nat_alt)
  moreover have "16 dvd extent xs" using b(7) by (intro extent_dvd) auto
  then have "16 dvd unat (c + 16)" using uc uc16 by simp
  moreover have "unat q + unat k \<le> unat (c + 16) \<or> unat (c + 16) + unat m \<le> unat q"
    if "(q, k) \<in> set (live HEAP_START (xs @ (n, True) # ys))" for q k
    using that below [of q k] above [of q k] uc16 unfolding L by auto
  moreover have "unat w \<le> unat m" using assms(3) m(2) by (simp add: word_le_nat_alt)
  ultimately show ?thesis
    using assms(1) L by (intro exI [of _ "xs @ taken sz n @ ys"] exI [of _ m]) auto
qed

text \<open>
  C14: A pointer that \<open>kmalloc\<close> returns is 16-byte aligned and its block, of at least the size
  asked for, lies inside the heap and overlaps no block in use; the blocks in use afterwards
  are those of before and the new one.
\<close>

theorem kmalloc_disjoint:
  assumes "heap_inv s cs" "sz \<noteq> 0" "unat sz \<le> 0xFFFFE000" "kmalloc sz s = Some (p, t)" "p \<noteq> 0"
  shows "\<exists>cs' m. heap_inv t cs' \<and> unat sz \<le> unat m \<and>
    set (live HEAP_START cs') = insert (p, m) (set (live HEAP_START cs)) \<and>
    (\<forall>(q, k) \<in> set (live HEAP_START cs). unat q + unat k \<le> unat p \<or> unat p + unat m \<le> unat q) \<and>
    unat p + unat m \<le> unat (heap_end_vaddr t) \<and> unat p mod 16 = 0"
proof -
  let ?z = "align16 sz"
  have sz: "unat sz \<le> unat ?z" "unat ?z \<le> 4294959104"
    using align16_ge [of sz] align16_bound [of sz] assms(3) by simp_all
  have "malloc_result ?z cs s p t" using kmalloc_spec [OF assms(1-3)] assms(4) by auto
  then consider (fit) xs n ys where "cs = xs @ (n, True) # ys" "?z \<le> n" "p = caddr HEAP_START xs + 16"
      "heap_inv t (xs @ taken ?z n @ ys)"
    | (grow) n where "?z \<le> n" "p = caddr HEAP_START cs + 16" "heap_inv t (cs @ taken ?z n @ [])"
  proof (cases "first_fit ?z cs")
    case None
    then obtain n where n: "unat n = unat (heap_pages ?z) * 4096 - 16" "p = caddr HEAP_START cs + 16"
      "heap_inv t (cs @ taken ?z n)"
      using \<open>malloc_result ?z cs s p t\<close> assms(5) by (auto simp: malloc_result_def)
    have "?z \<le> n" using heap_pages_room [OF sz(2)] unfolding word_le_nat_alt n(1) by linarith
    then show ?thesis using grow n by simp
  next
    case (Some r)
    obtain xs n f ys where r: "r = (xs, (n, f), ys)" by (metis prod.exhaust)
    show ?thesis
      using \<open>malloc_result ?z cs s p t\<close> first_fit_Some [OF Some [unfolded r]] Some r fit
      by (auto simp: malloc_result_def)
  qed
  then show ?thesis
  proof cases
    case fit
    then show ?thesis using take_live [OF fit(4,2) sz(1)] by simp
  next
    case grow
    have L: "live HEAP_START (cs @ [(n, True)]) = live HEAP_START cs" by (simp add: live_append)
    show ?thesis using take_live [OF grow(3,1) sz(1)] unfolding L grow(2) .
  qed
qed

theorem kmalloc_disjoint_witness:
  "\<exists>s t m. heap_init demo_heap0 = Some s \<and> kmalloc 100 s = Some (0xC0400010, t) \<and>
    unat (0xC0400010 :: u32) + unat m \<le> unat (heap_end_vaddr t) \<and> 100 \<le> unat (m :: u32)"
proof -
  obtain s where s: "heap_init demo_heap0 = Some s" "heap_inv s [(4080, True)]" by (rule demo_heap)
  have "first_fit (align16 100) [(4080, True)] = Some ([], (4080, True), [])" by (simp add: align16_def)
  then obtain t where t: "kmalloc 100 s = Some (0xC0400010, t)"
    using kmalloc_fit [OF s(2), of 100] by (auto simp: align16_def layout)
  show ?thesis using kmalloc_disjoint [OF s(2) _ _ t] s(1) t by auto
qed

text \<open>No two free chunks next to each other.\<close>

fun separated :: "chunk list \<Rightarrow> bool" where
  "separated (c # d # cs) \<longleftrightarrow> \<not> (snd c \<and> snd d) \<and> separated (d # cs)"
| "separated cs \<longleftrightarrow> True"

lemma separated_around:
  "separated (xs @ (n, True) # ys) \<Longrightarrow>
     (xs = [] \<or> \<not> snd (last xs)) \<and> (ys = [] \<or> \<not> snd (hd ys))"
proof (induction xs rule: separated.induct)
  case (1 c d cs)
  then show ?case by auto
qed (cases ys; auto)+



text \<open>
  The rounding \<open>(size + 15) & ~15\<close> wraps for the 15 largest sizes: a request for more than
  0xFFFFFFF0 bytes is served from the first chunk, if it is free, with a block of 0 bytes.
\<close>

theorem kmalloc_size_wraps:
  assumes "heap_inv s ((n, True) # ys)" "32 \<le> unat n" "0xFFFFFFF0 < unat sz"
  shows "\<exists>t. kmalloc sz s = Some (HEAP_START + 16, t) \<and> heap_inv t ((0, False) # (n - 16, True) # ys)"
proof -
  have u: "unat (sz + 15) = unat sz + 15 - 4294967296"
    using assms(3) unat_lt_2p32 [of sz] by (simp add: unat_plus_if')
  have "unat sz + 15 - 4294967296 < 16" using unat_lt_2p32 [of sz] by simp
  then have "unat (align16 sz) = 0" unfolding align16_def unat_and_not_15 u by simp
  then have z: "align16 sz = 0" by (simp add: unat_eq_0)
  have "sz \<noteq> 0" using assms(3) by auto
  then show ?thesis
    using kmalloc_fit [OF assms(1), of sz "[]" n True ys] z assms(2) by (simp add: taken_def)
qed

theorem kmalloc_size_wraps_witness:
  "\<exists>s t. heap_init demo_heap0 = Some s \<and> kmalloc 0xFFFFFFFF s = Some (0xC0400010, t) \<and>
    heap_inv t [(0, False), (4064, True)]"
proof -
  obtain s where s: "heap_init demo_heap0 = Some s" "heap_inv s [(4080, True)]" by (rule demo_heap)
  then show ?thesis using kmalloc_size_wraps [OF s(2), of "0xFFFFFFFF"] by (auto simp: layout)
qed

end
