(* ===== verification/Boot.thy ===== *)
theory Boot
  imports SyscallInv Devices Paging Heap
begin

text \<open>
  The boot sequence, \<open>kernel_main\<close> of kernel/src/kernel/kernel.c, over all components: descriptor
  tables, interrupt controllers, serial line and terminal, frame allocator, paging, heap, tasks,
  modules, disk and timer, in the order of the code. The variables of the heap and the tables
  of the processor are beside the state of \<open>Syscall\<close>; \<open>heap_view\<close> is the memory that the heap code
  sees. Addresses of linker symbols, tables, stubs and exported functions, the embedded module
  and the stack pointer are arguments; log output is left out, the direct writes to the serial
  line are in.
\<close>

section \<open>The state of the machine\<close>

record 'd computer =
  gdt_part :: gdt_tables
  idt_part :: idt_tables
  heap_vars :: "(u32 \<Rightarrow> header option) \<times> u32 \<times> u32"
  kern :: "'d kernel"

definition heap_view :: "('d, 'a) computer_scheme \<Rightarrow> heap_state" where
  "heap_view c = (case heap_vars c of (hdrs, first, last_vaddr) \<Rightarrow>
     vmm_state.extend (vmm_state.truncate (kern c)) (heap_state.fields hdrs first last_vaddr))"

definition put_heap ::
  "heap_state \<Rightarrow> ('d, 'a) computer_scheme \<Rightarrow> ('d, 'a) computer_scheme" where
  "put_heap h c = c\<lparr>heap_vars := (heap_hdr h, free_list_start h, heap_end_vaddr h),
     kern := (kern c)\<lparr>phys := phys h, cr3 := cr3 h, cr0_pg := cr0_pg h, pmm_bitmap := pmm_bitmap h,
       pmm_regions := pmm_regions h, total_frames := total_frames h,
       current_pdt_phys := current_pdt_phys h, kernel_pdt_phys := kernel_pdt_phys h\<rparr>\<rparr>"

definition on_device :: "('d \<Rightarrow> 'd) \<Rightarrow> ('d, 'a) kernel_scheme \<Rightarrow> ('d, 'a) kernel_scheme" where
  "on_device f s = s\<lparr>files := (files s)\<lparr>dev := f (dev (files s))\<rparr>\<rparr>"

record boot_symbols =
  gdt_addr :: u32
  tss_addr :: u32
  idt_addr :: u32
  stubs :: "u32 \<times> u32 \<times> u32 \<times> u32"
  kernel_start :: u32
  kernel_end :: u32
  exports :: "(string \<times> u32) list"
  idle_entry :: u32
  embedded_module :: "u8 list"
  embedded_size :: u32

section \<open>The phases of \<open>kernel_main\<close>\<close>

definition boot_processor :: "'d ports \<Rightarrow> boot_symbols \<Rightarrow> u32 \<Rightarrow> 'd computer \<Rightarrow> 'd computer option" where
  "boot_processor hw b sp c = do {
     let (h14, h32, h33, h128) = stubs b;
     let k0 = (kern c)\<lparr>screen := serial_write (''Kernel main started'' @ [CHR 0x0A]) (screen (kern c))\<rparr>;
     let k1 = on_device (boot_irqs hw) k0;
     let k2 = on_device (\<lambda>d. snd (serial_init hw 0x3F8 d)) k1;
     scr \<leftarrow> terminal_init (screen k2);
     Some (c\<lparr>gdt_part := gdt_init (gdt_addr b) (tss_addr b) sp (gdt_part c),
       idt_part := idt_init (idt_addr b) h14 h32 h33 h128 (idt_part c), kern := k2\<lparr>screen := scr\<rparr>\<rparr>)
   }"

definition boot_memory ::
  "u32 \<Rightarrow> u32 \<Rightarrow> multiboot_info \<Rightarrow> 'a heap_state_scheme \<Rightarrow> 'a heap_state_scheme option" where
  "boot_memory ks ke mbinfo s = do {
     s1 \<leftarrow> pmm_init ks ke mbinfo s;
     s2 \<leftarrow> paging_init ks ke s1;
     heap_init s2
   }"

primrec export_symbols :: "(string \<times> u32) list \<Rightarrow> 'a module_state_scheme \<Rightarrow> 'a module_state_scheme" where
  "export_symbols [] s = s"
| "export_symbols (x # xs) s =
     export_symbols xs (snd (module_register_symbol (Some (c_literal (fst x))) (snd x) s))"

definition start_idle :: "u32 \<Rightarrow> 'a task_state_scheme \<Rightarrow> 'a task_state_scheme" where
  "start_idle entry_pt s =
     (case task_create entry_pt s of
        (None, s1) \<Rightarrow> s1
      | (Some t, s1) \<Rightarrow> task_set_current (Some t) s1)"

definition boot_tasks ::
  "'d ports \<Rightarrow> ('d, 'a) kernel_scheme module_code \<Rightarrow> boot_symbols \<Rightarrow> ('d, 'a) kernel_scheme
    \<Rightarrow> ('d, 'a) kernel_scheme option" where
  "boot_tasks hw call b s = do {
     let s1 = export_symbols (exports b) (task_init s);
     s2 \<leftarrow> (if embedded_size b > 0
           then do { (r, u) \<leftarrow> module_load call (Some (embedded_module b)) (embedded_size b) s1; Some u }
           else Some s1);
     let s3 = on_device (\<lambda>d. snd (block_init hw d)) s2;
     let s4 = s3\<lparr>screen := serial_write (''Kernel initialized, entering multi-tasking mode'' @ [CHR 0x0A]) (screen s3)\<rparr>;
     let s5 = start_idle (idle_entry b) s4;
     let s6 = s5\<lparr>screen := serial_write (''Kernel initialized, starting menu'' @ [CHR 0x0A]) (screen s5)\<rparr>;
     Some (on_device (timer_init hw 100) s6)
   }"

definition kernel_main ::
  "'d ports \<Rightarrow> 'd kernel module_code \<Rightarrow> boot_symbols \<Rightarrow> u32 \<Rightarrow> multiboot_info \<Rightarrow> 'd computer
    \<Rightarrow> 'd computer option" where
  "kernel_main hw call b sp mbinfo c = do {
     c1 \<leftarrow> boot_processor hw b sp c;
     h \<leftarrow> boot_memory (kernel_start b) (kernel_end b) mbinfo (heap_view c1);
     let c2 = put_heap h c1;
     k \<leftarrow> boot_tasks hw call b (kern c2);
     Some (c2\<lparr>kern := k\<rparr>)
   }"

section \<open>Frames counted through \<open>paging_init\<close>\<close>

lemma total_store: "(\<And>t. total_frames t = total_frames s \<Longrightarrow> P t) \<Longrightarrow> post P (vstore32 v x s)"
  for s :: "'a pmm_state_scheme"
  by (auto simp: post_def vstore32_def bind_eq_Some_conv)

lemma total_alloc: "(\<And>f t. total_frames t = total_frames s \<Longrightarrow> P (f, t)) \<Longrightarrow> post P (pmm_alloc_frame s)"
proof -
  have "post (\<lambda>(f, t). total_frames t = total_frames s) (pmm_alloc_from i s)" for i
  proof (induction i s rule: pmm_alloc_from.induct)
    case (1 i s)
    have "post (\<lambda>(f, t). total_frames t = total_frames s) (do { s1 \<leftarrow> pmm_set_bit i s; Some (i * PAGE_SIZE, s1) })"
      by (auto simp: post_def pmm_set_bit_def Let_def split: if_splits)
    with 1 show ?case
      by (subst pmm_alloc_from.simps) (auto simp: post_def pmm_test_bit_def Let_def split: if_splits)
  qed
  then show "(\<And>f t. total_frames t = total_frames s \<Longrightarrow> P (f, t)) \<Longrightarrow> post P (pmm_alloc_frame s)"
    unfolding pmm_alloc_frame_def by (rule post_mono) auto
qed

lemma keeps_total: "keeps s t \<Longrightarrow> total_frames t = total_frames s"
  by (cases s; cases t) (simp add: keeps_def)

lemma total_loops:
  "(\<And>t. total_frames t = total_frames s \<Longrightarrow> P t) \<Longrightarrow> post P (memset p x n s)"
  "(\<And>t. total_frames t = total_frames s \<Longrightarrow> P t) \<Longrightarrow> post P (paging_map_pages pt sp i n s)"
  "(\<And>t. total_frames t = total_frames s \<Longrightarrow> P t) \<Longrightarrow> post P (paging_map_stack pt sp i n s)"
  for s :: "'a pmm_state_scheme"
proof -
  show "post P (memset p x n s)" if "\<And>t. total_frames t = total_frames s \<Longrightarrow> P t"
    using that by (intro post_mono [OF memset_keeps]) (auto dest: keeps_total)
  have "post (\<lambda>t. total_frames t = total_frames s) (paging_map_pages pt sp i n s)"
  proof (induction n arbitrary: i s)
    case (Suc n)
    show ?case unfolding paging_map_pages.simps
      by (intro post_bind total_store) (rule post_mono [OF Suc.IH], simp)
  qed (simp add: post_def)
  then show "post P (paging_map_pages pt sp i n s)" if "\<And>t. total_frames t = total_frames s \<Longrightarrow> P t"
    using that by (rule post_mono)
  have "post (\<lambda>t. total_frames t = total_frames s) (paging_map_stack pt sp i n s)"
  proof (induction n arbitrary: i s)
    case (Suc n)
    show ?case unfolding paging_map_stack.simps
      by (intro post_bind post_prod total_store total_alloc) (rule post_mono [OF Suc.IH], simp)
  qed (simp add: post_def)
  then show "post P (paging_map_stack pt sp i n s)" if "\<And>t. total_frames t = total_frames s \<Longrightarrow> P t"
    using that by (rule post_mono)
qed

lemma paging_init_total: "post (\<lambda>t. total_frames t = total_frames s) (paging_init ks ke s)"
  unfolding paging_init_def
  by (intro post_bind post_prod post_ret total_store total_alloc total_loops) (simp_all add: vmm_init_def)

lemma paging_init_frames:
  assumes "pmm_inv s" "\<not> cr0_pg s" "unat (kernel_page_count ks ke) \<le> 512" "514 + m \<le> free_frames s"
  obtains t where "paging_init ks ke s = Some t" "vmm_inv t" "m \<le> free_frames t"
proof -
  obtain t D L K fs where t: "paging_init ks ke s = Some t" "boot_paging ks ke D L K fs t" "pmm_inv t"
    and used: "\<forall>a. pmm_managed a \<longrightarrow> frame_addr_used t a = (a \<in> set (D # L # K # fs) \<or> frame_addr_used s a)"
    using paging_init_builds [OF assms(1-3)] assms(4) by auto
  have b: "length fs = 511" "\<forall>f \<in> set (D # L # K # fs). pmm_managed f"
    using t(2) unfolding boot_paging_def by blast+
  have inv: "vmm_inv t" using used b(2) by (intro boot_paging_inv [OF t(2,3)]) blast
  let ?F = "\<lambda>u. {k. k < unat (total_frames u) \<and> \<not> frame_used u k}"
  let ?X = "(\<lambda>a. unat (a div PAGE_SIZE)) ` set (D # L # K # fs)"
  have tot: "total_frames t = total_frames s" by (rule postD [OF paging_init_total t(1)])
  have "?F s - ?X \<subseteq> ?F t"
  proof
    fix k
    assume k: "k \<in> ?F s - ?X"
    then have "k < 32768" using assms(1) by (simp add: pmm_inv_def)
    then have a: "pmm_managed (of_nat k * PAGE_SIZE)" "unat (of_nat k * PAGE_SIZE div PAGE_SIZE) = k"
      by (auto simp: pmm_managed_iff frame_addr_div)
    have "of_nat k * PAGE_SIZE \<notin> set (D # L # K # fs)"
      using imageI [of "of_nat k * PAGE_SIZE" "set (D # L # K # fs)" "\<lambda>a. unat (a div PAGE_SIZE)"] a(2) k by auto
    then show "k \<in> ?F t" using k used [rule_format, OF a(1)] a(2) tot by (simp add: frame_addr_used_def)
  qed
  then have "card (?F s - ?X) \<le> card (?F t)" by (intro card_mono) simp_all
  moreover have "card (?F s) - card ?X \<le> card (?F s - ?X)" by (intro diff_card_le_card_Diff) simp
  moreover have "card ?X \<le> 514"
    using card_image_le [of "set (D # L # K # fs)" "\<lambda>a. unat (a div PAGE_SIZE)"] card_length [of "D # L # K # fs"] b(1)
    by simp
  ultimately have "m \<le> free_frames t" using assms(4) by (simp add: free_frames_def)
  with that t(1) inv show ?thesis by blast
qed

text \<open>The frames that the map makes available and the kernel does not set aside.\<close>

definition usable_frames :: "u32 \<Rightarrow> u32 \<Rightarrow> multiboot_info \<Rightarrow> multiboot_memory_map list \<Rightarrow> nat set" where
  "usable_frames ks ke mbinfo es = {n. mmap_free es n \<and> \<not> boot_reserved ks ke n \<and>
     \<not> in_range (mmap_addr mbinfo div PAGE_SIZE) ((mmap_addr mbinfo + mmap_length mbinfo - 1) div PAGE_SIZE) n}"

definition boot_map_ok :: "u32 \<Rightarrow> multiboot_info \<Rightarrow> multiboot_memory_map list \<Rightarrow> 'a machine_scheme \<Rightarrow> bool" where
  "boot_map_ok ke mbinfo es s \<longleftrightarrow> has_mmap mbinfo
     \<and> mmap_at s (mmap_addr mbinfo) (mmap_addr mbinfo + mmap_length mbinfo) es
     \<and> 0 < unat ke \<and> unat ke \<le> 134217728
     \<and> 0 < unat (mmap_addr mbinfo + mmap_length mbinfo)
     \<and> unat (mmap_addr mbinfo + mmap_length mbinfo) \<le> 134217728"

lemma pmm_init_free:
  assumes "boot_map_ok ke mbinfo es s"
  obtains t where "pmm_init ks ke mbinfo s = Some t" "pmm_inv t" "cr0_pg t = cr0_pg s"
    "free_frames t = card (usable_frames ks ke mbinfo es)"
proof -
  have b: "free_below (boot_state s)" by (simp add: free_below_def)
  obtain t where t: "pmm_init ks ke mbinfo s = Some t"
    "init_step (boot_state s) t (\<lambda>n. \<not> mmap_free es n \<or> boot_reserved ks ke n \<or>
      in_range (mmap_addr mbinfo div PAGE_SIZE) ((mmap_addr mbinfo + mmap_length mbinfo - 1) div PAGE_SIZE) n)"
    using pmm_init_mmap_step [of mbinfo s es ke ks] assms by (auto simp: boot_map_ok_def)
  have "pmm_inv t" by (rule init_step_0 [OF _ t(2)]) (simp_all add: boot_reserved_def)
  moreover have "free_below t" "cr0_pg t = cr0_pg s"
    using t(2) b by (simp_all add: init_step_def same_machine_def boot_state_def)
  moreover have "{k. k < unat (total_frames t) \<and> \<not> frame_used t k} = usable_frames ks ke mbinfo es"
    using t(2) \<open>free_below t\<close> by (auto simp: init_step_def free_below_def usable_frames_def)
  ultimately show ?thesis using that [OF t(1)] by (simp add: free_frames_def)
qed

lemma boot_memory_spec:
  assumes "boot_map_ok ke mbinfo es s" "\<not> cr0_pg s" "unat (kernel_page_count ks ke) \<le> 512"
    "516 \<le> card (usable_frames ks ke mbinfo es)"
  obtains t where "boot_memory ks ke mbinfo s = Some t" "heap_inv t [(4080, True)]"
proof -
  obtain s1 where s1: "pmm_init ks ke mbinfo s = Some s1" "pmm_inv s1" "\<not> cr0_pg s1" "514 + 2 \<le> free_frames s1"
    using pmm_init_free [OF assms(1), of ks] assms(2,4) by (metis numeral_plus_numeral add_num_simps(2-))
  obtain s2 where s2: "paging_init ks ke s1 = Some s2" "vmm_inv s2" "2 \<le> free_frames s2"
    by (rule paging_init_frames [OF s1(2,3) assms(3) s1(4)])
  then show ?thesis using heap_init_spec [OF s2(2)] that s1(1) by (auto simp: boot_memory_def)
qed

section \<open>Tasks at boot\<close>

lemma on_device_reaches: "reaches hw call s \<Longrightarrow> reaches hw call (on_device f s)"
  using drivers [of hw call s, where f = "(files s)\<lparr>dev := f (dev (files s))\<rparr>" and k = "keys s" and c = "screen s"] by (simp add: on_device_def)

lemma screen_reaches: "reaches hw call s \<Longrightarrow> reaches hw call (s\<lparr>screen := x\<rparr>)"
  using drivers [of hw call s, where f = "files s" and k = "keys s" and c = x] by simp

lemma export_symbols_reaches: "reaches hw call s \<Longrightarrow> reaches hw call (export_symbols xs s)"
  by (induction xs arbitrary: s) (simp_all add: export_symbol)

lemma export_symbols_frame [simp]:
  "task_table (export_symbols xs s) = task_table s" "current_task (export_symbols xs s) = current_task s"
  "task_stack_slots (export_symbols xs s) = task_stack_slots s"
  by (induction xs arbitrary: s) (simp_all add: module_register_symbol_def)

lemma init_tasks_slots: "task_stack_slots (init_tasks n i s) j \<Longrightarrow> task_stack_slots s j \<and> \<not> (i \<le> j \<and> j < i + n)"
proof (induction n arbitrary: i s)
  case (Suc n)
  have m: "task_stack_slots s j" if "task_stack_slots (task_free_stack i s) j"
    using that by (auto simp: task_free_stack_def Let_def split: if_splits)
  let ?s = "set_task i blank_task (task_free_stack i s)"
  have "task_stack_slots (init_tasks n (Suc i) (?s\<lparr>task_stack_slots := (task_stack_slots ?s)(i := False)\<rparr>)) j"
    using Suc.prems by (simp add: Let_def)
  from Suc.IH [OF this] m show ?case by (auto split: if_splits)
qed simp

lemma task_init_first:
  "tstate (task_table (task_init s) 0) = TASK_UNUSED" "\<not> task_stack_slots (task_init s) 0"
  "current_task (task_init s) = None"
proof -
  obtain k where "task_table (init_tasks TASK_MAX 0 s) 0 = blank_task k"
    using init_tasks_blank [of 0 0 TASK_MAX s] by (auto simp: TASK_MAX_def)
  then show "tstate (task_table (task_init s) 0) = TASK_UNUSED"
    by (simp add: task_init_def blank_task_def task_init_process_fields_def)
  show "\<not> task_stack_slots (task_init s) 0"
    using init_tasks_slots [of TASK_MAX 0 s 0] by (auto simp: task_init_def TASK_MAX_def)
qed (simp add: task_init_def)

lemma find_first: "P 0 \<Longrightarrow> 0 < n \<Longrightarrow> find P [0..<n] = Some (0 :: nat)"
  by (simp add: upt_conv_Cons)

lemma task_create_first:
  assumes "tstate (task_table s 0) = TASK_UNUSED" "\<not> task_stack_slots s 0"
  shows "fst (task_create e s) = Some 0" "tstate (task_table (snd (task_create e s)) 0) = TASK_READY"
    "current_task (snd (task_create e s)) = current_task s"
proof -
  have "\<exists>u. task_alloc s = (Some 0, u) \<and> current_task u = current_task s"
    using assms find_first [of "\<lambda>i. tstate (task_table s i) = TASK_UNUSED" TASK_MAX]
      find_first [of "\<lambda>i. \<not> task_stack_slots s i" 16]
    by (simp add: task_alloc_def task_allocate_stack_def slot_count Let_def TASK_MAX_def)
  then obtain u where u: "task_alloc s = (Some 0, u)" "current_task u = current_task s" by blast
  then show "fst (task_create e s) = Some 0" "tstate (task_table (snd (task_create e s)) 0) = TASK_READY"
    "current_task (snd (task_create e s)) = current_task s"
    by (simp_all add: task_create_def task_enqueue_def Let_def split: option.splits)
qed

lemma start_idle_runs:
  assumes "reaches hw call s" "well_behaved call" "tstate (task_table s 0) = TASK_UNUSED" "\<not> task_stack_slots s 0"
    "current_task s = None"
  shows "reaches hw call (start_idle e s)" "current_task (start_idle e s) = Some 0"
    "tstate (task_table (start_idle e s) 0) = TASK_RUNNING"
proof -
  let ?u = "snd (task_create e s)"
  note c = task_create_first [OF assms(3,4), of e]
  have e: "start_idle e s = task_set_current (Some 0) ?u"
    using c(1) by (cases "task_create e s") (simp add: start_idle_def)
  have r: "reaches hw call ?u" by (rule create [OF assms(1)])
  have n: "current_task ?u = None" "0 < TASK_MAX" using c(3) assms(5) by (simp_all add: TASK_MAX_def)
  show "reaches hw call (start_idle e s)" unfolding e by (rule start [OF r n c(2)])
  have i: "task_inv {} ?u" by (rule reaches_inv [OF r assms(2)])
  from task_set_current_inv(2,3) [OF i no_current_idle [OF i n(1)] n(2) c(2)] n(1)
  show "current_task (start_idle e s) = Some 0" "tstate (task_table (start_idle e s) 0) = TASK_RUNNING"
    unfolding e by simp_all
qed

lemma boot_tasks_runs:
  assumes "well_behaved call" "embedded_size b = 0"
  obtains u where "boot_tasks hw call b s = Some u" "reaches hw call u" "current_task u = Some 0"
    "tstate (task_table u 0) = TASK_RUNNING"
proof -
  let ?s1 = "export_symbols (exports b) (task_init s)"
  let ?s3 = "on_device (\<lambda>d. snd (block_init hw d)) ?s1"
  let ?s4 = "?s3\<lparr>screen := serial_write (''Kernel initialized, entering multi-tasking mode'' @ [CHR 0x0A]) (screen ?s3)\<rparr>"
  let ?s5 = "start_idle (idle_entry b) ?s4"
  let ?s6 = "?s5\<lparr>screen := serial_write (''Kernel initialized, starting menu'' @ [CHR 0x0A]) (screen ?s5)\<rparr>"
  have r: "reaches hw call ?s4" by (intro screen_reaches on_device_reaches export_symbols_reaches boot)
  have f: "tstate (task_table ?s4 0) = TASK_UNUSED" "\<not> task_stack_slots ?s4 0" "current_task ?s4 = None"
    using task_init_first [of s] by (simp_all add: on_device_def)
  note i = start_idle_runs [OF r assms(1) f, of "idle_entry b"]
  have "boot_tasks hw call b s = Some (on_device (timer_init hw 100) ?s6)"
    using assms(2) by (simp add: boot_tasks_def Let_def)
  moreover have "reaches hw call (on_device (timer_init hw 100) ?s6)"
    by (intro on_device_reaches screen_reaches i(1))
  ultimately show ?thesis using that i(2,3) by (simp add: on_device_def)
qed

section \<open>The machine after boot\<close>

lemma boot_processor_spec:
  assumes "length (terminal_buffer (screen (kern c))) = 2000"
  obtains c1 where "boot_processor hw b sp c = Some c1" "heap_view c1 = heap_view c"
proof -
  obtain h14 h32 h33 h128 where st: "stubs b = (h14, h32, h33, h128)" by (cases "stubs b") auto
  obtain scr where scr: "terminal_init (serial_write (''Kernel main started'' @ [CHR 0x0A]) (screen (kern c))) = Some scr"
    using terminal_init_spec [of "serial_write (''Kernel main started'' @ [CHR 0x0A]) (screen (kern c))"] assms
    by (auto simp: serial_write_def)
  have v: "vmm_state.truncate (s\<lparr>files := f, screen := x\<rparr>) = vmm_state.truncate s" for s :: "'a kernel" and f x
    by (cases s) (simp add: vmm_state.defs)
  let ?d = "snd (serial_init hw 0x3F8 (boot_irqs hw (dev (files (kern c)))))"
  let ?c = "c\<lparr>gdt_part := gdt_init (gdt_addr b) (tss_addr b) sp (gdt_part c),
    idt_part := idt_init (idt_addr b) h14 h32 h33 h128 (idt_part c),
    kern := (kern c)\<lparr>files := (files (kern c))\<lparr>dev := ?d\<rparr>, screen := scr\<rparr>\<rparr>"
  have "boot_processor hw b sp c = Some ?c"
    using scr st by (simp add: boot_processor_def on_device_def Let_def)
  moreover have "heap_view ?c = heap_view c" by (simp add: heap_view_def v)
  ultimately show ?thesis by (rule that)
qed


definition demo_computer :: "pio computer" where
  "demo_computer = \<lparr>gdt_part = boot_gdt, idt_part = boot_idt, heap_vars = (Map.empty, 0, 0),
     kern = demo_kernel\<lparr>phys := phys PMM.demo_boot, cr3 := 0, cr0_pg := False\<rparr>\<rparr>"

definition demo_symbols :: boot_symbols where
  "demo_symbols = \<lparr>gdt_addr = 0xC0110000, tss_addr = 0xC0110100, idt_addr = 0xC0111000,
     stubs = (0xC0100100, 0xC0100200, 0xC0100300, 0xC0100400), kernel_start = 0x200000, kernel_end = 0x300000,
     exports = [(''printk'', 0xC0101000), (''kmalloc'', 0xC0102000)], idle_entry = 0xC0103000,
     embedded_module = [], embedded_size = 0\<rparr>"

lemma demo_computer_map: "boot_map_ok 0x300000 demo_mbinfo [demo_mmap_entry] (heap_view demo_computer)"
  by (simp add: boot_map_ok_def demo_mbinfo_def demo_computer_def heap_view_def vmm_state.defs PMM.demo_boot_def
      demo_mmap_entry_def read_mmap_entry_def vload32_def translate_def store32_def u32_byte_def bytes_to_u32_def)

lemma demo_usable: "516 \<le> card (usable_frames 0x200000 0x300000 demo_mbinfo [demo_mmap_entry])"
proof -
  have f: "mmap_free [demo_mmap_entry] n \<longleftrightarrow> 256 \<le> n \<and> n < 4352" for n
    by (auto simp: mmap_free_def demo_mmap_entry_def in_range_def mmap_start_frame_def mmap_end_frame_def)
  have s: "{768..<4352} \<subseteq> usable_frames 0x200000 0x300000 demo_mbinfo [demo_mmap_entry]"
    by (auto simp: usable_frames_def f boot_reserved_def in_range_def demo_mbinfo_def PAGE_SIZE_def)
  have "finite (usable_frames 0x200000 0x300000 demo_mbinfo [demo_mmap_entry])"
    by (rule finite_subset [of _ "{..<4352}"]) (auto simp: usable_frames_def f)
  from card_mono [OF this s] show ?thesis by simp
qed


end
