(* ===== verification/Menu.thy ===== *)
theory Menu
  imports Boot
begin

text \<open>
  The boot menu, kernel/src/kernel/menu_main.c and menu_renderer.c: text on the VGA screen, the
  three menus with their callbacks, the entry of a file name, drawing, and the handling of one key.
  Its state extends that of the machine by the static variables of the two files. The screen is
  the text buffer of \<open>Console\<close>, the keys come from \<open>Keyboard\<close>, and the callbacks work on file
  system, heap, tasks and frames through the operations of those components. A local buffer is
  a list of its length; a halt is \<open>None\<close>. The answer of CPUID, the address of a local array and the
  linker symbols are arguments.
\<close>

section \<open>Text on the screen\<close>

definition nl :: char where
  "nl = CHR 0x0A"

definition lines :: "string list \<Rightarrow> string" where
  "lines ls = concat (map (\<lambda>l. l @ [nl]) ls)"

text \<open>\<open>(uint16_t)text[i] | (uint16_t)0x07 << 8\<close>; \<open>char\<close> is signed.\<close>

definition grey_cell :: "char \<Rightarrow> u16" where
  "grey_cell c = scast (of_char c :: u8) OR 0x0700"

primrec vga_fill :: "nat \<Rightarrow> u32 \<Rightarrow> u16 \<Rightarrow> console \<Rightarrow> console option" where
  "vga_fill 0 i v s = Some s"
| "vga_fill (Suc n) i v s = do { s1 \<leftarrow> set_cell i v s; vga_fill n (i + 1) v s1 }"

definition wrap_row :: "u32 \<Rightarrow> u32" where
  "wrap_row row = (if row + 1 \<ge> VGA_HEIGHT then 0 else row + 1)"

primrec vga_text :: "string \<Rightarrow> u32 \<Rightarrow> u32 \<Rightarrow> console \<Rightarrow> (u32 \<times> u32 \<times> console) option" where
  "vga_text [] row col s = Some (row, col, s)"
| "vga_text (c # cs) row col s =
     (if c = NUL then Some (row, col, s)
      else if c = nl then vga_text cs (wrap_row row) 0 s
      else if c = CHR 0x0D then vga_text cs row 0 s
      else do {
        s1 \<leftarrow> (if col < VGA_WIDTH \<and> row < VGA_HEIGHT then set_cell (row * VGA_WIDTH + col) (grey_cell c) s
              else Some s);
        if col + 1 \<ge> VGA_WIDTH then vga_text cs (wrap_row row) 0 s1 else vga_text cs row (col + 1) s1
      })"

definition display_on :: "string \<Rightarrow> console \<Rightarrow> console option" where
  "display_on txt s = do {
     s1 \<leftarrow> vga_fill 2000 0 (grey_cell CHR '' '') s;
     (row, col, s2) \<leftarrow> vga_text txt 0 0 s1;
     Some s2
   }"

section \<open>Menus\<close>

datatype menu_id = main_menu | disk_management_menu | system_info_menu

datatype menu_callback =
  menu_boot_os | menu_list_tasks | menu_run_hello_world | menu_run_disk_hello | menu_memory_test
  | menu_shutdown | menu_disk_test | menu_disk_write_test | menu_list_files | menu_create_file
  | menu_delete_file | menu_cpu_details | menu_memory_map | menu_interrupt_table | menu_device_list

record menu_item =
  label :: string
  item_callback :: "menu_callback option"
  submenu :: "menu_id option"
  enabled :: bool

record menu =
  title :: string
  items :: "menu_item list"
  item_count :: u32
  current_selection :: u32
  parent_menu :: "menu_id option"

definition act :: "string \<Rightarrow> menu_callback \<Rightarrow> menu_item" where
  "act l f = \<lparr>label = l, item_callback = Some f, submenu = None, enabled = True\<rparr>"

definition sub :: "string \<Rightarrow> menu_id \<Rightarrow> menu_item" where
  "sub l m = \<lparr>label = l, item_callback = None, submenu = Some m, enabled = True\<rparr>"

fun boot_menu :: "menu_id \<Rightarrow> menu" where
  "boot_menu main_menu = \<lparr>title = ''Main Menu'',
     items = [act ''Boot OS'' menu_boot_os, sub ''Disk Management'' disk_management_menu,
       sub ''System Information'' system_info_menu, act ''List Tasks'' menu_list_tasks,
       act ''Run Hello World Task'' menu_run_hello_world, act ''Run /HELLO.BIN from disk'' menu_run_disk_hello,
       act ''Memory Test'' menu_memory_test, act ''Shutdown'' menu_shutdown],
     item_count = 8, current_selection = 0, parent_menu = None\<rparr>"
| "boot_menu disk_management_menu = \<lparr>title = ''Disk Management'',
     items = [act ''Disk Test'' menu_disk_test, act ''FAT16 Write Test'' menu_disk_write_test,
       act ''List Files'' menu_list_files, act ''Create File'' menu_create_file,
       act ''Delete File'' menu_delete_file, sub ''Back to Main Menu'' main_menu],
     item_count = 6, current_selection = 0, parent_menu = Some main_menu\<rparr>"
| "boot_menu system_info_menu = \<lparr>title = ''System Information'',
     items = [act ''CPU Details'' menu_cpu_details, act ''Memory Map'' menu_memory_map,
       act ''Interrupt Table'' menu_interrupt_table, act ''Device List'' menu_device_list,
       sub ''Back to Main Menu'' main_menu],
     item_count = 5, current_selection = 0, parent_menu = Some main_menu\<rparr>"

record 'd desktop = "'d computer" +
  menus :: "menu_id \<Rightarrow> menu"
  last_menu :: "menu_id option"
  last_selection :: u32
  needs_redraw :: bool
  callback_display_active :: bool
  callback_menu :: "menu_id option"
  input_buffer :: string
  input_mode :: int
  input_len :: nat
  input_has_dot :: int
  append_row :: u32
  append_col :: u32

text \<open>What the callbacks cannot find in the sources: see the head of the theory.\<close>

record menu_env =
  cpu_vendor :: string
  oem_name_addr :: u32
  hello_world_main :: u32
  image_start :: u32
  image_end :: u32

definition on_screen :: "(console \<Rightarrow> console option) \<Rightarrow> 'd desktop \<Rightarrow> 'd desktop option" where
  "on_screen f d = do { c \<leftarrow> f (screen (kern d)); Some (d\<lparr>kern := (kern d)\<lparr>screen := c\<rparr>\<rparr>) }"

definition on_files ::
  "('d fat_state \<Rightarrow> ('r \<times> 'd fat_state) option) \<Rightarrow> 'd desktop \<Rightarrow> ('r \<times> 'd desktop) option" where
  "on_files f d = do { (r, fs) \<leftarrow> f (files (kern d)); Some (r, d\<lparr>kern := (kern d)\<lparr>files := fs\<rparr>\<rparr>) }"

definition on_kernel :: "('d kernel \<Rightarrow> ('r \<times> 'd kernel) option) \<Rightarrow> 'd desktop \<Rightarrow> ('r \<times> 'd desktop) option" where
  "on_kernel f d = do { (r, k) \<leftarrow> f (kern d); Some (r, d\<lparr>kern := k\<rparr>) }"

definition on_heap :: "(heap_state \<Rightarrow> ('r \<times> heap_state) option) \<Rightarrow> 'd desktop \<Rightarrow> ('r \<times> 'd desktop) option" where
  "on_heap f d = do { (r, h) \<leftarrow> f (heap_view d); Some (r, put_heap h d) }"

definition vga_display_text :: "string \<Rightarrow> 'd desktop \<Rightarrow> 'd desktop option" where
  "vga_display_text txt d = on_screen (display_on txt) d"

definition vga_append_text :: "string \<Rightarrow> 'd desktop \<Rightarrow> 'd desktop option" where
  "vga_append_text txt d = do {
     (row, col, c) \<leftarrow> vga_text txt (append_row d) (append_col d) (screen (kern d));
     Some (d\<lparr>kern := (kern d)\<lparr>screen := c\<rparr>, append_row := row, append_col := col\<rparr>)
   }"

text \<open>\<open>sprintf\<close> into a local array of \<open>n\<close> bytes, then \<open>vga_display_text\<close>.\<close>

definition show_fmt :: "nat \<Rightarrow> string \<Rightarrow> varg list \<Rightarrow> 'd desktop \<Rightarrow> 'd desktop option" where
  "show_fmt n fmt args d = do {
     (len, buf) \<leftarrow> sprintf (replicate n (CHR 0xFF)) fmt args;
     vga_display_text buf d
   }"

section \<open>Entry of a file name\<close>

definition is_valid_filename_char :: "char \<Rightarrow> bool" where
  "is_valid_filename_char c \<longleftrightarrow> (let k = (of_char c :: nat) in
     65 \<le> k \<and> k \<le> 90 \<or> 97 \<le> k \<and> k \<le> 122 \<or> 48 \<le> k \<and> k \<le> 57 \<or> c = CHR ''.'' \<or> c = CHR ''_'')"

definition to_upper :: "char \<Rightarrow> char" where
  "to_upper c = (if 97 \<le> (of_char c :: nat) \<and> (of_char c :: nat) \<le> 122 then char_of ((of_char c :: nat) - 32) else c)"

definition reset_input :: "'d desktop \<Rightarrow> 'd desktop" where
  "reset_input d = d\<lparr>input_buffer := replicate 13 NUL, input_len := 0, input_has_dot := 0\<rparr>"

definition prompt :: string where
  "prompt = ''Enter filename (8.3 format, e.g. FILE.TXT): ''"

definition mount_error :: string where
  "mount_error = lines [''ERROR: Failed to mount FAT16 volume at LBA 0.'', ''''] @ ''Press ESC to return to menu...''"

definition retry_input :: "string \<Rightarrow> 'd desktop \<Rightarrow> 'd desktop option" where
  "retry_input msg d = do {
     d1 \<leftarrow> vga_display_text msg d;
     d2 \<leftarrow> vga_append_text prompt d1;
     Some (reset_input d2)
   }"

text \<open>Why a name is refused: a part before or after the first dot that is too long.\<close>

definition name_error :: "string \<Rightarrow> nat \<Rightarrow> string option" where
  "name_error name len =
     (if CHR ''.'' \<in> set name
      then
        let name_len = length (takeWhile (\<lambda>c. c \<noteq> CHR ''.'') name);
            ext_len = length name - name_len - 1 in
        if name_len > 8 \<or> ext_len > 3
        then Some (lines ['''', ''Invalid filename format (max 8.3). Press ESC to cancel or try again.'']) else None
      else if len > 8
      then Some (lines ['''', ''Filename too long (max 8 chars). Press ESC to cancel or try again.'']) else None)"

text \<open>The local \<open>fat16_fs_t fs\<close> of the callbacks, as an address that the file system knows.\<close>

definition LOCAL_FS :: nat where
  "LOCAL_FS = 2"

definition path_of :: "string \<Rightarrow> u8 list option" where
  "path_of name = Some (map of_char name)"

definition create_named :: "'d ports \<Rightarrow> string \<Rightarrow> 'd desktop \<Rightarrow> 'd desktop option" where
  "create_named hw name d = do {
     (r, d1) \<leftarrow> on_files (fat16_mount hw LOCAL_FS 0) d;
     if r < 0
     then do { d2 \<leftarrow> vga_display_text mount_error d1; Some (d2\<lparr>input_mode := 0\<rparr>) }
     else do {
       (r2, d2) \<leftarrow> on_files (fat16_create hw LOCAL_FS (path_of name)) d1;
       d3 \<leftarrow> (if r2 < 0
             then show_fmt 256 (lines [''ERROR: Failed to create file %s.'',
               ''File may already exist or no free space in root directory.'', ''''] @ ''Press ESC to return to menu...'')
               [VStr (Some name)] d2
             else show_fmt 256 (lines [''File %s created successfully.'', ''''] @ ''Press ESC to return to menu...'')
               [VStr (Some name)] d2);
       Some (d3\<lparr>input_mode := 0\<rparr>)
     }
   }"

definition process_filename_input :: "'d ports \<Rightarrow> char \<Rightarrow> 'd desktop \<Rightarrow> 'd desktop option" where
  "process_filename_input hw key d =
     (if key = nl \<or> key = CHR 0x0D
      then
        if input_len d > 0
        then if input_len d \<ge> length (input_buffer d) then None
        else do {
          let d1 = d\<lparr>input_buffer := (input_buffer d)[input_len d := NUL]\<rparr>;
          let name = takeWhile (\<lambda>c. c \<noteq> NUL) (input_buffer d1);
          case name_error name (input_len d1) of
            Some msg \<Rightarrow> retry_input msg d1
          | None \<Rightarrow> create_named hw name d1
        }
        else Some d
      else if key = CHR 27
      then do {
        d1 \<leftarrow> vga_display_text (lines ['''', ''File creation cancelled.'', ''''] @ ''Press ESC to return to menu...'') d;
        Some (d1\<lparr>input_mode := 0\<rparr>)
      }
      else if input_len d < 12 \<and> is_valid_filename_char key
      then
        if key = CHR ''.'' \<and> input_has_dot d \<noteq> 0 then Some d
        else if key = CHR ''.'' \<and> input_len d = 0 then Some d
        else if input_len d \<ge> length (input_buffer d) then None
        else
          let d1 = d\<lparr>input_buffer := (input_buffer d)[input_len d := to_upper key], input_len := input_len d + 1\<rparr>;
              d2 = (if key = CHR ''.'' then d1\<lparr>input_has_dot := 1\<rparr> else d1) in
          vga_append_text [key, NUL] d2
      else Some d)"

section \<open>Callbacks\<close>

definition return_hint :: string where
  "return_hint = ''Press ESC to return to menu...''"

definition do_boot_os :: "'d desktop \<Rightarrow> 'd desktop option" where
  "do_boot_os d = vga_display_text (lines [''Booting fishboneOS...'', ''Menu system exiting, starting user tasks...'']) d"

text \<open>\<open>append_text\<close> and \<open>format_hex_padded\<close> on NUL-terminated arrays; \<open>None\<close> when the array is too short.\<close>

definition append_text :: "string \<Rightarrow> string \<Rightarrow> string option" where
  "append_text dest src = (
     let old = takeWhile (\<lambda>c. c \<noteq> NUL) dest;
         new = old @ takeWhile (\<lambda>c. c \<noteq> NUL) src @ [NUL] in
     if length old < length dest \<and> length new \<le> length dest then Some (new @ drop (length new) dest) else None)"

definition hex_digits :: string where
  "hex_digits = ''0123456789ABCDEF''"

definition format_hex_padded :: "u32 \<Rightarrow> string" where
  "format_hex_padded v = ''0x'' @ map (\<lambda>i. hex_digits ! unat (drop_bit (28 - i * 4) v AND 0xF)) [0..<8] @ [NUL]"

text \<open>\<open>terminal_writestring\<close> of a literal or of an array.\<close>

definition say :: "string \<Rightarrow> 'd desktop \<Rightarrow> 'd desktop option" where
  "say txt d = on_screen (terminal_writestring (txt @ [NUL])) d"

text \<open>The check mark and the cross in UTF-8.\<close>

definition tick :: string where
  "tick = [CHR 0xE2, CHR 0x9C, CHR 0x93]"

definition cross :: string where
  "cross = [CHR 0xE2, CHR 0x9C, CHR 0x97]"

definition free_block :: "u32 \<Rightarrow> 'd desktop \<Rightarrow> 'd desktop option" where
  "free_block p d = do { h \<leftarrow> kfree p (heap_view d); Some (put_heap h d) }"

definition simple_heap_test :: "'d desktop \<Rightarrow> 'd desktop option" where
  "simple_heap_test d = do {
     d1 \<leftarrow> say (lines [''Testing kernel heap allocation...'']) d;
     (ptr1, d2) \<leftarrow> on_heap (kmalloc 128) d1;
     if ptr1 = 0 then say (cross @ lines ['' Memory allocation failed'']) d2
     else do {
       d3 \<leftarrow> say (tick @ '' Allocated 128 bytes at '') d2;
       d4 \<leftarrow> say (butlast (format_hex_padded ptr1)) d3;
       d5 \<leftarrow> say [nl] d4;
       k \<leftarrow> vstore32 ptr1 0xDEADBEEF (kern d5);
       let d6 = d5\<lparr>kern := k\<rparr>;
       v \<leftarrow> vload32 ptr1 (kern d6);
       d7 \<leftarrow> (if v = 0xDEADBEEF then say (tick @ lines ['' Memory write/read test passed'']) d6
             else say (cross @ lines ['' Memory test failed'']) d6);
       d8 \<leftarrow> free_block ptr1 d7;
       say (tick @ lines ['' Memory freed successfully'']) d8
     }
   }"

text \<open>The loops that put a message below what is on the screen: column \<open>i\<close>, or \<open>i % 80\<close>.\<close>

primrec footer_loop :: "bool \<Rightarrow> string \<Rightarrow> u32 \<Rightarrow> u32 \<Rightarrow> console \<Rightarrow> console option" where
  "footer_loop wrap [] i row s = Some s"
| "footer_loop wrap (c # cs) i row s =
     (if c = nl then footer_loop wrap cs (i + 1) (row + 1) s
      else do {
        s1 \<leftarrow> (if row < 25
              then set_cell (row * VGA_WIDTH + (if wrap then i mod VGA_WIDTH else i)) (grey_cell c) s else Some s);
        footer_loop wrap cs (i + 1) row s1
      })"

definition do_memory_test :: "'d desktop \<Rightarrow> 'd desktop option" where
  "do_memory_test d = do {
     d1 \<leftarrow> vga_display_text (lines [''==================== Memory Test ====================='', '''']) d;
     d2 \<leftarrow> simple_heap_test d1;
     on_screen (footer_loop False ([nl] @ return_hint) 0 2) d2
   }"

definition do_shutdown :: "'d desktop \<Rightarrow> 'd desktop option" where
  "do_shutdown d = do {
     d1 \<leftarrow> vga_display_text (lines [''==================== System Shutdown ===================='', '''',
       ''Shutting down fishboneOS...'', ''System halted.'']) d;
     None
   }"

text \<open>
  The error message of \<open>menu_run_hello_world\<close>: at a line feed the row goes on and the index back,
  so that the message is written into every row from the fourth on, without its first letter.
\<close>

primrec put_row :: "string \<Rightarrow> u32 \<Rightarrow> console \<Rightarrow> console option" where
  "put_row [] i s = Some s"
| "put_row (c # cs) i s = do { s1 \<leftarrow> set_cell i (grey_cell c) s; put_row cs (i + 1) s1 }"

primrec error_rows :: "nat \<Rightarrow> string \<Rightarrow> u32 \<Rightarrow> console \<Rightarrow> console option" where
  "error_rows 0 msg row s = Some s"
| "error_rows (Suc n) msg row s = do {
     s1 \<leftarrow> put_row (tl msg) (row * VGA_WIDTH + 1) s;
     error_rows n msg (row + 1) s1
   }"

primrec flow :: "string \<Rightarrow> u32 \<Rightarrow> u32 \<Rightarrow> console \<Rightarrow> (u32 \<times> u32 \<times> console) option" where
  "flow [] row col s = Some (row, col, s)"
| "flow (c # cs) row col s =
     (if c = NUL then Some (row, col, s)
      else do {
        s1 \<leftarrow> set_cell (row * VGA_WIDTH + col) (grey_cell c) s;
        if col + 1 \<ge> VGA_WIDTH then flow cs (row + 1) 0 s1 else flow cs row (col + 1) s1
      })"

definition hello_created :: "string \<Rightarrow> console \<Rightarrow> console option" where
  "hello_created pid_buf s = do {
     (row, col, s1) \<leftarrow> flow (lines [''Task created successfully. Check serial output for Hello World message.'']
       @ ''Task PID: '') 3 0 s;
     (row2, col2, s2) \<leftarrow> flow pid_buf row col s1;
     set_cell (row2 * VGA_WIDTH + col2) (grey_cell nl) s2
   }"

definition hello_failed :: "console \<Rightarrow> console option" where
  "hello_failed s = do {
     let msg = ''ERROR: Failed to create Hello World task!'';
     s1 \<leftarrow> put_row msg (3 * VGA_WIDTH) s;
     error_rows 21 msg 4 s1
   }"

definition do_run_hello_world :: "menu_env \<Rightarrow> 'd desktop \<Rightarrow> 'd desktop option" where
  "do_run_hello_world env d = do {
     d1 \<leftarrow> vga_display_text (lines [''==================== Hello World Task ====================='', '''',
       ''Creating user-mode Hello World task...'']) d;
     (t, d2) \<leftarrow> on_kernel (task_create_user (hello_world_main env) 0xBFFFE000 (2 * 4096)) d1;
     case t of
       None \<Rightarrow> on_screen hello_failed d2
     | Some hello_task \<Rightarrow> do {
         pid_buf \<leftarrow> itoa (sint (pid (task_table (kern d2) hello_task))) (replicate 8 (CHR 0xFF)) 10;
         on_screen (hello_created pid_buf) d2
       }
   }"

text \<open>\<open>fat16_read\<close> into an array of \<open>n\<close> bytes: the result and the array.\<close>

definition read_array :: "'d ports \<Rightarrow> int \<Rightarrow> nat \<Rightarrow> u32 \<Rightarrow> 'd desktop \<Rightarrow> ((int \<times> u8 list) \<times> 'd desktop) option" where
  "read_array hw fd n count d = on_files (\<lambda>f. do {
     (r, b, f1) \<leftarrow> fat16_read hw fd (Some (replicate n 0)) count f;
     Some ((r, case b of None \<Rightarrow> [] | Some x \<Rightarrow> x), f1)
   }) d"

definition chars_of :: "u8 list \<Rightarrow> string" where
  "chars_of bs = map (\<lambda>b. char_of (unat b)) bs"

text \<open>The end of \<open>menu_run_disk_hello\<close>: the image is in the heap block, its bytes make the task.\<close>

definition hello_from_image :: "u32 \<Rightarrow> int \<Rightarrow> u8 list \<Rightarrow> 'd desktop \<Rightarrow> 'd desktop option" where
  "hello_from_image buffer read_bytes bytes d = do {
     (t, d1) \<leftarrow> on_kernel (task_create_user_from_binary (Some bytes) (of_int read_bytes) 0xBFFFE000
       (2 * PAGE_SIZE) 0 0) d;
     d2 \<leftarrow> free_block buffer d1;
     case t of
       None \<Rightarrow> vga_display_text (lines [''ERROR: Failed to create HELLO.BIN user task.'', '''']) d2
     | Some hello_task \<Rightarrow> do {
         pid_buf \<leftarrow> itoa (sint (pid (task_table (kern d2) hello_task))) (replicate 12 (CHR 0xFF)) 10;
         show_fmt 128 (lines [''Created HELLO.BIN task with PID %s.'', ''''])
           [VStr (Some (takeWhile (\<lambda>c. c \<noteq> NUL) pid_buf))] d2
       }
   }"

definition do_run_disk_hello :: "'d ports \<Rightarrow> 'd desktop \<Rightarrow> 'd desktop option" where
  "do_run_disk_hello hw d = do {
     d1 \<leftarrow> vga_display_text (lines [''==================== Disk Hello Task ===================='', '''']) d;
     (fd, d2) \<leftarrow> on_files (fat16_open hw 0 (path_of ''HELLO.BIN'')) d1;
     if fd < 0 then vga_display_text (lines [''ERROR: HELLO.BIN not found in FAT16 root.'', '''']) d2
     else do {
       let sz = PAGE_SIZE * of_nat MAX_USER_CODE_PAGES;
       (buffer, d3) \<leftarrow> on_heap (kmalloc sz) d2;
       if buffer = 0
       then do {
         d4 \<leftarrow> vga_display_text (lines [''ERROR: Failed to allocate buffer for HELLO.BIN.'', '''']) d3;
         (r, d5) \<leftarrow> on_files (fat16_close hw fd) d4;
         Some d5
       }
       else do {
         ((read_bytes, bytes), d4) \<leftarrow> read_array hw fd (unat sz) sz d3;
         k \<leftarrow> store_bytes buffer (take (bytes_moved fd (files (kern d3)) (files (kern d4))) bytes) (kern d4);
         (rc, d5) \<leftarrow> on_files (fat16_close hw fd) (d4\<lparr>kern := k\<rparr>);
         if read_bytes \<le> 0
         then do {
           d6 \<leftarrow> vga_display_text (lines [''ERROR: Failed to read HELLO.BIN from FAT16.'', '''']) d5;
           free_block buffer d6
         }
         else hello_from_image buffer read_bytes (take (nat read_bytes) bytes) d5
       }
     }
   }"

text \<open>
  \<open>menu_disk_test\<close>. The formatter does not know \<open>%.8s\<close>: it prints the rest of the directive as text
  and leaves the pointer to the next conversion.
\<close>

definition mount_report :: "menu_env \<Rightarrow> fat16_fs \<Rightarrow> string \<Rightarrow> string \<Rightarrow> varg list \<Rightarrow> (int \<times> string) option" where
  "mount_report env fs rest buf args = sprintf buf
     (lines [''FAT16 mounted successfully.'', ''OEM name: %.8s'', ''Bytes/sector: %u'', ''Sectors/cluster: %u'',
       ''Reserved sectors: %u'', ''Number of FATs: %u'', ''Root entries: %u'', ''Sectors/FAT: %u'',
       ''FAT start LBA: %u'', ''Root dir LBA: %u'', ''Data start LBA: %u'', ''''] @ rest)
     ([VInt (oem_name_addr env), VInt (ucast (bytes_per_sector fs)), VInt (ucast (sectors_per_cluster fs)),
       VInt (ucast (reserved_sector_count fs)), VInt (ucast (num_fats fs)), VInt (ucast (root_entry_count fs)),
       VInt (ucast (sectors_per_fat fs)), VInt (fat_start_lba fs), VInt (root_dir_start_lba fs)] @ args)"

text \<open>
  The result array holds the report, and \<open>result + strlen(result)\<close> gets the second part: both are
  formatted in turn, the second one into the space that is left.
\<close>

definition show_report :: "menu_env \<Rightarrow> fat16_fs \<Rightarrow> string \<Rightarrow> varg list \<Rightarrow> 'd desktop \<Rightarrow> 'd desktop option" where
  "show_report env fs fmt args d = do {
     (len, buf) \<leftarrow> mount_report env fs '''' (replicate 1024 (CHR 0xFF)) [];
     let head = takeWhile (\<lambda>c. c \<noteq> NUL) buf;
     (len2, buf2) \<leftarrow> sprintf (replicate (1024 - length head) (CHR 0xFF)) fmt args;
     vga_display_text (head @ buf2) d
   }"

primrec open_first :: "'d ports \<Rightarrow> string list \<Rightarrow> 'd desktop \<Rightarrow> ((int \<times> string) \<times> 'd desktop) option" where
  "open_first hw [] d = Some ((- 1, ''''), d)"
| "open_first hw (n # ns) d = do {
     (fd, d1) \<leftarrow> on_files (fat16_open hw LOCAL_FS (path_of n)) d;
     if fd \<ge> 0 then Some ((fd, n), d1) else open_first hw ns d1
   }"

definition preview_char :: "u8 \<Rightarrow> char" where
  "preview_char b = (if 32 \<le> b \<and> b < 0x7F \<or> b = 10 \<or> b = 13 \<or> b = 9 then char_of (unat b) else CHR ''.'')"

definition do_disk_test :: "'d ports \<Rightarrow> menu_env \<Rightarrow> 'd desktop \<Rightarrow> 'd desktop option" where
  "do_disk_test hw env d = do {
     d1 \<leftarrow> vga_display_text (lines [''==================== Disk Test ===================='', '''']) d;
     (r, d2) \<leftarrow> on_files (fat16_mount hw LOCAL_FS 0) d1;
     if r < 0 then vga_display_text mount_error d2
     else do {
       let fs = fs_store (files (kern d2)) LOCAL_FS;
       ((fd, opened_name), d3) \<leftarrow> open_first hw [''README.TXT'', ''HELLO.TXT'', ''TEST.TXT'', ''KERNEL.BIN''] d2;
       if fd < 0
       then show_report env fs (lines [''File test: no known root file found.'',
         ''Create README.TXT or HELLO.TXT in the FAT16 root and retry.'', ''''] @ return_hint) [] d3
       else do {
         ((bytes_read, file_buffer), d4) \<leftarrow> read_array hw fd 128 128 d3;
         (rc, d5) \<leftarrow> on_files (fat16_close hw fd) d4;
         if bytes_read < 0
         then show_report env fs (lines [''File test: opened %s but failed to read file.'', ''''] @ return_hint)
           [VStr (Some opened_name)] d5
         else show_report env fs (lines [''File test: opened %s and read %d bytes.'', ''File preview:'', ''%s'', '''']
           @ return_hint) [VStr (Some opened_name), VInt (of_int bytes_read),
             VStr (Some (map preview_char (take (nat bytes_read) file_buffer)))] d5
       }
     }
   }"

definition open_or_create :: "'d ports \<Rightarrow> string \<Rightarrow> 'd desktop \<Rightarrow> ((int \<times> string) \<times> 'd desktop) option" where
  "open_or_create hw name d = do {
     (fd, d1) \<leftarrow> on_files (fat16_open hw LOCAL_FS (path_of name)) d;
     if fd \<ge> 0 then Some ((fd, ''''), d1)
     else do {
       (r, d2) \<leftarrow> on_files (fat16_create hw LOCAL_FS (path_of name)) d1;
       if r < 0
       then Some ((- 1, lines [''ERROR: Could not create %s in root directory.'',
         ''Ensure there is free space in the root directory and retry.'', ''''] @ return_hint), d2)
       else do {
         (fd2, d3) \<leftarrow> on_files (fat16_open hw LOCAL_FS (path_of name)) d2;
         Some ((fd2, lines [''ERROR: Created %s but failed to open it afterward.''] @ return_hint), d3)
       }
     }
   }"

text \<open>The second half of \<open>menu_disk_write_test\<close>: close, open again, read back, report.\<close>

definition read_back :: "'d ports \<Rightarrow> string \<Rightarrow> int \<Rightarrow> 'd desktop \<Rightarrow> 'd desktop option" where
  "read_back hw name written d = do {
     (fd, d1) \<leftarrow> on_files (fat16_open hw LOCAL_FS (path_of name)) d;
     if fd < 0
     then vga_display_text (lines [''ERROR: Failed to reopen FAT16 file after write.'', ''''] @ return_hint) d1
     else do {
       ((read_bytes, readback), d2) \<leftarrow> read_array hw fd 64 63 d1;
       (rc, d3) \<leftarrow> on_files (fat16_close hw fd) d2;
       if read_bytes < 0
       then vga_display_text (lines [''ERROR: Failed to read back FAT16 file after write.'', ''''] @ return_hint) d3
       else show_fmt 512 (lines [''FAT16 write test succeeded.'', ''Wrote %d bytes to %s.'', ''Read back %d bytes.'', '''',
           ''File contents:'', ''%s'', ''''] @ return_hint)
         [VInt (of_int written), VStr (Some name), VInt (of_int read_bytes),
          VStr (Some (takeWhile (\<lambda>c. c \<noteq> NUL) (chars_of (readback[nat read_bytes := 0]))))] d3
     }
   }"

definition do_disk_write_test :: "'d ports \<Rightarrow> 'd desktop \<Rightarrow> 'd desktop option" where
  "do_disk_write_test hw d = do {
     d1 \<leftarrow> vga_display_text (lines [''==================== FAT16 Write Test ===================='', '''']) d;
     (r, d2) \<leftarrow> on_files (fat16_mount hw LOCAL_FS 0) d1;
     if r < 0 then vga_display_text mount_error d2
     else do {
       ((fd, msg), d3) \<leftarrow> open_or_create hw ''TEST.TXT'' d2;
       if fd < 0 then show_fmt 256 msg [VStr (Some ''TEST.TXT'')] d3
       else do {
         let marker = map of_char (lines [''FAT16 WRITE OK'']);
         (written, d4) \<leftarrow> on_files (fat16_write hw fd (Some marker) (of_nat (length marker))) d3;
         if written < 0
         then do {
           (rc, d5) \<leftarrow> on_files (fat16_close hw fd) d4;
           vga_display_text (lines [''ERROR: Failed to write to FAT16 file.'', ''''] @ return_hint) d5
         }
         else do {
           (rc, d5) \<leftarrow> on_files (fat16_close hw fd) d4;
           if rc < 0
           then vga_display_text (lines [''ERROR: Failed to close FAT16 file after write.'', ''''] @ return_hint) d5
           else read_back hw ''TEST.TXT'' written d5
         }
       }
     }
   }"

definition do_list_files :: "'d ports \<Rightarrow> 'd desktop \<Rightarrow> 'd desktop option" where
  "do_list_files hw d = do {
     d1 \<leftarrow> vga_display_text (lines [''==================== List Files ===================='', '''']) d;
     (r, d2) \<leftarrow> on_files (fat16_mount hw LOCAL_FS 0) d1;
     if r < 0 then vga_display_text mount_error d2
     else do {
       (r2, d3) \<leftarrow> on_files (\<lambda>f. do { (rc, out, f1) \<leftarrow> fat16_list_root hw LOCAL_FS f; Some (rc, f1) }) d2;
       if r2 < 0 then vga_display_text (lines [''ERROR: Failed to list root directory.'', ''''] @ return_hint) d3
       else on_screen (footer_loop True (lines ['''', '''', ''File listing completed. Check serial output for details.'', '''']
         @ return_hint) 0 3) d3
     }
   }"

definition do_create_file :: "'d desktop \<Rightarrow> 'd desktop option" where
  "do_create_file d = do {
     d1 \<leftarrow> vga_display_text (lines [''==================== Create File ===================='', '''']) d;
     vga_append_text prompt (reset_input (d1\<lparr>input_mode := 1\<rparr>))
   }"

definition do_delete_file :: "'d ports \<Rightarrow> 'd desktop \<Rightarrow> 'd desktop option" where
  "do_delete_file hw d = do {
     d1 \<leftarrow> vga_display_text (lines [''==================== Delete File ===================='', '''']) d;
     (r, d2) \<leftarrow> on_files (fat16_mount hw LOCAL_FS 0) d1;
     if r < 0 then vga_display_text mount_error d2
     else do {
       (r2, d3) \<leftarrow> on_files (fat16_delete hw LOCAL_FS (path_of ''NEWFILE.TXT'')) d2;
       if r2 < 0
       then show_fmt 256 (lines [''ERROR: Failed to delete file %s.'', ''File may not exist.'', ''''] @ return_hint)
         [VStr (Some ''NEWFILE.TXT'')] d3
       else show_fmt 256 (lines [''File %s deleted successfully.'', ''''] @ return_hint) [VStr (Some ''NEWFILE.TXT'')] d3
     }
   }"

section \<open>Information screens\<close>

text \<open>
  A text array of \<open>n\<close> bytes with its initial string, and the calls
  \<open>pos += sprintf(display_text + pos, ...)\<close> that fill it.
\<close>

definition text_array :: "nat \<Rightarrow> string \<Rightarrow> nat \<times> string" where
  "text_array n txt = (length txt, txt @ replicate (n - length txt) NUL)"

primrec print_lines :: "(string \<times> varg list) list \<Rightarrow> nat \<times> string \<Rightarrow> (nat \<times> string) option" where
  "print_lines [] b = Some b"
| "print_lines (x # xs) b = do {
     (len, part) \<leftarrow> sprintf (drop (fst b) (snd b)) (fst x) (snd x);
     print_lines xs (fst b + nat len, take (fst b) (snd b) @ part)
   }"

definition show_lines :: "nat \<Rightarrow> string \<Rightarrow> (string \<times> varg list) list \<Rightarrow> 'd desktop \<Rightarrow> 'd desktop option" where
  "show_lines n title_text xs d = do {
     (pos, display_text) \<leftarrow> print_lines xs (text_array n title_text);
     vga_display_text display_text d
   }"

definition plain :: "string \<Rightarrow> string \<times> varg list" where
  "plain txt = (txt @ [nl], [])"

definition display_cpu_info :: "menu_env \<Rightarrow> 'd desktop \<Rightarrow> 'd desktop option" where
  "display_cpu_info env d = do {
     let vendor = (if cpu_vendor env = '''' then ''Unknown'' else cpu_vendor env);
     let total_kb = pmm_get_total_memory_kb (kern d);
     free_kb \<leftarrow> pmm_get_free_memory_kb (kern d);
     show_lines 2000 (lines [''==================== CPU Details ====================='', ''''])
       [(''CPU Vendor: %s'' @ [nl], [VStr (Some vendor)]), ([nl] @ ''Memory Summary:'' @ [nl], []),
        (''- Total RAM: %d MB'' @ [nl], [VInt (total_kb div 1024)]),
        (''- Available RAM: %d MB'' @ [nl], [VInt (free_kb div 1024)])] d
   }"

text \<open>A zeroed array of \<open>n\<close> bytes filled by calls of \<open>append_text\<close>.\<close>

primrec append_all :: "string list \<Rightarrow> string \<Rightarrow> string option" where
  "append_all [] b = Some b"
| "append_all (x # xs) b = do { b1 \<leftarrow> append_text b x; append_all xs b1 }"

definition info_line :: "nat \<Rightarrow> string list \<Rightarrow> string option" where
  "info_line n parts = map_option (takeWhile (\<lambda>c. c \<noteq> NUL)) (append_all parts (replicate n NUL))"

definition megabytes :: "u32 \<Rightarrow> string option" where
  "megabytes kb = itoa (sint (kb div 1024)) (replicate 16 (CHR 0xFF)) 10"

definition memory_lines :: "menu_env \<Rightarrow> 'd desktop \<Rightarrow> string list option" where
  "memory_lines env d = do {
     total_mb \<leftarrow> megabytes (pmm_get_total_memory_kb (kern d));
     total_ram_line \<leftarrow> info_line 32 [''- Total RAM: '', total_mb, '' MB''];
     free_kb \<leftarrow> pmm_get_free_memory_kb (kern d);
     free_mb \<leftarrow> megabytes free_kb;
     available_ram_line \<leftarrow> info_line 32 [''- Available: '', free_mb, '' MB''];
     reserved_mb \<leftarrow> megabytes ((image_end env - image_start env) div 1024);
     reserved_ram_line \<leftarrow> info_line 32 [''- Kernel reserved: '', reserved_mb, '' MB''];
     kernel_space_line \<leftarrow> info_line 64 [''- Kernel space: '', format_hex_padded KERNEL_VIRT_BASE, '' - '',
       format_hex_padded 0xFFFFFFFF];
     user_space_line \<leftarrow> info_line 64 [''- User space: '', format_hex_padded 0, '' - '', format_hex_padded 0xBFFFFFFF];
     heap_start_line \<leftarrow> info_line 32 [''- Heap start: '', format_hex_padded KERNEL_HEAP_START];
     heap_end_line \<leftarrow> info_line 32 [''- Heap end: '', format_hex_padded KERNEL_HEAP_END];
     current_heap_line \<leftarrow> info_line 32 [''- Current end: '', format_hex_padded (heap_get_end_vaddr (heap_view d))];
     stack_start_line \<leftarrow> info_line 32 [''- Stack start: '', format_hex_padded KERNEL_STACK_REGION_START];
     stack_end_line \<leftarrow> info_line 32 [''- Stack end: '', format_hex_padded KERNEL_STACK_REGION_END];
     recursive_pdt_line \<leftarrow> info_line 32 [''- Recursive PDT: '', format_hex_padded VMM_PDT_VIRTUAL_ADDR];
     temp_page_line \<leftarrow> info_line 32 [''- Temp page: '', format_hex_padded VMM_TEMP_PAGE];
     mmio_start_line \<leftarrow> info_line 32 [''- MMIO start: '', format_hex_padded 0xF0000000];
     Some ['''', ''Physical Memory:'', total_ram_line, reserved_ram_line, available_ram_line, '''', ''Virtual Memory:'',
       kernel_space_line, user_space_line, '''', ''Heap Status:'', heap_start_line, heap_end_line, current_heap_line,
       '''', ''Stack Region:'', stack_start_line, stack_end_line, '''', ''VMM Pages:'', recursive_pdt_line,
       temp_page_line, '''', ''MMIO Reserved:'', mmio_start_line]
   }"

primrec say_lines :: "string list \<Rightarrow> 'd desktop \<Rightarrow> 'd desktop option" where
  "say_lines [] d = Some d"
| "say_lines (l # ls) d = do { d1 \<leftarrow> say l d; d2 \<leftarrow> say [nl] d1; say_lines ls d2 }"

definition display_memory_info :: "menu_env \<Rightarrow> 'd desktop \<Rightarrow> 'd desktop option" where
  "display_memory_info env d = do {
     ls \<leftarrow> memory_lines env d;
     d1 \<leftarrow> say (lines [''==================== Memory Information ====================''] ) d;
     d2 \<leftarrow> say_lines ls d1;
     show_lines 2000 (lines [''==================== Memory Information ====================''])
       (map (\<lambda>l. (''%s'' @ [nl], [VStr (Some l)])) ls) d2
   }"

definition display_interrupt_info :: "'d desktop \<Rightarrow> 'd desktop option" where
  "display_interrupt_info d = show_lines 1000
     (lines [''==================== Interrupt Table ===================='', ''''])
     [plain ''IDT Information:'', plain ''- Total entries: 256'',
      (''- Used entries: %d'' @ [nl], [VInt (idt_get_used_entries (idt_part d))]),
      ([nl] @ ''PIC Configuration:'' @ [nl], []), plain ''- Master PIC: IRQs 0-7 -> INTs 32-39'',
      plain ''- Slave PIC: IRQs 8-15 -> INTs 40-47''] d"

definition display_device_info :: "'d ports \<Rightarrow> 'd desktop \<Rightarrow> 'd desktop option" where
  "display_device_info hw d = (
     let (faulty, dv) = serial_is_faulty hw 0x3F8 (dev (files (kern d)));
         d1 = d\<lparr>kern := on_device (\<lambda>_. dv) (kern d)\<rparr> in
     show_lines 1000 (lines [''==================== Device List ===================='', ''''])
       [plain ''Detected Devices:'',
        plain (if faulty = 0 then ''- Serial Port (COM1) - Detected'' else ''- Serial Port (COM1) - Not detected''),
        plain ''- Timer (PIT 8253/8254) - Detected'', plain ''- Keyboard (PS/2) - Detected'',
        plain ''- VGA Text Mode Display - Detected'', ([nl] @ ''I/O Ports:'' @ [nl], []),
        plain ''- 0x0020-0x0021: Master PIC'', plain ''- 0x00A0-0x00A1: Slave PIC'',
        plain ''- 0x0040-0x0043: PIT Timer'', plain ''- 0x0060: PS/2 Keyboard Data'',
        plain ''- 0x0064: PS/2 Keyboard Status'', plain ''- 0x03F8-0x03FF: Serial COM1'',
        plain ''- 0xB8000: VGA Text Buffer''] d1)"

fun state_str :: "task_status \<Rightarrow> string" where
  "state_str TASK_UNUSED = ''Unused''"
| "state_str TASK_READY = ''Ready ''"
| "state_str TASK_RUNNING = ''Run   ''"
| "state_str TASK_WAITING = ''Wait  ''"
| "state_str TASK_ZOMBIE = ''Zombie''"

definition task_line :: "task \<Rightarrow> string \<times> varg list" where
  "task_line t = ('' %d   | %s | %s | %d      | %d'' @ [nl],
     [VInt (pid t), VStr (Some (if ttype t = TASK_TYPE_USER then ''User  '' else ''Kernel'')), VStr (Some (state_str (tstate t))),
      VInt (quantum t), VInt (ticks t)])"

definition do_list_tasks :: "'d desktop \<Rightarrow> 'd desktop option" where
  "do_list_tasks d = show_lines 2000 (lines [''==================== TASK LIST ===================='', ''''])
     ([plain ''PID  | Type   | State    | Quantum | Ticks'', plain ''-----|--------|----------|---------|-------'']
      @ map task_line (filter (\<lambda>t. tstate t \<noteq> TASK_UNUSED) (map (task_table (kern d)) [0..<TASK_MAX]))) d"

text \<open>The call through \<open>item->callback\<close>.\<close>

fun menu_call :: "'d ports \<Rightarrow> menu_env \<Rightarrow> menu_callback \<Rightarrow> 'd desktop \<Rightarrow> 'd desktop option" where
  "menu_call hw env menu_boot_os d = do_boot_os d"
| "menu_call hw env menu_list_tasks d = do_list_tasks d"
| "menu_call hw env menu_run_hello_world d = do_run_hello_world env d"
| "menu_call hw env menu_run_disk_hello d = do_run_disk_hello hw d"
| "menu_call hw env menu_memory_test d = do_memory_test d"
| "menu_call hw env menu_shutdown d = do_shutdown d"
| "menu_call hw env menu_disk_test d = do_disk_test hw env d"
| "menu_call hw env menu_disk_write_test d = do_disk_write_test hw d"
| "menu_call hw env menu_list_files d = do_list_files hw d"
| "menu_call hw env menu_create_file d = do_create_file d"
| "menu_call hw env menu_delete_file d = do_delete_file hw d"
| "menu_call hw env menu_cpu_details d = display_cpu_info env d"
| "menu_call hw env menu_memory_map d = display_memory_info env d"
| "menu_call hw env menu_interrupt_table d = display_interrupt_info d"
| "menu_call hw env menu_device_list d = display_device_info hw d"

section \<open>Drawing\<close>

definition vga_putchar_at :: "char \<Rightarrow> u8 \<Rightarrow> u32 \<Rightarrow> u32 \<Rightarrow> console \<Rightarrow> console option" where
  "vga_putchar_at c color x y s =
     (if x \<ge> VGA_WIDTH \<or> y \<ge> VGA_HEIGHT then Some s
      else set_cell (y * VGA_WIDTH + x) (vga_entry (of_char c) color) s)"

primrec vga_writestring_at :: "string \<Rightarrow> u8 \<Rightarrow> u32 \<Rightarrow> u32 \<Rightarrow> console \<Rightarrow> console option" where
  "vga_writestring_at [] color x y s = Some s"
| "vga_writestring_at (c # cs) color x y s =
     (if c = nl then vga_writestring_at cs color 0 (wrap_row y) s
      else do {
        s1 \<leftarrow> vga_putchar_at c color x y s;
        if x + 1 \<ge> VGA_WIDTH then vga_writestring_at cs color 0 (wrap_row y) s1
        else vga_writestring_at cs color (x + 1) y s1
      })"

text \<open>\<open>n\<close> times the character from column \<open>x\<close> on, and the rows of \<open>vga_clear_screen\<close>.\<close>

primrec vga_repeat :: "nat \<Rightarrow> char \<Rightarrow> u8 \<Rightarrow> u32 \<Rightarrow> u32 \<Rightarrow> console \<Rightarrow> console option" where
  "vga_repeat 0 c color x y s = Some s"
| "vga_repeat (Suc n) c color x y s = do { s1 \<leftarrow> vga_putchar_at c color x y s; vga_repeat n c color (x + 1) y s1 }"

primrec vga_clear_rows :: "nat \<Rightarrow> u8 \<Rightarrow> u32 \<Rightarrow> console \<Rightarrow> console option" where
  "vga_clear_rows 0 color y s = Some s"
| "vga_clear_rows (Suc n) color y s = do { s1 \<leftarrow> vga_repeat 80 CHR '' '' color 0 y s; vga_clear_rows n color (y + 1) s1 }"

definition vga_clear_screen :: "u8 \<Rightarrow> console \<Rightarrow> console option" where
  "vga_clear_screen color s = vga_clear_rows 25 color 0 s"

definition title_bar :: "string \<Rightarrow> console \<Rightarrow> console option" where
  "title_bar txt s = do {
     let grey = vga_entry_color 7 0;
     let title_len = of_nat (length txt);
     let padding = (80 - title_len - 4) div 2;
     s1 \<leftarrow> vga_repeat (unat padding) CHR ''='' grey 0 0 s;
     s2 \<leftarrow> vga_writestring_at ''=== '' grey padding 0 s1;
     s3 \<leftarrow> vga_writestring_at txt grey (padding + 4) 0 s2;
     s4 \<leftarrow> vga_writestring_at '' ==='' grey (padding + 4 + title_len) 0 s3;
     let current_x = padding + 4 + title_len + 4;
     vga_repeat (unat (80 - current_x)) CHR ''='' grey current_x 0 s4
   }"

text \<open>The loop over the items from index \<open>i\<close> on; an index outside the array is a fault.\<close>

primrec draw_items :: "nat \<Rightarrow> u32 \<Rightarrow> menu \<Rightarrow> u32 \<Rightarrow> console \<Rightarrow> console option" where
  "draw_items 0 i m y s = Some s"
| "draw_items (Suc n) i m y s =
     (if unat i < length (items m) then do {
        let selected = (i = current_selection m);
        let color = (if selected then vga_entry_color 0 7 else vga_entry_color 7 0);
        s1 \<leftarrow> vga_writestring_at (if selected then '' > '' else ''   '') color 0 y s;
        s2 \<leftarrow> vga_writestring_at (label (items m ! unat i)) color 3 y s1;
        draw_items n (i + 1) m (y + 1) s2
      }
      else None)"

definition menu_renderer_draw :: "menu \<Rightarrow> console \<Rightarrow> console option" where
  "menu_renderer_draw m s = do {
     let grey = vga_entry_color 7 0;
     s1 \<leftarrow> vga_clear_screen grey s;
     s2 \<leftarrow> title_bar (title m) s1;
     s3 \<leftarrow> draw_items (unat (item_count m)) 0 m 2 s2;
     let y = 2 + item_count m + 1;
     s4 \<leftarrow> vga_writestring_at (replicate 80 CHR ''='' @ [nl]) grey 0 y s3;
     vga_writestring_at ''Press ENTER to select, UP/DOWN to navigate, ESC to exit'' grey 0 (y + 1) s4
   }"

section \<open>Keys\<close>

definition get_key_input :: "'d desktop \<Rightarrow> (char \<times> 'd desktop) option" where
  "get_key_input d =
     (if keyboard_has_event (keys (kern d))
      then do {
        (c, k) \<leftarrow> keyboard_get_event (keys (kern d));
        Some (char_of (unat c), d\<lparr>kern := (kern d)\<lparr>keys := k\<rparr>\<rparr>)
      }
      else Some (NUL, d))"

definition is_up :: "char \<Rightarrow> bool" where
  "is_up key \<longleftrightarrow> key \<in> {char_of (72 :: nat), char_of (75 :: nat), CHR ''w'', CHR ''W'', CHR ''a'', CHR ''A''}"

definition is_down :: "char \<Rightarrow> bool" where
  "is_down key \<longleftrightarrow> key \<in> {char_of (80 :: nat), char_of (77 :: nat), CHR ''s'', CHR ''S'', CHR ''d'', CHR ''D''}"

definition is_enter :: "char \<Rightarrow> bool" where
  "is_enter key \<longleftrightarrow> key \<in> {CHR 0x0D, nl}"

definition is_esc :: "char \<Rightarrow> bool" where
  "is_esc key \<longleftrightarrow> key = CHR 27"

definition on_menu :: "menu_id \<Rightarrow> (menu \<Rightarrow> menu) \<Rightarrow> 'd desktop \<Rightarrow> 'd desktop" where
  "on_menu m f d = d\<lparr>menus := (menus d)(m := f (menus d m))\<rparr>"

definition select_item :: "'d ports \<Rightarrow> menu_env \<Rightarrow> menu_id \<Rightarrow> 'd desktop \<Rightarrow> (menu_id option \<times> 'd desktop) option" where
  "select_item hw env m d =
     (if unat (current_selection (menus d m)) < length (items (menus d m))
      then
        let item = items (menus d m) ! unat (current_selection (menus d m)) in
        case submenu item of
          Some t \<Rightarrow> Some (Some t, on_menu t (\<lambda>x. x\<lparr>parent_menu := Some m, current_selection := 0\<rparr>) d)
        | None \<Rightarrow>
            (case item_callback item of
               None \<Rightarrow> Some (Some m, d)
             | Some f \<Rightarrow> do {
                 d1 \<leftarrow> menu_call hw env f d;
                 Some (Some m, d1\<lparr>callback_display_active := True, callback_menu := Some m\<rparr>)
               })
      else None)"

definition menu_renderer_handle_input ::
  "'d ports \<Rightarrow> menu_env \<Rightarrow> menu_id \<Rightarrow> 'd desktop \<Rightarrow> (menu_id option \<times> 'd desktop) option" where
  "menu_renderer_handle_input hw env m d0 = do {
     (key, d) \<leftarrow> get_key_input d0;
     if key = NUL then Some (Some m, d)
     else if input_mode d \<noteq> 0 then do { d1 \<leftarrow> process_filename_input hw key d; Some (Some m, d1) }
     else if callback_display_active d
     then
       if is_esc key
       then Some (Some (case callback_menu d of Some r \<Rightarrow> r | None \<Rightarrow> m),
         d\<lparr>callback_display_active := False, callback_menu := None, needs_redraw := True\<rparr>)
       else Some (Some m, d)
     else if is_up key
     then Some (Some m, on_menu m (\<lambda>x. if current_selection x > 0
       then x\<lparr>current_selection := current_selection x - 1\<rparr> else x) d)
     else if is_down key
     then Some (Some m, on_menu m (\<lambda>x. if current_selection x < item_count x - 1
       then x\<lparr>current_selection := current_selection x + 1\<rparr> else x) d)
     else if is_enter key then select_item hw env m d
     else if is_esc key then Some (parent_menu (menus d m), d)
     else Some (Some m, d)
   }"

definition redraw :: "menu_id \<Rightarrow> 'd desktop \<Rightarrow> 'd desktop option" where
  "redraw m d =
     (if \<not> callback_display_active d
         \<and> (needs_redraw d \<or> last_menu d \<noteq> Some m \<or> last_selection d \<noteq> current_selection (menus d m))
      then do {
        d1 \<leftarrow> on_screen (menu_renderer_draw (menus d m)) d;
        Some (d1\<lparr>last_menu := Some m, last_selection := current_selection (menus d1 m), needs_redraw := False\<rparr>)
      }
      else Some d)"

definition menu_renderer_update ::
  "'d ports \<Rightarrow> menu_env \<Rightarrow> menu_id option \<Rightarrow> 'd desktop \<Rightarrow> (menu_id option \<times> 'd desktop) option" where
  "menu_renderer_update hw env m0 d =
     (case m0 of
        None \<Rightarrow> Some (None, d)
      | Some m \<Rightarrow> do {
          d1 \<leftarrow> redraw m d;
          (next_menu, d2) \<leftarrow> menu_renderer_handle_input hw env m d1;
          let d3 = (if next_menu \<noteq> Some m \<or> current_selection (menus d2 m) \<noteq> last_selection d2
                    then d2\<lparr>needs_redraw := True, callback_display_active := False\<rparr> else d2);
          Some (if next_menu \<noteq> None then next_menu else Some m, d3)
        })"

section \<open>The idle task\<close>

text \<open>
  \<open>kernel_idle\<close> of kernel.c: the local variables, and one pass of its loop. The pass without a
  menu halts for ever.
\<close>

record idle_vars =
  idle_menu :: "menu_id option"
  last_frame_tick :: u32
  frame_counter :: u32
  kernel_last_service_tick :: u32

definition idle_start :: idle_vars where
  "idle_start = \<lparr>idle_menu = Some main_menu, last_frame_tick = 0, frame_counter = 0, kernel_last_service_tick = 0\<rparr>"

definition idle_frame ::
  "'d ports \<Rightarrow> menu_env \<Rightarrow> idle_vars \<times> 'd desktop \<Rightarrow> (idle_vars \<times> 'd desktop) option" where
  "idle_frame hw env s = (case s of (v, d) \<Rightarrow>
     let current_tick = timer_get_ticks (kern d) in
     if current_tick - last_frame_tick v \<ge> 2 then do {
       (m, d1) \<leftarrow> menu_renderer_update hw env (idle_menu v) d;
       Some (v\<lparr>idle_menu := m, last_frame_tick := current_tick, frame_counter := frame_counter v + 1\<rparr>, d1)
     }
     else Some s)"

definition kernel_dispatch_periodic_services :: "idle_vars \<Rightarrow> 'd desktop \<Rightarrow> idle_vars" where
  "kernel_dispatch_periodic_services v d =
     (if timer_get_ticks (kern d) \<noteq> kernel_last_service_tick v
      then v\<lparr>kernel_last_service_tick := timer_get_ticks (kern d)\<rparr> else v)"

definition idle_pass ::
  "'d ports \<Rightarrow> menu_env \<Rightarrow> idle_vars \<times> 'd desktop \<Rightarrow> (idle_vars \<times> 'd desktop) option" where
  "idle_pass hw env s = do {
     (v, d) \<leftarrow> idle_frame hw env s;
     if idle_menu v = None then None
     else Some (kernel_dispatch_periodic_services v d, d\<lparr>kern := snd (task_yield (kern d))\<rparr>)
   }"

end
