(* ===== verification/MenuInv.thy ===== *)
theory MenuInv
  imports Menu
begin

text \<open>
  Invariants of the boot menu: what the callbacks leave alone, the entry of a file name against
  the 8.3 rule of the file system, and the states that the idle task reaches while keys arrive and
  other tasks run.
\<close>

section \<open>What callbacks leave alone\<close>

definition desk :: "'d desktop \<Rightarrow> (menu_id \<Rightarrow> menu) \<times> menu_id option \<times> u32 \<times> bool \<times> bool \<times> menu_id option" where
  "desk d = (menus d, last_menu d, last_selection d, needs_redraw d, callback_display_active d, callback_menu d)"

definition entry_vars :: "'d desktop \<Rightarrow> string \<times> nat \<times> int" where
  "entry_vars d = (input_buffer d, input_len d, input_has_dot d)"

definition kept :: "'d desktop \<Rightarrow> 'd desktop \<Rightarrow> bool" where
  "kept d e \<longleftrightarrow> desk e = desk d \<and> entry_vars e = entry_vars d"

named_theorems menu_wp \<open>rules for steps of the menu that keep its own variables\<close>

lemma desk_update [simp]:
  "desk (d\<lparr>kern := k\<rparr>) = desk d" "desk (d\<lparr>heap_vars := h\<rparr>) = desk d"
  "desk (d\<lparr>append_row := r\<rparr>) = desk d" "desk (d\<lparr>append_col := c\<rparr>) = desk d"
  "desk (d\<lparr>input_buffer := b\<rparr>) = desk d" "desk (d\<lparr>input_mode := i\<rparr>) = desk d"
  "desk (d\<lparr>input_len := n\<rparr>) = desk d" "desk (d\<lparr>input_has_dot := i\<rparr>) = desk d"
  "desk (reset_input d) = desk d"
  by (simp_all add: desk_def reset_input_def)

lemma entry_update [simp]:
  "entry_vars (d\<lparr>kern := k\<rparr>) = entry_vars d" "entry_vars (d\<lparr>heap_vars := h\<rparr>) = entry_vars d"
  "entry_vars (d\<lparr>append_row := r\<rparr>) = entry_vars d" "entry_vars (d\<lparr>append_col := c\<rparr>) = entry_vars d"
  "entry_vars (d\<lparr>input_mode := i\<rparr>) = entry_vars d" "entry_vars (reset_input d) = (replicate 13 NUL, 0, 0)"
  by (simp_all add: entry_vars_def reset_input_def)

lemma post_prod_app [menu_wp]:
  "(\<And>a b. x = (a, b) \<Longrightarrow> post P (f a b y)) \<Longrightarrow> post P ((case x of (a, b) \<Rightarrow> f a b) y)"
  by (cases x) simp

lemma post_any [menu_wp]:
  "(\<And>x. P1 x) \<Longrightarrow> post P1 (vstore32 v w s)" "(\<And>x. P2 x) \<Longrightarrow> post P2 (vload32 v s)"
  "(\<And>x. P3 x) \<Longrightarrow> post P3 (store_bytes v bs s)" "(\<And>x. P4 x) \<Longrightarrow> post P4 (itoa i b n)"
  "(\<And>x. P5 x) \<Longrightarrow> post P5 (sprintf b f args)" "(\<And>x. P6 x) \<Longrightarrow> post P6 (print_lines xs tb)"
  "(\<And>x. P7 x) \<Longrightarrow> post P7 (mount_report env fs rest buf args)" "(\<And>x. P8 x) \<Longrightarrow> post P8 (pmm_get_free_memory_kb s)"
  "(\<And>x. P9 x) \<Longrightarrow> post P9 (memory_lines env d)"
  by (simp_all add: post_def)

lemma on_part_kept [menu_wp]:
  "(\<And>e. kept d e \<Longrightarrow> P1 e) \<Longrightarrow> post P1 (on_screen f1 d)"
  "(\<And>r e. kept d e \<Longrightarrow> P2 (r, e)) \<Longrightarrow> post P2 (on_files f2 d)"
  "(\<And>r e. kept d e \<Longrightarrow> P3 (r, e)) \<Longrightarrow> post P3 (on_kernel f3 d)"
  "(\<And>r e. kept d e \<Longrightarrow> P4 (r, e)) \<Longrightarrow> post P4 (on_heap f4 d)"
  "(\<And>e. kept d e \<Longrightarrow> P5 e) \<Longrightarrow> post P5 (free_block p d)"
  by (auto simp: post_def on_screen_def on_files_def on_kernel_def on_heap_def free_block_def put_heap_def
      kept_def bind_eq_Some_conv)

lemma shown_kept [menu_wp]:
  "(\<And>e. kept d e \<Longrightarrow> P1 e) \<Longrightarrow> post P1 (vga_display_text t d)"
  "(\<And>e. kept d e \<Longrightarrow> P2 e) \<Longrightarrow> post P2 (vga_append_text t d)"
  "(\<And>e. kept d e \<Longrightarrow> P3 e) \<Longrightarrow> post P3 (say t d)"
  by (simp_all add: vga_display_text_def say_def menu_wp)
    (auto simp: post_def vga_append_text_def kept_def bind_eq_Some_conv)

lemma formatted_kept [menu_wp]:
  "(\<And>e. kept d e \<Longrightarrow> P1 e) \<Longrightarrow> post P1 (show_fmt n f args d)"
  "(\<And>e. kept d e \<Longrightarrow> P2 e) \<Longrightarrow> post P2 (show_lines n f ls d)"
  "(\<And>e. kept d e \<Longrightarrow> P3 e) \<Longrightarrow> post P3 (show_report env fs f args d)"
  "(\<And>r e. kept d e \<Longrightarrow> P4 (r, e)) \<Longrightarrow> post P4 (read_array hw fd m c d)"
  unfolding show_fmt_def show_lines_def show_report_def read_array_def by (intro wp menu_wp, simp)+

lemma loops_kept [menu_wp]:
  "(\<And>e. kept d e \<Longrightarrow> P1 e) \<Longrightarrow> post P1 (say_lines ls d)"
  "(\<And>r e. kept d e \<Longrightarrow> P2 (r, e)) \<Longrightarrow> post P2 (open_first hw ns d)"
proof -
  have "post (kept d) (say_lines ls d)"
  proof (induction ls arbitrary: d)
    case (Cons l ls)
    show ?case unfolding say_lines.simps
      by (intro wp menu_wp) (rule post_mono [OF Cons.IH], simp add: kept_def)
  qed (simp add: post_def kept_def)
  then show "(\<And>e. kept d e \<Longrightarrow> P1 e) \<Longrightarrow> post P1 (say_lines ls d)" by (rule post_mono)
  have "post (\<lambda>(r, e). kept d e) (open_first hw ns d)"
  proof (induction ns arbitrary: d)
    case (Cons n ns)
    show ?case unfolding open_first.simps
      by (intro wp menu_wp) (simp, rule post_mono [OF Cons.IH], auto simp: kept_def)
  qed (simp add: post_def kept_def)
  then show "(\<And>r e. kept d e \<Longrightarrow> P2 (r, e)) \<Longrightarrow> post P2 (open_first hw ns d)" by (rule post_mono) auto
qed

lemma tests_kept [menu_wp]:
  "(\<And>e. kept d e \<Longrightarrow> P1 e) \<Longrightarrow> post P1 (simple_heap_test d)"
  "(\<And>e. kept d e \<Longrightarrow> P2 e) \<Longrightarrow> post P2 (hello_from_image buffer n bytes d)"
  "(\<And>r e. kept d e \<Longrightarrow> P3 (r, e)) \<Longrightarrow> post P3 (open_or_create hw nm d)"
  "(\<And>e. kept d e \<Longrightarrow> P4 e) \<Longrightarrow> post P4 (read_back hw nm w d)"
  unfolding simple_heap_test_def hello_from_image_def open_or_create_def read_back_def
  by ((intro wp menu_wp; simp add: kept_def)+)[4]

lemma callbacks_kept:
  "post (kept d) (do_boot_os d)" "post (kept d) (do_list_tasks d)" "post (kept d) (do_run_hello_world env d)"
  "post (kept d) (do_run_disk_hello hw d)" "post (kept d) (do_memory_test d)" "post (kept d) (do_shutdown d)"
  "post (kept d) (do_disk_test hw env d)" "post (kept d) (do_disk_write_test hw d)" "post (kept d) (do_list_files hw d)"
  "post (kept d) (do_delete_file hw d)" "post (kept d) (display_cpu_info env d)" "post (kept d) (display_memory_info env d)"
  "post (kept d) (display_interrupt_info d)" "post (kept d) (display_device_info hw d)"
  unfolding do_boot_os_def do_list_tasks_def do_run_hello_world_def
    do_run_disk_hello_def do_memory_test_def do_shutdown_def do_disk_test_def do_disk_write_test_def
    do_list_files_def do_delete_file_def display_cpu_info_def display_memory_info_def
    display_interrupt_info_def display_device_info_def
  by (((intro wp menu_wp)?; simp add: kept_def)+)[14]

lemma menu_call_kept: "f \<noteq> menu_create_file \<Longrightarrow> post (kept d) (menu_call hw env f d)"
  by (cases f) (simp_all add: callbacks_kept)

section \<open>The name being typed\<close>

definition typed_name :: "string \<Rightarrow> bool" where
  "typed_name s \<longleftrightarrow> length s \<le> 12 \<and> (\<forall>c \<in> set s. is_valid_filename_char c \<and> to_upper c = c)
     \<and> count_list s CHR ''.'' \<le> 1 \<and> (s \<noteq> [] \<longrightarrow> hd s \<noteq> CHR ''.'')"

definition entry_holds :: "string \<Rightarrow> string \<times> nat \<times> int \<Rightarrow> bool" where
  "entry_holds s e \<longleftrightarrow> typed_name s \<and> fst e = s @ replicate (13 - length s) NUL \<and> fst (snd e) = length s
     \<and> (snd (snd e) \<noteq> 0 \<longleftrightarrow> CHR ''.'' \<in> set s)"

definition entry_ok :: "'d desktop \<Rightarrow> bool" where
  "entry_ok d \<longleftrightarrow> (\<exists>s. entry_holds s (entry_vars d))"

lemma entry_ok_reset [simp]: "\<exists>s. entry_holds s (replicate 13 NUL, 0, 0)"
  by (rule exI [of _ "[]"]) (simp add: entry_holds_def typed_name_def)

lemma valid_to_upper:
  assumes "is_valid_filename_char c"
  shows "is_valid_filename_char (to_upper c)" "to_upper (to_upper c) = to_upper c"
    "to_upper c = CHR ''.'' \<longleftrightarrow> c = CHR ''.''"
proof -
  let ?n = "of_char c :: nat"
  have l: "(of_char (to_upper c) :: nat) = (if 97 \<le> ?n \<and> ?n \<le> 122 then ?n - 32 else ?n)"
    by (auto simp: to_upper_def of_char_of)
  have d: "c = d \<longleftrightarrow> ?n = of_char d" for d by (simp add: of_char_eq_iff)
  have e: "to_upper c = d \<longleftrightarrow> (of_char (to_upper c) :: nat) = of_char d" for d by (simp add: of_char_eq_iff)
  show "is_valid_filename_char (to_upper c)" using assms unfolding is_valid_filename_char_def Let_def l d e by auto
  show "to_upper (to_upper c) = to_upper c"
    by (subst (1) to_upper_def) (simp only: l, auto)
  show "to_upper c = CHR ''.'' \<longleftrightarrow> c = CHR ''.''" unfolding e d l by auto
qed

lemma valid_not_NUL: "is_valid_filename_char c \<Longrightarrow> c \<noteq> NUL"
  by (auto simp: is_valid_filename_char_def)

lemma room:
  assumes "length s \<le> 12"
  shows "replicate (13 - length s) NUL = NUL # replicate (12 - length s) NUL"
proof -
  have "13 - length s = Suc (12 - length s)" using assms by arith
  then show ?thesis by simp
qed

lemma typed_update: "length s \<le> 12 \<Longrightarrow>
  (s @ replicate (13 - length s) NUL)[length s := c] = s @ c # replicate (12 - length s) NUL"
  by (simp add: list_update_append room)

lemma entry_name: "entry_holds s (entry_vars d) \<Longrightarrow> takeWhile (\<lambda>c. c \<noteq> NUL) (input_buffer d) = s"
  using valid_not_NUL by (auto simp: entry_holds_def entry_vars_def typed_name_def takeWhile_append)

lemma entry_terminated:
  assumes "entry_holds s (entry_vars d)"
  shows "d\<lparr>input_buffer := (input_buffer d)[input_len d := NUL]\<rparr> = d"
proof -
  have "(input_buffer d)[input_len d := NUL] = input_buffer d"
    using assms typed_update [of s NUL]
    by (simp add: entry_holds_def entry_vars_def typed_name_def room)
  then show ?thesis by simp
qed

text \<open>One more character.\<close>

lemma entry_typed:
  assumes "entry_holds s (b, n, h)" "n < 12" "is_valid_filename_char c"
    "c = CHR ''.'' \<Longrightarrow> h = 0 \<and> n \<noteq> 0"
  shows "entry_holds (s @ [to_upper c]) (b[n := to_upper c], n + 1, if c = CHR ''.'' then 1 else h)"
proof -
  note u = valid_to_upper [OF assms(3)]
  have "typed_name (s @ [to_upper c])"
    using assms u by (cases s) (auto simp: entry_holds_def typed_name_def)
  then show ?thesis
    using assms typed_update [of s "to_upper c"] u(3) by (auto simp: entry_holds_def)
qed

lemma input_parts_kept [menu_wp]:
  "(\<And>e. desk e = desk d \<Longrightarrow> entry_ok e \<Longrightarrow> P1 e) \<Longrightarrow> post P1 (retry_input msg d)"
  "(\<And>e. desk e = desk d \<Longrightarrow> entry_vars e = entry_vars d \<Longrightarrow> P2 e) \<Longrightarrow> post P2 (create_named hw nm d)"
  unfolding retry_input_def create_named_def
  by ((intro wp menu_wp; simp add: kept_def entry_ok_def)+)[2]

lemma process_filename_input_ok:
  assumes "entry_ok d"
  shows "post (\<lambda>e. desk e = desk d \<and> entry_ok e) (process_filename_input hw key d)"
proof -
  obtain s where s: "entry_holds s (entry_vars d)" using assms by (auto simp: entry_ok_def)
  let ?d1 = "d\<lparr>input_buffer := (input_buffer d)[input_len d := to_upper key], input_len := input_len d + 1\<rparr>"
  let ?d2 = "if key = CHR ''.'' then ?d1\<lparr>input_has_dot := 1\<rparr> else ?d1"
  have c: "entry_ok ?d2"
    if "input_len d < 12 \<and> is_valid_filename_char key" "\<not> (key = CHR ''.'' \<and> input_has_dot d \<noteq> 0)"
      "\<not> (key = CHR ''.'' \<and> input_len d = 0)"
  proof -
    have "entry_holds s (input_buffer d, input_len d, input_has_dot d)" using s by (simp add: entry_vars_def)
    from entry_typed [OF this, of key] that show ?thesis by (auto simp: entry_ok_def entry_vars_def)
  qed
  show ?thesis
    unfolding process_filename_input_def Let_def entry_terminated [OF s] entry_name [OF s]
    by (intro wp menu_wp; insert assms c; simp add: kept_def entry_ok_def)
qed

text \<open>A name that passes the check is one that the file system takes.\<close>

lemma dotless: "CHR ''.'' \<notin> set s \<Longrightarrow> takeWhile (\<lambda>c. c \<noteq> CHR ''.'') s = s" "CHR ''.'' \<notin> set s \<Longrightarrow> dropWhile (\<lambda>c. c \<noteq> CHR ''.'') s = []"
  by (induction s) auto

lemma dot_byte: "(of_char c :: u8) = 46 \<longleftrightarrow> c = CHR ''.''"
  using of_char_eq_iff [of c "CHR ''.''", where 'a = nat] by (simp add: word_unat_eq_iff)

lemma name_bytes:
  assumes "typed_name s" "s \<noteq> []"
  defines "p \<equiv> map of_char s :: u8 list"
  shows "dropWhile (\<lambda>c. c = 47) p = p"
    "takeWhile (\<lambda>c. c \<noteq> 46) p = map of_char (takeWhile (\<lambda>c. c \<noteq> CHR ''.'') s)"
    "dropWhile (\<lambda>c. c \<noteq> 46) p = map of_char (dropWhile (\<lambda>c. c \<noteq> CHR ''.'') s)"
proof -
  have "is_valid_filename_char (hd s)" using assms(1,2) by (simp add: typed_name_def)
  then have "(of_char (hd s) :: u8) \<noteq> 47"
    by (auto simp: is_valid_filename_char_def Let_def word_unat_eq_iff)
  then show "dropWhile (\<lambda>c. c = 47) p = p" using assms(2) unfolding p_def by (cases s) simp_all
  show "takeWhile (\<lambda>c. c \<noteq> 46) p = map of_char (takeWhile (\<lambda>c. c \<noteq> CHR ''.'') s)"
    "dropWhile (\<lambda>c. c \<noteq> 46) p = map of_char (dropWhile (\<lambda>c. c \<noteq> CHR ''.'') s)"
    unfolding p_def by (simp_all add: takeWhile_map dropWhile_map comp_def dot_byte)
qed

lemma name_legal:
  assumes "typed_name s" "s \<noteq> []" "name_error s (length s) = None"
  obtains n where "fat16_normalize_short_name (path_of s) = Some n" "length n = 11"
proof -
  let ?n = "takeWhile (\<lambda>c. c \<noteq> CHR ''.'') s" and ?e = "tl (dropWhile (\<lambda>c. c \<noteq> CHR ''.'') s)"
  have s: "length s = length ?n + length (dropWhile (\<lambda>c. c \<noteq> CHR ''.'') s)"
    using takeWhile_dropWhile_id [of "\<lambda>c. c \<noteq> CHR ''.''" s] by (metis length_append)
  have n: "1 \<le> length ?n" using assms(1,2) by (cases s) (auto simp: typed_name_def)
  have l: "length ?n \<le> 8" "length ?e \<le> 3"
    using assms(3) s by (auto simp: name_error_def Let_def dotless split: if_splits)
  have "CHR ''.'' \<notin> set ?e"
  proof
    assume e: "CHR ''.'' \<in> set ?e"
    then have d: "dropWhile (\<lambda>c. c \<noteq> CHR ''.'') s \<noteq> []" by (metis empty_iff list.sel(2) list.set(1))
    then have "dropWhile (\<lambda>c. c \<noteq> CHR ''.'') s = CHR ''.'' # ?e"
      using hd_dropWhile [OF d] by (metis (full_types) list.collapse)
    then have "count_list s CHR ''.'' \<ge> 1 + count_list ?e CHR ''.''"
      by (metis add.commute count_list.simps(2) count_list_append le_add2 takeWhile_dropWhile_id plus_1_eq_Suc Suc_eq_plus1)
    moreover have "count_list ?e CHR ''.'' \<noteq> 0" using e by (simp add: count_list_0_iff)
    ultimately show False using assms(1) by (simp add: typed_name_def)
  qed
  then have "(46 :: u8) \<notin> set (map of_char ?e)"
    using dot_byte by (metis (no_types, lifting) imageE list.set_map)
  then have "short_name (map of_char s) = Some (map fat16_toupper (map of_char ?n) @ replicate (8 - length ?n) 32 @
      map fat16_toupper (map of_char ?e) @ replicate (3 - length ?e) 32)"
    unfolding short_name_def name_bytes [OF assms(1,2)] Let_def using n l by (simp flip: map_tl)
  then have "fat16_normalize_short_name (path_of s) = Some (map fat16_toupper (map of_char ?n) @ replicate (8 - length ?n) 32 @
      map fat16_toupper (map of_char ?e) @ replicate (3 - length ?e) 32)"
    by (simp add: path_of_def normalize_short_name_eq)
  then show ?thesis by (rule that) (use l in simp)
qed

section \<open>Menus\<close>

text \<open>The menus are those of the source, and a selection is the index of an item.\<close>

definition menu_ok :: "(menu_id \<Rightarrow> menu) \<Rightarrow> bool" where
  "menu_ok f \<longleftrightarrow> (\<forall>n. title (f n) = title (boot_menu n) \<and> items (f n) = items (boot_menu n)
     \<and> item_count (f n) = item_count (boot_menu n) \<and> unat (current_selection (f n)) < length (items (boot_menu n)))"

lemma boot_menu_count: "unat (item_count (boot_menu n)) = length (items (boot_menu n))" "0 < length (items (boot_menu n))"
  by (cases n; simp)+

lemma menu_ok_boot [simp]: "menu_ok boot_menu"
proof -
  have "current_selection (boot_menu n) = 0" for n by (cases n) simp_all
  then show ?thesis using boot_menu_count(2) by (simp only: menu_ok_def unat_0 simp_thms)
qed

lemma menu_ok_update:
  assumes "menu_ok f" "title x = title (f m)" "items x = items (f m)" "item_count x = item_count (f m)"
    "unat (current_selection x) < length (items x)"
  shows "menu_ok (f(m := x))"
  using assms by (simp add: menu_ok_def)

lemma selection_up:
  assumes "menu_ok f"
  shows "menu_ok (f(m := if current_selection (f m) > 0 then (f m)\<lparr>current_selection := current_selection (f m) - 1\<rparr> else f m))"
proof (cases "current_selection (f m) > 0")
  case True
  then have "unat (current_selection (f m) - 1) < unat (current_selection (f m))"
    by (simp add: unat_minus_one word_gt_0 unat_gt_0)
  then show ?thesis using assms True by (intro menu_ok_update) (auto simp: menu_ok_def intro: order.strict_trans)
qed (use assms in simp)

lemma count_pred:
  assumes "menu_ok f"
  shows "current_selection (f m) < item_count (f m) - 1 \<longleftrightarrow> Suc (unat (current_selection (f m))) < length (items (f m))"
    "Suc (unat (current_selection (f m))) < length (items (f m)) \<Longrightarrow>
      unat (current_selection (f m) + 1) = Suc (unat (current_selection (f m)))"
proof -
  have c: "unat (item_count (f m)) = length (items (f m))" "0 < length (items (f m))"
    using assms boot_menu_count [of m] by (simp_all add: menu_ok_def)
  then have "unat (item_count (f m) - 1) = length (items (f m)) - 1"
    by (metis unat_minus_one unat_0 less_numeral_extra(3))
  then show "current_selection (f m) < item_count (f m) - 1 \<longleftrightarrow> Suc (unat (current_selection (f m))) < length (items (f m))"
    by (auto simp: word_less_nat_alt)
  have "length (items (f m)) < 4294967296" using c(1) unat_lt_2p32 [of "item_count (f m)"] by simp
  then show "unat (current_selection (f m) + 1) = Suc (unat (current_selection (f m)))"
    if "Suc (unat (current_selection (f m))) < length (items (f m))"
    using that by (simp add: unat_word_ariths)
qed

lemma selection_down:
  assumes "menu_ok f"
  shows "menu_ok (f(m := if current_selection (f m) < item_count (f m) - 1
    then (f m)\<lparr>current_selection := current_selection (f m) + 1\<rparr> else f m))"
  using assms count_pred [OF assms, of m] by (auto intro!: menu_ok_update simp: menu_ok_def)

lemma boot_menu_items:
  "i < length (items (boot_menu n)) \<Longrightarrow> submenu (items (boot_menu n) ! i) = None \<or> item_callback (items (boot_menu n) ! i) = None"
  by (cases n) (auto simp: nth_Cons act_def sub_def split: nat.splits)

definition desk_ok :: "'d desktop \<Rightarrow> bool" where
  "desk_ok d \<longleftrightarrow> menu_ok (menus d) \<and> entry_ok d"

lemma desk_menus: "desk e = desk d \<Longrightarrow> menus e = menus d"
  by (simp add: desk_def)

lemma desk_ok_kept: "kept d e \<Longrightarrow> desk_ok d \<Longrightarrow> desk_ok e"
  by (auto simp: kept_def desk_ok_def entry_ok_def dest: desk_menus)

lemma desk_ok_update [simp]:
  "desk_ok (d\<lparr>kern := k\<rparr>) = desk_ok d" "desk_ok (d\<lparr>heap_vars := h\<rparr>) = desk_ok d"
  "desk_ok (d\<lparr>gdt_part := g\<rparr>) = desk_ok d" "desk_ok (d\<lparr>idt_part := i\<rparr>) = desk_ok d"
  "desk_ok (d\<lparr>needs_redraw := b\<rparr>) = desk_ok d" "desk_ok (d\<lparr>callback_display_active := b\<rparr>) = desk_ok d"
  "desk_ok (d\<lparr>callback_menu := m\<rparr>) = desk_ok d" "desk_ok (d\<lparr>last_menu := m\<rparr>) = desk_ok d"
  "desk_ok (d\<lparr>last_selection := s\<rparr>) = desk_ok d"
  by (simp_all add: desk_ok_def entry_ok_def entry_vars_def)

lemma desk_ok_menus: "desk_ok d \<Longrightarrow> menu_ok f \<Longrightarrow> desk_ok (d\<lparr>menus := f\<rparr>)"
  by (simp add: desk_ok_def entry_ok_def entry_vars_def)

lemma menu_call_ok:
  assumes "desk_ok d"
  shows "post desk_ok (menu_call hw env f d)"
proof (cases "f = menu_create_file")
  case True
  have "post desk_ok (do_create_file d)"
    unfolding do_create_file_def using assms
    by (intro wp menu_wp) (auto simp: kept_def desk_ok_def entry_ok_def dest!: desk_menus)
  then show ?thesis using True by simp
qed (use assms in \<open>auto intro!: post_mono [OF menu_call_kept] intro: desk_ok_kept\<close>)

lemma select_item_ok:
  assumes "desk_ok d"
  shows "post (\<lambda>(n, e). desk_ok e) (select_item hw env m d)"
proof -
  have m: "menu_ok (menus d)" using assms by (simp add: desk_ok_def)
  have t: "desk_ok (on_menu t (\<lambda>x. x\<lparr>parent_menu := Some m, current_selection := 0\<rparr>) d)" for t
    unfolding on_menu_def using m boot_menu_count(2) [of t]
    by (intro desk_ok_menus menu_ok_update assms) (auto simp: menu_ok_def simp del: boot_menu.simps)
  show ?thesis unfolding select_item_def
    by (intro wp post_mono [OF menu_call_ok [OF assms]]) (simp_all add: t assms)
qed

lemma get_key_wp [menu_wp]:
  "(\<And>c k. P (c, d\<lparr>kern := (kern d)\<lparr>keys := k\<rparr>\<rparr>)) \<Longrightarrow> P (NUL, d) \<Longrightarrow> post P (get_key_input d)"
  by (auto simp: get_key_input_def post_def bind_eq_Some_conv)

lemma handle_input_ok:
  assumes "desk_ok d"
  shows "post (\<lambda>(n, e). desk_ok e) (menu_renderer_handle_input hw env m d)"
proof -
  have s: "menu_ok (menus d)" using assms by (simp add: desk_ok_def)
  have u: "desk_ok (on_menu m (\<lambda>x. if current_selection x > 0
       then x\<lparr>current_selection := current_selection x - 1\<rparr> else x) e)"
    "desk_ok (on_menu m (\<lambda>x. if current_selection x < item_count x - 1
       then x\<lparr>current_selection := current_selection x + 1\<rparr> else x) e)" if "desk_ok e" for e :: "'a desktop"
    using that selection_up selection_down unfolding on_menu_def by (blast intro: desk_ok_menus desk_ok_def [THEN iffD1, THEN conjunct1])+
  have f: "post desk_ok (process_filename_input hw key e)" if "desk_ok e" for key and e :: "'a desktop"
    using that by (intro post_mono [OF process_filename_input_ok]) (auto simp: desk_ok_def dest: desk_menus)
  show ?thesis unfolding menu_renderer_handle_input_def
    by (intro wp menu_wp post_mono [OF f] post_mono [OF select_item_ok]) (simp_all add: assms u)
qed

section \<open>The idle task while keys arrive and other tasks run\<close>

definition menu_start :: "'d computer \<Rightarrow> 'd desktop" where
  "menu_start c = computer.extend c (desktop.fields boot_menu None 0 True False None (replicate 13 NUL) 0 0 0 0 0)"

text \<open>
  Between two passes of the loop interrupts and other tasks may change every part of the machine
  but the variables of the menu, which no other code names.
\<close>

inductive idle_reaches :: "'d ports \<Rightarrow> menu_env \<Rightarrow> idle_vars \<times> 'd desktop \<Rightarrow> bool"
  for hw :: "'d ports" and env :: menu_env
  where
    start: "idle_reaches hw env (idle_start, menu_start c)"
  | pass: "idle_reaches hw env s \<Longrightarrow> idle_pass hw env s = Some t \<Longrightarrow> idle_reaches hw env t"
  | others: "idle_reaches hw env (v, d) \<Longrightarrow>
      idle_reaches hw env (v, d\<lparr>kern := k, heap_vars := h, gdt_part := g, idt_part := i\<rparr>)"

lemma redraw_ok: "desk_ok d \<Longrightarrow> post desk_ok (redraw m d)"
  unfolding redraw_def by (intro wp menu_wp) (auto dest: desk_ok_kept)

lemma update_ok:
  assumes "desk_ok d"
  shows "post (\<lambda>(n, e). n \<noteq> None \<and> desk_ok e) (menu_renderer_update hw env (Some m) d)"
  unfolding menu_renderer_update_def option.case
  by (intro wp post_mono [OF redraw_ok [OF assms]] post_mono [OF handle_input_ok]) auto

lemma idle_pass_ok:
  assumes "desk_ok d" "idle_menu v \<noteq> None" "idle_pass hw env (v, d) = Some (w, e)"
  shows "desk_ok e \<and> idle_menu w \<noteq> None"
proof -
  obtain m where m: "idle_menu v = Some m" using assms(2) by auto
  have "post (\<lambda>(w, e). desk_ok e \<and> idle_menu w \<noteq> None) (idle_frame hw env (v, d))"
    unfolding idle_frame_def prod.case Let_def m
    by (intro wp post_mono [OF update_ok [OF assms(1)]]) (auto simp: assms(1) m)
  then have "post (\<lambda>(w, e). desk_ok e \<and> idle_menu w \<noteq> None) (idle_pass hw env (v, d))"
    unfolding idle_pass_def
    by (intro wp) (rule post_mono, assumption, auto simp: kernel_dispatch_periodic_services_def intro!: wp)
  from postD [OF this assms(3)] show ?thesis by simp
qed

lemma idle_reaches_ok: "idle_reaches hw env s \<Longrightarrow> desk_ok (snd s) \<and> idle_menu (fst s) \<noteq> None"
proof (induction rule: idle_reaches.induct)
  case (start c)
  show ?case
    by (simp add: menu_start_def idle_start_def desk_ok_def entry_ok_def entry_vars_def computer.defs desktop.defs)
next
  case (pass s t)
  then show ?case using idle_pass_ok [of "snd s" "fst s" hw env "fst t" "snd t"] by simp
qed simp

text \<open>
  C32: While the idle task runs the menu, whatever keys arrive and whatever other code does to the
  rest of the machine: a menu is always active, the three menus are those of the source with a
  selection that is the index of one of their items, and the file name being typed lies
  terminated in its 13 bytes, at most 12 upper-case letters, digits, underscores and one dot that
  is not the first character.
\<close>

theorem menu_invariant:
  assumes "idle_reaches hw env (v, d)"
  shows "(\<exists>m. idle_menu v = Some m)
    \<and> (\<forall>n. items (menus d n) = items (boot_menu n) \<and> item_count (menus d n) = item_count (boot_menu n)
          \<and> unat (current_selection (menus d n)) < length (items (menus d n)))
    \<and> (\<exists>s. input_buffer d = s @ replicate (13 - length s) NUL \<and> input_len d = length s \<and> typed_name s)"
  using idle_reaches_ok [OF assms]
  by (auto simp: desk_ok_def menu_ok_def entry_ok_def entry_holds_def entry_vars_def)

definition demo_env :: menu_env where
  "demo_env = \<lparr>cpu_vendor = ''GenuineIntel'', oem_name_addr = 0xC03FD000, hello_world_main = 0xC0104000,
     image_start = 0x200000, image_end = 0x300000\<rparr>"

theorem menu_invariant_witness:
  "\<exists>v d. idle_reaches pio_ports demo_env (v, d) \<and> kern d = snd (task_yield (kern demo_computer))
    \<and> unat (current_selection (menus d disk_management_menu)) < 6"
proof -
  let ?d = "menu_start demo_computer" and ?k = "snd (task_yield (kern demo_computer))"
  have k: "kern ?d = kern demo_computer" by (simp add: menu_start_def computer.defs)
  have "timer_get_ticks (kern demo_computer) = 0"
    by (simp add: demo_computer_def demo_kernel_def demo_tasks_def timer_get_ticks_def)
  then have "idle_pass pio_ports demo_env (idle_start, ?d) = Some (idle_start, ?d\<lparr>kern := ?k\<rparr>)"
    by (simp add: idle_pass_def idle_frame_def idle_start_def kernel_dispatch_periodic_services_def k)
  then have r: "idle_reaches pio_ports demo_env (idle_start, ?d\<lparr>kern := ?k\<rparr>)" by (rule pass [OF start])
  have "unat (current_selection (menus (?d\<lparr>kern := ?k\<rparr>) disk_management_menu)) < length (items (boot_menu disk_management_menu))"
    using menu_invariant [OF r] by metis
  with r show ?thesis by (intro exI [of _ idle_start] exI [of _ "?d\<lparr>kern := ?k\<rparr>"]) simp
qed

text \<open>
  C34: Every name that can be typed and that the check of the menu lets through is one that the
  file system takes: normalisation to the padded 8.3 form succeeds, and ENTER passes exactly this
  name to \<open>fat16_create\<close>.
\<close>

theorem entered_name_legal:
  assumes "typed_name s" "s \<noteq> []" "name_error s (length s) = None"
    "input_buffer d = s @ replicate (13 - length s) NUL" "input_len d = length s"
  shows "process_filename_input hw nl d = create_named hw s d
    \<and> (\<exists>n. fat16_normalize_short_name (path_of s) = Some n \<and> length n = 11)"
proof -
  let ?d = "d\<lparr>input_has_dot := (if CHR ''.'' \<in> set s then 1 else 0)\<rparr>"
  have e: "entry_holds s (entry_vars ?d)" using assms by (simp add: entry_holds_def entry_vars_def)
  have l: "length s \<le> 12" using assms(1) by (simp add: typed_name_def)
  have n: "takeWhile (\<lambda>c. c \<noteq> NUL) (input_buffer d) = s" using entry_name [OF e] by simp
  have b: "(input_buffer d)[input_len d := NUL] = input_buffer d"
    using arg_cong [OF entry_terminated [OF e], of input_buffer] by simp
  have u: "d\<lparr>input_buffer := (input_buffer d)[input_len d := NUL]\<rparr> = d" by (simp add: b)
  have "process_filename_input hw nl d = create_named hw s d"
    unfolding process_filename_input_def Let_def u n using assms(2-5) l by simp
  with name_legal [OF assms(1-3)] show ?thesis by metis
qed

definition demo_typed :: "pio desktop" where
  "demo_typed = (menu_start demo_computer)\<lparr>input_buffer := ''FILE.TXT'' @ replicate 5 NUL, input_len := 8\<rparr>"

theorem entered_name_legal_witness:
  "process_filename_input pio_ports nl demo_typed = create_named pio_ports ''FILE.TXT'' demo_typed"
proof -
  have t: "typed_name ''FILE.TXT''"
    by (simp add: typed_name_def is_valid_filename_char_def to_upper_def)
  have n: "name_error ''FILE.TXT'' (length ''FILE.TXT'') = None"
    by (simp add: name_error_def)
  show ?thesis using entered_name_legal [OF t _ n, of demo_typed pio_ports] by (simp add: demo_typed_def)
qed

section \<open>Drawing stays on the screen\<close>

definition draws :: "(console \<Rightarrow> console option) \<Rightarrow> bool" where
  "draws f \<longleftrightarrow> (\<forall>s. length (terminal_buffer s) = 2000 \<longrightarrow> (\<exists>t. f s = Some t \<and> length (terminal_buffer t) = 2000))"

named_theorems drawing \<open>drawing operations that stay on the screen\<close>

lemma drawsI [intro?]:
  "(\<And>s. length (terminal_buffer s) = 2000 \<Longrightarrow> \<exists>t. f s = Some t \<and> length (terminal_buffer t) = 2000) \<Longrightarrow> draws f"
  by (simp add: draws_def)

lemma draws_bind: "draws f \<Longrightarrow> draws g \<Longrightarrow> draws (\<lambda>s. Option.bind (f s) g)"
  unfolding draws_def by fastforce

lemma draws_Some: "draws Some"
  by (simp add: draws_def)

lemma draws_putchar [drawing]: "draws (vga_putchar_at c color x y)"
proof
  fix s :: console
  assume s: "length (terminal_buffer s) = 2000"
  have "unat (y * VGA_WIDTH + x) < 2000" if "x < VGA_WIDTH" "y < VGA_HEIGHT"
  proof -
    have "unat x < 80" "unat y < 25" using that by (simp_all add: word_less_nat_alt VGA_WIDTH_def VGA_HEIGHT_def)
    then show ?thesis by (simp add: unat_word_ariths VGA_WIDTH_def)
  qed
  then show "\<exists>t. vga_putchar_at c color x y s = Some t \<and> length (terminal_buffer t) = 2000"
    using s by (auto simp: vga_putchar_at_def set_cell_def not_le)
qed

lemma drawing_eqs:
  "vga_writestring_at [] color x y = Some"
  "vga_writestring_at (c # str) color x y = (if c = nl then vga_writestring_at str color 0 (wrap_row y)
    else (\<lambda>s. Option.bind (vga_putchar_at c color x y s) (if x + 1 \<ge> VGA_WIDTH
      then vga_writestring_at str color 0 (wrap_row y) else vga_writestring_at str color (x + 1) y)))"
  "vga_repeat 0 c color x y = Some"
  "vga_repeat (Suc n) c color x y = (\<lambda>s. Option.bind (vga_putchar_at c color x y s) (vga_repeat n c color (x + 1) y))"
  "vga_clear_rows 0 color y = Some"
  "vga_clear_rows (Suc n) color y = (\<lambda>s. Option.bind (vga_repeat 80 CHR '' '' color 0 y s) (vga_clear_rows n color (y + 1)))"
  "draw_items 0 i m y = Some"
  "unat i < length (items m) \<Longrightarrow> draw_items (Suc n) i m y = (\<lambda>s.
     Option.bind (vga_writestring_at (if i = current_selection m then '' > '' else ''   '')
       (if i = current_selection m then vga_entry_color 0 7 else vga_entry_color 7 0) 0 y s) (\<lambda>s1.
     Option.bind (vga_writestring_at (label (items m ! unat i))
       (if i = current_selection m then vga_entry_color 0 7 else vga_entry_color 7 0) 3 y s1)
     (draw_items n (i + 1) m (y + 1))))"
  by (simp_all add: fun_eq_iff Let_def)

lemma draws_string [drawing]: "draws (vga_writestring_at str color x y)"
  by (induction str arbitrary: x y) (simp_all only: drawing_eqs draws_Some draws_bind drawing split: if_splits, simp)

lemma draws_repeat [drawing]: "draws (vga_repeat n c color x y)"
  by (induction n arbitrary: x) (simp_all only: drawing_eqs draws_Some draws_bind drawing)

lemma draws_rows [drawing]: "draws (vga_clear_rows n color y)"
  by (induction n arbitrary: y) (simp_all only: drawing_eqs draws_Some draws_bind drawing)

lemma draws_title [drawing]: "draws (title_bar txt)"
  unfolding title_bar_def [abs_def] Let_def by (intro draws_bind drawing)

lemma draws_items [drawing]: "unat i + n \<le> length (items m) \<Longrightarrow> length (items m) < 4294967296 \<Longrightarrow> draws (draw_items n i m y)"
proof (induction n arbitrary: i y)
  case (Suc n)
  then have "unat (i + 1) = Suc (unat i)" by (simp add: unat_word_ariths)
  with Suc.prems show ?case by (subst drawing_eqs(8), simp) (intro draws_bind drawing Suc.IH, simp_all)
qed (simp only: drawing_eqs draws_Some)

lemma draws_menu [drawing]:
  assumes "menu_ok f"
  shows "draws (menu_renderer_draw (f m))"
proof -
  have "unat (item_count (f m)) = length (items (f m))" "length (items (f m)) < 4294967296"
    using assms boot_menu_count(1) [of m] unat_lt_2p32 [of "item_count (f m)"] by (simp_all add: menu_ok_def)
  then show ?thesis unfolding menu_renderer_draw_def [abs_def] vga_clear_screen_def Let_def
    by (intro draws_bind drawing) simp_all
qed

section \<open>Navigation\<close>

text \<open>
  What a key means, over selections and parents alone: a step up or down that stops at the ends,
  ENTER into a submenu with its first item selected, ESC to the menu one came from.
\<close>

definition nav_view :: "'d desktop \<Rightarrow> menu_id \<Rightarrow> nat \<times> menu_id option" where
  "nav_view d n = (unat (current_selection (menus d n)), parent_menu (menus d n))"

definition chosen :: "menu_id \<times> (menu_id \<Rightarrow> nat \<times> menu_id option) \<Rightarrow> menu_item" where
  "chosen p = items (boot_menu (fst p)) ! fst (snd p (fst p))"

definition nav_step ::
  "char \<Rightarrow> menu_id \<times> (menu_id \<Rightarrow> nat \<times> menu_id option) \<Rightarrow> menu_id \<times> (menu_id \<Rightarrow> nat \<times> menu_id option)" where
  "nav_step key p = (case p of (m, f) \<Rightarrow>
     if is_up key then (m, f(m := (fst (f m) - 1, snd (f m))))
     else if is_down key then (m, f(m := (min (fst (f m) + 1) (length (items (boot_menu m)) - 1), snd (f m))))
     else if is_enter key then (case submenu (chosen p) of Some t \<Rightarrow> (t, f(t := (0, Some m))) | None \<Rightarrow> (m, f))
     else if is_esc key then (case snd (f m) of Some q \<Rightarrow> (q, f) | None \<Rightarrow> (m, f))
     else (m, f))"

lemma nav_view_cong: "menus e = menus d \<Longrightarrow> nav_view e = nav_view d"
  by (simp add: nav_view_def fun_eq_iff)

lemma menu_ok_selection:
  "menu_ok f \<Longrightarrow> unat (current_selection (f m)) < length (items (boot_menu m))" "menu_ok f \<Longrightarrow> items (f m) = items (boot_menu m)"
  by (simp_all add: menu_ok_def)

lemma redraw_draws:
  assumes "menu_ok (menus d)" "length (terminal_buffer (screen (kern d))) = 2000"
  obtains e where "redraw m d = Some e" "menus e = menus d" "keys (kern e) = keys (kern d)"
    "input_mode e = input_mode d" "callback_display_active e = callback_display_active d"
proof (cases "\<not> callback_display_active d \<and> (needs_redraw d \<or> last_menu d \<noteq> Some m \<or> last_selection d \<noteq> current_selection (menus d m))")
  case True
  obtain t where "menu_renderer_draw (menus d m) (screen (kern d)) = Some t"
    using draws_menu [OF assms(1), of m] assms(2) by (auto simp: draws_def)
  then show ?thesis using True that [of "d\<lparr>kern := (kern d)\<lparr>screen := t\<rparr>, last_menu := Some m,
    last_selection := current_selection (menus d m), needs_redraw := False\<rparr>"] by (simp add: redraw_def on_screen_def)
next
  case False
  then have "redraw m d = Some d" unfolding redraw_def by (rule if_not_P)
  then show ?thesis by (rule that) simp_all
qed

lemma get_key:
  assumes "kbd_inv (keys (kern d))" "kbd_contents (keys (kern d)) = k # ks"
  obtains e where "get_key_input d = Some (char_of (unat k), e)" "menus e = menus d" "kbd_contents (keys (kern e)) = ks"
    "input_mode e = input_mode d" "callback_display_active e = callback_display_active d"
proof -
  obtain t where t: "keyboard_get_event (keys (kern d)) = Some (k, t)" "kbd_contents t = ks"
    using kbd_dequeue [OF assms(1)] assms(2) by auto
  have "keyboard_has_event (keys (kern d))"
    using assms(2) by (auto simp: keyboard_has_event_def kbd_contents_def word_greater_zero_iff)
  then show ?thesis using t that [of "d\<lparr>kern := (kern d)\<lparr>keys := t\<rparr>\<rparr>"] by (simp add: get_key_input_def)
qed

lemma handle_input_navigates:
  assumes "menu_ok (menus d)" "kbd_inv (keys (kern d))" "kbd_contents (keys (kern d)) = k # ks" "k \<noteq> 0"
    "input_mode d = 0" "\<not> callback_display_active d"
    "is_enter (char_of (unat k)) \<longrightarrow> submenu (chosen (m, nav_view d)) \<noteq> None"
  obtains n e where "menu_renderer_handle_input hw env m d = Some (n, e)" "kbd_contents (keys (kern e)) = ks"
    "(case n of Some q \<Rightarrow> q | None \<Rightarrow> m, nav_view e) = nav_step (char_of (unat k)) (m, nav_view d)"
proof -
  let ?key = "char_of (unat k) :: char"
  obtain e where e: "get_key_input d = Some (?key, e)" "menus e = menus d" "kbd_contents (keys (kern e)) = ks"
    "input_mode e = 0" "\<not> callback_display_active e"
    using get_key [OF assms(2,3)] assms(5,6) by metis
  have "(of_char ?key :: nat) = unat k" using unsigned_less [of k, where 'a = nat] by (simp add: of_char_of)
  then have key: "?key \<noteq> NUL" using assms(4) using arg_cong [of ?key NUL "of_char :: char \<Rightarrow> nat"] by (auto simp: unat_eq_0 simp del: of_char_of)
  have v: "nav_view e = nav_view d" by (rule nav_view_cong [OF e(2)])
  note h = menu_renderer_handle_input_def e(1) key e(4,5)
  have m: "menu_ok (menus e)" using assms(1) e(2) by simp
  consider (up) "is_up ?key" | (down) "\<not> is_up ?key" "is_down ?key" | (enter) "\<not> is_up ?key" "\<not> is_down ?key" "is_enter ?key"
    | (esc) "\<not> is_up ?key" "\<not> is_down ?key" "\<not> is_enter ?key" "is_esc ?key"
    | (other) "\<not> is_up ?key" "\<not> is_down ?key" "\<not> is_enter ?key" "\<not> is_esc ?key" by blast
  then show ?thesis
  proof cases
    case up
    let ?e = "on_menu m (\<lambda>x. if current_selection x > 0 then x\<lparr>current_selection := current_selection x - 1\<rparr> else x) e"
    have "nav_view ?e = (nav_view e)(m := (fst (nav_view e m) - 1, snd (nav_view e m)))"
      by (auto simp: nav_view_def on_menu_def fun_eq_iff unat_minus_one word_gt_0)
    then show ?thesis using up e(3) v by (intro that [of "Some m" ?e]) (simp_all add: h nav_step_def on_menu_def)
  next
    case down
    let ?e = "on_menu m (\<lambda>x. if current_selection x < item_count x - 1
      then x\<lparr>current_selection := current_selection x + 1\<rparr> else x) e"
    have "nav_view ?e = (nav_view e)(m := (min (fst (nav_view e m) + 1) (length (items (boot_menu m)) - 1), snd (nav_view e m)))"
      using count_pred [OF m, of m] menu_ok_selection [OF m, of m] by (auto simp: nav_view_def on_menu_def fun_eq_iff)
    then show ?thesis using down e(3) v by (intro that [of "Some m" ?e]) (simp_all add: h nav_step_def on_menu_def)
  next
    case enter
    then obtain t where t: "submenu (chosen (m, nav_view d)) = Some t" using assms(7) by auto
    let ?e = "on_menu t (\<lambda>x. x\<lparr>parent_menu := Some m, current_selection := 0\<rparr>) e"
    have "select_item hw env m e = Some (Some t, ?e)"
      using t m e(2) by (simp add: select_item_def chosen_def nav_view_def menu_ok_def)
    moreover have "nav_view ?e = (nav_view e)(t := (0, Some m))"
      by (auto simp: nav_view_def on_menu_def fun_eq_iff)
    ultimately show ?thesis using enter e(3) v t by (intro that [of "Some t" ?e]) (simp_all add: h nav_step_def on_menu_def)
  next
    case esc
    then show ?thesis using e(3) v
      by (intro that [of "parent_menu (menus e m)" e]) (auto simp: h nav_step_def nav_view_def e(2) split: option.splits)
  next
    case other
    then show ?thesis using e(3) v by (intro that [of "Some m" e]) (simp_all add: h nav_step_def)
  qed
qed


definition demo_keys :: kbd where
  "demo_keys = kbd_boot\<lparr>keyboard_queue := (keyboard_queue kbd_boot)[0 := 80], keyboard_head := 1, keyboard_count := 1\<rparr>"

definition demo_menu :: "pio desktop" where
  "demo_menu = menu_start (demo_computer\<lparr>kern := (kern demo_computer)\<lparr>keys := demo_keys\<rparr>\<rparr>)"


text \<open>
  Entering a menu makes the menu one came from its parent, the main menu included: after
  \<open>Back to Main Menu\<close> ESC leads back into the menu that was left.
\<close>

lemma back_and_escape:
  assumes "fst (f disk_management_menu) = 5"
  shows "nav_step (CHR 27) (nav_step nl (disk_management_menu, f)) = (disk_management_menu, f(main_menu := (0, Some disk_management_menu)))"
proof -
  have "\<not> is_up nl" "\<not> is_down nl" "is_enter nl" "\<not> is_up (CHR 27)" "\<not> is_down (CHR 27)" "\<not> is_enter (CHR 27)" "is_esc (CHR 27)"
    by code_simp+
  moreover have "submenu (chosen (disk_management_menu, f)) = Some main_menu" using assms by (simp add: chosen_def sub_def)
  ultimately show ?thesis by (simp add: nav_step_def)
qed

end
